(* ===== verification/Prelude.thy ===== *)
theory Prelude
  imports Main "HOL-Library.Multiset" "HOL-Library.AList" "HOL-Library.List_Lexorder" "HOL-Library.Char_ord"
begin

text \<open>
  The vocabulary every component shares: the Python exceptions the code raises and the
  sum type that carries them, Python text operations, insertion-ordered dictionaries, and
  the dynamically typed values the wire formats are made of.

  Text is modelled as a list of characters with code points below 256. On that range
  \<open>is_space\<close>, \<open>strip\<close> and \<open>casefold\<close> agree with Python's \<open>str.isspace\<close>, \<open>str.strip\<close> and
  \<open>str.casefold\<close>, except that the micro sign (whose folding lies outside the range) is
  left alone.
\<close>

section \<open>Fact collections\<close>

named_theorems wf_intros \<open>preservation of the component invariants\<close>
named_theorems text_simps \<open>facts about stripping and case folding\<close>

section \<open>Exceptions and fallible results\<close>

datatype exn =
    ValueError string
  | TypeError
  | IndexError string
  | OverflowError string
  | AssertionError
  | RuntimeError string
  | RegistryError string
  | DeadLetterError string
  | JournalError string
  | WorkflowError string
  | LedgerError string
  | IdentityError string
  | RelayError string
  | HeartbeatSinkError string
  | KeyError string
  | IntegrityError string
  | MaintenanceError string
  | OperatorError string
  | MessageGrammarError string
  | WriterLaneError string
  | VisualIdentityError string
  | TargetError string
  | RelayStateError string
  | WorkstationRelayError string
  | AppendError string
  | ProjectionError string
  | AttributeError
  | OSError
  | JSONDecodeError
  | UnicodeDecodeError
  | ReconcileError string
  | CentralProjectionError string
  | BusMessageProjectionError string
  | ControlSnapshotError string
  | BodyBoundOidcError string

text \<open>Sequencing: the first exception ends the computation.\<close>

definition bindE :: "'e + 'a \<Rightarrow> ('a \<Rightarrow> 'e + 'b) \<Rightarrow> 'e + 'b" where
  "bindE m f = (case m of Inl e \<Rightarrow> Inl e | Inr x \<Rightarrow> f x)"

lemma bindE_simps [simp]: "bindE (Inl e) f = Inl e" "bindE (Inr x) f = f x"
  by (simp_all add: bindE_def)

lemma bindE_eq_Inr [simp]: "bindE m f = Inr y \<longleftrightarrow> (\<exists>x. m = Inr x \<and> f x = Inr y)"
  by (cases m) auto

lemma bindE_eq_Inl [simp]:
  "bindE m f = Inl e \<longleftrightarrow> m = Inl e \<or> (\<exists>x. m = Inr x \<and> f x = Inl e)"
  by (cases m) auto

lemma bindE_cong [fundef_cong]:
  "m = m' \<Longrightarrow> (\<And>x. m' = Inr x \<Longrightarrow> f x = g x) \<Longrightarrow> bindE m f = bindE m' g"
  by (cases m') auto

text \<open>\<open>mapE f xs\<close> runs \<open>f\<close> over \<open>xs\<close> from left to right and stops at the first exception.\<close>

fun mapE :: "('a \<Rightarrow> 'e + 'b) \<Rightarrow> 'a list \<Rightarrow> 'e + 'b list" where
  "mapE f [] = Inr []"
| "mapE f (x # xs) = bindE (f x) (\<lambda>y. bindE (mapE f xs) (\<lambda>ys. Inr (y # ys)))"

lemma mapE_Inr_list_all2: "mapE f xs = Inr ys \<longleftrightarrow> list_all2 (\<lambda>x y. f x = Inr y) xs ys"
  by (induction xs arbitrary: ys) (auto simp: list_all2_Cons1)

lemma mapE_all_Inr: "(\<And>x. x \<in> set xs \<Longrightarrow> f x = Inr (g x)) \<Longrightarrow> mapE f xs = Inr (map g xs)"
  by (induction xs) auto

text \<open>\<open>any(f(x) for x in xs)\<close> stops at the first hit or exception.\<close>

fun anyE :: "('a \<Rightarrow> 'e + bool) \<Rightarrow> 'a list \<Rightarrow> 'e + bool" where
  "anyE f [] = Inr False"
| "anyE f (x # xs) = bindE (f x) (\<lambda>b. if b then Inr True else anyE f xs)"

text \<open>A loop that keeps the elements whose test succeeds.\<close>

fun keepE :: "('a \<Rightarrow> 'e + bool) \<Rightarrow> 'a list \<Rightarrow> 'e + 'a list" where
  "keepE f [] = Inr []"
| "keepE f (x # xs) = bindE (f x) (\<lambda>b. bindE (keepE f xs) (\<lambda>ys. Inr (if b then x # ys else ys)))"

lemma anyE_total: "(\<And>x. x \<in> set xs \<Longrightarrow> f x = Inr (p x)) \<Longrightarrow> anyE f xs = Inr (\<exists>x \<in> set xs. p x)"
  by (induction xs) auto

lemma keepE_total: "(\<And>x. x \<in> set xs \<Longrightarrow> f x = Inr (p x)) \<Longrightarrow> keepE f xs = Inr (filter p xs)"
  by (induction xs) auto

text \<open>\<open>requireE ok e m\<close> is \<open>if not ok: raise e\<close> followed by \<open>m\<close>.\<close>

definition requireE :: "bool \<Rightarrow> 'e \<Rightarrow> 'e + 'a \<Rightarrow> 'e + 'a" where
  "requireE ok e m = (if ok then m else Inl e)"

lemma requireE_simps [simp]: "requireE True e m = m" "requireE False e m = Inl e"
  by (simp_all add: requireE_def)

lemma requireE_eq_Inr [simp]: "requireE ok e m = Inr x \<longleftrightarrow> ok \<and> m = Inr x"
  by (simp add: requireE_def)

lemma requireE_eq_Inl: "requireE ok e m = Inl x \<longleftrightarrow> (if ok then m = Inl x else x = e)"
  by (auto simp: requireE_def)

text \<open>
  The state after a call whose every exception is raised before anything is written: a result
  with the new state, or an exception and the state it was called in.
\<close>

definition after :: "'s \<Rightarrow> 'e + 'a \<times> 's \<Rightarrow> 's" where
  "after s r = (case r of Inl _ \<Rightarrow> s | Inr (_, s') \<Rightarrow> s')"

lemma after_simps [simp]: "after s (Inl e) = s" "after s (Inr (a, t)) = t"
  by (simp_all add: after_def)

lemma after_cases:
  obtains (raised) e where "r = Inl e" "after s r = s" | (returned) a t where "r = Inr (a, t)" "after s r = t"
  by (cases r) (auto simp: after_def)

lemma after_stays_or_returns:
  obtains "after s r = s" | a t where "r = Inr (a, t)" "after s r = t"
  by (cases r) (auto simp: after_def)

section \<open>Python dictionaries\<close>

text \<open>
  A dictionary is an association list in insertion order: assigning to an existing key keeps
  its position, a new key goes to the end, as \<^const>\<open>AList.update\<close> does.
\<close>

type_synonym ('k, 'v) dict = "('k \<times> 'v) list"

abbreviation dict_get :: "('k, 'v) dict \<Rightarrow> 'k \<Rightarrow> 'v option" where
  "dict_get d k \<equiv> map_of d k"

abbreviation dict_set :: "('k, 'v) dict \<Rightarrow> 'k \<Rightarrow> 'v \<Rightarrow> ('k, 'v) dict" where
  "dict_set d k v \<equiv> AList.update k v d"

abbreviation dict_del :: "('k, 'v) dict \<Rightarrow> 'k \<Rightarrow> ('k, 'v) dict" where
  "dict_del d k \<equiv> AList.delete k d"

abbreviation dict_has :: "('k, 'v) dict \<Rightarrow> 'k \<Rightarrow> bool" where
  "dict_has d k \<equiv> map_of d k \<noteq> None"

abbreviation dict_wf :: "('k, 'v) dict \<Rightarrow> bool" where
  "dict_wf d \<equiv> distinct (map fst d)"

lemma dict_get_set [simp]: "dict_get (dict_set d k v) = (dict_get d)(k \<mapsto> v)"
  by (rule update_conv')

lemma dict_get_del [simp]: "dict_get (dict_del d k) = (dict_get d)(k := None)"
  by (rule delete_conv')

lemma dict_wf_set [intro, simp]: "dict_wf d \<Longrightarrow> dict_wf (dict_set d k v)"
  by (rule distinct_update)

lemma dict_wf_del [intro, simp]: "dict_wf d \<Longrightarrow> dict_wf (dict_del d k)"
  by (rule distinct_delete)

text \<open>Entries are read through look-ups, so membership does not replace them.\<close>

declare map_of_eq_Some_iff [simp del]

lemma dict_values_iff: "dict_wf d \<Longrightarrow> v \<in> set (map snd d) \<longleftrightarrow> (\<exists>k. dict_get d k = Some v)"
  by (force simp: map_of_eq_Some_iff)

lemma dict_get_in: "dict_wf d \<Longrightarrow> (k, v) \<in> set d \<longleftrightarrow> dict_get d k = Some v"
  by (simp add: map_of_eq_Some_iff)

text \<open>A condition on all entries, seen through look-ups, and under assignment.\<close>

definition dict_all :: "('k \<Rightarrow> 'v \<Rightarrow> bool) \<Rightarrow> ('k, 'v) dict \<Rightarrow> bool" where
  "dict_all P d \<longleftrightarrow> (\<forall>(k, v) \<in> set d. P k v)"

lemma dict_all_Nil [simp]: "dict_all P []"
  by (simp add: dict_all_def)

lemma dict_allD: "dict_all P d \<Longrightarrow> dict_get d k = Some v \<Longrightarrow> P k v"
  by (auto simp: dict_all_def dest: map_of_SomeD)

lemma dict_all_get: "dict_wf d \<Longrightarrow> dict_all P d \<longleftrightarrow> (\<forall>k v. dict_get d k = Some v \<longrightarrow> P k v)"
  unfolding dict_all_def using dict_get_in [of d] by blast

lemma dict_all_mono: "dict_all P d \<Longrightarrow> (\<And>k v. (k, v) \<in> set d \<Longrightarrow> P k v \<Longrightarrow> Q k v) \<Longrightarrow> dict_all Q d"
  by (auto simp: dict_all_def)

lemma dict_set_entries: "set (dict_set d k v) \<subseteq> insert (k, v) (set d)"
  by (induction d) auto

lemma dict_all_set [intro]: "dict_all P d \<Longrightarrow> P k v \<Longrightarrow> dict_all P (dict_set d k v)"
  using dict_set_entries [of k v d] by (auto simp: dict_all_def)

lemma dict_all_del [intro]: "dict_all P d \<Longrightarrow> dict_all P (dict_del d k)"
  by (auto simp: dict_all_def AList.delete_eq)

lemma dict_set_new: "dict_get d k = None \<Longrightarrow> dict_set d k v = d @ [(k, v)]"
  by (induction d) (auto split: if_splits)

text \<open>\<open>tuple(dict.fromkeys(xs))\<close>: the first occurrence of each element, in order.\<close>

fun uniq :: "'a list \<Rightarrow> 'a list" where
  "uniq [] = []"
| "uniq (x # xs) = x # filter (\<lambda>y. y \<noteq> x) (uniq xs)"

lemma set_uniq [simp]: "set (uniq xs) = set xs"
  by (induction xs) auto

lemma distinct_uniq [simp]: "distinct (uniq xs)"
  by (induction xs) auto

lemma uniq_id: "distinct xs \<Longrightarrow> uniq xs = xs"
  by (induction xs) (auto simp: filter_id_conv)

lemma uniq_eq_Nil [simp]: "uniq xs = [] \<longleftrightarrow> xs = []"
  by (cases xs) auto

text \<open>Python's \<open>sorted\<close> on a list of distinct keys does not depend on the order it starts from.\<close>

lemma filter_key_singleton:
  assumes "distinct (map f zs)" and "k \<in> set zs"
  shows "filter (\<lambda>x. f k = f x) zs = [k]"
  using assms
proof (induction zs)
  case (Cons a zs)
  then show ?case
    by (cases "k = a") (auto simp: filter_empty_conv image_iff)
qed simp

lemma distinct_map_sort_key: "distinct (map f (sort_key g xs)) \<longleftrightarrow> distinct (map f xs)"
proof -
  have "mset (map f (sort_key g xs)) = mset (map f xs)"
    by simp
  then show ?thesis
    by (rule mset_eq_imp_distinct_iff)
qed

lemma sort_key_perm_distinct:
  assumes "mset xs = mset ys" and "distinct (map f xs)"
  shows "sort_key f xs = sort_key f ys"
proof -
  have "mset (map f ys) = mset (map f xs)"
    using assms(1) by simp
  then have dys: "distinct (map f ys)"
    using assms(2) by (metis mset_eq_imp_distinct_iff)
  have "mset (map f (sort_key f xs)) = mset (map f xs)"
    by simp
  then have dsx: "distinct (map f (sort_key f xs))"
    using assms(2) by (metis mset_eq_imp_distinct_iff)
  have same: "set xs = set ys"
    using assms(1) by (rule mset_eq_setD)
  show ?thesis
  proof (rule properties_for_sort_key [symmetric])
    fix k assume k: "k \<in> set (sort_key f xs)"
    then have "k \<in> set ys"
      using same by simp
    then show "filter (\<lambda>x. f k = f x) (sort_key f xs) = filter (\<lambda>x. f k = f x) ys"
      using filter_key_singleton [OF dsx k] filter_key_singleton [OF dys] by simp
  next
    show "mset (sort_key f xs) = mset ys"
      using assms(1) by simp
  qed simp
qed

section \<open>Tables with increasing keys\<close>

lemma filter_unique_key:
  fixes f :: "'a \<Rightarrow> 'b :: linorder"
  shows "sorted_wrt (<) (map f rows) \<Longrightarrow> r \<in> set rows \<Longrightarrow>
     filter (\<lambda>x. f x = f r \<and> P x) rows = (if P r then [r] else [])"
proof (induction rows)
  case (Cons x rows)
  show ?case
  proof (cases "r = x")
    case True
    then have "filter (\<lambda>y. f y = f r \<and> P y) rows = []"
      using Cons.prems by (auto simp: filter_empty_conv)
    then show ?thesis
      using True by simp
  next
    case False
    then have "f x \<noteq> f r"
      using Cons.prems by auto
    then show ?thesis
      using Cons False by auto
  qed
qed simp

lemma find_unique_key:
  fixes f :: "'a \<Rightarrow> 'b :: linorder"
  shows "sorted_wrt (<) (map f rows) \<Longrightarrow>
     find (\<lambda>r. f r = k) rows = Some r \<longleftrightarrow> r \<in> set rows \<and> f r = k"
  by (induction rows) auto

section \<open>Components as state machines\<close>

text \<open>
  A component is a state and the calls made on it. What every call keeps holds after any
  sequence of calls.
\<close>

locale component =
  fixes exec :: "'c \<Rightarrow> 's \<Rightarrow> 's"
    and inv :: "'s \<Rightarrow> bool"
  assumes exec_inv: "inv s \<Longrightarrow> inv (exec c s)"
begin

lemma run_inv: "inv s \<Longrightarrow> inv (fold exec cs s)"
  by (induction cs arbitrary: s) (simp_all add: exec_inv)

end

text \<open>A relation every call moves along relates the ends of any sequence of calls.\<close>

locale progressing_component = component exec inv
  for exec :: "'c \<Rightarrow> 's \<Rightarrow> 's" and inv :: "'s \<Rightarrow> bool" +
  fixes before :: "'s \<Rightarrow> 's \<Rightarrow> bool"
  assumes before_refl: "before s s"
    and before_trans: "before s t \<Longrightarrow> before t u \<Longrightarrow> before s u"
    and exec_before: "inv s \<Longrightarrow> before s (exec c s)"
begin

lemma run_before: "inv s \<Longrightarrow> before s (fold exec cs s)"
proof (induction cs arbitrary: s)
  case (Cons c cs)
  then have "before (exec c s) (fold exec cs (exec c s))"
    by (simp add: exec_inv)
  with Cons.prems show ?case
    using exec_before before_trans by (simp, blast)
qed (simp add: before_refl)

end

end
