(* ===== verification/PyText.thy ===== *)
theory PyText
  imports Prelude
begin

text \<open>
  Python text: white space, stripping, case folding, upper case and UTF-8 encoding, on
  strings whose code points are below 256.
\<close>

section \<open>White space and stripping\<close>

definition is_space :: "char \<Rightarrow> bool" where
  "is_space c \<longleftrightarrow> (let n = (of_char c :: nat) in
     9 \<le> n \<and> n \<le> 13 \<or> 28 \<le> n \<and> n \<le> 32 \<or> n = 133 \<or> n = 160)"

definition lstrip :: "string \<Rightarrow> string" where
  "lstrip s = dropWhile is_space s"

definition rstrip :: "string \<Rightarrow> string" where
  "rstrip s = rev (dropWhile is_space (rev s))"

definition strip :: "string \<Rightarrow> string" where
  "strip s = rstrip (lstrip s)"

definition blank :: "string \<Rightarrow> bool" where
  "blank s \<longleftrightarrow> strip s = []"

text \<open>A text is trimmed when neither end is white space.\<close>

definition trimmed :: "string \<Rightarrow> bool" where
  "trimmed s \<longleftrightarrow> (s \<noteq> [] \<longrightarrow> \<not> is_space (hd s) \<and> \<not> is_space (last s))"

lemma trimmed_Nil [simp]: "trimmed []"
  by (simp add: trimmed_def)

lemma rstrip_eq_Nil: "rstrip s = [] \<longleftrightarrow> (\<forall>c \<in> set s. is_space c)"
  by (simp add: rstrip_def)

lemma blank_iff: "blank s \<longleftrightarrow> (\<forall>c \<in> set s. is_space c)"
  unfolding blank_def strip_def rstrip_eq_Nil lstrip_def
  by (metis dropWhile_eq_Nil_conv hd_dropWhile list.set_intros(1) list.set_sel(1) set_dropWhileD)

lemma trimmed_strip [simp]: "trimmed (strip s)"
proof (cases "strip s = []")
  case False
  have last: "\<not> is_space (last (strip s))"
    using False by (simp add: strip_def rstrip_def last_rev hd_dropWhile)
  obtain zs where zs: "lstrip s = strip s @ zs"
    unfolding strip_def rstrip_def by (metis rev_append rev_rev_ident takeWhile_dropWhile_id)
  then have "lstrip s \<noteq> []" "hd (strip s) = hd (lstrip s)"
    using False by auto
  then have "\<not> is_space (hd (strip s))"
    by (simp add: lstrip_def hd_dropWhile)
  with last show ?thesis by (simp add: trimmed_def)
qed simp

lemma strip_trimmed [text_simps]: "trimmed s \<Longrightarrow> strip s = s"
proof (cases s)
  case (Cons c cs)
  assume t: "trimmed s"
  have "lstrip s = s"
    using t Cons by (simp add: lstrip_def trimmed_def)
  moreover have "s \<noteq> []"
    using Cons by simp
  then have "dropWhile is_space (rev s) = rev s"
    using t by (simp add: trimmed_def dropWhile_eq_self_iff hd_rev)
  then have "rstrip s = s"
    by (simp add: rstrip_def)
  ultimately show ?thesis by (simp add: strip_def)
qed (simp add: strip_def lstrip_def rstrip_def)

lemma strip_idem [simp]: "strip (strip s) = strip s"
  by (rule strip_trimmed) simp

lemma blank_strip [simp]: "blank (strip s) \<longleftrightarrow> blank s"
  by (simp add: blank_def)

lemma blank_trimmed: "trimmed s \<Longrightarrow> blank s \<longleftrightarrow> s = []"
  by (simp add: blank_def strip_trimmed)

section \<open>Case folding\<close>

definition fold_char :: "char \<Rightarrow> string" where
  "fold_char c = (let n = (of_char c :: nat) in
     if 65 \<le> n \<and> n \<le> 90 \<or> 192 \<le> n \<and> n \<le> 222 \<and> n \<noteq> 215 then [char_of (n + 32)]
     else if n = 223 then ''ss''
     else [c])"

definition casefold :: "string \<Rightarrow> string" where
  "casefold s = concat (map fold_char s)"

lemma fold_char_nonempty [simp]: "fold_char c \<noteq> []"
  by (simp add: fold_char_def Let_def)

lemma casefold_Nil [simp]: "casefold [] = []"
  and casefold_Cons: "casefold (c # s) = fold_char c @ casefold s"
  and casefold_append [simp]: "casefold (s @ t) = casefold s @ casefold t"
  by (simp_all add: casefold_def)

lemma casefold_eq_Nil [simp]: "casefold s = [] \<longleftrightarrow> s = []"
  by (cases s) (simp_all add: casefold_Cons)

lemma fold_char_fixed: "d \<in> set (fold_char c) \<Longrightarrow> fold_char d = [d]"
  by (auto simp: fold_char_def Let_def split: if_splits)

lemma fold_char_space: "d \<in> set (fold_char c) \<Longrightarrow> is_space d \<longleftrightarrow> is_space c"
  by (auto simp: fold_char_def is_space_def Let_def split: if_splits)

lemma casefold_fixed: "(\<And>c. c \<in> set s \<Longrightarrow> fold_char c = [c]) \<Longrightarrow> casefold s = s"
  by (induction s) (simp_all add: casefold_Cons)

lemma casefold_idem [simp]: "casefold (casefold s) = casefold s"
  by (rule casefold_fixed) (auto simp: casefold_def intro: fold_char_fixed)

lemma trimmed_casefold [simp]:
  assumes "trimmed s" shows "trimmed (casefold s)"
proof (cases s)
  case (Cons c cs)
  then obtain bs b where bs: "s = bs @ [b]"
    by (metis rev_exhaust list.distinct(1))
  have "hd (casefold s) \<in> set (fold_char c)"
    using Cons by (simp add: casefold_Cons)
  moreover have "last (casefold s) \<in> set (fold_char b)"
    using bs by (simp add: casefold_Cons)
  ultimately show ?thesis
    using assms Cons bs fold_char_space unfolding trimmed_def
    by (metis hd_append last_snoc list.sel(1) list.distinct(1))
qed simp

lemma strip_casefold_strip [simp]: "strip (casefold (strip s)) = casefold (strip s)"
  by (rule strip_trimmed) simp

lemma blank_casefold_strip [simp]: "blank (casefold (strip s)) \<longleftrightarrow> blank s"
  by (simp add: blank_trimmed blank_def)

text \<open>\<open>value.strip().casefold()\<close>, the normal form of every identifier.\<close>

definition fold_key :: "string \<Rightarrow> string" where
  "fold_key s = casefold (strip s)"

lemma fold_key_idem [simp]: "fold_key (fold_key s) = fold_key s"
  by (simp add: fold_key_def)

lemma blank_fold_key [simp]: "blank (fold_key s) \<longleftrightarrow> blank s"
  by (simp add: fold_key_def)

lemma strip_fold_key [simp]: "strip (fold_key s) = fold_key s"
  by (simp add: fold_key_def)

lemma casefold_fold_key [simp]: "casefold (fold_key s) = fold_key s"
  by (simp add: fold_key_def)

section \<open>Upper case and bytes\<close>

definition upper_char :: "char \<Rightarrow> string" where
  "upper_char c = (let n = (of_char c :: nat) in
     if 97 \<le> n \<and> n \<le> 122 \<or> 224 \<le> n \<and> n \<le> 254 \<and> n \<noteq> 247 then [char_of (n - 32)]
     else if n = 223 then ''SS''
     else [c])"

definition upper :: "string \<Rightarrow> string" where
  "upper s = concat (map upper_char s)"

definition utf8_char :: "char \<Rightarrow> string" where
  "utf8_char c = (let n = (of_char c :: nat) in
     if n < 128 then [c] else [char_of (192 + n div 64), char_of (128 + n mod 64)])"

text \<open>\<open>s.encode("utf-8")\<close>; bytes are characters again.\<close>

definition utf8 :: "string \<Rightarrow> string" where
  "utf8 s = concat (map utf8_char s)"

section \<open>Prefixes and lower-case hexadecimal digits\<close>

fun starts_with :: "string \<Rightarrow> string \<Rightarrow> bool" where
  "starts_with [] s = True"
| "starts_with (c # cs) [] = False"
| "starts_with (c # cs) (d # ds) = (c = d \<and> starts_with cs ds)"

text \<open>\<open>s.replace(pat, rep)\<close> for a nonempty pattern.\<close>

function str_replace :: "string \<Rightarrow> string \<Rightarrow> string \<Rightarrow> string" where
  "str_replace pat rep [] = []"
| "str_replace pat rep (c # cs) =
     (if pat \<noteq> [] \<and> starts_with pat (c # cs)
      then rep @ str_replace pat rep (drop (length pat) (c # cs))
      else c # str_replace pat rep cs)"
  by pat_completeness auto
termination
  by (relation "measure (\<lambda>(pat, rep, s). length s)") (auto simp: neq_Nil_conv)

text \<open>Text that is its own stripped form and not empty.\<close>

definition clean :: "string \<Rightarrow> bool" where
  "clean s \<longleftrightarrow> trimmed s \<and> s \<noteq> []"

lemma clean_strip [simp]: "clean (strip s) \<longleftrightarrow> \<not> blank s"
  by (simp add: clean_def blank_def)

lemma clean_fold_key [simp]: "clean (fold_key s) \<longleftrightarrow> \<not> blank s"
  by (simp add: clean_def blank_def fold_key_def)

lemma clean_strip_eq: "clean s \<Longrightarrow> strip s = s"
  by (simp add: clean_def strip_trimmed)

lemma clean_not_blank: "clean s \<Longrightarrow> \<not> blank s"
  by (simp add: clean_def blank_trimmed)

text \<open>A canonical key: the folded form of a text that is not blank.\<close>

definition canonical_key :: "string \<Rightarrow> bool" where
  "canonical_key s \<longleftrightarrow> \<not> blank s \<and> fold_key s = s"

lemma canonical_key_fold_key [simp]: "canonical_key (fold_key s) \<longleftrightarrow> \<not> blank s"
  by (simp add: canonical_key_def)

lemma canonical_key_eq: "canonical_key s \<Longrightarrow> fold_key s = s"
  by (simp add: canonical_key_def)

lemma canonical_key_not_blank: "canonical_key s \<Longrightarrow> \<not> blank s"
  by (simp add: canonical_key_def)

definition is_digit :: "char \<Rightarrow> bool" where
  "is_digit c \<longleftrightarrow> (let n = (of_char c :: nat) in 48 \<le> n \<and> n \<le> 57)"

definition is_lower :: "char \<Rightarrow> bool" where
  "is_lower c \<longleftrightarrow> (let n = (of_char c :: nat) in 97 \<le> n \<and> n \<le> 122)"

definition is_upper :: "char \<Rightarrow> bool" where
  "is_upper c \<longleftrightarrow> (let n = (of_char c :: nat) in 65 \<le> n \<and> n \<le> 90)"

definition is_hex_lower :: "char \<Rightarrow> bool" where
  "is_hex_lower c \<longleftrightarrow> is_digit c \<or> (let n = (of_char c :: nat) in 97 \<le> n \<and> n \<le> 102)"

text \<open>Decimal notation of an integer, as \<open>str(n)\<close>.\<close>

fun nat_digits :: "nat \<Rightarrow> string" where
  "nat_digits n =
     (if n < 10 then [char_of (48 + n)]
      else nat_digits (n div 10) @ [char_of (48 + n mod 10)])"

declare nat_digits.simps [simp del]

definition int_text :: "int \<Rightarrow> string" where
  "int_text i = (if i < 0 then CHR ''-'' # nat_digits (nat (- i)) else nat_digits (nat i))"

end
