(* ===== verification/Json.thy ===== *)
theory Json
  imports PyText
begin

text \<open>
  The dynamically typed values of the wire formats and \<open>json.dumps\<close> with
  \<open>sort_keys=True\<close>, as the envelope and the dead-letter store call it.
\<close>

section \<open>Values\<close>

text \<open>
  Floats are given by their \<open>repr\<close>; \<open>PObj t\<close> is any other object, of the type named \<open>t\<close>.
  Dictionaries have text keys, as every parsed JSON object does.
\<close>

datatype pyval =
    PNone
  | PBool bool
  | PInt int
  | PFloat string
  | PStr string
  | PBytes string
  | PList "pyval list"
  | PTuple "pyval list"
  | PDict "(string \<times> pyval) list"
  | PObj string

type_synonym pymap = "(string, pyval) dict"

text \<open>\<open>raw.get(key, default)\<close>\<close>

definition get_default :: "pymap \<Rightarrow> string \<Rightarrow> pyval \<Rightarrow> pyval" where
  "get_default raw key d = (case dict_get raw key of None \<Rightarrow> d | Some v \<Rightarrow> v)"

text \<open>\<open>bool(value)\<close>\<close>

definition truthy :: "pyval \<Rightarrow> bool" where
  "truthy v = (case v of
      PNone \<Rightarrow> False | PBool b \<Rightarrow> b | PInt i \<Rightarrow> i \<noteq> 0 | PFloat r \<Rightarrow> r \<noteq> ''0.0'' \<and> r \<noteq> ''-0.0''
    | PStr s \<Rightarrow> s \<noteq> [] | PBytes b \<Rightarrow> b \<noteq> [] | PList vs \<Rightarrow> vs \<noteq> [] | PTuple vs \<Rightarrow> vs \<noteq> []
    | PDict ms \<Rightarrow> ms \<noteq> [] | PObj t \<Rightarrow> True)"

text \<open>\<open>isinstance(value, str) and value.strip()\<close>\<close>

definition is_text :: "pyval \<Rightarrow> bool" where
  "is_text v = (case v of PStr s \<Rightarrow> \<not> blank s | _ \<Rightarrow> False)"

definition text_of :: "pyval \<Rightarrow> string" where
  "text_of v = (case v of PStr s \<Rightarrow> s | _ \<Rightarrow> [])"

lemma is_text_iff: "is_text v \<longleftrightarrow> (\<exists>s. v = PStr s \<and> \<not> blank s)"
  by (cases v) (simp_all add: is_text_def)

lemma text_of_PStr [simp]: "text_of (PStr s) = s"
  by (simp add: text_of_def)

lemma is_text_PStr [simp]: "is_text (PStr s) \<longleftrightarrow> \<not> blank s"
  by (simp add: is_text_def)

section \<open>Encoding strings\<close>

definition hex_digit :: "nat \<Rightarrow> char" where
  "hex_digit n = (if n < 10 then char_of (48 + n) else char_of (87 + n))"

definition json_char :: "bool \<Rightarrow> char \<Rightarrow> string" where
  "json_char ascii c = (let n = (of_char c :: nat) in
     if n = 34 then [CHR 0x5C, c]
     else if n = 92 then [CHR 0x5C, c]
     else if n = 10 then [CHR 0x5C, CHR ''n'']
     else if n = 13 then [CHR 0x5C, CHR ''r'']
     else if n = 9 then [CHR 0x5C, CHR ''t'']
     else if n = 12 then [CHR 0x5C, CHR ''f'']
     else if n = 8 then [CHR 0x5C, CHR ''b'']
     else if n < 32 \<or> ascii \<and> 126 < n
       then [CHR 0x5C] @ ''u00'' @ [hex_digit (n div 16), hex_digit (n mod 16)]
     else [c])"

definition json_string :: "bool \<Rightarrow> string \<Rightarrow> string" where
  "json_string ascii s = [CHR 0x22] @ concat (map (json_char ascii) s) @ [CHR 0x22]"

fun join :: "string \<Rightarrow> string list \<Rightarrow> string" where
  "join sep [] = []"
| "join sep [x] = x"
| "join sep (x # y # ys) = x @ sep @ join sep (y # ys)"

section \<open>Dumping values\<close>

text \<open>
  \<open>json_dumps ascii item key v\<close> is
  \<open>json.dumps(v, sort_keys=True, ensure_ascii=ascii, separators=(item, key))\<close>. Objects JSON
  does not know raise \<^const>\<open>TypeError\<close>. Members are rendered first and sorted by key after,
  which gives the same text as sorting first.
\<close>

fun json_dumps :: "bool \<Rightarrow> string \<Rightarrow> string \<Rightarrow> pyval \<Rightarrow> exn + string"
  and json_elems :: "bool \<Rightarrow> string \<Rightarrow> string \<Rightarrow> pyval list \<Rightarrow> exn + string list"
  and json_members ::
    "bool \<Rightarrow> string \<Rightarrow> string \<Rightarrow> (string \<times> pyval) list \<Rightarrow> exn + (string \<times> string) list" where
  "json_dumps a isep ksep PNone = Inr ''null''"
| "json_dumps a isep ksep (PBool b) = Inr (if b then ''true'' else ''false'')"
| "json_dumps a isep ksep (PInt i) = Inr (int_text i)"
| "json_dumps a isep ksep (PFloat r) = Inr r"
| "json_dumps a isep ksep (PStr s) = Inr (json_string a s)"
| "json_dumps a isep ksep (PBytes b) = Inl TypeError"
| "json_dumps a isep ksep (PList vs) =
     bindE (json_elems a isep ksep vs) (\<lambda>ts. Inr (''['' @ join isep ts @ '']''))"
| "json_dumps a isep ksep (PTuple vs) =
     bindE (json_elems a isep ksep vs) (\<lambda>ts. Inr (''['' @ join isep ts @ '']''))"
| "json_dumps a isep ksep (PDict ms) =
     bindE (json_members a isep ksep ms) (\<lambda>ts.
       Inr (''{'' @ join isep (map (\<lambda>(k, t). json_string a k @ ksep @ t) (sort_key fst ts)) @ ''}''))"
| "json_dumps a isep ksep (PObj t) = Inl TypeError"
| "json_elems a isep ksep [] = Inr []"
| "json_elems a isep ksep (v # vs) =
     bindE (json_dumps a isep ksep v) (\<lambda>t.
     bindE (json_elems a isep ksep vs) (\<lambda>ts. Inr (t # ts)))"
| "json_members a isep ksep [] = Inr []"
| "json_members a isep ksep ((k, v) # ms) =
     bindE (json_dumps a isep ksep v) (\<lambda>t.
     bindE (json_members a isep ksep ms) (\<lambda>ts. Inr ((k, t) # ts)))"

text \<open>A member list renders exactly when each member does, member by member.\<close>

lemma json_members_Inr:
  "json_members a isep ksep ms = Inr ts \<longleftrightarrow>
     list_all2 (\<lambda>m t. fst t = fst m \<and> json_dumps a isep ksep (snd m) = Inr (snd t)) ms ts"
proof (induction ms arbitrary: ts)
  case (Cons m ms)
  then show ?case by (cases m) (force simp: list_all2_Cons1)
qed auto

lemma json_members_keys: "json_members a isep ksep ms = Inr ts \<Longrightarrow> map fst ts = map fst ms"
  unfolding json_members_Inr by (induction rule: list_all2_induct) auto

lemma json_members_Inl: "json_members a isep ksep ms = Inl e \<Longrightarrow>
    \<exists>m \<in> set ms. json_dumps a isep ksep (snd m) = Inl e"
  by (induction ms) auto

lemma json_members_Inr_all:
  "(\<exists>ts. json_members a isep ksep ms = Inr ts) \<longleftrightarrow>
     (\<forall>m \<in> set ms. \<exists>t. json_dumps a isep ksep (snd m) = Inr t)"
  by (induction ms) auto

text \<open>Whether a value can be dumped depends on the value only, not on the format.\<close>

fun json_ok :: "pyval \<Rightarrow> bool" where
  "json_ok (PBytes b) = False"
| "json_ok (PObj t) = False"
| "json_ok (PList vs) = (\<forall>v \<in> set vs. json_ok v)"
| "json_ok (PTuple vs) = (\<forall>v \<in> set vs. json_ok v)"
| "json_ok (PDict ms) = (\<forall>m \<in> set ms. json_ok (snd m))"
| "json_ok v = True"

lemma json_dumps_ok:
  "(\<exists>t. json_dumps a isep ksep v = Inr t) \<longleftrightarrow> json_ok v"
  "(\<exists>ts. json_elems a isep ksep vs = Inr ts) \<longleftrightarrow> (\<forall>v \<in> set vs. json_ok v)"
  "(\<exists>ts. json_members a isep ksep ms = Inr ts) \<longleftrightarrow> (\<forall>m \<in> set ms. json_ok (snd m))"
  by (induction a isep ksep v and a isep ksep vs and a isep ksep ms
      rule: json_dumps_json_elems_json_members.induct) auto

text \<open>The only exception \<open>json.dumps\<close> raises here is \<^const>\<open>TypeError\<close>.\<close>

lemma json_dumps_Inl:
  "json_dumps a isep ksep v = Inl e \<Longrightarrow> e = TypeError"
  "json_elems a isep ksep vs = Inl e \<Longrightarrow> e = TypeError"
  "json_members a isep ksep ms = Inl e \<Longrightarrow> e = TypeError"
  by (induction a isep ksep v and a isep ksep vs and a isep ksep ms
      rule: json_dumps_json_elems_json_members.induct) auto

text \<open>
  Sorting the keys makes the text canonical: a permutation of the members of a dictionary with
  distinct keys dumps to the same text.
\<close>

definition render_members :: "bool \<Rightarrow> string \<Rightarrow> string \<Rightarrow> (string \<times> pyval) list \<Rightarrow> (string \<times> string) list" where
  "render_members a isep ksep ms =
     map (\<lambda>(k, v). (k, case json_dumps a isep ksep v of Inl _ \<Rightarrow> [] | Inr t \<Rightarrow> t)) ms"

lemma json_members_render:
  "json_members a isep ksep ms = Inr ts \<Longrightarrow> ts = render_members a isep ksep ms"
  unfolding json_members_Inr render_members_def
  by (induction rule: list_all2_induct) (auto simp: prod_eq_iff)

lemma json_dumps_perm:
  assumes "mset ms = mset ns" and "distinct (map fst ms)"
  shows "json_dumps a isep ksep (PDict ms) = json_dumps a isep ksep (PDict ns)"
proof (cases "json_members a isep ksep ms")
  case (Inl e)
  then have "json_members a isep ksep ns = Inl TypeError"
    using assms(1) json_members_Inr_all [of a isep ksep ms] json_members_Inr_all [of a isep ksep ns]
    by (metis Inl_Inr_False json_dumps_Inl(3) mset_eq_setD obj_sumE)
  with Inl show ?thesis using json_dumps_Inl(3) [OF Inl] by simp
next
  case (Inr ts)
  then obtain us where us: "json_members a isep ksep ns = Inr us"
    using assms(1) json_members_Inr_all [of a isep ksep ms] json_members_Inr_all [of a isep ksep ns]
    by (metis mset_eq_setD)
  have "mset ts = mset us"
    using json_members_render [OF Inr] json_members_render [OF us] assms(1)
    by (simp add: render_members_def)
  moreover have "distinct (map fst ts)"
    using Inr assms(2) by (simp add: json_members_keys)
  ultimately have "sort_key fst ts = sort_key fst us"
    by (rule sort_key_perm_distinct)
  with Inr us show ?thesis by simp
qed

section \<open>Values read back\<close>

text \<open>\<open>json.loads(json.dumps(v, sort_keys=True))\<close>: tuples become lists, members are sorted.\<close>

fun json_reload :: "pyval \<Rightarrow> pyval" where
  "json_reload (PList vs) = PList (map json_reload vs)"
| "json_reload (PTuple vs) = PList (map json_reload vs)"
| "json_reload (PDict ms) = PDict (sort_key fst (map (\<lambda>(k, v). (k, json_reload v)) ms))"
| "json_reload v = v"

end
