(* ===== verification/Envelope.thy ===== *)
theory Envelope
  imports Json
begin

text \<open>
  The versioned message envelope of \<open>src/src/radar/envelope.py\<close>: the taxonomy, the validated
  record, its dictionary form, and \<open>RadarEnvelope.from_mapping\<close>, which classifies a raw
  mapping as valid, normalised, rejected or dead-lettered.

  SHA-256, the random UUID and the wall clock are parameters: \<open>sha\<close> is the hexadecimal digest
  of a byte string, \<open>uuid_hex\<close> the text of \<open>uuid4().hex\<close> and \<open>now_iso\<close> that of
  \<open>datetime.now(timezone.utc).isoformat()\<close>.
\<close>

section \<open>The taxonomy and the record\<close>

datatype envelope_classification = VALID | NORMALIZED | REJECTED | DLQ

definition ALLOWED_DOMAINS :: "string list" where
  "ALLOWED_DOMAINS =
     [''system'', ''llm'', ''ui'', ''database'', ''coordination'', ''security'',
      ''chat_bus'', ''protocol'', ''repository'']"

definition ALLOWED_INTENTS :: "string list" where
  "ALLOWED_INTENTS =
     [''command'', ''query'', ''event'', ''error'', ''telemetry'', ''verification'',
      ''bus_message'']"

definition DEFAULT_PRIORITY :: int where "DEFAULT_PRIORITY = 3"
definition MIN_PRIORITY :: int where "MIN_PRIORITY = 0"
definition MAX_PRIORITY :: int where "MAX_PRIORITY = 4"

lemmas priority_defs = DEFAULT_PRIORITY_def MIN_PRIORITY_def MAX_PRIORITY_def

record radar_envelope =
  schema_version :: int
  message_id :: string
  created_at :: string
  sender :: string
  audience :: "string list"
  domain :: string
  intent :: string
  priority :: int
  payload :: pyval
  content_hash :: string
  idempotency_key :: string
  correlation_id :: "string option"
  root_task_id :: "string option"
  causal_parent_id :: "string option"
  requires_ack :: bool
  expires_at :: "string option"
  authority_ref :: "string option"
  source_refs :: "string list"

record envelope_result =
  classification :: envelope_classification
  envelope :: "radar_envelope option"
  errors :: "string list"

definition opt_text :: "string option \<Rightarrow> pyval" where
  "opt_text x = (case x of None \<Rightarrow> PNone | Some s \<Rightarrow> PStr s)"

definition to_dict :: "radar_envelope \<Rightarrow> pymap" where
  "to_dict e =
    [(''schema_version'', PInt (schema_version e)),
     (''message_id'', PStr (message_id e)),
     (''created_at'', PStr (created_at e)),
     (''sender'', PStr (sender e)),
     (''audience'', PList (map PStr (audience e))),
     (''domain'', PStr (domain e)),
     (''intent'', PStr (intent e)),
     (''priority'', PInt (priority e)),
     (''payload'', payload e),
     (''content_hash'', PStr (content_hash e)),
     (''idempotency_key'', PStr (idempotency_key e)),
     (''correlation_id'', opt_text (correlation_id e)),
     (''root_task_id'', opt_text (root_task_id e)),
     (''causal_parent_id'', opt_text (causal_parent_id e)),
     (''requires_ack'', PBool (requires_ack e)),
     (''expires_at'', opt_text (expires_at e)),
     (''authority_ref'', opt_text (authority_ref e)),
     (''source_refs'', PList (map PStr (source_refs e)))]"

section \<open>Reading the fields\<close>

definition required_text :: "pyval \<Rightarrow> string \<Rightarrow> bool \<Rightarrow> string list \<times> string" where
  "required_text value field fold_case =
     (if \<not> is_text value then ([field], [])
      else ([], if fold_case then casefold (strip (text_of value)) else strip (text_of value)))"

definition optional_text :: "pyval \<Rightarrow> string option" where
  "optional_text value =
     (if value = PNone then None
      else if is_text value then Some (strip (text_of value))
      else None)"

definition get_value :: "pymap \<Rightarrow> string \<Rightarrow> pyval" where
  "get_value raw key = get_default raw key PNone"

definition required_fields :: "string list" where
  "required_fields = [''schema_version'', ''sender'', ''domain'', ''intent'', ''payload'']"

definition missing_fields :: "pymap \<Rightarrow> string list" where
  "missing_fields raw = filter (\<lambda>f. \<not> dict_has raw f) required_fields"

text \<open>\<open>type(schema_raw) is not int or schema_raw != 1\<close> rejects; booleans are not integers.\<close>

definition schema_ok :: "pyval \<Rightarrow> bool" where
  "schema_ok v = (case v of PInt i \<Rightarrow> i = 1 | _ \<Rightarrow> False)"

definition message_id_field :: "string \<Rightarrow> pymap \<Rightarrow> string \<times> bool" where
  "message_id_field uuid_hex raw =
     (let v = get_value raw ''message_id'' in
      if is_text v then (strip (text_of v), False)
      else (''rad_'' @ take 16 uuid_hex, True))"

definition created_at_field :: "string \<Rightarrow> pymap \<Rightarrow> string \<times> bool" where
  "created_at_field now_iso raw =
     (let v = get_value raw ''created_at'' in
      if is_text v then (strip (text_of v), False)
      else (str_replace ''+00:00'' ''Z'' now_iso, True))"

text \<open>The elements of a list or a tuple; \<open>None\<close> for any other value.\<close>

definition sequence_of :: "pyval \<Rightarrow> pyval list option" where
  "sequence_of v = (case v of PList vs \<Rightarrow> Some vs | PTuple vs \<Rightarrow> Some vs | _ \<Rightarrow> None)"

definition audience_field :: "pymap \<Rightarrow> string list \<times> string list \<times> bool" where
  "audience_field raw =
     (let v = get_value raw ''audience'' in
      if v = PNone then ([], [], True)
      else case sequence_of v of
        Some vs \<Rightarrow>
          (if list_all is_text vs then ([], uniq (map (\<lambda>x. fold_key (text_of x)) vs), False)
           else ([''audience''], [], False))
      | None \<Rightarrow> ([''audience''], [], False))"

definition priority_field :: "pymap \<Rightarrow> string list \<times> int \<times> bool" where
  "priority_field raw =
     (case dict_get raw ''priority'' of
        None \<Rightarrow> ([], DEFAULT_PRIORITY, True)
      | Some (PInt p) \<Rightarrow>
          (if MIN_PRIORITY \<le> p \<and> p \<le> MAX_PRIORITY then [] else [''priority''], p, False)
      | Some _ \<Rightarrow> ([''priority''], MIN_PRIORITY - 1, False))"

definition requires_ack_field :: "pymap \<Rightarrow> string list \<times> bool" where
  "requires_ack_field raw =
     (let v = get_default raw ''requires_ack'' (PBool False) in
      (case v of PBool b \<Rightarrow> [] | _ \<Rightarrow> [''requires_ack''], truthy v))"

definition source_refs_field :: "pymap \<Rightarrow> string list \<times> string list" where
  "source_refs_field raw =
     (let v = get_default raw ''source_refs'' (PTuple []) in
      case sequence_of v of
        Some vs \<Rightarrow>
          (if list_all is_text vs then ([], map (\<lambda>x. strip (text_of x)) vs)
           else ([''source_refs''], []))
      | None \<Rightarrow> (if v \<noteq> PNone then ([''source_refs''], []) else ([], [])))"

text \<open>The canonical JSON whose digest is the content hash.\<close>

definition canonical_json :: "int \<Rightarrow> string \<Rightarrow> string list \<Rightarrow> string \<Rightarrow> string \<Rightarrow> pyval \<Rightarrow> exn + string" where
  "canonical_json sv sndr aud dmn intt pay =
     json_dumps False '','' '':''
       (PDict [(''schema_version'', PInt sv), (''sender'', PStr sndr),
               (''audience'', PTuple (map PStr aud)), (''domain'', PStr dmn),
               (''intent'', PStr intt), (''payload'', pay)])"

definition rejected :: "string list \<Rightarrow> envelope_result" where
  "rejected errs = \<lparr>classification = REJECTED, envelope = None, errors = errs\<rparr>"

section \<open>Classification\<close>

definition from_mapping ::
  "(string \<Rightarrow> string) \<Rightarrow> string \<Rightarrow> string \<Rightarrow> pymap \<Rightarrow> exn + envelope_result" where
  "from_mapping sha uuid_hex now_iso raw =
    (if missing_fields raw \<noteq> [] then Inr (rejected (missing_fields raw))
     else if \<not> schema_ok (get_value raw ''schema_version'') then Inr (rejected [''schema_version''])
     else
       let (e1, sndr) = required_text (get_value raw ''sender'') ''sender'' False;
           (e2, dmn) = required_text (get_value raw ''domain'') ''domain'' True;
           (e3, intt) = required_text (get_value raw ''intent'') ''intent'' True;
           errs = e1 @ e2 @ e3 in
       if errs \<noteq> [] then Inr (rejected (uniq errs))
       else
         let tax = (if dmn \<in> set ALLOWED_DOMAINS then [] else [''domain'']) @
                   (if intt \<in> set ALLOWED_INTENTS then [] else [''intent'']) in
         if tax \<noteq> [] then Inr \<lparr>classification = DLQ, envelope = None, errors = tax\<rparr>
         else
           let (mid, n1) = message_id_field uuid_hex raw;
               (cat, n2) = created_at_field now_iso raw;
               (e4, aud, n3) = audience_field raw;
               (e5, prio, n4) = priority_field raw;
               (e6, ack) = requires_ack_field raw;
               (e7, refs) = source_refs_field raw;
               errs = e4 @ e5 @ e6 @ e7;
               pay = get_value raw ''payload'' in
           if errs \<noteq> [] then Inr (rejected (uniq errs))
           else
             case json_dumps True '', '' '': '' pay of
               Inl _ \<Rightarrow> Inr (rejected [''payload''])
             | Inr payload_json \<Rightarrow>
                 bindE (canonical_json 1 sndr aud dmn intt pay) (\<lambda>canonical.
                 Inr \<lparr>classification = (if n1 \<or> n2 \<or> n3 \<or> n4 then NORMALIZED else VALID),
                      envelope = Some
                        \<lparr>schema_version = 1, message_id = mid, created_at = cat, sender = sndr,
                         audience = aud, domain = dmn, intent = intt, priority = prio,
                         payload = pay, content_hash = sha (utf8 canonical),
                         idempotency_key = sha (utf8 payload_json),
                         correlation_id = optional_text (get_value raw ''correlation_id''),
                         root_task_id = optional_text (get_value raw ''root_task_id''),
                         causal_parent_id = optional_text (get_value raw ''causal_parent_id''),
                         requires_ack = ack,
                         expires_at = optional_text (get_value raw ''expires_at''),
                         authority_ref = optional_text (get_value raw ''authority_ref''),
                         source_refs = refs\<rparr>,
                      errors = []\<rparr>))"

section \<open>What an accepted envelope looks like\<close>

lemma required_text_simps [simp]:
  "fst (required_text v f c) = [] \<longleftrightarrow> is_text v"
  "is_text v \<Longrightarrow> required_text v f c =
     ([], if c then fold_key (text_of v) else strip (text_of v))"
  "\<not> is_text v \<Longrightarrow> required_text v f c = ([f], [])"
  by (simp_all add: required_text_def fold_key_def)

lemma canonical_json_ok: "(\<exists>t. canonical_json sv s a d i p = Inr t) \<longleftrightarrow> json_ok p"
  unfolding canonical_json_def json_dumps_ok(1) by auto

text \<open>The precondition under which an envelope is produced, and the envelope itself.\<close>

definition taxonomy_ok :: "pymap \<Rightarrow> bool" where
  "taxonomy_ok raw \<longleftrightarrow>
     fold_key (text_of (get_value raw ''domain'')) \<in> set ALLOWED_DOMAINS \<and>
     fold_key (text_of (get_value raw ''intent'')) \<in> set ALLOWED_INTENTS"

definition header_ok :: "pymap \<Rightarrow> bool" where
  "header_ok raw \<longleftrightarrow> missing_fields raw = [] \<and> schema_ok (get_value raw ''schema_version'') \<and>
     is_text (get_value raw ''sender'') \<and> is_text (get_value raw ''domain'') \<and>
     is_text (get_value raw ''intent'')"

definition fields_ok :: "pymap \<Rightarrow> bool" where
  "fields_ok raw \<longleftrightarrow> fst (audience_field raw) = [] \<and> fst (priority_field raw) = [] \<and>
     fst (requires_ack_field raw) = [] \<and> fst (source_refs_field raw) = [] \<and>
     json_ok (get_value raw ''payload'')"

definition built_envelope ::
  "(string \<Rightarrow> string) \<Rightarrow> string \<Rightarrow> string \<Rightarrow> pymap \<Rightarrow> radar_envelope" where
  "built_envelope sha uuid_hex now_iso raw =
    (let sndr = strip (text_of (get_value raw ''sender''));
         aud = fst (snd (audience_field raw));
         dmn = fold_key (text_of (get_value raw ''domain''));
         intt = fold_key (text_of (get_value raw ''intent''));
         pay = get_value raw ''payload'' in
     \<lparr>schema_version = 1, message_id = fst (message_id_field uuid_hex raw),
      created_at = fst (created_at_field now_iso raw), sender = sndr, audience = aud,
      domain = dmn, intent = intt, priority = fst (snd (priority_field raw)), payload = pay,
      content_hash = sha (utf8 (projr (canonical_json 1 sndr aud dmn intt pay))),
      idempotency_key = sha (utf8 (projr (json_dumps True '', '' '': '' pay))),
      correlation_id = optional_text (get_value raw ''correlation_id''),
      root_task_id = optional_text (get_value raw ''root_task_id''),
      causal_parent_id = optional_text (get_value raw ''causal_parent_id''),
      requires_ack = snd (requires_ack_field raw),
      expires_at = optional_text (get_value raw ''expires_at''),
      authority_ref = optional_text (get_value raw ''authority_ref''),
      source_refs = snd (source_refs_field raw)\<rparr>)"

definition input_complete :: "string \<Rightarrow> string \<Rightarrow> pymap \<Rightarrow> bool" where
  "input_complete uuid_hex now_iso raw \<longleftrightarrow>
     \<not> snd (message_id_field uuid_hex raw) \<and> \<not> snd (created_at_field now_iso raw) \<and>
     \<not> snd (snd (audience_field raw)) \<and> \<not> snd (snd (priority_field raw))"

lemma from_mapping_accepts:
  assumes "header_ok raw" "taxonomy_ok raw" "fields_ok raw"
  shows "from_mapping sha uuid_hex now_iso raw =
    Inr \<lparr>classification = (if input_complete uuid_hex now_iso raw then VALID else NORMALIZED),
         envelope = Some (built_envelope sha uuid_hex now_iso raw), errors = []\<rparr>"
proof -
  let ?p = "get_value raw ''payload''"
  obtain t where t: "json_dumps True '', '' '': '' ?p = Inr t"
    using assms(3) json_dumps_ok(1) by (metis fields_ok_def)
  obtain c where c: "canonical_json 1 (strip (text_of (get_value raw ''sender'')))
      (fst (snd (audience_field raw))) (fold_key (text_of (get_value raw ''domain'')))
      (fold_key (text_of (get_value raw ''intent''))) ?p = Inr c"
    using assms(3) canonical_json_ok by (metis fields_ok_def)
  show ?thesis
    using assms t c
    by (simp add: from_mapping_def header_ok_def taxonomy_ok_def fields_ok_def Let_def
        case_prod_unfold built_envelope_def input_complete_def)
qed

lemma from_mapping_no_header:
  "\<not> header_ok raw \<Longrightarrow>
    \<exists>errs. errs \<noteq> [] \<and> from_mapping sha uuid_hex now_iso raw = Inr (rejected errs)"
  by (auto simp: from_mapping_def header_ok_def Let_def required_text_def)

lemma from_mapping_dlq:
  assumes "header_ok raw" and "\<not> taxonomy_ok raw"
  shows "\<exists>errs. errs \<noteq> [] \<and> set errs \<subseteq> {''domain'', ''intent''} \<and>
    from_mapping sha uuid_hex now_iso raw =
      Inr \<lparr>classification = DLQ, envelope = None, errors = errs\<rparr>"
  using assms by (auto simp: from_mapping_def header_ok_def taxonomy_ok_def Let_def)

lemma from_mapping_bad_fields:
  assumes "header_ok raw" and "taxonomy_ok raw" and "\<not> fields_ok raw"
  shows "\<exists>errs. errs \<noteq> [] \<and> from_mapping sha uuid_hex now_iso raw = Inr (rejected errs)"
proof (cases "fst (audience_field raw) @ fst (priority_field raw) @
    fst (requires_ack_field raw) @ fst (source_refs_field raw) = []")
  case True
  then have "\<not> json_ok (get_value raw ''payload'')"
    using assms(3) by (simp add: fields_ok_def)
  then obtain e where "json_dumps True '', '' '': '' (get_value raw ''payload'') = Inl e"
    using json_dumps_ok(1) by (metis obj_sumE)
  with True assms(1,2) show ?thesis
    by (auto simp: from_mapping_def rejected_def header_ok_def taxonomy_ok_def Let_def case_prod_unfold)
next
  case False
  with assms(1,2) show ?thesis
    by (auto simp: from_mapping_def rejected_def header_ok_def taxonomy_ok_def Let_def
        case_prod_unfold)
qed

text \<open>The invariant of every envelope the code produces.\<close>

definition env_wf :: "radar_envelope \<Rightarrow> bool" where
  "env_wf e \<longleftrightarrow>
     schema_version e = 1 \<and> clean (sender e) \<and>
     domain e \<in> set ALLOWED_DOMAINS \<and> intent e \<in> set ALLOWED_INTENTS \<and>
     MIN_PRIORITY \<le> priority e \<and> priority e \<le> MAX_PRIORITY \<and>
     distinct (audience e) \<and> list_all canonical_key (audience e) \<and>
     list_all clean (source_refs e) \<and> json_ok (payload e) \<and>
     pred_option clean (correlation_id e) \<and> pred_option clean (root_task_id e) \<and>
     pred_option clean (causal_parent_id e) \<and> pred_option clean (expires_at e) \<and>
     pred_option clean (authority_ref e)"

text \<open>The digests are those of the envelope's own fields.\<close>

definition env_sealed :: "(string \<Rightarrow> string) \<Rightarrow> radar_envelope \<Rightarrow> bool" where
  "env_sealed sha e \<longleftrightarrow>
     content_hash e = sha (utf8 (projr
       (canonical_json 1 (sender e) (audience e) (domain e) (intent e) (payload e)))) \<and>
     idempotency_key e = sha (utf8 (projr (json_dumps True '', '' '': '' (payload e))))"

lemma optional_text_clean: "pred_option clean (optional_text v)"
  by (auto simp: optional_text_def is_text_iff)

lemma audience_field_wf:
  "distinct (fst (snd (audience_field raw))) \<and>
   list_all canonical_key (fst (snd (audience_field raw)))"
  by (auto simp: audience_field_def Let_def list_all_iff is_text_iff uniq_id split: option.split)

lemma source_refs_field_wf: "list_all clean (snd (source_refs_field raw))"
  by (auto simp: source_refs_field_def Let_def list_all_iff is_text_iff split: option.split)

lemma priority_field_wf:
  "fst (priority_field raw) = [] \<Longrightarrow>
     MIN_PRIORITY \<le> fst (snd (priority_field raw)) \<and> fst (snd (priority_field raw)) \<le> MAX_PRIORITY"
  by (auto simp: priority_field_def priority_defs split: option.splits pyval.splits if_splits)

lemma built_envelope_wf:
  assumes "header_ok raw" "taxonomy_ok raw" "fields_ok raw"
  shows "env_wf (built_envelope sha uuid_hex now_iso raw)"
  using assms audience_field_wf [of raw] source_refs_field_wf [of raw] priority_field_wf [of raw]
  by (auto simp: env_wf_def built_envelope_def Let_def header_ok_def taxonomy_ok_def fields_ok_def
      is_text_iff optional_text_clean)

lemma built_envelope_sealed:
  "env_sealed sha (built_envelope sha uuid_hex now_iso raw)"
  by (simp add: env_sealed_def built_envelope_def Let_def)

section \<open>The dictionary form reads back\<close>

lemma to_dict_get:
  "get_value (to_dict e) ''schema_version'' = PInt (schema_version e)"
  "get_value (to_dict e) ''message_id'' = PStr (message_id e)"
  "get_value (to_dict e) ''created_at'' = PStr (created_at e)"
  "get_value (to_dict e) ''sender'' = PStr (sender e)"
  "get_value (to_dict e) ''audience'' = PList (map PStr (audience e))"
  "get_value (to_dict e) ''domain'' = PStr (domain e)"
  "get_value (to_dict e) ''intent'' = PStr (intent e)"
  "dict_get (to_dict e) ''priority'' = Some (PInt (priority e))"
  "get_value (to_dict e) ''payload'' = payload e"
  "get_value (to_dict e) ''correlation_id'' = opt_text (correlation_id e)"
  "get_value (to_dict e) ''root_task_id'' = opt_text (root_task_id e)"
  "get_value (to_dict e) ''causal_parent_id'' = opt_text (causal_parent_id e)"
  "get_default (to_dict e) ''requires_ack'' d = PBool (requires_ack e)"
  "get_value (to_dict e) ''expires_at'' = opt_text (expires_at e)"
  "get_value (to_dict e) ''authority_ref'' = opt_text (authority_ref e)"
  "get_default (to_dict e) ''source_refs'' d = PList (map PStr (source_refs e))"
  "missing_fields (to_dict e) = []"
  by (simp_all add: get_value_def get_default_def to_dict_def missing_fields_def
      required_fields_def)

lemma optional_text_opt_text: "pred_option clean x \<Longrightarrow> optional_text (opt_text x) = x"
  by (cases x) (simp_all add: opt_text_def optional_text_def clean_not_blank clean_strip_eq)

lemma allowed_canonical:
  "d \<in> set ALLOWED_DOMAINS \<Longrightarrow> canonical_key d" "i \<in> set ALLOWED_INTENTS \<Longrightarrow> canonical_key i"
proof -
  have "list_all canonical_key (ALLOWED_DOMAINS @ ALLOWED_INTENTS)"
    by code_simp
  then show "d \<in> set ALLOWED_DOMAINS \<Longrightarrow> canonical_key d"
    and "i \<in> set ALLOWED_INTENTS \<Longrightarrow> canonical_key i"
    by (simp_all add: list_all_iff)
qed

lemma to_dict_fields:
  assumes "env_wf e"
  shows "audience_field (to_dict e) = ([], audience e, False)"
    and "priority_field (to_dict e) = ([], priority e, False)"
    and "requires_ack_field (to_dict e) = ([], requires_ack e)"
    and "source_refs_field (to_dict e) = ([], source_refs e)"
proof -
  have aud: "map (\<lambda>x. fold_key (text_of x)) (map PStr (audience e)) = audience e"
    using assms by (auto simp: env_wf_def list_all_iff canonical_key_eq intro!: map_idI)
  show "audience_field (to_dict e) = ([], audience e, False)"
    using assms aud
    by (auto simp: audience_field_def to_dict_get sequence_of_def list_all_iff env_wf_def
        canonical_key_not_blank uniq_id comp_def)
  have refs: "map (\<lambda>x. strip (text_of x)) (map PStr (source_refs e)) = source_refs e"
    using assms by (auto simp: env_wf_def list_all_iff clean_strip_eq intro!: map_idI)
  show "source_refs_field (to_dict e) = ([], source_refs e)"
    using assms refs
    by (auto simp: source_refs_field_def to_dict_get sequence_of_def list_all_iff env_wf_def
        clean_not_blank comp_def)
qed (use assms in \<open>simp_all add: priority_field_def requires_ack_field_def to_dict_get env_wf_def
      truthy_def\<close>)

lemma to_dict_accepted:
  assumes "env_wf e"
  shows "header_ok (to_dict e)" "taxonomy_ok (to_dict e)" "fields_ok (to_dict e)"
  using assms allowed_canonical [of "domain e"] allowed_canonical(2) [of "intent e"]
  by (auto simp: header_ok_def taxonomy_ok_def fields_ok_def to_dict_fields to_dict_get env_wf_def
      schema_ok_def clean_not_blank canonical_key_not_blank canonical_key_eq)

lemma built_envelope_to_dict:
  assumes "env_wf e" "env_sealed sha e" "clean (message_id e)" "clean (created_at e)"
  shows "built_envelope sha uuid_hex now_iso (to_dict e) = e"
    and "input_complete uuid_hex now_iso (to_dict e)"
proof -
  have mid: "message_id_field uuid_hex (to_dict e) = (message_id e, False)"
    and cat: "created_at_field now_iso (to_dict e) = (created_at e, False)"
    using assms(3,4) by (simp_all add: message_id_field_def created_at_field_def to_dict_get
        clean_not_blank clean_strip_eq)
  then show "input_complete uuid_hex now_iso (to_dict e)"
    using assms(1) by (simp add: input_complete_def to_dict_fields)
  have "fold_key (domain e) = domain e" "fold_key (intent e) = intent e"
    "strip (sender e) = sender e"
    using assms(1) allowed_canonical by (simp_all add: env_wf_def canonical_key_eq clean_strip_eq)
  moreover have "optional_text (opt_text x) = x"
    if "x \<in> {correlation_id e, root_task_id e, causal_parent_id e, expires_at e, authority_ref e}" for x
    using assms(1) that by (auto simp: env_wf_def intro!: optional_text_opt_text)
  ultimately show "built_envelope sha uuid_hex now_iso (to_dict e) = e"
    using assms(1,2) mid cat
    by (intro radar_envelope.equality)
      (simp_all add: built_envelope_def Let_def to_dict_fields to_dict_get env_sealed_def env_wf_def)
qed

lemma to_dict_from_mapping:
  assumes "env_wf e" "env_sealed sha e" "clean (message_id e)" "clean (created_at e)"
  shows "from_mapping sha uuid_hex now_iso (to_dict e) =
    Inr \<lparr>classification = VALID, envelope = Some e, errors = []\<rparr>"
  using from_mapping_accepts [OF to_dict_accepted [OF assms(1)]] built_envelope_to_dict [OF assms]
  by simp

section \<open>Properties\<close>

text \<open>The five outcomes, by the stage that decides.\<close>

lemma from_mapping_outcomes:
  obtains (no_header) errs where "\<not> header_ok raw" "errs \<noteq> []"
      "from_mapping sha uuid_hex now_iso raw = Inr (rejected errs)"
  | (dlq) errs where "header_ok raw" "\<not> taxonomy_ok raw" "errs \<noteq> []"
      "from_mapping sha uuid_hex now_iso raw =
         Inr \<lparr>classification = DLQ, envelope = None, errors = errs\<rparr>"
  | (bad_fields) errs where "header_ok raw" "taxonomy_ok raw" "\<not> fields_ok raw" "errs \<noteq> []"
      "from_mapping sha uuid_hex now_iso raw = Inr (rejected errs)"
  | (accepted) "header_ok raw" "taxonomy_ok raw" "fields_ok raw"
      "from_mapping sha uuid_hex now_iso raw =
         Inr \<lparr>classification = (if input_complete uuid_hex now_iso raw then VALID else NORMALIZED),
              envelope = Some (built_envelope sha uuid_hex now_iso raw), errors = []\<rparr>"
  using from_mapping_no_header from_mapping_dlq from_mapping_bad_fields from_mapping_accepts
  by metis

lemma from_mapping_envelope:
  assumes "from_mapping sha uuid_hex now_iso raw = Inr r" and "envelope r = Some e"
  shows "header_ok raw \<and> taxonomy_ok raw \<and> fields_ok raw \<and>
    e = built_envelope sha uuid_hex now_iso raw \<and> classification r \<in> {VALID, NORMALIZED}"
  using assms
  by (cases rule: from_mapping_outcomes [of raw sha uuid_hex now_iso])
    (auto simp: rejected_def split: if_splits)

lemma from_mapping_env_wf:
  "from_mapping sha uuid_hex now_iso raw = Inr r \<Longrightarrow> envelope r = Some e \<Longrightarrow>
    env_wf e \<and> env_sealed sha e"
  using from_mapping_envelope built_envelope_wf built_envelope_sealed by blast

text \<open>A concrete message, used to show that hypotheses can hold.\<close>

definition sample_raw :: pymap where
  "sample_raw =
    [(''schema_version'', PInt 1), (''message_id'', PStr '' m-1 ''),
     (''created_at'', PStr ''2026-09-01T00:00:00Z''), (''sender'', PStr ''radar''),
     (''audience'', PList [PStr ''Beta'', PStr '' beta'']), (''domain'', PStr ''UI''),
     (''intent'', PStr ''event''), (''priority'', PInt 2),
     (''payload'', PDict [(''b'', PInt 1), (''a'', PInt 2)])]"

definition sample_raw_swapped :: pymap where
  "sample_raw_swapped =
    [(''schema_version'', PInt 1), (''sender'', PStr ''beta''), (''domain'', PStr ''system''),
     (''intent'', PStr ''query''), (''payload'', PDict [(''a'', PInt 2), (''b'', PInt 1)])]"

lemma sample_raw_ok: "header_ok sample_raw" "taxonomy_ok sample_raw" "fields_ok sample_raw"
  and sample_raw_swapped_ok: "header_ok sample_raw_swapped" "taxonomy_ok sample_raw_swapped"
    "fields_ok sample_raw_swapped"
  by code_simp+

lemmas sample_accepted = from_mapping_accepts [OF sample_raw_ok]
  from_mapping_accepts [OF sample_raw_swapped_ok]


text \<open>
  C7: every envelope the classifier returns is well formed: schema version 1, a known domain
  and intent, a priority in 0..4, a duplicate-free audience of canonical keys, stripped texts,
  a payload JSON can carry; and its two digests are those of its own contents, whatever digests
  the caller supplied.
\<close>

theorem from_mapping_wf:
  "from_mapping sha uuid_hex now_iso raw = Inr r \<Longrightarrow> envelope r = Some e \<Longrightarrow>
    env_wf e \<and> env_sealed sha e"
  by (rule from_mapping_env_wf)

theorem from_mapping_wf_witness:
  "env_wf (built_envelope (\<lambda>b. b) ''ab'' ''t'' sample_raw) \<and>
   env_sealed (\<lambda>b. b) (built_envelope (\<lambda>b. b) ''ab'' ''t'' sample_raw)"
  by (rule from_mapping_wf [OF sample_accepted(1)]) simp

text \<open>
  C8: the dictionary form of an accepted envelope reads back: classifying it again, with any
  clock and any random source, gives the same envelope, and as VALID (nothing is left to
  normalise). The generated message id and timestamp only have to be stripped texts.
\<close>

theorem from_mapping_to_dict_roundtrip:
  assumes "from_mapping sha uuid_hex now_iso raw = Inr r" and "envelope r = Some e"
    and "clean (message_id e)" and "clean (created_at e)"
  shows "from_mapping sha uuid_hex' now_iso' (to_dict e) =
    Inr \<lparr>classification = VALID, envelope = Some e, errors = []\<rparr>"
  using from_mapping_env_wf [OF assms(1,2)] assms(3,4) by (simp add: to_dict_from_mapping)

theorem from_mapping_to_dict_roundtrip_witness:
  "from_mapping (\<lambda>b. b) ''cd'' ''u'' (to_dict (built_envelope (\<lambda>b. b) ''ab'' ''t'' sample_raw)) =
    Inr \<lparr>classification = VALID,
         envelope = Some (built_envelope (\<lambda>b. b) ''ab'' ''t'' sample_raw), errors = []\<rparr>"
proof (rule from_mapping_to_dict_roundtrip [OF sample_accepted(1)])
  show "clean (message_id (built_envelope (\<lambda>b. b) ''ab'' ''t'' sample_raw))"
    and "clean (created_at (built_envelope (\<lambda>b. b) ''ab'' ''t'' sample_raw))"
    by code_simp+
qed simp

text \<open>
  The idempotency key, which drives duplicate suppression, is a canonical function of the
  payload: two accepted messages whose payload objects have the same members in any order get
  the same key, whatever else they carry.
\<close>

theorem idempotency_key_canonical:
  assumes "from_mapping sha u n raw = Inr r" and "envelope r = Some e"
    and "from_mapping sha u' n' raw' = Inr r'" and "envelope r' = Some e'"
    and "payload e = PDict ms" and "payload e' = PDict ms'"
    and "mset ms = mset ms'" and "distinct (map fst ms)"
  shows "idempotency_key e = idempotency_key e'"
proof -
  have "json_dumps a isep ksep (payload e) = json_dumps a isep ksep (payload e')" for a isep ksep
    unfolding assms(5,6) using assms(7,8) by (rule json_dumps_perm)
  then show ?thesis
    using from_mapping_env_wf [OF assms(1,2)] from_mapping_env_wf [OF assms(3,4)]
    by (simp add: env_sealed_def)
qed

theorem idempotency_key_canonical_witness:
  "idempotency_key (built_envelope (\<lambda>b. b) ''ab'' ''t'' sample_raw) =
   idempotency_key (built_envelope (\<lambda>b. b) ''cd'' ''u'' sample_raw_swapped)"
proof (rule idempotency_key_canonical [OF sample_accepted(1) _ sample_accepted(2)])
  show "payload (built_envelope (\<lambda>b. b) ''ab'' ''t'' sample_raw) =
      PDict [(''b'', PInt 1), (''a'', PInt 2)]"
    and "payload (built_envelope (\<lambda>b. b) ''cd'' ''u'' sample_raw_swapped) =
      PDict [(''a'', PInt 2), (''b'', PInt 1)]"
    by code_simp+
qed (simp_all add: add_mset_commute)

end
