(* ===== verification/Registry.thy ===== *)
theory Registry
  imports Envelope
begin

text \<open>
  The registry of identities, nodes, endpoints and subscriptions:
  \<open>src/src/radar/model.py\<close> and \<open>src/src/radar/registry.py\<close>. The registry's lock serialises its
  methods, so each method is one transition of the \<open>registry\<close> record. A method that fails
  returns an exception and no new state: the code mutates its dictionaries only after the last
  check.
\<close>

section \<open>The data model\<close>

datatype node_status =
  ONLINE | IDLE | WORKING | WAITING_DEPENDENCY | DEGRADED | OFFLINE | PAUSED | ARCHIVED

record identity =
  identity_id :: string
  display_name :: string
  aliases :: "string list"

record node =
  node_id :: string
  node_identity :: string
  status :: node_status
  last_heartbeat_ms :: "int option"
  lease_expires_ms :: "int option"

record endpoint =
  endpoint_id :: string
  endpoint_identity :: string
  transport :: string
  address :: string

record subscription =
  sub_node :: string
  sub_identity :: string
  sub_domain :: string
  sub_intent :: "string option"
  min_priority :: int
  enabled :: bool

record registry =
  identities :: "(string, identity) dict"
  alias_map :: "(string, string) dict"
  nodes :: "(string, node) dict"
  endpoints :: "(string, endpoint) dict"
  subscriptions :: "subscription list"

definition empty_registry :: registry where
  "empty_registry = \<lparr>identities = [], alias_map = [], nodes = [], endpoints = [],
    subscriptions = []\<rparr>"

definition ROUTABLE_NODE_STATUSES :: "node_status list" where
  "ROUTABLE_NODE_STATUSES = [ONLINE, IDLE, WORKING, WAITING_DEPENDENCY, DEGRADED]"

section \<open>Validators\<close>

definition normalize_identifier :: "string \<Rightarrow> exn + string" where
  "normalize_identifier value =
    (if blank value then Inl (RegistryError ''INVALID_IDENTIFIER'')
     else Inr (casefold (strip value)))"

definition priority_value :: "pyval \<Rightarrow> exn + int" where
  "priority_value value = (case value of
      PInt p \<Rightarrow> if 0 \<le> p \<and> p \<le> 4 then Inr p else Inl (RegistryError ''INVALID_PRIORITY'')
    | _ \<Rightarrow> Inl (RegistryError ''INVALID_PRIORITY''))"

definition subscription_domain :: "pyval \<Rightarrow> exn + string" where
  "subscription_domain value =
    (if \<not> is_text value then Inl (RegistryError ''DOMAIN_REQUIRED'')
     else let dmn = casefold (strip (text_of value)) in
       if dmn \<notin> set ALLOWED_DOMAINS then Inl (RegistryError ''UNKNOWN_DOMAIN'') else Inr dmn)"

definition subscription_intent :: "pyval \<Rightarrow> exn + string option" where
  "subscription_intent value =
    (if value = PNone then Inr None
     else if \<not> is_text value then Inl (RegistryError ''INTENT_REQUIRED'')
     else let intt = casefold (strip (text_of value)) in
       if intt \<notin> set ALLOWED_INTENTS then Inl (RegistryError ''UNKNOWN_INTENT'')
       else Inr (Some intt))"

definition millisecond_value :: "pyval \<Rightarrow> bool \<Rightarrow> exn + int option" where
  "millisecond_value value allow_none =
    (if value = PNone \<and> allow_none then Inr None
     else case value of
       PInt i \<Rightarrow> if i < 0 then Inl (RegistryError ''INVALID_NODE_LEASE_TIME'') else Inr (Some i)
     | _ \<Rightarrow> Inl (RegistryError ''INVALID_NODE_LEASE_TIME''))"

text \<open>\<open>isinstance(status, NodeStatus)\<close>, or a value \<open>NodeStatus(...)\<close> has to recognise.\<close>

datatype status_arg = StatusEnum node_status | StatusRaw pyval

definition status_values :: "(string, node_status) dict" where
  "status_values =
    [(''ONLINE'', ONLINE), (''IDLE'', IDLE), (''WORKING'', WORKING),
     (''WAITING_DEPENDENCY'', WAITING_DEPENDENCY), (''DEGRADED'', DEGRADED),
     (''OFFLINE'', OFFLINE), (''PAUSED'', PAUSED), (''ARCHIVED'', ARCHIVED)]"

definition node_status_of :: "status_arg \<Rightarrow> exn + node_status" where
  "node_status_of arg = (case arg of
      StatusEnum st \<Rightarrow> Inr st
    | StatusRaw (PStr s) \<Rightarrow>
        (case dict_get status_values s of
           Some st \<Rightarrow> Inr st | None \<Rightarrow> Inl (RegistryError ''INVALID_NODE_STATUS''))
    | StatusRaw _ \<Rightarrow> Inl (RegistryError ''INVALID_NODE_STATUS''))"

section \<open>Identities\<close>

fun normalize_aliases :: "string \<Rightarrow> string list \<Rightarrow> string list \<Rightarrow> exn + string list" where
  "normalize_aliases canonical acc [] = Inr acc"
| "normalize_aliases canonical acc (a # as) =
    bindE (normalize_identifier a) (\<lambda>normalized.
    if normalized = canonical \<or> normalized \<in> set acc then Inl (RegistryError ''ALIAS_COLLISION'')
    else normalize_aliases canonical (acc @ [normalized]) as)"

definition register_identity ::
  "registry \<Rightarrow> string \<Rightarrow> string \<Rightarrow> string list \<Rightarrow> exn + identity \<times> registry" where
  "register_identity r ident display als =
    bindE (normalize_identifier ident) (\<lambda>canonical.
    if blank display then Inl (RegistryError ''DISPLAY_NAME_REQUIRED'')
    else bindE (normalize_aliases canonical [] als) (\<lambda>normalized.
      let new = \<lparr>identity_id = canonical, display_name = strip display, aliases = normalized\<rparr> in
      if dict_has (identities r) canonical \<or> dict_has (alias_map r) canonical
      then Inl (RegistryError ''IDENTITY_COLLISION'')
      else if list_ex (\<lambda>a. dict_has (identities r) a \<or> dict_has (alias_map r) a) normalized
      then Inl (RegistryError ''ALIAS_COLLISION'')
      else Inr (new,
        r\<lparr>identities := dict_set (identities r) canonical new,
          alias_map := fold (\<lambda>a m. dict_set m a canonical) normalized (alias_map r)\<rparr>)))"

definition resolve_identity_id :: "registry \<Rightarrow> string \<Rightarrow> exn + string" where
  "resolve_identity_id r value =
    bindE (normalize_identifier value) (\<lambda>key.
    if dict_has (identities r) key then Inr key
    else case dict_get (alias_map r) key of
      None \<Rightarrow> Inl (RegistryError ''UNKNOWN_IDENTITY'')
    | Some canonical \<Rightarrow> Inr canonical)"

definition get_identity :: "registry \<Rightarrow> string \<Rightarrow> exn + identity" where
  "get_identity r ident =
    bindE (resolve_identity_id r ident) (\<lambda>canonical.
    case dict_get (identities r) canonical of
      None \<Rightarrow> Inl (RegistryError ''UNKNOWN_IDENTITY'')
    | Some i \<Rightarrow> Inr i)"

definition list_identities :: "registry \<Rightarrow> identity list" where
  "list_identities r = map snd (sort_key fst (identities r))"

section \<open>Nodes\<close>

definition register_node ::
  "registry \<Rightarrow> string \<Rightarrow> string \<Rightarrow> status_arg \<Rightarrow> pyval \<Rightarrow> pyval \<Rightarrow> exn + node \<times> registry" where
  "register_node r nid ident st hb_arg lease_arg =
    bindE (normalize_identifier nid) (\<lambda>canonical_node.
    bindE (resolve_identity_id r ident) (\<lambda>canonical_identity.
    bindE (millisecond_value hb_arg True) (\<lambda>heartbeat.
    bindE (millisecond_value lease_arg True) (\<lambda>lease.
    if (case (heartbeat, lease) of (Some h, Some l) \<Rightarrow> l < h | _ \<Rightarrow> False)
    then Inl (RegistryError ''INVALID_NODE_LEASE_TIME'')
    else if dict_has (nodes r) canonical_node then Inl (RegistryError ''NODE_COLLISION'')
    else bindE (node_status_of st) (\<lambda>stat.
      let new = \<lparr>node_id = canonical_node, node_identity = canonical_identity, status = stat,
                 last_heartbeat_ms = heartbeat, lease_expires_ms = lease\<rparr> in
      Inr (new, r\<lparr>nodes := dict_set (nodes r) canonical_node new\<rparr>))))))"

definition get_node :: "registry \<Rightarrow> string \<Rightarrow> exn + node" where
  "get_node r nid =
    bindE (normalize_identifier nid) (\<lambda>key.
    case dict_get (nodes r) key of
      None \<Rightarrow> Inl (RegistryError ''UNKNOWN_NODE'')
    | Some n \<Rightarrow> Inr n)"

definition identity_nodes :: "registry \<Rightarrow> string \<Rightarrow> node list" where
  "identity_nodes r canonical =
     sort_key node_id (filter (\<lambda>n. node_identity n = canonical) (map snd (nodes r)))"

definition nodes_for_identity :: "registry \<Rightarrow> string \<Rightarrow> exn + node list" where
  "nodes_for_identity r ident =
    bindE (resolve_identity_id r ident) (\<lambda>canonical. Inr (identity_nodes r canonical))"

text \<open>The lease test: a routable status, and the clock inside the half-open lease interval.\<close>

definition node_live :: "node \<Rightarrow> int \<Rightarrow> bool" where
  "node_live n now \<longleftrightarrow> status n \<in> set ROUTABLE_NODE_STATUSES \<and>
    (case (last_heartbeat_ms n, lease_expires_ms n) of
       (Some h, Some l) \<Rightarrow> h \<le> now \<and> now < l
     | _ \<Rightarrow> False)"

definition node_is_routable :: "registry \<Rightarrow> string \<Rightarrow> pyval \<Rightarrow> exn + bool" where
  "node_is_routable r nid now_ms =
    bindE (millisecond_value now_ms False) (\<lambda>now.
    bindE (get_node r nid) (\<lambda>n. Inr (node_live n (the now))))"

definition identity_has_routable_node :: "registry \<Rightarrow> string \<Rightarrow> pyval \<Rightarrow> exn + bool" where
  "identity_has_routable_node r ident now_ms =
    bindE (resolve_identity_id r ident) (\<lambda>canonical.
    bindE (nodes_for_identity r canonical) (\<lambda>ns.
    anyE (\<lambda>n. node_is_routable r (node_id n) now_ms) ns))"

definition set_node_status :: "registry \<Rightarrow> string \<Rightarrow> status_arg \<Rightarrow> exn + node \<times> registry" where
  "set_node_status r nid st =
    bindE (get_node r nid) (\<lambda>current.
    bindE (node_status_of st) (\<lambda>stat.
    let updated = current\<lparr>status := stat\<rparr> in
    Inr (updated, r\<lparr>nodes := dict_set (nodes r) (node_id current) updated\<rparr>)))"

section \<open>Endpoints\<close>

definition register_endpoint ::
  "registry \<Rightarrow> string \<Rightarrow> string \<Rightarrow> pyval \<Rightarrow> pyval \<Rightarrow> exn + endpoint \<times> registry" where
  "register_endpoint r eid ident tran_arg addr_arg =
    bindE (normalize_identifier eid) (\<lambda>canonical_endpoint.
    bindE (resolve_identity_id r ident) (\<lambda>canonical_identity.
    if \<not> is_text tran_arg then Inl (RegistryError ''TRANSPORT_REQUIRED'')
    else if \<not> is_text addr_arg then Inl (RegistryError ''ADDRESS_REQUIRED'')
    else
      let new = \<lparr>endpoint_id = canonical_endpoint, endpoint_identity = canonical_identity,
                 transport = casefold (strip (text_of tran_arg)), address = strip (text_of addr_arg)\<rparr> in
      if dict_has (endpoints r) canonical_endpoint
      then Inl (RegistryError ''ENDPOINT_COLLISION'')
      else Inr (new, r\<lparr>endpoints := dict_set (endpoints r) canonical_endpoint new\<rparr>)))"

definition get_endpoint :: "registry \<Rightarrow> string \<Rightarrow> exn + endpoint" where
  "get_endpoint r eid =
    bindE (normalize_identifier eid) (\<lambda>key.
    case dict_get (endpoints r) key of
      None \<Rightarrow> Inl (RegistryError ''UNKNOWN_ENDPOINT'')
    | Some e \<Rightarrow> Inr e)"

section \<open>Subscriptions\<close>

definition resolve_subscription_node :: "registry \<Rightarrow> string \<Rightarrow> exn + node" where
  "resolve_subscription_node r target =
    bindE (normalize_identifier target) (\<lambda>key.
    case dict_get (nodes r) key of
      Some direct \<Rightarrow> Inr direct
    | None \<Rightarrow>
        bindE (resolve_identity_id r target) (\<lambda>canonical_identity.
        bindE (nodes_for_identity r canonical_identity) (\<lambda>ns.
        case ns of
          [n] \<Rightarrow> Inr n
        | _ \<Rightarrow> Inl (RegistryError ''AMBIGUOUS_SUBSCRIPTION_TARGET''))))"

definition subscribe ::
  "registry \<Rightarrow> string \<Rightarrow> pyval \<Rightarrow> pyval \<Rightarrow> pyval \<Rightarrow> pyval \<Rightarrow> exn + subscription \<times> registry" where
  "subscribe r target dmn_arg int_arg prio_arg enabled_arg =
    bindE (subscription_domain dmn_arg) (\<lambda>dmn.
    bindE (priority_value prio_arg) (\<lambda>prio.
    bindE (case enabled_arg of PBool b \<Rightarrow> Inr b
           | _ \<Rightarrow> Inl (RegistryError ''INVALID_SUBSCRIPTION_ENABLED'')) (\<lambda>en.
    bindE (subscription_intent int_arg) (\<lambda>intt.
    bindE (resolve_subscription_node r target) (\<lambda>n.
    let sub = \<lparr>sub_node = node_id n, sub_identity = node_identity n, sub_domain = dmn,
               sub_intent = intt, min_priority = prio, enabled = en\<rparr> in
    Inr (sub,
      if sub \<in> set (subscriptions r) then r
      else r\<lparr>subscriptions := subscriptions r @ [sub]\<rparr>))))))"

definition sub_accepts :: "subscription \<Rightarrow> string \<Rightarrow> int \<Rightarrow> string option \<Rightarrow> bool" where
  "sub_accepts sub key pr intt \<longleftrightarrow>
    enabled sub \<and> sub_domain sub = key \<and> pr \<le> min_priority sub \<and>
    (intt = None \<or> sub_intent sub = None \<or> sub_intent sub = intt)"

definition subscriptions_for_domain ::
  "registry \<Rightarrow> pyval \<Rightarrow> pyval \<Rightarrow> pyval \<Rightarrow> exn + subscription list" where
  "subscriptions_for_domain r dmn_arg prio_arg int_arg =
    bindE (subscription_domain dmn_arg) (\<lambda>key.
    bindE (priority_value prio_arg) (\<lambda>pr.
    bindE (subscription_intent int_arg) (\<lambda>intt.
    Inr (filter (\<lambda>sub. sub_accepts sub key pr intt) (subscriptions r)))))"

definition node_is_subscribed ::
  "registry \<Rightarrow> string \<Rightarrow> pyval \<Rightarrow> pyval \<Rightarrow> pyval \<Rightarrow> exn + bool" where
  "node_is_subscribed r nid dmn int_arg prio =
    bindE (get_node r nid) (\<lambda>n.
    bindE (subscriptions_for_domain r dmn prio int_arg) (\<lambda>subs.
    Inr (\<exists>sub \<in> set subs. sub_node sub = node_id n)))"

definition identity_is_subscribed ::
  "registry \<Rightarrow> string \<Rightarrow> pyval \<Rightarrow> pyval \<Rightarrow> pyval \<Rightarrow> exn + bool" where
  "identity_is_subscribed r ident dmn prio int_arg =
    bindE (resolve_identity_id r ident) (\<lambda>canonical.
    bindE (subscriptions_for_domain r dmn prio int_arg) (\<lambda>subs.
    Inr (\<exists>sub \<in> set subs. sub_identity sub = canonical)))"

section \<open>The atomic recipient snapshot\<close>

fun resolve_ordered :: "registry \<Rightarrow> string list \<Rightarrow> string list \<Rightarrow> exn + string list" where
  "resolve_ordered r acc [] = Inr acc"
| "resolve_ordered r acc (i # is) =
    bindE (resolve_identity_id r i) (\<lambda>canonical.
    resolve_ordered r (if canonical \<in> set acc then acc else acc @ [canonical]) is)"

definition candidate_nodes :: "registry \<Rightarrow> string list option \<Rightarrow> node list" where
  "candidate_nodes r ids = (case ids of
      None \<Rightarrow> sort_key node_id (map snd (nodes r))
    | Some cs \<Rightarrow> concat (map (identity_nodes r) cs))"

definition node_receives ::
  "registry \<Rightarrow> pyval \<Rightarrow> pyval \<Rightarrow> pyval \<Rightarrow> pyval \<Rightarrow> node \<Rightarrow> exn + bool" where
  "node_receives r dmn int_arg prio now_ms n =
    bindE (node_is_routable r (node_id n) now_ms) (\<lambda>ok.
    if \<not> ok then Inr False else node_is_subscribed r (node_id n) dmn int_arg prio)"

definition routable_subscriber_node_ids ::
  "registry \<Rightarrow> pyval \<Rightarrow> pyval \<Rightarrow> pyval \<Rightarrow> pyval \<Rightarrow> string list option \<Rightarrow> exn + string list" where
  "routable_subscriber_node_ids r dmn int_arg prio now_ms ids =
    bindE (millisecond_value now_ms False) (\<lambda>now.
    bindE (case ids of None \<Rightarrow> Inr None
           | Some is \<Rightarrow> bindE (resolve_ordered r [] is) (\<lambda>cs. Inr (Some cs))) (\<lambda>canonical.
    bindE (keepE (node_receives r dmn int_arg prio (PInt (the now))) (candidate_nodes r canonical))
      (\<lambda>recipients. Inr (map node_id recipients))))"

section \<open>The invariant\<close>

definition identity_ok :: "registry \<Rightarrow> string \<Rightarrow> identity \<Rightarrow> bool" where
  "identity_ok r k i \<longleftrightarrow> identity_id i = k \<and> canonical_key k \<and> clean (display_name i) \<and>
     distinct (aliases i) \<and> (\<forall>a \<in> set (aliases i). dict_get (alias_map r) a = Some k)"

definition alias_ok :: "registry \<Rightarrow> string \<Rightarrow> string \<Rightarrow> bool" where
  "alias_ok r a c \<longleftrightarrow> canonical_key a \<and> \<not> dict_has (identities r) a \<and>
     (case dict_get (identities r) c of None \<Rightarrow> False | Some i \<Rightarrow> a \<in> set (aliases i))"

definition node_ok :: "registry \<Rightarrow> string \<Rightarrow> node \<Rightarrow> bool" where
  "node_ok r k n \<longleftrightarrow> node_id n = k \<and> canonical_key k \<and> dict_has (identities r) (node_identity n) \<and>
     pred_option (\<lambda>h. 0 \<le> h) (last_heartbeat_ms n) \<and> pred_option (\<lambda>l. 0 \<le> l) (lease_expires_ms n) \<and>
     (case (last_heartbeat_ms n, lease_expires_ms n) of (Some h, Some l) \<Rightarrow> h \<le> l | _ \<Rightarrow> True)"

definition endpoint_ok :: "registry \<Rightarrow> string \<Rightarrow> endpoint \<Rightarrow> bool" where
  "endpoint_ok r k e \<longleftrightarrow> endpoint_id e = k \<and> canonical_key k \<and>
     dict_has (identities r) (endpoint_identity e) \<and> canonical_key (transport e) \<and>
     clean (address e)"

definition sub_ok :: "registry \<Rightarrow> subscription \<Rightarrow> bool" where
  "sub_ok r s \<longleftrightarrow>
     (case dict_get (nodes r) (sub_node s) of None \<Rightarrow> False | Some n \<Rightarrow> node_identity n = sub_identity s) \<and>
     sub_domain s \<in> set ALLOWED_DOMAINS \<and> pred_option (\<lambda>i. i \<in> set ALLOWED_INTENTS) (sub_intent s) \<and>
     0 \<le> min_priority s \<and> min_priority s \<le> 4"

definition registry_wf :: "registry \<Rightarrow> bool" where
  "registry_wf r \<longleftrightarrow>
     dict_wf (identities r) \<and> dict_wf (alias_map r) \<and> dict_wf (nodes r) \<and> dict_wf (endpoints r) \<and>
     distinct (subscriptions r) \<and>
     dict_all (identity_ok r) (identities r) \<and> dict_all (alias_ok r) (alias_map r) \<and>
     dict_all (node_ok r) (nodes r) \<and> dict_all (endpoint_ok r) (endpoints r) \<and>
     list_all (sub_ok r) (subscriptions r)"

lemmas registry_ok_defs = identity_ok_def alias_ok_def node_ok_def endpoint_ok_def sub_ok_def

lemma registry_wf_empty [wf_intros]: "registry_wf empty_registry"
  by (simp add: registry_wf_def empty_registry_def)

lemma registry_wfD:
  assumes "registry_wf r"
  shows "dict_get (identities r) k = Some i \<Longrightarrow> identity_ok r k i"
    and "dict_get (alias_map r) k = Some c \<Longrightarrow> alias_ok r k c"
    and "dict_get (nodes r) k = Some n \<Longrightarrow> node_ok r k n"
    and "dict_get (endpoints r) k = Some e \<Longrightarrow> endpoint_ok r k e"
    and "s \<in> set (subscriptions r) \<Longrightarrow> sub_ok r s"
  using assms by (auto simp: registry_wf_def list_all_iff dest: dict_allD)

lemma registry_wfI:
  assumes "dict_wf (identities r)" "dict_wf (alias_map r)" "dict_wf (nodes r)" "dict_wf (endpoints r)"
    and "distinct (subscriptions r)"
    and "\<And>k i. dict_get (identities r) k = Some i \<Longrightarrow> identity_ok r k i"
    and "\<And>k c. dict_get (alias_map r) k = Some c \<Longrightarrow> alias_ok r k c"
    and "\<And>k n. dict_get (nodes r) k = Some n \<Longrightarrow> node_ok r k n"
    and "\<And>k e. dict_get (endpoints r) k = Some e \<Longrightarrow> endpoint_ok r k e"
    and "\<And>s. s \<in> set (subscriptions r) \<Longrightarrow> sub_ok r s"
  shows "registry_wf r"
  unfolding registry_wf_def using assms by (simp add: dict_all_get list_all_iff)

text \<open>Validators, as one-line facts.\<close>

lemma normalize_identifier_Inr:
  "normalize_identifier v = Inr k \<longleftrightarrow> \<not> blank v \<and> k = fold_key v"
  by (auto simp: normalize_identifier_def fold_key_def)

lemma normalize_canonical: "canonical_key k \<Longrightarrow> normalize_identifier k = Inr k"
  by (simp add: normalize_identifier_Inr canonical_key_def)

lemma subscription_domain_Inr:
  "subscription_domain v = Inr d \<longleftrightarrow> is_text v \<and> d = fold_key (text_of v) \<and> d \<in> set ALLOWED_DOMAINS"
  by (auto simp: subscription_domain_def fold_key_def Let_def)

lemma subscription_intent_Inr:
  "subscription_intent v = Inr i \<longleftrightarrow> v = PNone \<and> i = None \<or>
     v \<noteq> PNone \<and> is_text v \<and> i = Some (fold_key (text_of v)) \<and> fold_key (text_of v) \<in> set ALLOWED_INTENTS"
  by (auto simp: subscription_intent_def fold_key_def Let_def)

lemma priority_value_Inr: "priority_value v = Inr p \<longleftrightarrow> v = PInt p \<and> 0 \<le> p \<and> p \<le> 4"
  by (cases v) (auto simp: priority_value_def)

lemma millisecond_value_Inr:
  "millisecond_value v al = Inr t \<longleftrightarrow> v = PNone \<and> al \<and> t = None \<or> (\<exists>i. v = PInt i \<and> 0 \<le> i \<and> t = Some i)"
  by (cases v) (auto simp: millisecond_value_def)

lemmas validator_simps = normalize_identifier_Inr subscription_domain_Inr subscription_intent_Inr
  priority_value_Inr millisecond_value_Inr

lemma normalize_aliases_Inr:
  "normalize_aliases c acc as = Inr ns \<Longrightarrow> distinct acc \<Longrightarrow> c \<notin> set acc \<Longrightarrow>
     ns = acc @ map fold_key as \<and> distinct ns \<and> c \<notin> set ns \<and> (\<forall>a \<in> set as. \<not> blank a)"
  by (induction c acc as rule: normalize_aliases.induct)
    (fastforce simp: normalize_identifier_Inr split: if_splits)+

section \<open>Look-ups in a well-formed registry\<close>

lemma resolve_identity_Inr:
  "resolve_identity_id r v = Inr c \<longleftrightarrow> \<not> blank v \<and>
     (dict_has (identities r) (fold_key v) \<and> c = fold_key v \<or>
      \<not> dict_has (identities r) (fold_key v) \<and> dict_get (alias_map r) (fold_key v) = Some c)"
  by (auto simp: resolve_identity_id_def normalize_identifier_Inr split: option.splits)

lemma resolve_canonical:
  assumes "registry_wf r" "resolve_identity_id r v = Inr c"
  shows "canonical_key c \<and> dict_has (identities r) c \<and> resolve_identity_id r c = Inr c"
proof -
  have ok: "canonical_key k" if "dict_has (identities r) k" for k
    using that registry_wfD(1) [OF assms(1)] by (auto simp: identity_ok_def)
  have "dict_has (identities r) c"
    using assms(2) registry_wfD(2) [OF assms(1), of "fold_key v" c]
    by (auto simp: resolve_identity_Inr alias_ok_def split: option.splits)
  then show ?thesis
    using ok [of c] by (auto simp: resolve_identity_Inr canonical_key_def)
qed

lemma get_node_Inr: "get_node r v = Inr n \<longleftrightarrow> \<not> blank v \<and> dict_get (nodes r) (fold_key v) = Some n"
  by (auto simp: get_node_def normalize_identifier_Inr split: option.splits)

lemma get_node_wf: "registry_wf r \<Longrightarrow> dict_get (nodes r) k = Some n \<Longrightarrow> get_node r k = Inr n \<and> node_id n = k"
  using registry_wfD(3) [of r k n] by (auto simp: get_node_Inr node_ok_def canonical_key_def)

lemma node_values: "registry_wf r \<Longrightarrow> n \<in> set (map snd (nodes r)) \<longleftrightarrow> dict_get (nodes r) (node_id n) = Some n"
  using registry_wfD(3) [of r] dict_values_iff [of "nodes r" n]
  by (auto simp: registry_wf_def node_ok_def)

lemma distinct_node_ids: "registry_wf r \<Longrightarrow> distinct (map node_id (map snd (nodes r)))"
proof -
  assume wf: "registry_wf r"
  have "map node_id (map snd (nodes r)) = map fst (nodes r)"
    using wf by (auto simp: registry_wf_def dict_all_def node_ok_def)
  moreover have "distinct (map fst (nodes r))"
    using wf by (simp add: registry_wf_def)
  ultimately show ?thesis by (simp only:)
qed

section \<open>Every method keeps the invariant\<close>

lemma get_fold_set:
  "dict_get (fold (\<lambda>a m. dict_set m a c) as d) k = (if k \<in> set as then Some c else dict_get d k)"
  by (induction as arbitrary: d) auto

lemma wf_fold_set: "dict_wf d \<Longrightarrow> dict_wf (fold (\<lambda>a m. dict_set m a c) as d)"
  by (induction as arbitrary: d) auto

lemma register_identity_Inr:
  assumes "register_identity r ident display als = Inr (i, r')"
  shows "\<not> blank ident \<and> \<not> blank display \<and>
    i = \<lparr>identity_id = fold_key ident, display_name = strip display, aliases = map fold_key als\<rparr> \<and>
    (\<forall>a \<in> set als. \<not> blank a) \<and> distinct (fold_key ident # map fold_key als) \<and>
    (\<forall>k \<in> set (fold_key ident # map fold_key als).
       \<not> dict_has (identities r) k \<and> \<not> dict_has (alias_map r) k) \<and>
    r' = r\<lparr>identities := dict_set (identities r) (fold_key ident) i,
          alias_map := fold (\<lambda>a m. dict_set m a (fold_key ident)) (map fold_key als) (alias_map r)\<rparr>"
proof -
  obtain ns where ns: "normalize_aliases (fold_key ident) [] als = Inr ns"
    and blanks: "\<not> blank ident" "\<not> blank display"
    and free: "\<not> (dict_has (identities r) (fold_key ident) \<or> dict_has (alias_map r) (fold_key ident))"
      "\<not> list_ex (\<lambda>a. dict_has (identities r) a \<or> dict_has (alias_map r) a) ns"
    and res: "i = \<lparr>identity_id = fold_key ident, display_name = strip display, aliases = ns\<rparr>"
      "r' = r\<lparr>identities := dict_set (identities r) (fold_key ident) i,
          alias_map := fold (\<lambda>a m. dict_set m a (fold_key ident)) ns (alias_map r)\<rparr>"
    using assms
    by (auto simp: register_identity_def normalize_identifier_Inr Let_def
        simp del: not_None_eq split: if_splits intro: that)
  note al = normalize_aliases_Inr [OF ns, simplified]
  show ?thesis
    using al blanks free res by (auto simp: list_ex_iff)
qed

lemma register_identity_wf [wf_intros]:
  assumes "registry_wf r" "register_identity r ident display als = Inr (i, r')"
  shows "registry_wf r'"
proof -
  note res = register_identity_Inr [OF assms(2)]
  show ?thesis
  proof (rule registry_wfI)
    show "identity_ok r' k j" if "dict_get (identities r') k = Some j" for k j
      using that res registry_wfD(1) [OF assms(1), of k j]
      by (auto simp: identity_ok_def get_fold_set split: if_splits)
    show "alias_ok r' a c" if "dict_get (alias_map r') a = Some c" for a c
      using that res registry_wfD(2) [OF assms(1), of a c]
      by (auto simp: alias_ok_def get_fold_set image_iff split: if_splits option.splits)
    show "node_ok r' k n" if "dict_get (nodes r') k = Some n" for k n
      using that res registry_wfD(3) [OF assms(1), of k n] by (auto simp: node_ok_def)
    show "endpoint_ok r' k e" if "dict_get (endpoints r') k = Some e" for k e
      using that res registry_wfD(4) [OF assms(1), of k e] by (auto simp: endpoint_ok_def)
    show "sub_ok r' s" if "s \<in> set (subscriptions r')" for s
      using that res registry_wfD(5) [OF assms(1), of s] by (auto simp: sub_ok_def)
  qed (use assms(1) res in \<open>simp_all add: registry_wf_def wf_fold_set\<close>)
qed

text \<open>Methods that change one dictionary: what the new entry must satisfy.\<close>

lemma node_update_wf:
  assumes wf: "registry_wf r" and ok: "node_ok r k n"
    and keep: "\<And>old. dict_get (nodes r) k = Some old \<Longrightarrow> node_identity n = node_identity old"
  shows "registry_wf (r\<lparr>nodes := dict_set (nodes r) k n\<rparr>)"
proof -
  let ?r = "r\<lparr>nodes := dict_set (nodes r) k n\<rparr>"
  show ?thesis
  proof (rule registry_wfI)
    show "node_ok ?r j m" if "dict_get (nodes ?r) j = Some m" for j m
      using that ok registry_wfD(3) [OF wf, of j m] by (auto simp: node_ok_def split: if_splits)
    show "sub_ok ?r s" if "s \<in> set (subscriptions ?r)" for s
      using that keep registry_wfD(5) [OF wf, of s] by (auto simp: sub_ok_def split: option.splits)
    show "identity_ok ?r j i" if "dict_get (identities ?r) j = Some i" for j i
      using that registry_wfD(1) [OF wf, of j i] by (simp add: identity_ok_def)
    show "alias_ok ?r j c" if "dict_get (alias_map ?r) j = Some c" for j c
      using that registry_wfD(2) [OF wf, of j c] by (simp add: alias_ok_def)
    show "endpoint_ok ?r j e" if "dict_get (endpoints ?r) j = Some e" for j e
      using that registry_wfD(4) [OF wf, of j e] by (simp add: endpoint_ok_def)
  qed (use wf in \<open>simp_all add: registry_wf_def\<close>)
qed

lemma register_node_Inr:
  "register_node r nid ident st hb lease = Inr (n, r') \<longleftrightarrow>
     \<not> blank nid \<and> \<not> dict_has (nodes r) (fold_key nid) \<and>
     (\<exists>c s h l. resolve_identity_id r ident = Inr c \<and> node_status_of st = Inr s \<and>
        millisecond_value hb True = Inr h \<and> millisecond_value lease True = Inr l \<and>
        \<not> (case (h, l) of (Some h', Some l') \<Rightarrow> l' < h' | _ \<Rightarrow> False) \<and>
        n = \<lparr>node_id = fold_key nid, node_identity = c, status = s,
             last_heartbeat_ms = h, lease_expires_ms = l\<rparr>) \<and>
     r' = r\<lparr>nodes := dict_set (nodes r) (fold_key nid) n\<rparr>"
  by (auto simp: register_node_def normalize_identifier_Inr Let_def simp del: not_None_eq split: if_splits)

lemma register_node_wf [wf_intros]:
  assumes "registry_wf r" "register_node r nid ident st hb lease = Inr (n, r')"
  shows "registry_wf r'"
proof -
  obtain c s h l where c: "resolve_identity_id r ident = Inr c"
    and hl: "millisecond_value hb True = Inr h" "millisecond_value lease True = Inr l"
      "\<not> (case (h, l) of (Some h', Some l') \<Rightarrow> l' < h' | _ \<Rightarrow> False)"
    and n: "n = \<lparr>node_id = fold_key nid, node_identity = c, status = s,
             last_heartbeat_ms = h, lease_expires_ms = l\<rparr>"
    and fresh: "\<not> blank nid" "dict_get (nodes r) (fold_key nid) = None"
    and r': "r' = r\<lparr>nodes := dict_set (nodes r) (fold_key nid) n\<rparr>"
    using assms(2) by (auto simp: register_node_Inr)
  have "pred_option (\<lambda>i. 0 \<le> i) h" "pred_option (\<lambda>i. 0 \<le> i) l"
    using hl by (auto simp: millisecond_value_Inr)
  then have "node_ok r (fold_key nid) n"
    using resolve_canonical [OF assms(1) c] hl(3) fresh(1)
    by (simp add: n node_ok_def split: option.splits)
  then show ?thesis
    unfolding r' by (rule node_update_wf [OF assms(1)]) (simp add: fresh)
qed

lemma set_node_status_Inr:
  "set_node_status r nid st = Inr (n, r') \<longleftrightarrow>
     (\<exists>old s. get_node r nid = Inr old \<and> node_status_of st = Inr s \<and> n = old\<lparr>status := s\<rparr>) \<and>
     r' = r\<lparr>nodes := dict_set (nodes r) (node_id n) n\<rparr>"
  by (auto simp: set_node_status_def Let_def)

lemma set_node_status_wf [wf_intros]:
  assumes "registry_wf r" "set_node_status r nid st = Inr (n, r')"
  shows "registry_wf r'"
proof -
  obtain old s where old: "dict_get (nodes r) (fold_key nid) = Some old" "n = old\<lparr>status := s\<rparr>"
    and r': "r' = r\<lparr>nodes := dict_set (nodes r) (node_id n) n\<rparr>"
    using assms(2) by (auto simp: set_node_status_Inr get_node_Inr)
  then have "node_id n = fold_key nid" "node_ok r (fold_key nid) n"
    using registry_wfD(3) [OF assms(1) old(1)] by (auto simp: node_ok_def)
  then show ?thesis
    using old r' by (auto intro: node_update_wf [OF assms(1)])
qed

lemma register_endpoint_Inr:
  "register_endpoint r eid ident tr ad = Inr (e, r') \<longleftrightarrow>
     \<not> blank eid \<and> \<not> dict_has (endpoints r) (fold_key eid) \<and> is_text tr \<and> is_text ad \<and>
     (\<exists>c. resolve_identity_id r ident = Inr c \<and>
        e = \<lparr>endpoint_id = fold_key eid, endpoint_identity = c,
             transport = fold_key (text_of tr), address = strip (text_of ad)\<rparr>) \<and>
     r' = r\<lparr>endpoints := dict_set (endpoints r) (fold_key eid) e\<rparr>"
  by (auto simp: register_endpoint_def normalize_identifier_Inr Let_def fold_key_def
      simp del: not_None_eq split: if_splits)


lemma register_endpoint_wf [wf_intros]:
  assumes wf: "registry_wf r" and reg: "register_endpoint r eid ident tr ad = Inr (e, r')"
  shows "registry_wf r'"
proof -
  from reg obtain c where c: "resolve_identity_id r ident = Inr c"
    and e: "e = \<lparr>endpoint_id = fold_key eid, endpoint_identity = c,
              transport = fold_key (text_of tr), address = strip (text_of ad)\<rparr>"
    and texts: "\<not> blank eid" "is_text tr" "is_text ad"
    and r': "r' = r\<lparr>endpoints := dict_set (endpoints r) (fold_key eid) e\<rparr>"
    by (auto simp: register_endpoint_Inr)
  have ok: "endpoint_ok r (fold_key eid) e"
    using resolve_canonical [OF wf c] texts by (auto simp: e endpoint_ok_def is_text_iff)
  show ?thesis
    unfolding r'
  proof (rule registry_wfI)
    let ?r = "r\<lparr>endpoints := dict_set (endpoints r) (fold_key eid) e\<rparr>"
    show "endpoint_ok ?r j x" if "dict_get (endpoints ?r) j = Some x" for j x
      using that ok registry_wfD(4) [OF wf, of j x] by (auto simp: endpoint_ok_def split: if_splits)
    show "identity_ok ?r j i" if "dict_get (identities ?r) j = Some i" for j i
      using that registry_wfD(1) [OF wf, of j i] by (simp add: identity_ok_def)
    show "alias_ok ?r j d" if "dict_get (alias_map ?r) j = Some d" for j d
      using that registry_wfD(2) [OF wf, of j d] by (simp add: alias_ok_def)
    show "node_ok ?r j n" if "dict_get (nodes ?r) j = Some n" for j n
      using that registry_wfD(3) [OF wf, of j n] by (simp add: node_ok_def)
    show "sub_ok ?r s" if "s \<in> set (subscriptions ?r)" for s
      using that registry_wfD(5) [OF wf, of s] by (simp add: sub_ok_def)
  qed (use wf in \<open>simp_all add: registry_wf_def\<close>)
qed

text \<open>A subscription target is a node, or the only node of an identity.\<close>

lemma identity_nodes_iff:
  "registry_wf r \<Longrightarrow> n \<in> set (identity_nodes r c) \<longleftrightarrow>
     dict_get (nodes r) (node_id n) = Some n \<and> node_identity n = c"
  using node_values [of r n] by (auto simp: identity_nodes_def)

lemma only_element: "(case ns of [n] \<Rightarrow> Inr n | _ \<Rightarrow> Inl e) = Inr m \<longleftrightarrow> ns = [m]"
  by (cases ns rule: remdups_adj.cases) auto

lemma resolve_subscription_node_Inr:
  assumes "registry_wf r" "resolve_subscription_node r v = Inr n"
  shows "dict_get (nodes r) (node_id n) = Some n"
proof -
  consider "dict_get (nodes r) (fold_key v) = Some n"
    | c where "resolve_identity_id r v = Inr c" "nodes_for_identity r c = Inr [n]"
    using assms(2) by (auto simp: resolve_subscription_node_def normalize_identifier_Inr only_element
        split: option.splits)
  then show ?thesis
  proof cases
    case 1
    then show ?thesis
      using registry_wfD(3) [OF assms(1) 1] by (simp add: node_ok_def)
  next
    case 2
    then have "set (identity_nodes r c) = {n}"
      using resolve_canonical [OF assms(1) 2(1)] by (simp add: nodes_for_identity_def)
    then show ?thesis
      using identity_nodes_iff [OF assms(1), of n c] by simp
  qed
qed

lemma subscribe_Inr:
  "subscribe r target dv iv pv en_v = Inr (sub, r') \<longleftrightarrow>
     (\<exists>d p i en n. subscription_domain dv = Inr d \<and> priority_value pv = Inr p \<and>
        subscription_intent iv = Inr i \<and> en_v = PBool en \<and> resolve_subscription_node r target = Inr n \<and>
        sub = \<lparr>sub_node = node_id n, sub_identity = node_identity n, sub_domain = d,
               sub_intent = i, min_priority = p, enabled = en\<rparr>) \<and>
     r' = (if sub \<in> set (subscriptions r) then r
           else r\<lparr>subscriptions := subscriptions r @ [sub]\<rparr>)"
  by (cases en_v) (auto simp: subscribe_def Let_def)

lemma subscribe_wf [wf_intros]:
  assumes wf: "registry_wf r" and sub: "subscribe r target dv iv pv en_v = Inr (sub, r')"
  shows "registry_wf r'"
proof -
  obtain d p i en n where vals: "subscription_domain dv = Inr d" "priority_value pv = Inr p"
      "subscription_intent iv = Inr i"
    and n: "resolve_subscription_node r target = Inr n"
    and s: "sub = \<lparr>sub_node = node_id n, sub_identity = node_identity n, sub_domain = d,
               sub_intent = i, min_priority = p, enabled = en\<rparr>"
    and r': "r' = (if sub \<in> set (subscriptions r) then r
           else r\<lparr>subscriptions := subscriptions r @ [sub]\<rparr>)"
    using sub unfolding subscribe_Inr by blast
  have ok: "sub_ok r sub"
    using resolve_subscription_node_Inr [OF wf n] vals
    by (auto simp: s sub_ok_def validator_simps)
  show ?thesis
    using wf ok by (auto simp: r' registry_wf_def sub_ok_def list_all_iff dict_all_def
        identity_ok_def alias_ok_def node_ok_def endpoint_ok_def)
qed


section \<open>The registry as a state machine\<close>

datatype registry_call =
    RegisterIdentity string string "string list"
  | RegisterNode string string status_arg pyval pyval
  | SetNodeStatus string status_arg
  | RegisterEndpoint string string pyval pyval
  | Subscribe string pyval pyval pyval pyval

fun registry_exec :: "registry_call \<Rightarrow> registry \<Rightarrow> registry" where
  "registry_exec (RegisterIdentity i d as) r = after r (register_identity r i d as)"
| "registry_exec (RegisterNode n i st hb l) r = after r (register_node r n i st hb l)"
| "registry_exec (SetNodeStatus n st) r = after r (set_node_status r n st)"
| "registry_exec (RegisterEndpoint e i t a) r = after r (register_endpoint r e i t a)"
| "registry_exec (Subscribe n d i p en) r = after r (subscribe r n d i p en)"

lemma registry_exec_cases:
  obtains "registry_exec c r = r"
  | ident d as i where "register_identity r ident d as = Inr (i, registry_exec c r)"
  | nid ident st hb l n where "register_node r nid ident st hb l = Inr (n, registry_exec c r)"
  | nid st n where "set_node_status r nid st = Inr (n, registry_exec c r)"
  | eid ident t a e where "register_endpoint r eid ident t a = Inr (e, registry_exec c r)"
  | nid d i p en sub where "subscribe r nid d i p en = Inr (sub, registry_exec c r)"
  by (cases c; simp; erule after_stays_or_returns [of r]; simp)

lemma registry_exec_wf: "registry_wf r \<Longrightarrow> registry_wf (registry_exec c r)"
  by (cases rule: registry_exec_cases [of c r]) (auto intro: wf_intros)

text \<open>
  What no call undoes: names keep their resolution, nodes keep their identity, endpoints and
  subscriptions stay.
\<close>

definition registry_before :: "registry \<Rightarrow> registry \<Rightarrow> bool" where
  "registry_before r r' \<longleftrightarrow>
     dict_get (identities r) \<subseteq>\<^sub>m dict_get (identities r') \<and>
     dict_get (alias_map r) \<subseteq>\<^sub>m dict_get (alias_map r') \<and>
     dict_get (endpoints r) \<subseteq>\<^sub>m dict_get (endpoints r') \<and>
     (\<lambda>k. map_option node_identity (dict_get (nodes r) k))
       \<subseteq>\<^sub>m (\<lambda>k. map_option node_identity (dict_get (nodes r') k)) \<and>
     set (subscriptions r) \<subseteq> set (subscriptions r')"

lemma map_le_upd_fresh: "m k = None \<Longrightarrow> m \<subseteq>\<^sub>m m(k \<mapsto> v)"
  by (auto simp: map_le_def)

lemma map_le_get: "m \<subseteq>\<^sub>m m' \<Longrightarrow> m k = Some v \<Longrightarrow> m' k = Some v"
  by (auto simp: map_le_def dest: bspec [where x = k])

lemma registry_exec_before:
  assumes wf: "registry_wf r"
  shows "registry_before r (registry_exec c r)"
proof (cases rule: registry_exec_cases [of c r])
  case (2 ident d as i)
  from register_identity_Inr [OF this] show ?thesis
    by (auto simp: registry_before_def map_le_def get_fold_set)
next
  case (4 nid st n)
  then show ?thesis
    using get_node_wf [OF wf]
    by (auto simp: registry_before_def map_le_def set_node_status_Inr get_node_Inr)
qed (auto simp: registry_before_def register_node_Inr register_endpoint_Inr subscribe_Inr map_le_def)

interpretation registry: progressing_component registry_exec registry_wf registry_before
proof unfold_locales
  fix r s t :: registry
  show "registry_before r r"
    by (simp add: registry_before_def)
  show "registry_before r s \<Longrightarrow> registry_before s t \<Longrightarrow> registry_before r t"
    unfolding registry_before_def by (meson map_le_trans subset_trans)
qed (simp_all add: registry_exec_wf registry_exec_before)

section \<open>What the recipient snapshot returns\<close>

text \<open>A node receives a message when it is live and one of its own subscriptions accepts it.\<close>

definition deliverable :: "registry \<Rightarrow> string \<Rightarrow> int \<Rightarrow> string option \<Rightarrow> int \<Rightarrow> node \<Rightarrow> bool" where
  "deliverable r d p i now n \<longleftrightarrow> node_live n now \<and>
     (\<exists>sub \<in> set (subscriptions r). sub_node sub = node_id n \<and> sub_accepts sub d p i)"

text \<open>A query whose domain, intent, priority and clock pass the validators.\<close>

definition valid_query :: "pyval \<Rightarrow> pyval \<Rightarrow> pyval \<Rightarrow> pyval \<Rightarrow> string \<Rightarrow> int \<Rightarrow> string option \<Rightarrow> int \<Rightarrow> bool" where
  "valid_query dv iv pv nv d p i now \<longleftrightarrow> subscription_domain dv = Inr d \<and> priority_value pv = Inr p \<and>
     subscription_intent iv = Inr i \<and> nv = PInt now \<and> 0 \<le> now"

lemma node_is_routable_eq:
  "registry_wf r \<Longrightarrow> dict_get (nodes r) k = Some n \<Longrightarrow> 0 \<le> now \<Longrightarrow>
     node_is_routable r k (PInt now) = Inr (node_live n now)"
  using get_node_wf [of r k n] by (simp add: node_is_routable_def millisecond_value_def)

lemma node_receives_eq:
  assumes wf: "registry_wf r" and n: "dict_get (nodes r) (node_id n) = Some n"
    and q: "valid_query dv iv pv nv d p i now"
  shows "node_receives r dv iv pv nv n = Inr (deliverable r d p i now n)"
proof -
  have "node_is_subscribed r (node_id n) dv iv pv = Inr (\<exists>sub \<in> set (subscriptions r).
      sub_node sub = node_id n \<and> sub_accepts sub d p i)"
    using q get_node_wf [OF wf n]
    by (auto simp: node_is_subscribed_def subscriptions_for_domain_def valid_query_def)
  then show ?thesis
    using q node_is_routable_eq [OF wf n, of now]
    by (simp add: node_receives_def deliverable_def valid_query_def)
qed

lemma resolve_ordered_eq:
  "(\<And>v. v \<in> set vs \<Longrightarrow> resolve_identity_id r v = Inr (f v)) \<Longrightarrow>
     resolve_ordered r acc vs = Inr (acc @ filter (\<lambda>c. c \<notin> set acc) (uniq (map f vs)))"
proof (induction vs arbitrary: acc)
  case (Cons v vs)
  then show ?case
    by (auto simp: filter_filter conj_commute intro!: filter_cong)
qed simp

lemma candidate_nodes_wf:
  assumes "registry_wf r" "n \<in> set (candidate_nodes r ids)"
  shows "dict_get (nodes r) (node_id n) = Some n"
  using assms node_values [OF assms(1)] identity_nodes_iff [OF assms(1)]
  by (auto simp: candidate_nodes_def split: option.splits)

lemma snapshot_eq:
  assumes wf: "registry_wf r" and q: "valid_query dv iv pv nv d p i now"
    and ids: "case ids of None \<Rightarrow> cs = None
      | Some vs \<Rightarrow> (\<forall>v \<in> set vs. resolve_identity_id r v = Inr (f v)) \<and> cs = Some (uniq (map f vs))"
  shows "routable_subscriber_node_ids r dv iv pv nv ids =
    Inr (map node_id (filter (deliverable r d p i now) (candidate_nodes r cs)))"
proof -
  have "keepE (node_receives r dv iv pv nv) (candidate_nodes r cs)
      = Inr (filter (deliverable r d p i now) (candidate_nodes r cs))"
    by (rule keepE_total, rule node_receives_eq [OF wf _ q]) (rule candidate_nodes_wf [OF wf])
  then show ?thesis
    using ids q resolve_ordered_eq [of _ r f "[]"]
    by (auto simp: routable_subscriber_node_ids_def valid_query_def millisecond_value_def
        split: option.splits)
qed

lemma distinct_identity_nodes: "registry_wf r \<Longrightarrow> distinct (map node_id (identity_nodes r c))"
  using distinct_node_ids [of r]
  by (simp add: identity_nodes_def distinct_map_sort_key distinct_map_filter del: map_map)

lemma distinct_candidates:
  assumes wf: "registry_wf r" and "case cs of None \<Rightarrow> True | Some l \<Rightarrow> distinct l"
  shows "distinct (map node_id (candidate_nodes r cs))"
proof (cases cs)
  case None
  then show ?thesis
    using distinct_node_ids [OF wf]
    by (simp add: candidate_nodes_def distinct_map_sort_key del: map_map)
next
  case (Some l)
  have "distinct l \<Longrightarrow> distinct (map node_id (concat (map (identity_nodes r) l)))"
  proof (induction l)
    case (Cons c l)
    have "k \<notin> node_id ` set (concat (map (identity_nodes r) l))"
      if "k \<in> node_id ` set (identity_nodes r c)" for k
      using that Cons.prems by (auto simp: identity_nodes_iff [OF wf])
    then show ?case
      using Cons distinct_identity_nodes [OF wf, of c] by auto
  qed simp
  then show ?thesis
    using assms(2) Some by (simp add: candidate_nodes_def)
qed

lemma set_candidates:
  assumes wf: "registry_wf r"
  shows "set (candidate_nodes r cs) = {n. dict_get (nodes r) (node_id n) = Some n \<and>
    (case cs of None \<Rightarrow> True | Some l \<Rightarrow> node_identity n \<in> set l)}"
  using node_values [OF wf] identity_nodes_iff [OF wf]
  by (auto simp: candidate_nodes_def split: option.splits)

section \<open>The directory interface\<close>

text \<open>
  What the router relies on: names resolve to canonical ids, resolution fails only with a
  registry error, and the snapshot of a valid query holds exactly the nodes the query reaches.
\<close>

locale node_directory =
  fixes ok :: "'r \<Rightarrow> bool"
    and resolve :: "'r \<Rightarrow> string \<Rightarrow> exn + string"
    and snapshot :: "'r \<Rightarrow> pyval \<Rightarrow> pyval \<Rightarrow> pyval \<Rightarrow> pyval \<Rightarrow> string list option \<Rightarrow> exn + string list"
    and owner :: "'r \<Rightarrow> string \<Rightarrow> string option"
    and reaches :: "'r \<Rightarrow> string \<Rightarrow> int \<Rightarrow> string option \<Rightarrow> int \<Rightarrow> string \<Rightarrow> bool"
  assumes resolve_idem: "ok r \<Longrightarrow> resolve r v = Inr c \<Longrightarrow> resolve r c = Inr c"
    and resolve_fails: "resolve r v = Inl e \<Longrightarrow> \<exists>m. e = RegistryError m"
    and snapshot_all: "ok r \<Longrightarrow> valid_query dv iv pv nv d p i now \<Longrightarrow>
      \<exists>ids. snapshot r dv iv pv nv None = Inr ids \<and> distinct ids \<and>
        (\<forall>k. k \<in> set ids \<longleftrightarrow> reaches r d p i now k)"
    and snapshot_named: "ok r \<Longrightarrow> valid_query dv iv pv nv d p i now \<Longrightarrow>
      (\<And>c. c \<in> set cs \<Longrightarrow> resolve r c = Inr c) \<Longrightarrow>
      \<exists>ids. snapshot r dv iv pv nv (Some cs) = Inr ids \<and> distinct ids \<and>
        (\<forall>k. k \<in> set ids \<longleftrightarrow> reaches r d p i now k \<and> owner r k \<in> Some ` set cs)"

definition node_owner :: "registry \<Rightarrow> string \<Rightarrow> string option" where
  "node_owner r k = map_option node_identity (dict_get (nodes r) k)"

definition node_reached :: "registry \<Rightarrow> string \<Rightarrow> int \<Rightarrow> string option \<Rightarrow> int \<Rightarrow> string \<Rightarrow> bool" where
  "node_reached r d p i now k \<longleftrightarrow>
     (case dict_get (nodes r) k of None \<Rightarrow> False | Some n \<Rightarrow> deliverable r d p i now n)"

lemma snapshot_members:
  assumes wf: "registry_wf r" and l: "case cs of None \<Rightarrow> True | Some l \<Rightarrow> distinct l"
    and ids_def: "ids = map node_id (filter (deliverable r d p i now) (candidate_nodes r cs))"
  shows "distinct ids" and "k \<in> set ids \<longleftrightarrow> node_reached r d p i now k \<and>
    (case cs of None \<Rightarrow> True | Some l \<Rightarrow> node_owner r k \<in> Some ` set l)"
proof -
  show "distinct ids"
    using distinct_candidates [OF wf l] by (simp add: ids_def distinct_map_filter)
  show "k \<in> set ids \<longleftrightarrow> node_reached r d p i now k \<and>
    (case cs of None \<Rightarrow> True | Some l \<Rightarrow> node_owner r k \<in> Some ` set l)"
  proof (cases "dict_get (nodes r) k")
    case None
    then show ?thesis
      by (auto simp: ids_def set_candidates [OF wf] node_reached_def)
  next
    case (Some n)
    then have "node_id n = k"
      using registry_wfD(3) [OF wf, of k] by (simp add: node_ok_def)
    have "k \<in> node_id ` S \<longleftrightarrow> n \<in> S" if "\<forall>m \<in> S. dict_get (nodes r) (node_id m) = Some m" for S
    proof
      assume "k \<in> node_id ` S"
      then obtain m where "m \<in> S" "node_id m = k" by blast
      then have "m = n"
        using that Some by force
      then show "n \<in> S"
        using \<open>m \<in> S\<close> by simp
    qed (use \<open>node_id n = k\<close> in blast)
    moreover have "\<forall>m \<in> set (filter (deliverable r d p i now) (candidate_nodes r cs)).
        dict_get (nodes r) (node_id m) = Some m"
      using candidate_nodes_wf [OF wf, of _ cs] by simp
    ultimately have "k \<in> set ids \<longleftrightarrow> n \<in> set (filter (deliverable r d p i now) (candidate_nodes r cs))"
      unfolding ids_def set_map by blast
    then have "k \<in> set ids \<longleftrightarrow> deliverable r d p i now n \<and>
        (case cs of None \<Rightarrow> True | Some l \<Rightarrow> node_identity n \<in> set l)"
      using Some \<open>node_id n = k\<close> by (simp add: set_candidates [OF wf] conj_commute)
    then show ?thesis
      using Some by (simp add: node_reached_def node_owner_def inj_image_mem_iff split: option.split)
  qed
qed

interpretation directory: node_directory registry_wf resolve_identity_id
  routable_subscriber_node_ids node_owner node_reached
proof unfold_locales
  fix r :: registry and v c e
  show "registry_wf r \<Longrightarrow> resolve_identity_id r v = Inr c \<Longrightarrow> resolve_identity_id r c = Inr c"
    by (simp add: resolve_canonical)
  show "resolve_identity_id r v = Inl e \<Longrightarrow> \<exists>m. e = RegistryError m"
    by (auto simp: resolve_identity_id_def normalize_identifier_def split: if_splits option.splits)
next
  fix r :: registry and dv iv pv nv d p i now
  assume ok: "registry_wf r" and q: "valid_query dv iv pv nv d p i now"
  show "\<exists>ids. routable_subscriber_node_ids r dv iv pv nv None = Inr ids \<and> distinct ids \<and>
        (\<forall>k. k \<in> set ids \<longleftrightarrow> node_reached r d p i now k)"
    using snapshot_eq [OF ok q, where ids = None and cs = None] snapshot_members [OF ok, of None] by simp
  fix cs :: "string list"
  assume "\<And>c. c \<in> set cs \<Longrightarrow> resolve_identity_id r c = Inr c"
  then show "\<exists>ids. routable_subscriber_node_ids r dv iv pv nv (Some cs) = Inr ids \<and> distinct ids \<and>
        (\<forall>k. k \<in> set ids \<longleftrightarrow> node_reached r d p i now k \<and> node_owner r k \<in> Some ` set cs)"
    using snapshot_eq [OF ok q, where ids = "Some cs" and f = "\<lambda>c. c" and cs = "Some (uniq cs)"]
      snapshot_members [OF ok, of "Some (uniq cs)"] by simp
qed

section \<open>A small registry\<close>

definition sample_registry :: registry where
  "sample_registry = fold registry_exec
     [RegisterIdentity ''A'' ''Ann'' [''x''], RegisterIdentity ''b'' ''Bob'' [],
      RegisterNode ''n2'' '' X'' (StatusEnum IDLE) (PInt 5) (PInt 9),
      RegisterNode ''N1'' ''b'' (StatusRaw (PStr ''ONLINE'')) (PInt 0) (PInt 9),
      Subscribe ''n2'' (PStr ''ui'') PNone (PInt 3) (PBool True),
      Subscribe ''b'' (PStr ''UI'') (PStr ''event'') (PInt 4) (PBool True)] empty_registry"

lemma sample_registry_wf [simp]: "registry_wf sample_registry"
  unfolding sample_registry_def by (rule registry.run_inv) (rule registry_wf_empty)

lemma sample_query: "valid_query (PStr ''ui'') (PStr ''event'') (PInt 2) (PInt 6) ''ui'' 2 (Some ''event'') 6"
  by code_simp

lemma sample_resolves: "resolve_identity_id sample_registry '' X '' = Inr ''a''"
  by code_simp

section \<open>Properties\<close>

text \<open>
  Whatever calls are made on a new registry, failing ones included, its invariant holds:
  every name has one meaning (no alias is an identity or belongs to two), every node, endpoint
  and subscription refers to a registered owner, subscriptions are node-bound and never
  duplicated, and no lease ends before its heartbeat.
\<close>

theorem registry_calls_wf: "registry_wf (fold registry_exec calls empty_registry)"
  by (rule registry.run_inv) (rule registry_wf_empty)

text \<open>
  A name, once it resolves, keeps its meaning: no later sequence of calls rebinds or
  captures it.
\<close>

theorem resolution_stable:
  assumes "registry_wf r" and "resolve_identity_id r v = Inr c"
  shows "resolve_identity_id (fold registry_exec calls r) v = Inr c"
proof -
  let ?r = "fold registry_exec calls r"
  have wf: "registry_wf ?r" and bef: "registry_before r ?r"
    using assms(1) by (rule registry.run_inv, rule registry.run_before)
  have "dict_get (alias_map ?r) a = Some k \<Longrightarrow> \<not> dict_has (identities ?r) a" for a k
    using registry_wfD(2) [OF wf] by (auto simp: alias_ok_def)
  then show ?thesis
    using assms(2) bef by (auto simp: resolve_identity_Inr registry_before_def dest: map_le_get)
qed

theorem resolution_stable_witness:
  "resolve_identity_id (fold registry_exec [RegisterIdentity ''X'' ''Eve'' []] sample_registry) '' X '' = Inr ''a''"
  by (rule resolution_stable [OF sample_registry_wf sample_resolves])

text \<open>
  After an identity is registered, its own name and each of its aliases, in any case and with
  any surrounding space, resolve to the canonical id, and every other name resolves (or fails)
  as before.
\<close>

theorem register_identity_resolves:
  assumes "registry_wf r" and "register_identity r ident display als = Inr (i, r')"
  shows "resolve_identity_id r' v =
    (if fold_key v \<in> set (map fold_key (ident # als)) then Inr (fold_key ident)
     else resolve_identity_id r v)"
proof -
  note res = register_identity_Inr [OF assms(2)]
  have "blank v \<Longrightarrow> fold_key v \<notin> set (map fold_key (ident # als))"
    using res by (auto) (metis blank_fold_key)+
  moreover have "resolve_identity_id r v = (if blank v then Inl (RegistryError ''INVALID_IDENTIFIER'')
      else if dict_has (identities r) (fold_key v) then Inr (fold_key v)
      else case dict_get (alias_map r) (fold_key v) of
        None \<Rightarrow> Inl (RegistryError ''UNKNOWN_IDENTITY'') | Some c \<Rightarrow> Inr c)" for r
    by (simp add: resolve_identity_id_def normalize_identifier_def fold_key_def)
  ultimately show ?thesis
    using res by (auto simp: get_fold_set image_iff)
qed

theorem register_identity_resolves_witness:
  "resolve_identity_id (snd (projr (register_identity sample_registry ''C'' ''Cy'' ['' Q'']))) ''q '' = Inr ''c''"
proof -
  have reg: "\<not> isl (register_identity sample_registry ''C'' ''Cy'' ['' Q''])"
    by code_simp
  have keys: "fold_key ''q '' = ''q''" "fold_key '' Q'' = ''q''" "fold_key ''C'' = ''c''"
    by code_simp+
  from reg obtain i r' where res: "register_identity sample_registry ''C'' ''Cy'' ['' Q''] = Inr (i, r')"
    by (cases "register_identity sample_registry ''C'' ''Cy'' ['' Q'']") auto
  show ?thesis
    using register_identity_resolves [OF sample_registry_wf res, of "''q ''"] by (simp add: res keys)
qed

text \<open>
  Without an audience the recipient snapshot is exactly the set of registered nodes that are
  inside their lease, have a routable status and hold an accepting subscription of their own, in
  strictly increasing node-id order.
\<close>

theorem broadcast_snapshot_exact:
  assumes "registry_wf r" and "valid_query dv iv pv nv d p i now"
  shows "\<exists>ids. routable_subscriber_node_ids r dv iv pv nv None = Inr ids \<and>
    sorted ids \<and> distinct ids \<and>
    (\<forall>k. k \<in> set ids \<longleftrightarrow> (\<exists>n. dict_get (nodes r) k = Some n \<and> deliverable r d p i now n))"
proof (intro exI conjI allI)
  let ?ns = "filter (deliverable r d p i now) (candidate_nodes r None)"
  show "routable_subscriber_node_ids r dv iv pv nv None = Inr (map node_id ?ns)"
    by (rule snapshot_eq [OF assms]) simp
  have "sorted (map node_id (candidate_nodes r None))"
    by (simp add: candidate_nodes_def)
  then show "sorted (map node_id ?ns)"
    by (rule sorted_filter)
  show "distinct (map node_id ?ns)"
    using distinct_candidates [OF assms(1), of None] by (simp add: distinct_map_filter)
  show "k \<in> set (map node_id ?ns) \<longleftrightarrow>
      (\<exists>n. dict_get (nodes r) k = Some n \<and> deliverable r d p i now n)" for k
    using registry_wfD(3) [OF assms(1), of k] by (auto simp: set_candidates [OF assms(1)] node_ok_def)
qed

theorem broadcast_snapshot_exact_witness:
  "\<exists>ids. routable_subscriber_node_ids sample_registry (PStr ''ui'') (PStr ''event'') (PInt 2) (PInt 6) None
      = Inr ids \<and> sorted ids \<and> distinct ids \<and>
    (\<forall>k. k \<in> set ids \<longleftrightarrow> (\<exists>n. dict_get (nodes sample_registry) k = Some n \<and>
      deliverable sample_registry ''ui'' 2 (Some ''event'') 6 n))"
  by (rule broadcast_snapshot_exact [OF sample_registry_wf sample_query])

text \<open>
  With an audience the snapshot is restricted to the nodes of the named identities, grouped
  in the order the identities are first named (by any of their names) with node ids increasing
  inside each group; a name that does not resolve fails the whole query.
\<close>

theorem addressed_snapshot_exact:
  assumes "registry_wf r" and "valid_query dv iv pv nv d p i now"
  shows "routable_subscriber_node_ids r dv iv pv nv (Some names) =
    (case mapE (resolve_identity_id r) names of
       Inl e \<Rightarrow> Inl e
     | Inr owners \<Rightarrow> Inr (concat (map (\<lambda>c. map node_id (filter (deliverable r d p i now) (identity_nodes r c)))
                            (uniq owners))))"
proof (cases "mapE (resolve_identity_id r) names")
  case (Inr owners)
  let ?f = "\<lambda>v. projr (resolve_identity_id r v)"
  have ok: "\<forall>v \<in> set names. resolve_identity_id r v = Inr (?f v)" and owners: "owners = map ?f names"
    using Inr unfolding mapE_Inr_list_all2
    by (induction rule: list_all2_induct) auto
  show ?thesis
    using snapshot_eq [OF assms, where ids = "Some names" and f = ?f and cs = "Some (uniq owners)"] ok
    by (simp add: Inr owners candidate_nodes_def filter_concat map_concat comp_def)
next
  case (Inl e)
  have "resolve_ordered r acc vs = Inl e" if "mapE (resolve_identity_id r) vs = Inl e" for acc vs
    using that by (induction vs arbitrary: acc) auto
  then show ?thesis
    using Inl assms(2) by (simp add: routable_subscriber_node_ids_def valid_query_def millisecond_value_def)
qed

theorem addressed_snapshot_exact_witness:
  "routable_subscriber_node_ids sample_registry (PStr ''ui'') (PStr ''event'') (PInt 2) (PInt 6)
     (Some [''b'', ''X'', ''B'']) = Inr [''n1'', ''n2'']"
  unfolding addressed_snapshot_exact [OF sample_registry_wf sample_query] by code_simp

text \<open>
  A lease is half-open and only routable statuses count: after a status is set, a node with
  heartbeat \<open>h\<close> and lease end \<open>l\<close> is routable at \<open>t\<close> exactly when \<open>h \<le> t < l\<close> and the new status is
  not \<open>OFFLINE\<close>, \<open>PAUSED\<close> or \<open>ARCHIVED\<close>; without both times it never is. So pausing, archiving or
  taking a node offline stops its routing at every time, and the lease times themselves do not
  change.
\<close>

theorem node_routable_exactly_in_lease:
  assumes "registry_wf r" and "set_node_status r nid st = Inr (n, r')"
  shows "dict_get (nodes r') (node_id n) = Some n \<and>
    (\<exists>old. get_node r nid = Inr old \<and> last_heartbeat_ms n = last_heartbeat_ms old \<and>
       lease_expires_ms n = lease_expires_ms old) \<and>
    (\<forall>t. node_is_routable r' nid t = (case t of
        PInt now \<Rightarrow> if now < 0 then Inl (RegistryError ''INVALID_NODE_LEASE_TIME'')
          else Inr (status n \<notin> {OFFLINE, PAUSED, ARCHIVED} \<and>
            (\<exists>h l. last_heartbeat_ms n = Some h \<and> lease_expires_ms n = Some l \<and> h \<le> now \<and> now < l))
      | _ \<Rightarrow> Inl (RegistryError ''INVALID_NODE_LEASE_TIME'')))"
proof -
  obtain old s where old: "get_node r nid = Inr old" "n = old\<lparr>status := s\<rparr>"
    and r': "r' = r\<lparr>nodes := dict_set (nodes r) (node_id n) n\<rparr>"
    using assms(2) by (auto simp: set_node_status_Inr)
  have id: "node_id n = fold_key nid" "\<not> blank nid"
    using old registry_wfD(3) [OF assms(1), of "fold_key nid" old] by (auto simp: get_node_Inr node_ok_def)
  have get: "get_node r' nid = Inr n"
    using id by (simp add: get_node_Inr r')
  have live: "node_live n now \<longleftrightarrow> status n \<notin> {OFFLINE, PAUSED, ARCHIVED} \<and>
      (\<exists>h l. last_heartbeat_ms n = Some h \<and> lease_expires_ms n = Some l \<and> h \<le> now \<and> now < l)" for now
    by (cases "status n") (auto simp: node_live_def ROUTABLE_NODE_STATUSES_def split: option.splits)
  have "node_is_routable r' nid t = (case t of
        PInt now \<Rightarrow> if now < 0 then Inl (RegistryError ''INVALID_NODE_LEASE_TIME'')
          else Inr (status n \<notin> {OFFLINE, PAUSED, ARCHIVED} \<and>
            (\<exists>h l. last_heartbeat_ms n = Some h \<and> lease_expires_ms n = Some l \<and> h \<le> now \<and> now < l))
      | _ \<Rightarrow> Inl (RegistryError ''INVALID_NODE_LEASE_TIME''))" for t
    by (cases t) (simp_all add: node_is_routable_def millisecond_value_def get live)
  moreover have "dict_get (nodes r') (node_id n) = Some n"
    by (simp add: r')
  moreover have "last_heartbeat_ms n = last_heartbeat_ms old" "lease_expires_ms n = lease_expires_ms old"
    using old(2) by simp_all
  ultimately show ?thesis
    using old(1) by blast
qed

theorem node_routable_exactly_in_lease_witness:
  "dict_get (nodes (snd (projr (set_node_status sample_registry ''n1'' (StatusEnum PAUSED))))) ''n1'' =
    Some \<lparr>node_id = ''n1'', node_identity = ''b'', status = PAUSED, last_heartbeat_ms = Some 0,
          lease_expires_ms = Some 9\<rparr>"
proof -
  have reg: "\<not> isl (set_node_status sample_registry ''n1'' (StatusEnum PAUSED))"
    and new: "fst (projr (set_node_status sample_registry ''n1'' (StatusEnum PAUSED))) =
     \<lparr>node_id = ''n1'', node_identity = ''b'', status = PAUSED, last_heartbeat_ms = Some 0,
          lease_expires_ms = Some 9\<rparr>"
    by code_simp+
  from reg obtain n r' where res: "set_node_status sample_registry ''n1'' (StatusEnum PAUSED) = Inr (n, r')"
    by (cases "set_node_status sample_registry ''n1'' (StatusEnum PAUSED)") auto
  show ?thesis
    using node_routable_exactly_in_lease [OF sample_registry_wf res] new by (simp add: res)
qed

end
