(* ===== verification/Routing.thy ===== *)
theory Routing
  imports Registry
begin

text \<open>
  Routing (\<open>src/src/radar/routing.py\<close>): the router, the bounded priority queue and the
  duplicate window. Each method holds its object's lock, so it is one transition. Methods that
  change state before they raise (the queue's counter, the window's clock) return the changed
  state beside the exception.
\<close>

section \<open>The router\<close>

record route_decision =
  recipients :: "string list"
  route_priority :: int
  route_authority :: "string option"

text \<open>The audience loop: names that do not resolve are skipped, repeated identities kept once.\<close>

fun resolve_audience :: "(string \<Rightarrow> exn + string) \<Rightarrow> string list \<Rightarrow> string list \<Rightarrow> string list" where
  "resolve_audience resolve acc [] = acc"
| "resolve_audience resolve acc (a # as) =
    (case resolve a of
       Inl _ \<Rightarrow> resolve_audience resolve acc as
     | Inr i \<Rightarrow> resolve_audience resolve (if i \<in> set acc then acc else acc @ [i]) as)"

text \<open>\<open>Router.route\<close>, over the two operations of the directory it was built with.\<close>

definition route_with ::
  "(string \<Rightarrow> exn + string) \<Rightarrow>
   (pyval \<Rightarrow> pyval \<Rightarrow> pyval \<Rightarrow> pyval \<Rightarrow> string list option \<Rightarrow> exn + string list) \<Rightarrow>
   radar_envelope \<Rightarrow> pyval \<Rightarrow> exn + route_decision" where
  "route_with resolve snapshot e now_ms =
    (case now_ms of
       PInt now \<Rightarrow>
         if now < 0 then Inl (ValueError ''INVALID_ROUTE_TIME'')
         else
           let ids = (if audience e \<noteq> [] then Some (resolve_audience resolve [] (audience e)) else None) in
           bindE (snapshot (PStr (domain e)) (PStr (intent e)) (PInt (priority e)) (PInt now) ids)
             (\<lambda>rs. Inr \<lparr>recipients = rs, route_priority = priority e, route_authority = authority_ref e\<rparr>)
     | _ \<Rightarrow> Inl (ValueError ''INVALID_ROUTE_TIME''))"

definition route :: "registry \<Rightarrow> radar_envelope \<Rightarrow> pyval \<Rightarrow> exn + route_decision" where
  "route r = route_with (resolve_identity_id r) (routable_subscriber_node_ids r)"

text \<open>The identities an audience names: the resolvable ones, each once, in order.\<close>

definition named_identities :: "(string \<Rightarrow> exn + string) \<Rightarrow> string list \<Rightarrow> string list" where
  "named_identities resolve as = uniq (map projr (filter (\<lambda>x. \<not> isl x) (map resolve as)))"

lemma resolve_audience_eq:
  "resolve_audience resolve acc as = acc @ filter (\<lambda>i. i \<notin> set acc) (named_identities resolve as)"
proof (induction as arbitrary: acc)
  case (Cons a as)
  show ?case
  proof (cases "resolve a")
    case (Inl e)
    then show ?thesis using Cons by (simp add: named_identities_def)
  next
    case (Inr i)
    then show ?thesis
      using Cons by (auto simp: named_identities_def filter_filter conj_commute intro!: filter_cong)
  qed
qed (simp add: named_identities_def)

lemma set_named_identities: "i \<in> set (named_identities resolve as) \<longleftrightarrow> (\<exists>a \<in> set as. resolve a = Inr i)"
proof -
  have "x \<in> set (map projr (filter (\<lambda>x. \<not> isl x) (map resolve as))) \<longleftrightarrow> (\<exists>a \<in> set as. resolve a = Inr x)" for x
    by (induction as) (auto simp: isl_def split: sum.splits)
  then show ?thesis
    by (simp add: named_identities_def del: set_map)
qed

text \<open>An accepted envelope always makes a valid query.\<close>

lemma env_query:
  "env_wf e \<Longrightarrow> 0 \<le> now \<Longrightarrow>
   valid_query (PStr (domain e)) (PStr (intent e)) (PInt (priority e)) (PInt now)
     (domain e) (priority e) (Some (intent e)) now"
  using allowed_canonical [of "domain e"] allowed_canonical(2) [of "intent e"]
  by (auto simp: valid_query_def validator_simps env_wf_def canonical_key_eq canonical_key_not_blank
      priority_defs)

text \<open>The router over any directory that keeps the interface's laws.\<close>

context node_directory
begin

lemma route_exact:
  assumes "ok r" and e: "env_wf e" and now: "0 \<le> now"
  shows "\<exists>rs. route_with (resolve r) (snapshot r) e (PInt now) =
      Inr \<lparr>recipients = rs, route_priority = priority e, route_authority = authority_ref e\<rparr> \<and>
    distinct rs \<and>
    (\<forall>k. k \<in> set rs \<longleftrightarrow> reaches r (domain e) (priority e) (Some (intent e)) now k \<and>
      (audience e = [] \<or> (\<exists>a \<in> set (audience e). \<exists>i. resolve r a = Inr i \<and> owner r k = Some i)))"
proof (cases "audience e = []")
  case True
  then show ?thesis
    using snapshot_all [OF assms(1) env_query [OF e now]] now by (auto simp: route_with_def)
next
  case False
  let ?ids = "named_identities (resolve r) (audience e)"
  have canon: "c \<in> set ?ids \<Longrightarrow> resolve r c = Inr c" for c
    using resolve_idem [OF assms(1)] by (auto simp: set_named_identities)
  obtain rs where rs: "snapshot r (PStr (domain e)) (PStr (intent e)) (PInt (priority e)) (PInt now) (Some ?ids) = Inr rs"
      "distinct rs" "\<forall>k. k \<in> set rs \<longleftrightarrow> reaches r (domain e) (priority e) (Some (intent e)) now k \<and>
         owner r k \<in> Some ` set ?ids"
    using snapshot_named [OF assms(1) env_query [OF e now] canon] by blast
  have "owner r k \<in> Some ` set ?ids \<longleftrightarrow>
      (\<exists>a \<in> set (audience e). \<exists>i. resolve r a = Inr i \<and> owner r k = Some i)" for k
    by (auto simp: image_iff set_named_identities)
  then show ?thesis
    using False now rs by (simp add: route_with_def resolve_audience_eq)
qed

end

section \<open>The priority queue\<close>

text \<open>
  Heap entries compare by priority, then by the queue's counter; counters are unique, so the
  envelope of an entry is never compared.
\<close>

datatype rank = Rank (rank_priority: int) (rank_counter: nat)

instantiation rank :: linorder
begin

definition less_eq_rank :: "rank \<Rightarrow> rank \<Rightarrow> bool" where
  "less_eq_rank a b \<longleftrightarrow> rank_priority a < rank_priority b \<or>
     rank_priority a = rank_priority b \<and> rank_counter a \<le> rank_counter b"

definition less_rank :: "rank \<Rightarrow> rank \<Rightarrow> bool" where
  "less_rank a b \<longleftrightarrow> rank_priority a < rank_priority b \<or>
     rank_priority a = rank_priority b \<and> rank_counter a < rank_counter b"

instance
  by standard (auto simp: less_eq_rank_def less_rank_def intro: rank.expand)

end

lemma rank_priority_mono: "a \<le> b \<Longrightarrow> rank_priority a \<le> rank_priority b"
  by (auto simp: less_eq_rank_def)

type_synonym queue_entry = "rank \<times> radar_envelope"

record priority_queue =
  max_size :: int
  next_counter :: nat
  heap :: "queue_entry list"

definition new_queue :: "pyval \<Rightarrow> exn + priority_queue" where
  "new_queue size_arg = (case size_arg of
      PInt n \<Rightarrow> if n \<le> 0 then Inl (ValueError ''max_size must be positive'')
        else Inr \<lparr>max_size = n, next_counter = 0, heap = []\<rparr>
    | _ \<Rightarrow> Inl (ValueError ''max_size must be positive''))"

text \<open>
  The heap as a collection: \<open>heapq\<close> keeps its list in heap order, of which the code observes
  only the least entry; \<open>max\<close> finds the greatest.
\<close>

fun least_entry :: "queue_entry list \<Rightarrow> queue_entry option" where
  "least_entry [] = None"
| "least_entry (x # xs) = (case least_entry xs of
     None \<Rightarrow> Some x | Some m \<Rightarrow> Some (if fst x \<le> fst m then x else m))"

fun greatest_entry :: "queue_entry list \<Rightarrow> queue_entry option" where
  "greatest_entry [] = None"
| "greatest_entry (x # xs) = (case greatest_entry xs of
     None \<Rightarrow> Some x | Some m \<Rightarrow> Some (if fst m \<le> fst x then x else m))"

definition push :: "priority_queue \<Rightarrow> radar_envelope \<Rightarrow> (exn + radar_envelope option) \<times> priority_queue" where
  "push q e =
    (let entry = (Rank (priority e) (next_counter q), e);
         q1 = q\<lparr>next_counter := next_counter q + 1\<rparr> in
     if max_size q \<le> int (length (heap q)) then
       if priority e \<noteq> 0 then (Inl (OverflowError ''RADAR_QUEUE_FULL''), q1)
       else case greatest_entry (heap q) of
         None \<Rightarrow> (Inl (ValueError ''max() arg is an empty sequence''), q1)
       | Some victim \<Rightarrow>
           if rank_priority (fst victim) = 0 then (Inl (OverflowError ''RADAR_QUEUE_FULL''), q1)
           else (Inr (Some (snd victim)), q1\<lparr>heap := entry # remove1 victim (heap q)\<rparr>)
     else (Inr None, q1\<lparr>heap := entry # heap q\<rparr>))"

definition pop :: "priority_queue \<Rightarrow> (exn + radar_envelope) \<times> priority_queue" where
  "pop q = (case least_entry (heap q) of
      None \<Rightarrow> (Inl (IndexError ''RADAR_QUEUE_EMPTY''), q)
    | Some m \<Rightarrow> (Inr (snd m), q\<lparr>heap := remove1 m (heap q)\<rparr>))"

definition peek :: "priority_queue \<Rightarrow> exn + radar_envelope" where
  "peek q = (case least_entry (heap q) of
      None \<Rightarrow> Inl (IndexError ''RADAR_QUEUE_EMPTY'') | Some m \<Rightarrow> Inr (snd m))"

definition queue_is_full :: "priority_queue \<Rightarrow> bool" where
  "queue_is_full q \<longleftrightarrow> max_size q \<le> int (length (heap q))"

definition clear_queue :: "priority_queue \<Rightarrow> priority_queue" where
  "clear_queue q = q\<lparr>heap := []\<rparr>"

definition queue_len :: "priority_queue \<Rightarrow> nat" where
  "queue_len q = length (heap q)"

definition queue_wf :: "priority_queue \<Rightarrow> bool" where
  "queue_wf q \<longleftrightarrow> 0 < max_size q \<and> int (length (heap q)) \<le> max_size q \<and>
     distinct (map fst (heap q)) \<and>
     (\<forall>(k, e) \<in> set (heap q). rank_priority k = priority e \<and> rank_counter k < next_counter q)"

text \<open>The contents in execution order, and a new envelope's place: after its priority's peers.\<close>

definition contents :: "priority_queue \<Rightarrow> radar_envelope list" where
  "contents q = map snd (sort_key fst (heap q))"

definition enqueue :: "radar_envelope \<Rightarrow> radar_envelope list \<Rightarrow> radar_envelope list" where
  "enqueue e es = takeWhile (\<lambda>x. priority x \<le> priority e) es @ e # dropWhile (\<lambda>x. priority x \<le> priority e) es"

lemma mset_enqueue [simp]: "mset (enqueue e es) = add_mset e (mset es)"
proof -
  have "mset (takeWhile P es @ dropWhile P es) = mset es" for P
    by simp
  then show ?thesis
    unfolding enqueue_def by (simp del: takeWhile_dropWhile_id)
qed

lemma length_enqueue [simp]: "length (enqueue e es) = Suc (length es)"
  using mset_enqueue [of e es] by (metis size_add_mset size_mset)

lemma set_enqueue [simp]: "set (enqueue e es) = insert e (set es)"
  using mset_enqueue [of e es] by (metis set_mset_add_mset_insert set_mset_mset)

lemma sorted_enqueue:
  assumes "sorted (map priority es)"
  shows "sorted (map priority (enqueue e es))"
proof -
  have "priority e \<le> priority x" if "x \<in> set (dropWhile (\<lambda>x. priority x \<le> priority e) es)" for x
    using assms that by (induction es) (auto split: if_splits)
  moreover have "sorted (map priority (takeWhile P es))" "sorted (map priority (dropWhile P es))" for P
    using assms by (metis sorted_append map_append takeWhile_dropWhile_id)+
  moreover have "\<forall>x \<in> set (takeWhile (\<lambda>x. priority x \<le> priority e) es). priority x \<le> priority e"
    by (auto dest: set_takeWhileD)
  ultimately show ?thesis
    unfolding enqueue_def by (force simp: sorted_append)
qed

text \<open>Searching a nonempty heap for its extremes.\<close>

lemma least_entry_eq_None [simp]: "least_entry h = None \<longleftrightarrow> h = []"
  by (cases h) (auto split: option.splits)

lemma least_entry_Some: "least_entry h = Some m \<Longrightarrow> m \<in> set h \<and> (\<forall>x \<in> set h. fst m \<le> fst x)"
  by (induction h arbitrary: m) (fastforce split: option.splits if_splits)+

lemma greatest_entry_eq_None [simp]: "greatest_entry h = None \<longleftrightarrow> h = []"
  by (cases h) (auto split: option.splits)

lemma greatest_entry_Some: "greatest_entry h = Some m \<Longrightarrow> m \<in> set h \<and> (\<forall>x \<in> set h. fst x \<le> fst m)"
  by (induction h arbitrary: m) (fastforce split: option.splits if_splits)+

lemma mset_tl_butlast:
  assumes "xs \<noteq> []"
  shows "mset (tl xs) = mset xs - {#hd xs#}" and "mset (butlast xs) = mset xs - {#last xs#}"
proof -
  show "mset (tl xs) = mset xs - {#hd xs#}"
    using assms by (cases xs) auto
  show "mset (butlast xs) = mset xs - {#last xs#}"
    using assms by (cases xs rule: rev_cases) auto
qed

lemma sort_key_extremes:
  assumes d: "distinct (map fst h)" and "h \<noteq> []"
  shows "least_entry h = Some (hd (sort_key fst h))"
    and "greatest_entry h = Some (last (sort_key fst h))"
    and "sort_key fst (remove1 (hd (sort_key fst h)) h) = tl (sort_key fst h)"
    and "sort_key fst (remove1 (last (sort_key fst h)) h) = butlast (sort_key fst h)"
proof -
  let ?s = "sort_key fst h"
  have "length ?s = length h"
    by simp
  then have s: "?s \<noteq> []" "set ?s = set h" "sorted (map fst ?s)"
    using assms(2) by (simp_all only: length_0_conv [symmetric] set_sort sorted_sort_key not_False_eq_True)
  have inj: "x = y" if "fst x = fst y" "x \<in> set h" "y \<in> set h" for x y
    using d that by (auto simp: distinct_map inj_on_def)
  have first: "\<forall>x \<in> set h. fst (hd ?s) \<le> fst x"
    unfolding s(2) [symmetric] using s(3) by (cases ?s) auto
  have final: "\<forall>x \<in> set h. fst x \<le> fst (last ?s)"
    unfolding s(2) [symmetric] using s(3) by (cases ?s rule: rev_cases) (auto simp: sorted_append)
  show "least_entry h = Some (hd ?s)"
    using least_entry_Some [of h] inj first hd_in_set [OF s(1)] s(2) assms(2)
    by (cases "least_entry h") (auto intro!: inj antisym)
  show "greatest_entry h = Some (last ?s)"
    using greatest_entry_Some [of h] inj final last_in_set [OF s(1)] s(2) assms(2)
    by (cases "greatest_entry h") (auto intro!: inj antisym)
  have ds: "distinct (map fst (remove1 x h))" for x
    using d by (induction h) (auto dest!: set_mp [OF set_remove1_subset])
  have "sort_key fst (remove1 (hd ?s) h) = sort_key fst (tl ?s)"
    by (intro sort_key_perm_distinct ds) (simp add: mset_tl_butlast [OF s(1)])
  then show "sort_key fst (remove1 (hd ?s) h) = tl ?s"
    using s(3) by (simp add: sort_key_id_if_sorted sorted_tl map_tl)
  have "sort_key fst (remove1 (last ?s) h) = sort_key fst (butlast ?s)"
    by (intro sort_key_perm_distinct ds) (simp add: mset_tl_butlast [OF s(1)])
  then show "sort_key fst (remove1 (last ?s) h) = butlast ?s"
    using s(3) by (simp add: sort_key_id_if_sorted sorted_butlast map_butlast)
qed

text \<open>Inserting the newest entry of a priority puts it behind its peers.\<close>

lemma insort_newest:
  assumes "\<forall>(k, x) \<in> set es. rank_priority k = priority x \<and> rank_counter k < c" "sorted (map fst es)"
  shows "map snd (insort_key fst (Rank (priority e) c, e) es) = enqueue e (map snd es)"
  using assms
proof (induction es)
  case (Cons a es)
  obtain k x where a: "a = (k, x)" by force
  then have k: "rank_priority k = priority x" "rank_counter k < c"
    using Cons.prems by auto
  show ?case
    using Cons k by (auto simp: a enqueue_def less_eq_rank_def)
qed (simp add: enqueue_def)

lemma queue_wfD:
  assumes "queue_wf q"
  shows "sorted (map priority (contents q))" and "length (contents q) = length (heap q)"
    and "mset (contents q) = mset (map snd (heap q))"
    and "\<forall>(k, x) \<in> set (sort_key fst (heap q)). rank_priority k = priority x \<and> rank_counter k < next_counter q"
proof -
  show entries: "\<forall>(k, x) \<in> set (sort_key fst (heap q)). rank_priority k = priority x \<and> rank_counter k < next_counter q"
    using assms by (simp add: queue_wf_def)
  have "sorted (map rank_priority (map fst (sort_key fst (heap q))))"
    by (intro sorted_map_mono [where f = rank_priority]) (auto intro: mono_onI rank_priority_mono)
  moreover have "map rank_priority (map fst (sort_key fst (heap q))) = map priority (contents q)"
    using entries by (auto simp: contents_def)
  ultimately show "sorted (map priority (contents q))"
    by simp
qed (simp_all add: contents_def)

lemma last_entry:
  assumes "queue_wf q" "heap q \<noteq> []"
  shows "last (sort_key fst (heap q)) \<in> set (sort_key fst (heap q))"
    and "rank_priority (fst (last (sort_key fst (heap q)))) = priority (last (contents q))"
    and "snd (last (sort_key fst (heap q))) = last (contents q)"
proof -
  let ?s = "sort_key fst (heap q)"
  have "?s \<noteq> []"
    using assms(2) by (metis set_empty set_sort)
  then show "last ?s \<in> set ?s" "snd (last ?s) = last (contents q)"
    by (simp_all add: contents_def last_map del: set_sort)
  then show "rank_priority (fst (last ?s)) = priority (last (contents q))"
    using queue_wfD(4) [OF assms(1)] by fastforce
qed

lemma contents_push_entry:
  assumes "queue_wf q" and "set es \<subseteq> set (sort_key fst (heap q))" and "sort_key fst h = es" "sorted (map fst es)"
  shows "map snd (sort_key fst ((Rank (priority e) (next_counter q), e) # h)) = enqueue e (map snd es)"
  using insort_newest [of es "next_counter q" e] queue_wfD(4) [OF assms(1)] assms(2-4) by fastforce

lemma push_wf:
  assumes wf: "queue_wf q" and sub: "set h \<subseteq> set (heap q)" "distinct (map fst h)" "int (length h) < max_size q"
  shows "queue_wf (q\<lparr>next_counter := next_counter q + 1,
    heap := (Rank (priority e) (next_counter q), e) # h\<rparr>)"
  using assms by (fastforce simp: queue_wf_def)

text \<open>Every branch of \<open>push\<close> and \<open>pop\<close>, over the contents.\<close>

lemma push_room:
  assumes "queue_wf q" "int (length (contents q)) < max_size q"
  shows "\<exists>q'. push q e = (Inr None, q') \<and> queue_wf q' \<and> max_size q' = max_size q \<and>
    contents q' = enqueue e (contents q)"
  using assms queue_wfD(2) [OF assms(1)] push_wf [OF assms(1), of "heap q" e]
    contents_push_entry [OF assms(1) subset_refl refl, of e]
  by (auto simp: push_def Let_def contents_def queue_wf_def)

lemma push_refused:
  assumes "queue_wf q" "int (length (contents q)) = max_size q"
    and "priority e \<noteq> 0 \<or> priority (last (contents q)) = 0"
  shows "\<exists>q'. push q e = (Inl (OverflowError ''RADAR_QUEUE_FULL''), q') \<and> queue_wf q' \<and>
    max_size q' = max_size q \<and> contents q' = contents q"
proof -
  let ?s = "sort_key fst (heap q)"
  have ne: "heap q \<noteq> []" and d: "distinct (map fst (heap q))" and len: "length (heap q) = length (contents q)"
    using assms(1,2) queue_wfD(2) [OF assms(1)] by (auto simp: queue_wf_def)
  have "queue_wf (q\<lparr>next_counter := next_counter q + 1\<rparr>)"
    using assms(1) by (fastforce simp: queue_wf_def)
  moreover have "contents (q\<lparr>next_counter := c\<rparr>) = contents q" for c
    by (simp add: contents_def)
  moreover have "max_size q \<le> int (length (heap q))"
    using assms(2) len by simp
  ultimately show ?thesis
    using assms(3) by (auto simp: push_def Let_def sort_key_extremes(2) [OF d ne] last_entry(2) [OF assms(1) ne])
qed

lemma push_evicts:
  assumes "queue_wf q" "int (length (contents q)) = max_size q"
    and "priority e = 0" "priority (last (contents q)) \<noteq> 0"
  shows "\<exists>q'. push q e = (Inr (Some (last (contents q))), q') \<and> queue_wf q' \<and>
    max_size q' = max_size q \<and> contents q' = enqueue e (butlast (contents q))"
proof -
  let ?s = "sort_key fst (heap q)" let ?h = "remove1 (last (sort_key fst (heap q))) (heap q)"
  have ne: "heap q \<noteq> []" and d: "distinct (map fst (heap q))" and len: "length (heap q) = length (contents q)"
    using assms(1,2) queue_wfD(2) [OF assms(1)] by (auto simp: queue_wf_def)
  note last = last_entry(1) [OF assms(1) ne] and v = last_entry(2,3) [OF assms(1) ne]
  have sorted_h: "sort_key fst ?h = butlast ?s"
    by (rule sort_key_extremes(4) [OF d ne])
  have "distinct (map fst ?h)"
    using d by (metis distinct_map_sort_key distinct_butlast map_butlast sorted_h)
  moreover have "int (length ?h) < max_size q"
    using assms(2) last ne length_greater_0_conv [of "heap q"]
    by (auto simp: length_remove1 len [symmetric] of_nat_diff simp del: length_greater_0_conv)
  ultimately have "queue_wf (q\<lparr>next_counter := next_counter q + 1,
      heap := (Rank (priority e) (next_counter q), e) # ?h\<rparr>)"
    by (intro push_wf assms(1)) (auto dest: set_mp [OF set_remove1_subset])
  moreover have "map snd (sort_key fst ((Rank (priority e) (next_counter q), e) # ?h)) =
      enqueue e (map snd (butlast ?s))"
    by (rule contents_push_entry [OF assms(1) _ sorted_h])
      (auto dest: in_set_butlastD simp: map_butlast sorted_butlast)
  moreover have "max_size q \<le> int (length (heap q))"
    using assms(2) len by simp
  ultimately show ?thesis
    using assms(3,4)
    by (simp add: push_def Let_def sort_key_extremes(2) [OF d ne] v contents_def map_butlast)
qed

lemma pop_empty: "contents q = [] \<Longrightarrow> pop q = (Inl (IndexError ''RADAR_QUEUE_EMPTY''), q)"
proof -
  assume "contents q = []"
  then have "heap q = []"
    by (metis contents_def length_0_conv length_map length_sort)
  then show ?thesis by (simp add: pop_def)
qed

lemma pop_head:
  assumes wf: "queue_wf q" and c: "contents q = e # es"
  shows "\<exists>q'. pop q = (Inr e, q') \<and> queue_wf q' \<and> max_size q' = max_size q \<and> contents q' = es"
proof -
  let ?s = "sort_key fst (heap q)" let ?h = "remove1 (hd (sort_key fst (heap q))) (heap q)"
  have ne: "heap q \<noteq> []" and d: "distinct (map fst (heap q))"
    using c queue_wfD(2) [OF wf] wf by (auto simp: queue_wf_def)
  have sorted_h: "sort_key fst ?h = tl ?s"
    by (rule sort_key_extremes(3) [OF d ne])
  have "distinct (map fst ?h)"
    using d by (metis distinct_map_sort_key distinct_tl map_tl sorted_h)
  moreover have "length ?h \<le> length (heap q)"
    by (simp add: length_remove1)
  ultimately have "queue_wf (q\<lparr>heap := ?h\<rparr>)"
    using wf set_remove1_subset [of "hd ?s" "heap q"] by (fastforce simp: queue_wf_def)
  moreover have "snd (hd ?s) = e" "map snd (tl ?s) = es"
    using c by (cases ?s; auto simp: contents_def)+
  ultimately show ?thesis
    using sort_key_extremes(1) [OF d ne] sorted_h by (simp add: pop_def contents_def)
qed

section \<open>The queue interface\<close>

text \<open>
  What the runtime relies on: the contents are in priority order within the capacity, \<open>push\<close>
  inserts, refuses, or displaces the last entry, and \<open>pop\<close> takes the first.
\<close>

locale bounded_queue =
  fixes ok :: "'q \<Rightarrow> bool"
    and items :: "'q \<Rightarrow> radar_envelope list"
    and capacity :: "'q \<Rightarrow> int"
    and put :: "'q \<Rightarrow> radar_envelope \<Rightarrow> (exn + radar_envelope option) \<times> 'q"
    and take_next :: "'q \<Rightarrow> (exn + radar_envelope) \<times> 'q"
  assumes bounded: "ok q \<Longrightarrow> int (length (items q)) \<le> capacity q \<and> 0 < capacity q"
    and ordered: "ok q \<Longrightarrow> sorted (map priority (items q))"
    and put_room: "ok q \<Longrightarrow> int (length (items q)) < capacity q \<Longrightarrow>
      \<exists>q'. put q e = (Inr None, q') \<and> ok q' \<and> capacity q' = capacity q \<and> items q' = enqueue e (items q)"
    and put_refused: "ok q \<Longrightarrow> int (length (items q)) = capacity q \<Longrightarrow>
      priority e \<noteq> 0 \<or> priority (last (items q)) = 0 \<Longrightarrow>
      \<exists>q'. put q e = (Inl (OverflowError ''RADAR_QUEUE_FULL''), q') \<and> ok q' \<and>
        capacity q' = capacity q \<and> items q' = items q"
    and put_evicts: "ok q \<Longrightarrow> int (length (items q)) = capacity q \<Longrightarrow>
      priority e = 0 \<Longrightarrow> priority (last (items q)) \<noteq> 0 \<Longrightarrow>
      \<exists>q'. put q e = (Inr (Some (last (items q))), q') \<and> ok q' \<and>
        capacity q' = capacity q \<and> items q' = enqueue e (butlast (items q))"
    and take_empty: "items q = [] \<Longrightarrow> take_next q = (Inl (IndexError ''RADAR_QUEUE_EMPTY''), q)"
    and take_head: "ok q \<Longrightarrow> items q = e # es \<Longrightarrow>
      \<exists>q'. take_next q = (Inr e, q') \<and> ok q' \<and> capacity q' = capacity q \<and> items q' = es"
begin

lemma put_cases:
  assumes "ok q"
  obtains
    (room) q' where "put q e = (Inr None, q')" "ok q'" "capacity q' = capacity q"
      "items q' = enqueue e (items q)" "int (length (items q)) < capacity q"
  | (refused) q' where "put q e = (Inl (OverflowError ''RADAR_QUEUE_FULL''), q')" "ok q'"
      "capacity q' = capacity q" "items q' = items q" "int (length (items q)) = capacity q"
      "priority e \<noteq> 0 \<or> priority (last (items q)) = 0"
  | (evicted) q' where "put q e = (Inr (Some (last (items q))), q')" "ok q'" "capacity q' = capacity q"
      "items q' = enqueue e (butlast (items q))" "int (length (items q)) = capacity q"
      "priority e = 0" "priority (last (items q)) \<noteq> 0"
  using put_room [OF assms, of e] put_refused [OF assms, of e] put_evicts [OF assms, of e] bounded [OF assms]
  by (cases "int (length (items q)) = capacity q";
      cases "priority e \<noteq> 0 \<or> priority (last (items q)) = 0") force+

text \<open>No entry is lost: what was held and what came in is held, displaced, or refused.\<close>

lemma put_mset:
  assumes "ok q"
  shows "\<exists>res q'. put q e = (res, q') \<and> ok q' \<and>
    mset (items q') + (case res of Inl _ \<Rightarrow> {#e#} | Inr None \<Rightarrow> {#} | Inr (Some v) \<Rightarrow> {#v#}) =
    add_mset e (mset (items q))"
  using assms
proof (cases rule: put_cases [of q e])
  case (evicted q')
  have "items q \<noteq> []"
    using evicted(5) bounded [OF assms] by auto
  then have "mset (butlast (items q)) + {#last (items q)#} = mset (items q)"
    by (metis append_butlast_last_id mset.simps(1,2) mset_append)
  then show ?thesis
    using evicted by simp
qed simp_all

text \<open>An urgent envelope overtakes everything that is not urgent.\<close>

lemma enqueue_urgent: "\<forall>x \<in> set es. priority x > priority e \<Longrightarrow> enqueue e es = e # es"
  by (cases es) (auto simp: enqueue_def)

lemma put_urgent:
  assumes "ok q" and e: "priority e = 0" and rest: "\<forall>x \<in> set (items q). 0 < priority x"
  shows "\<exists>evicted q1 q2. put q e = (Inr evicted, q1) \<and> take_next q1 = (Inr e, q2) \<and> ok q2 \<and>
    capacity q2 = capacity q \<and>
    items q2 = (if evicted = None then items q else butlast (items q)) \<and>
    (evicted = None \<or> evicted = Some (last (items q)) \<and> items q \<noteq> [])"
  using assms(1)
proof (cases rule: put_cases [of q e])
  case (room q1)
  then have "items q1 = e # items q"
    using e rest by (simp add: enqueue_urgent)
  then show ?thesis
    using take_head [OF room(2)] room by fastforce
next
  case (refused q1)
  have "items q \<noteq> []"
    using refused(5) bounded [OF assms(1)] by auto
  then show ?thesis
    using rest refused(6) e by (metis last_in_set less_irrefl)
next
  case (evicted q1)
  have "items q \<noteq> []"
    using evicted(5) bounded [OF assms(1)] by auto
  moreover have "items q1 = e # butlast (items q)"
    using evicted(4) e rest by (simp add: enqueue_urgent in_set_butlastD)
  ultimately show ?thesis
    using take_head [OF evicted(2)] evicted by fastforce
qed

end

interpretation rq: bounded_queue queue_wf contents max_size push pop
proof unfold_locales
  fix q e es
  show "queue_wf q \<Longrightarrow> int (length (contents q)) \<le> max_size q \<and> 0 < max_size q"
    using queue_wfD(2) [of q] by (simp add: queue_wf_def)
qed (fact queue_wfD push_room push_refused push_evicts pop_empty pop_head)+

text \<open>Filling an empty queue and emptying it again is a stable sort by priority.\<close>

lemma enqueue_filter:
  assumes "sorted (map priority es)"
  shows "filter (\<lambda>x. priority x = p) (enqueue e es) =
    filter (\<lambda>x. priority x = p) es @ (if priority e = p then [e] else [])"
proof -
  have split: "filter P (takeWhile Q es) @ filter P (dropWhile Q es) = filter P es" for P Q
    by (simp flip: filter_append)
  have "filter (\<lambda>x. priority x = priority e) (dropWhile (\<lambda>x. priority x \<le> priority e) es) = []"
    using assms by (induction es) (auto simp: filter_empty_conv)
  then show ?thesis
    using split [of "\<lambda>x. priority x = p" "\<lambda>x. priority x \<le> priority e"]
    by (auto simp: enqueue_def)
qed

lemma fold_enqueue: "fold enqueue es [] = sort_key priority es"
proof (induction es rule: rev_induct)
  case (snoc e es)
  have "sort_key priority (es @ [e]) = enqueue e (sort_key priority es)"
  proof (rule properties_for_sort_key)
    fix k assume "k \<in> set (enqueue e (sort_key priority es))"
    show "filter (\<lambda>x. priority k = priority x) (enqueue e (sort_key priority es)) =
        filter (\<lambda>x. priority k = priority x) (es @ [e])"
      using sort_key_stable [of priority "priority k" es]
      by (simp add: enqueue_filter eq_commute [of "priority k"] cong: filter_cong)
  qed (simp_all add: sorted_enqueue)
  then show ?case
    using snoc by simp
qed simp

fun drain :: "nat \<Rightarrow> priority_queue \<Rightarrow> radar_envelope list" where
  "drain 0 q = []"
| "drain (Suc n) q = (case pop q of (Inl _, _) \<Rightarrow> [] | (Inr e, q') \<Rightarrow> e # drain n q')"

lemma drain_contents: "queue_wf q \<Longrightarrow> drain (length (contents q)) q = contents q"
proof (induction "length (contents q)" arbitrary: q)
  case (Suc n)
  then obtain e es where c: "contents q = e # es"
    by (cases "contents q") auto
  with pop_head [OF Suc.prems c] obtain q' where "pop q = (Inr e, q')" "queue_wf q'" "contents q' = es"
    by blast
  then show ?case
    using Suc.hyps c by auto
qed simp

lemma fill_contents:
  "queue_wf q \<Longrightarrow> int (length (contents q) + length es) \<le> max_size q \<Longrightarrow>
   queue_wf (fold (\<lambda>e q. snd (push q e)) es q) \<and>
   contents (fold (\<lambda>e q. snd (push q e)) es q) = fold enqueue es (contents q)"
proof (induction es arbitrary: q)
  case (Cons e es)
  obtain q' where "push q e = (Inr None, q')" "queue_wf q'" "max_size q' = max_size q"
      "contents q' = enqueue e (contents q)"
    using push_room [OF Cons.prems(1), of e] Cons.prems(2) by auto
  then show ?case
    using Cons by simp
qed simp

section \<open>The duplicate window\<close>

record dedupe_window =
  window_ms :: int
  seen :: "(string, int) dict"
  last_now_ms :: "int option"

definition new_window :: "pyval \<Rightarrow> exn + dedupe_window" where
  "new_window arg = (case arg of
      PInt w \<Rightarrow> if w < 0 then Inl (ValueError ''window_ms must be non-negative'')
        else Inr \<lparr>window_ms = w, seen = [], last_now_ms = None\<rparr>
    | _ \<Rightarrow> Inl (ValueError ''window_ms must be non-negative''))"

fun prune :: "string \<Rightarrow> int \<Rightarrow> (string, int) dict \<Rightarrow> (string, int) dict" where
  "prune key cutoff [] = []"
| "prune key cutoff ((k, t) # rest) =
    (if cutoff \<le> t then (k, t) # rest
     else if k = key then (k, t) # rest
     else prune key cutoff rest)"

definition accept :: "dedupe_window \<Rightarrow> string \<Rightarrow> pyval \<Rightarrow> (exn + bool) \<times> dedupe_window" where
  "accept d key now_arg =
    (if key = [] then (Inl (ValueError ''INVALID_DEDUPE_KEY''), d)
     else case now_arg of
       PInt now \<Rightarrow>
         if now < 0 then (Inl (ValueError ''INVALID_DEDUPE_TIME''), d)
         else if (case last_now_ms d of None \<Rightarrow> False | Some l \<Rightarrow> now < l)
         then (Inl (ValueError ''DEDUPE_CLOCK_REGRESSION''), d)
         else
           let d1 = d\<lparr>last_now_ms := Some now\<rparr> in
           if (case dict_get (seen d) key of None \<Rightarrow> False | Some t \<Rightarrow> now - t \<le> window_ms d)
           then (Inr False, d1)
           else (Inr True,
             d1\<lparr>seen := prune key (now - window_ms d) (dict_del (seen d) key @ [(key, now)])\<rparr>)
     | _ \<Rightarrow> (Inl (ValueError ''INVALID_DEDUPE_TIME''), d))"

definition rollback_accept :: "dedupe_window \<Rightarrow> string \<Rightarrow> pyval \<Rightarrow> (exn + bool) \<times> dedupe_window" where
  "rollback_accept d key at_arg =
    (if key = [] then (Inl (ValueError ''INVALID_DEDUPE_KEY''), d)
     else case at_arg of
       PInt at \<Rightarrow>
         if at < 0 then (Inl (ValueError ''INVALID_DEDUPE_TIME''), d)
         else if dict_get (seen d) key \<noteq> Some at then (Inr False, d)
         else (Inr True, d\<lparr>seen := dict_del (seen d) key\<rparr>)
     | _ \<Rightarrow> (Inl (ValueError ''INVALID_DEDUPE_TIME''), d))"

definition window_len :: "dedupe_window \<Rightarrow> nat" where
  "window_len d = length (seen d)"

text \<open>Entries are in the order of their times, none later than the clock.\<close>

definition window_wf :: "dedupe_window \<Rightarrow> bool" where
  "window_wf d \<longleftrightarrow> 0 \<le> window_ms d \<and> dict_wf (seen d) \<and> sorted (map snd (seen d)) \<and>
     (\<forall>(k, t) \<in> set (seen d). \<exists>l. last_now_ms d = Some l \<and> t \<le> l)"

lemma prune_suffix: "\<exists>pre. xs = pre @ prune key c xs \<and> (\<forall>(k, t) \<in> set pre. t < c \<and> k \<noteq> key)"
proof (induction key c xs rule: prune.induct)
  case (2 key c k t rest)
  show ?case
  proof (cases "t < c \<and> k \<noteq> key")
    case True
    then obtain pre where "rest = pre @ prune key c rest" "\<forall>(k, t) \<in> set pre. t < c \<and> k \<noteq> key"
      using "2.IH" by auto
    then show ?thesis
      using True by (intro exI [of _ "(k, t) # pre"]) simp
  qed (intro exI [of _ "[]"], auto)
qed simp

lemma prune_sorted:
  assumes "sorted (map snd xs)" "dict_wf xs" "(key, t') \<in> set xs" "c \<le> t'"
  shows "\<forall>(k, t) \<in> set (prune key c xs). c \<le> t"
  using assms
proof (induction key c xs rule: prune.induct)
  case (2 key c k t rest)
  then show ?case
    by (cases "c \<le> t"; cases "k = key") force+
qed simp

lemma accept_cases:
  obtains
    (error) e where "accept d key now_arg = (Inl e, d)"
  | (duplicate) now t where "now_arg = PInt now" "key \<noteq> []" "0 \<le> now"
      "\<forall>l. last_now_ms d = Some l \<longrightarrow> l \<le> now" "dict_get (seen d) key = Some t" "now - t \<le> window_ms d"
      "accept d key now_arg = (Inr False, d\<lparr>last_now_ms := Some now\<rparr>)"
  | (accepted) now where "now_arg = PInt now" "key \<noteq> []" "0 \<le> now"
      "\<forall>l. last_now_ms d = Some l \<longrightarrow> l \<le> now" "\<forall>t. dict_get (seen d) key = Some t \<longrightarrow> window_ms d < now - t"
      "accept d key now_arg = (Inr True, d\<lparr>last_now_ms := Some now,
         seen := prune key (now - window_ms d) (dict_del (seen d) key @ [(key, now)])\<rparr>)"
proof -
  have "(\<exists>e. accept d key now_arg = (Inl e, d)) \<or> (\<exists>now. now_arg = PInt now \<and> key \<noteq> [] \<and> 0 \<le> now \<and>
      (\<forall>l. last_now_ms d = Some l \<longrightarrow> l \<le> now) \<and>
      ((\<exists>t. dict_get (seen d) key = Some t \<and> now - t \<le> window_ms d \<and>
          accept d key now_arg = (Inr False, d\<lparr>last_now_ms := Some now\<rparr>)) \<or>
       (\<forall>t. dict_get (seen d) key = Some t \<longrightarrow> window_ms d < now - t) \<and>
          accept d key now_arg = (Inr True, d\<lparr>last_now_ms := Some now,
         seen := prune key (now - window_ms d) (dict_del (seen d) key @ [(key, now)])\<rparr>)))"
    by (cases now_arg; cases "dict_get (seen d) key"; cases "last_now_ms d")
      (auto simp: accept_def Let_def not_le)
  then show ?thesis
    using error duplicate accepted by blast
qed

lemma rollback_cases:
  obtains (kept) r where "rollback_accept d key at_arg = (r, d)"
  | (undone) at where "at_arg = PInt at" "dict_get (seen d) key = Some at"
      "rollback_accept d key at_arg = (Inr True, d\<lparr>seen := dict_del (seen d) key\<rparr>)"
proof -
  have "(\<exists>r. rollback_accept d key at_arg = (r, d)) \<or> (\<exists>at. at_arg = PInt at \<and>
      dict_get (seen d) key = Some at \<and>
      rollback_accept d key at_arg = (Inr True, d\<lparr>seen := dict_del (seen d) key\<rparr>))"
    by (cases at_arg) (auto simp: rollback_accept_def)
  then show ?thesis
    using kept undone by blast
qed

datatype window_call = Accept string pyval | Rollback string pyval

fun window_exec :: "window_call \<Rightarrow> dedupe_window \<Rightarrow> dedupe_window" where
  "window_exec (Accept k t) d = snd (accept d k t)"
| "window_exec (Rollback k t) d = snd (rollback_accept d k t)"

text \<open>The entries after an acceptance: the clock moves on, old entries fall out.\<close>

lemma refreshed_wf:
  assumes wf: "window_wf d" and now: "\<forall>l. last_now_ms d = Some l \<longrightarrow> l \<le> now"
    and s_def: "s = dict_del (seen d) key @ [(key, now)]"
  shows "dict_wf s" and "sorted (map snd s)" and "\<forall>(k, t) \<in> set s. t \<le> now"
    and "\<And>k. dict_get s k = (if k = key then Some now else dict_get (seen d) k)"
proof -
  show "dict_wf s"
  proof -
    have "map fst s = removeAll key (map fst (seen d)) @ [key]"
      by (simp add: s_def delete_keys)
    then show ?thesis
      using wf by (simp only: window_wf_def) (simp add: distinct_removeAll)
  qed
  have "sorted (map snd (dict_del (seen d) key))"
    using wf by (simp add: window_wf_def AList.delete_eq sorted_filter)
  moreover have le: "\<forall>(k, t) \<in> set (dict_del (seen d) key). t \<le> now"
    using wf now by (fastforce simp: window_wf_def AList.delete_eq)
  ultimately show "sorted (map snd s)" "\<forall>(k, t) \<in> set s. t \<le> now"
    by (auto simp: s_def sorted_append)
  show "dict_get s k = (if k = key then Some now else dict_get (seen d) k)" for k
    by (auto simp: s_def map_add_def delete_conv' split: option.splits)
qed

lemma accepted_wf:
  assumes wf: "window_wf d" and now: "\<forall>l. last_now_ms d = Some l \<longrightarrow> l \<le> now"
    and s_def: "s = prune key (now - window_ms d) (dict_del (seen d) key @ [(key, now)])"
  shows "window_wf (d\<lparr>last_now_ms := Some now, seen := s\<rparr>)"
    and "\<forall>(k, t) \<in> set s. now - window_ms d \<le> t"
    and "dict_get s k = (if k = key then Some now
      else if (\<exists>t. dict_get (seen d) k = Some t \<and> now - window_ms d \<le> t) then dict_get (seen d) k else None)"
proof -
  let ?s0 = "dict_del (seen d) key @ [(key, now)]"
  note fresh = refreshed_wf [OF wf now refl, of key]
  have w: "0 \<le> window_ms d"
    using wf by (simp add: window_wf_def)
  obtain pre where pre: "?s0 = pre @ s" "\<forall>(k, t) \<in> set pre. t < now - window_ms d \<and> k \<noteq> key"
    using prune_suffix [of ?s0 key "now - window_ms d"] unfolding s_def by blast
  show young: "\<forall>(k, t) \<in> set s. now - window_ms d \<le> t"
    unfolding s_def by (rule prune_sorted [OF fresh(2,1)]) (use w in auto)
  have dw: "dict_wf s" "dict_wf pre" "fst ` set pre \<inter> fst ` set s = {}"
    using fresh(1) unfolding pre(1) by auto
  show "window_wf (d\<lparr>last_now_ms := Some now, seen := s\<rparr>)"
    using fresh dw w unfolding pre(1) by (auto simp: window_wf_def sorted_append)
  have split: "dict_get ?s0 k = (case dict_get pre k of Some t \<Rightarrow> Some t | None \<Rightarrow> dict_get s k)"
    unfolding pre(1) using dw(3)
    by (cases "dict_get pre k"; cases "dict_get s k") (auto simp: map_add_def dest!: map_of_SomeD)
  show "dict_get s k = (if k = key then Some now
      else if (\<exists>t. dict_get (seen d) k = Some t \<and> now - window_ms d \<le> t) then dict_get (seen d) k else None)"
  proof (cases "dict_get pre k")
    case None
    have "now - window_ms d \<le> t" if "dict_get s k = Some t" for t
      using young map_of_SomeD [OF that] by auto
    then show ?thesis
      using None split fresh(4) [of k] by (cases "dict_get s k") auto
  next
    case (Some t)
    then have old: "t < now - window_ms d" "k \<noteq> key"
      using pre(2) by (auto dest!: map_of_SomeD)
    have "dict_get s k = None"
      using dw(3) map_of_SomeD [OF Some] by (force simp: map_of_eq_None_iff)
    then show ?thesis
      using old split Some fresh(4) [of k] by (auto simp: not_le)
  qed
qed

lemma window_exec_wf: "window_wf d \<Longrightarrow> window_wf (window_exec c d)"
proof (cases c)
  case (Accept key arg)
  assume wf: "window_wf d"
  show ?thesis
  proof (cases rule: accept_cases [of d key arg])
    case (duplicate now t)
    then show ?thesis
      using wf Accept by (fastforce simp: window_wf_def)
  next
    case (accepted now)
    then show ?thesis
      using accepted_wf(1) [OF wf accepted(4) refl, of key] Accept by simp
  qed (use wf Accept in simp)
next
  case (Rollback key arg)
  assume wf: "window_wf d"
  then show ?thesis
    using Rollback by (cases rule: rollback_cases [of d key arg])
      (auto simp: window_wf_def AList.delete_eq sorted_filter distinct_map_filter)
qed

interpretation dedupe: component window_exec window_wf
  by unfold_locales (rule window_exec_wf)

text \<open>
  The specification remembers the last acceptance of every key for ever.
\<close>

record window_spec =
  spec_window :: int
  spec_clock :: "int option"
  accepted_at :: "string \<Rightarrow> int option"

definition spec_accept :: "window_spec \<Rightarrow> string \<Rightarrow> pyval \<Rightarrow> (exn + bool) \<times> window_spec" where
  "spec_accept s key arg =
    (if key = [] then (Inl (ValueError ''INVALID_DEDUPE_KEY''), s)
     else case arg of
       PInt now \<Rightarrow>
         if now < 0 then (Inl (ValueError ''INVALID_DEDUPE_TIME''), s)
         else if (case spec_clock s of None \<Rightarrow> False | Some l \<Rightarrow> now < l)
         then (Inl (ValueError ''DEDUPE_CLOCK_REGRESSION''), s)
         else if (\<exists>t \<in> set_option (accepted_at s key). now - t \<le> spec_window s)
         then (Inr False, s\<lparr>spec_clock := Some now\<rparr>)
         else (Inr True, s\<lparr>spec_clock := Some now, accepted_at := (accepted_at s)(key \<mapsto> now)\<rparr>)
     | _ \<Rightarrow> (Inl (ValueError ''INVALID_DEDUPE_TIME''), s))"

definition spec_rollback :: "window_spec \<Rightarrow> string \<Rightarrow> pyval \<Rightarrow> window_spec" where
  "spec_rollback s key arg = (case arg of
      PInt at \<Rightarrow> if key \<noteq> [] \<and> 0 \<le> at \<and> accepted_at s key = Some at
        then s\<lparr>accepted_at := (accepted_at s)(key := None)\<rparr> else s
    | _ \<Rightarrow> s)"

fun window_decisions :: "dedupe_window \<Rightarrow> window_call list \<Rightarrow> (exn + bool) list" where
  "window_decisions d [] = []"
| "window_decisions d (Accept k t # cs) = fst (accept d k t) # window_decisions (snd (accept d k t)) cs"
| "window_decisions d (Rollback k t # cs) = window_decisions (snd (rollback_accept d k t)) cs"

fun spec_decisions :: "window_spec \<Rightarrow> window_call list \<Rightarrow> (exn + bool) list" where
  "spec_decisions s [] = []"
| "spec_decisions s (Accept k t # cs) = fst (spec_accept s k t) # spec_decisions (snd (spec_accept s k t)) cs"
| "spec_decisions s (Rollback k t # cs) = spec_decisions (spec_rollback s k t) cs"

text \<open>The window forgets only acceptances that can no longer suppress anything.\<close>

definition forgets :: "dedupe_window \<Rightarrow> window_spec \<Rightarrow> bool" where
  "forgets d s \<longleftrightarrow> window_wf d \<and> spec_window s = window_ms d \<and> spec_clock s = last_now_ms d \<and>
     (\<forall>k. dict_get (seen d) k = accepted_at s k \<or>
        dict_get (seen d) k = None \<and>
        (\<exists>t l. accepted_at s k = Some t \<and> last_now_ms d = Some l \<and> window_ms d < l - t))"

lemma forgetsD:
  assumes "forgets d s"
  shows "window_wf d" "spec_window s = window_ms d" "spec_clock s = last_now_ms d"
    and "dict_get (seen d) k = accepted_at s k \<or>
        dict_get (seen d) k = None \<and>
        (\<exists>t l. accepted_at s k = Some t \<and> last_now_ms d = Some l \<and> window_ms d < l - t)"
  using assms by (auto simp: forgets_def)

lemma accept_forgets:
  assumes f: "forgets d s"
  shows "fst (accept d key arg) = fst (spec_accept s key arg) \<and>
    forgets (snd (accept d key arg)) (snd (spec_accept s key arg))"
proof (cases rule: accept_cases [of d key arg])
  case (error e)
  then have "spec_accept s key arg = (Inl e, s)"
    using forgetsD(3) [OF f]
    by (cases arg) (auto simp: spec_accept_def accept_def Let_def split: if_splits option.splits)
  then show ?thesis
    using error f by simp
next
  case (duplicate now t)
  have "accepted_at s key = Some t"
    using forgetsD(4) [OF f, of key] duplicate(5) by auto
  then have "spec_accept s key arg = (Inr False, s\<lparr>spec_clock := Some now\<rparr>)"
    using duplicate forgetsD(2,3) [OF f] by (auto simp: spec_accept_def not_le split: option.splits)
  moreover have "window_wf (d\<lparr>last_now_ms := Some now\<rparr>)"
    using window_exec_wf [OF forgetsD(1) [OF f], of "Accept key arg"] duplicate(7) by simp
  moreover have "dict_get (seen d) k = accepted_at s k \<or> dict_get (seen d) k = None \<and>
      (\<exists>t. accepted_at s k = Some t \<and> window_ms d < now - t)" for k
    using forgetsD(4) [OF f, of k] duplicate(4) by force
  ultimately show ?thesis
    using duplicate(7) forgetsD(2) [OF f] by (simp add: forgets_def)
next
  case (accepted now)
  let ?s = "prune key (now - window_ms d) (dict_del (seen d) key @ [(key, now)])"
  note wf = accepted_wf [OF forgetsD(1) [OF f] accepted(4) refl, of key]
  have "\<not> (\<exists>t \<in> set_option (accepted_at s key). now - t \<le> spec_window s)"
    using forgetsD(2) [OF f] forgetsD(4) [OF f, of key] accepted(4,5) by fastforce
  then have "spec_accept s key arg =
      (Inr True, s\<lparr>spec_clock := Some now, accepted_at := (accepted_at s)(key \<mapsto> now)\<rparr>)"
    using accepted forgetsD(3) [OF f] by (auto simp: spec_accept_def split: option.splits)
  moreover have "dict_get ?s k = ((accepted_at s)(key \<mapsto> now)) k \<or> dict_get ?s k = None \<and>
      (\<exists>t. ((accepted_at s)(key \<mapsto> now)) k = Some t \<and> window_ms d < now - t)" for k
    using forgetsD(4) [OF f, of k]
  proof
    assume "dict_get (seen d) k = accepted_at s k"
    then show ?thesis
      using wf(3) [of k] by (cases "accepted_at s k") (auto simp: not_le)
  next
    assume "dict_get (seen d) k = None \<and>
        (\<exists>t l. accepted_at s k = Some t \<and> last_now_ms d = Some l \<and> window_ms d < l - t)"
    then show ?thesis
      using wf(3) [of k] accepted(4) by auto
  qed
  ultimately show ?thesis
    using accepted(6) wf(1) forgetsD(2) [OF f] by (simp add: forgets_def)
qed

lemma rollback_forgets:
  assumes f: "forgets d s"
  shows "forgets (snd (rollback_accept d key arg)) (spec_rollback s key arg)"
proof -
  have "window_wf (snd (rollback_accept d key arg))"
    using window_exec_wf [OF forgetsD(1) [OF f], of "Rollback key arg"] by simp
  then show ?thesis
    using f forgetsD(4) [OF f, of key]
    by (cases arg; cases "dict_get (seen d) key"; cases "accepted_at s key")
      (auto simp: rollback_accept_def spec_rollback_def forgets_def)
qed

lemma decisions_agree: "forgets d s \<Longrightarrow> window_decisions d calls = spec_decisions s calls"
proof (induction calls arbitrary: d s)
  case (Cons c calls)
  then show ?case
    using accept_forgets [OF Cons.prems] rollback_forgets [OF Cons.prems] by (cases c) auto
qed simp

text \<open>Until it is rolled back, an acceptance suppresses its key for the whole window.\<close>

definition suppresses :: "string \<Rightarrow> int \<Rightarrow> dedupe_window \<Rightarrow> bool" where
  "suppresses key t d \<longleftrightarrow> (\<exists>s. dict_get (seen d) key = Some s \<and> t \<le> s) \<or>
     (\<exists>l. last_now_ms d = Some l \<and> window_ms d < l - t)"

lemma window_ms_exec [simp]: "window_ms (window_exec c d) = window_ms d"
proof (cases c)
  case (Accept k a)
  then show ?thesis by (cases rule: accept_cases [of d k a]) auto
next
  case (Rollback k a)
  then show ?thesis by (cases rule: rollback_cases [of d k a]) auto
qed

lemma window_ms_run [simp]: "window_ms (fold window_exec cs d) = window_ms d"
  by (induction cs arbitrary: d) auto

lemma suppresses_exec:
  assumes wf: "window_wf d" and s: "suppresses key t d" and c: "\<forall>k a. c = Rollback k a \<longrightarrow> k \<noteq> key"
  shows "suppresses key t (window_exec c d)"
proof (cases c)
  case (Accept k a)
  show ?thesis
  proof (cases rule: accept_cases [of d k a])
    case (accepted now)
    note wf' = accepted_wf [OF wf accepted(4) refl, of k]
    have "\<exists>s l. dict_get (seen d) key = Some s \<and> last_now_ms d = Some l \<and> s \<le> l" if "dict_get (seen d) key \<noteq> None"
      using that wf by (fastforce simp: window_wf_def dest!: map_of_SomeD)
    then show ?thesis
      using Accept accepted(4,6) s wf'(3) [of key]
      by (cases "dict_get (seen d) key") (force simp: suppresses_def)+
  qed (use s Accept in \<open>force simp: suppresses_def\<close>)+
next
  case (Rollback k a)
  then show ?thesis
    using c s by (cases rule: rollback_cases [of d k a]) (auto simp: suppresses_def)
qed

lemma suppresses_run:
  "window_wf d \<Longrightarrow> suppresses key t d \<Longrightarrow> (\<forall>a. Rollback key a \<notin> set cs) \<Longrightarrow>
     suppresses key t (fold window_exec cs d)"
proof (induction cs arbitrary: d)
  case (Cons c cs)
  then have "suppresses key t (window_exec c d)"
    by (intro suppresses_exec) auto
  with Cons show ?case
    by (simp add: window_exec_wf)
qed simp

section \<open>Small inputs\<close>

definition sample_env :: "string \<Rightarrow> int \<Rightarrow> string list \<Rightarrow> radar_envelope" where
  "sample_env mid p aud =
    \<lparr>schema_version = 1, message_id = mid, created_at = ''t'', sender = ''b'', audience = aud,
     domain = ''ui'', intent = ''event'', priority = p, payload = PNone, content_hash = ''h'',
     idempotency_key = mid, correlation_id = None, root_task_id = None, causal_parent_id = None,
     requires_ack = False, expires_at = None, authority_ref = None, source_refs = []\<rparr>"

definition sample_queue :: priority_queue where
  "sample_queue = \<lparr>max_size = 2, next_counter = 0, heap = []\<rparr>"

lemma sample_queue_wf [simp]: "queue_wf sample_queue" "contents sample_queue = []"
  "max_size sample_queue = 2"
  by (simp_all add: sample_queue_def queue_wf_def contents_def)

definition sample_burst :: "radar_envelope list" where
  "sample_burst = [sample_env ''a'' 3 [], sample_env ''b'' 1 [], sample_env ''c'' 3 []]"

lemma sample_env_wf: "env_wf (sample_env ''m'' 2 [''x'', ''zz''])"
proof -
  have "canonical_key ''x''" "canonical_key ''zz''" "clean ''b''"
    by code_simp+
  then show ?thesis
    by (simp add: env_wf_def sample_env_def ALLOWED_DOMAINS_def ALLOWED_INTENTS_def priority_defs)
qed

section \<open>Properties\<close>

text \<open>
  C2: a message is routed to exactly the live, subscribed nodes it is addressed to, each once:
  with no audience to all of them, otherwise to those whose identity is named by some audience
  entry. Unknown audience names are ignored, but they never widen the delivery: an audience in
  which no name is known reaches nobody.
\<close>

theorem route_recipients_exact:
  assumes "registry_wf r" and "env_wf e" and "0 \<le> now"
  shows "\<exists>rs. route r e (PInt now) =
      Inr \<lparr>recipients = rs, route_priority = priority e, route_authority = authority_ref e\<rparr> \<and>
    distinct rs \<and>
    (\<forall>k. k \<in> set rs \<longleftrightarrow> node_reached r (domain e) (priority e) (Some (intent e)) now k \<and>
      (audience e = [] \<or> (\<exists>a \<in> set (audience e). \<exists>i. resolve_identity_id r a = Inr i \<and> node_owner r k = Some i)))"
  unfolding route_def by (rule directory.route_exact [OF assms])

theorem route_recipients_exact_witness:
  "\<exists>rs. route sample_registry (sample_env ''m'' 2 [''x'', ''zz'']) (PInt 6) =
      Inr \<lparr>recipients = rs, route_priority = 2, route_authority = None\<rparr> \<and> distinct rs \<and> set rs = {''n2''}"
proof -
  have aud: "(\<exists>a \<in> set [''x'', ''zz'']. \<exists>i. resolve_identity_id sample_registry a = Inr i \<and> j = Some i) \<longleftrightarrow> j = Some ''a''" for j
  proof -
    have "resolve_identity_id sample_registry ''x'' = Inr ''a''"
      "resolve_identity_id sample_registry ''zz'' = Inl (RegistryError ''UNKNOWN_IDENTITY'')"
      by code_simp+
    then show ?thesis by auto
  qed
  have nodes: "map (\<lambda>(k, n). (k, node_identity n, deliverable sample_registry ''ui'' 2 (Some ''event'') 6 n))
      (nodes sample_registry) = [(''n2'', ''a'', True), (''n1'', ''b'', True)]"
    by code_simp
  then have "node_reached sample_registry ''ui'' 2 (Some ''event'') 6 k \<and> node_owner sample_registry k = Some ''a''
      \<longleftrightarrow> k = ''n2''" for k
    by (auto simp: node_reached_def node_owner_def map_eq_Cons_conv split: if_splits)
  then show ?thesis
    using route_recipients_exact [OF sample_registry_wf sample_env_wf, of 6]
    by (auto simp: sample_env_def aud simp del: set_simps)
qed

text \<open>The queue's specification on a list in execution order.\<close>

definition spec_push :: "int \<Rightarrow> radar_envelope \<Rightarrow> radar_envelope list \<Rightarrow> (exn + radar_envelope option) \<times> radar_envelope list" where
  "spec_push cap e es =
    (if int (length es) < cap then (Inr None, enqueue e es)
     else if priority e \<noteq> 0 \<or> priority (last es) = 0 then (Inl (OverflowError ''RADAR_QUEUE_FULL''), es)
     else (Inr (Some (last es)), enqueue e (butlast es)))"

definition spec_pop :: "radar_envelope list \<Rightarrow> (exn + radar_envelope) \<times> radar_envelope list" where
  "spec_pop es = (case es of [] \<Rightarrow> (Inl (IndexError ''RADAR_QUEUE_EMPTY''), []) | e # es' \<Rightarrow> (Inr e, es'))"

text \<open>
  C5: the bounded heap implements a sorted list: \<open>push\<close> puts an envelope behind its priority's
  peers, refuses it when the queue is full (an urgent one only when everything queued is urgent),
  or displaces the newest envelope of the lowest priority for an urgent one; \<open>pop\<close> takes the
  head. No other effect on the contents, and the size bound holds.
\<close>

theorem queue_refines_priority_list:
  assumes "queue_wf q"
  shows "queue_wf (snd (push q e)) \<and> queue_wf (snd (pop q)) \<and>
    (fst (push q e), contents (snd (push q e))) = spec_push (max_size q) e (contents q) \<and>
    (fst (pop q), contents (snd (pop q))) = spec_pop (contents q)"
proof -
  have "queue_wf (snd (push q e)) \<and>
      (fst (push q e), contents (snd (push q e))) = spec_push (max_size q) e (contents q)"
    by (cases rule: rq.put_cases [OF assms, of e]) (auto simp: spec_push_def)
  moreover have "queue_wf (snd (pop q)) \<and>
      (fst (pop q), contents (snd (pop q))) = spec_pop (contents q)"
    using pop_empty [of q] pop_head [OF assms] assms
    by (cases "contents q") (force simp: spec_pop_def)+
  ultimately show ?thesis by blast
qed

theorem queue_refines_priority_list_witness:
  "fst (push sample_queue (sample_env ''m'' 3 [])) = Inr None"
  using queue_refines_priority_list [of sample_queue "sample_env ''m'' 3 []"]
  by (simp add: spec_push_def)

text \<open>
  Filling an empty queue with envelopes and popping them all returns them in a stable sort by
  priority: lower numbers first, first come first served inside a priority.
\<close>

theorem queue_drains_in_stable_priority_order:
  assumes "new_queue (PInt n) = Inr q" and "int (length es) \<le> n"
  shows "drain (length es) (fold (\<lambda>e q. snd (push q e)) es q) = sort_key priority es"
proof -
  have q: "queue_wf q" "contents q = []" "max_size q = n"
    using assms(1) by (auto simp: new_queue_def queue_wf_def contents_def split: if_splits)
  let ?q = "fold (\<lambda>e q. snd (push q e)) es q"
  have "queue_wf ?q" "contents ?q = sort_key priority es"
    using fill_contents [OF q(1), of es] q(2,3) assms(2) by (simp_all add: fold_enqueue)
  then show ?thesis
    using drain_contents [of ?q] by simp
qed

theorem queue_drains_in_stable_priority_order_witness:
  "map message_id (drain (length sample_burst) (fold (\<lambda>e q. snd (push q e)) sample_burst
      \<lparr>max_size = 4, next_counter = 0, heap = []\<rparr>)) = [''b'', ''a'', ''c'']"
proof -
  have new: "new_queue (PInt 4) = Inr \<lparr>max_size = 4, next_counter = 0, heap = []\<rparr>"
    by (simp add: new_queue_def)
  have "int (length sample_burst) \<le> 4"
    by (simp add: sample_burst_def)
  from queue_drains_in_stable_priority_order [OF new this] show ?thesis
    by (simp only:) (simp add: sample_burst_def sample_env_def)
qed

text \<open>
  Pruning is unobservable: a new duplicate window takes, call by call, the same admission
  decisions (errors included) as one that remembers the last acceptance of every key for ever,
  whatever acceptances and rollbacks are interleaved.
\<close>

theorem dedupe_pruning_unobservable:
  assumes "new_window (PInt w) = Inr d"
  shows "window_decisions d calls =
    spec_decisions \<lparr>spec_window = w, spec_clock = None, accepted_at = Map.empty\<rparr> calls"
  using assms by (intro decisions_agree) (auto simp: new_window_def forgets_def window_wf_def split: if_splits)

theorem dedupe_pruning_unobservable_witness:
  "window_decisions \<lparr>window_ms = 5, seen = [], last_now_ms = None\<rparr>
     [Accept ''k'' (PInt 1), Accept ''k'' (PInt 6), Accept ''k'' (PInt 7)] = [Inr True, Inr False, Inr True]"
proof -
  have "new_window (PInt 5) = Inr \<lparr>window_ms = 5, seen = [], last_now_ms = None\<rparr>"
    by (simp add: new_window_def)
  then show ?thesis
    by (subst dedupe_pruning_unobservable) (auto simp: spec_accept_def)
qed

text \<open>
  While an acceptance is not rolled back, its key is suppressed for the whole window: after a
  key is accepted at \<open>t\<close>, and any further calls that do not roll this key back, it is accepted
  again at \<open>u\<close> only if \<open>u - t\<close> exceeds the window.
\<close>

theorem dedupe_acceptances_apart:
  assumes "window_wf d" and "accept d key (PInt t) = (Inr True, d1)"
    and "\<forall>a. Rollback key a \<notin> set calls"
    and "accept (fold window_exec calls d1) key (PInt u) = (Inr True, d2)"
  shows "window_ms d < u - t"
proof -
  have d1: "window_exec (Accept key (PInt t)) d = d1"
    using assms(2) by simp
  have "window_wf d1" "window_ms d1 = window_ms d"
    using window_exec_wf [OF assms(1)] window_ms_exec unfolding d1 [symmetric] by blast+
  moreover have "suppresses key t d1"
    using accepted_wf(3) [OF assms(1) _ refl, of t key key] assms(2)
    by (cases rule: accept_cases [of d key "PInt t"]) (auto simp: suppresses_def)
  ultimately have s: "suppresses key t (fold window_exec calls d1)"
    and w: "window_ms (fold window_exec calls d1) = window_ms d"
    using assms(3) by (simp_all add: suppresses_run)
  show ?thesis
    using s w assms(4)
    by (cases rule: accept_cases [of "fold window_exec calls d1" key "PInt u"]) (auto simp: suppresses_def)
qed

theorem dedupe_acceptances_apart_witness: "(5 :: int) < 7 - 1"
proof -
  let ?d = "\<lparr>window_ms = 5, seen = [], last_now_ms = None\<rparr>"
  let ?d1 = "\<lparr>window_ms = 5, seen = [(''k'', 1)], last_now_ms = Some 1\<rparr>"
  have wf: "window_wf ?d"
    by (simp add: window_wf_def)
  have first: "accept ?d ''k'' (PInt 1) = (Inr True, ?d1)"
    by (simp add: accept_def)
  have second: "accept (fold window_exec [Accept ''q'' (PInt 3)] ?d1) ''k'' (PInt 7) =
      (Inr True, \<lparr>window_ms = 5, seen = [(''q'', 3), (''k'', 7)], last_now_ms = Some 7\<rparr>)"
    by (simp add: accept_def)
  show ?thesis
    using dedupe_acceptances_apart [OF wf first _ second] by simp
qed

end
