(* ===== verification/Telemetry.thy ===== *)
theory Telemetry
  imports Json
begin

text \<open>
  Durable counters and the 60-second heartbeat: \<open>src/src/radar/telemetry.py\<close>. The two SQLite
  tables are the state; a method runs under the object's lock and one transaction, so it is one
  transition, and a method that rolls back leaves the state as it was. Integers are unbounded
  here; SQLite keeps 64 bits.
\<close>

section \<open>The tables\<close>

definition HEARTBEAT_INTERVAL_MS :: int where "HEARTBEAT_INTERVAL_MS = 60000"

definition COUNTER_NAMES :: "string list" where
  "COUNTER_NAMES = [''routed'', ''dropped'', ''dlq'']"

definition HEARTBEAT_FINAL_STATES :: "string list" where
  "HEARTBEAT_FINAL_STATES = [''DELIVERED'', ''UNCONFIRMED'']"

record telemetry_snapshot =
  snap_routed :: int
  snap_dropped :: int
  snap_dlq :: int

definition snapshot_as_dict :: "telemetry_snapshot \<Rightarrow> pymap" where
  "snapshot_as_dict s = [(''routed'', PInt (snap_routed s)), (''dropped'', PInt (snap_dropped s)),
     (''dlq'', PInt (snap_dlq s))]"

record heartbeat_row =
  heartbeat_id :: int
  emitted_at_ms :: int
  hb_counts :: telemetry_snapshot
  source_ref :: "string option"
  provider_state :: "string option"
  delivery_state :: string
  missed_intervals :: "int option"

definition row_text :: "string option \<Rightarrow> pyval" where
  "row_text t = (case t of None \<Rightarrow> PNone | Some s \<Rightarrow> PStr s)"

definition row_as_dict :: "heartbeat_row \<Rightarrow> pymap" where
  "row_as_dict r =
    [(''heartbeat_id'', PInt (heartbeat_id r)), (''emitted_at_ms'', PInt (emitted_at_ms r)),
     (''counts'', PDict (snapshot_as_dict (hb_counts r))),
     (''source_ref'', row_text (source_ref r)), (''provider_state'', row_text (provider_state r)),
     (''delivery_state'', PStr (delivery_state r)),
     (''missed_intervals'', case missed_intervals r of None \<Rightarrow> PNone | Some m \<Rightarrow> PInt m)]"

record telemetry =
  counters :: "(string, int) dict"
  heartbeats :: "heartbeat_row list"
  heartbeat_seq :: int

text \<open>
  Opening the store on an existing database: a missing column is added with its default, and
  missing counters start at zero.
\<close>

definition migrate_heartbeat_columns :: "bool \<Rightarrow> bool \<Rightarrow> heartbeat_row list \<Rightarrow> heartbeat_row list" where
  "migrate_heartbeat_columns has_delivery has_missed rows =
    (let rows1 = (if has_delivery then rows
                  else map (\<lambda>r. r\<lparr>delivery_state := ''LEGACY_UNKNOWN''\<rparr>) rows) in
     if has_missed then rows1 else map (\<lambda>r. r\<lparr>missed_intervals := None\<rparr>) rows1)"

definition insert_or_ignore :: "string \<Rightarrow> (string, int) dict \<Rightarrow> (string, int) dict" where
  "insert_or_ignore k d = (if dict_has d k then d else d @ [(k, 0)])"

definition open_store :: "bool \<Rightarrow> bool \<Rightarrow> telemetry \<Rightarrow> telemetry" where
  "open_store has_delivery has_missed t =
    t\<lparr>heartbeats := migrate_heartbeat_columns has_delivery has_missed (heartbeats t),
      counters := fold insert_or_ignore COUNTER_NAMES (counters t)\<rparr>"

definition empty_telemetry :: telemetry where
  "empty_telemetry = open_store True True \<lparr>counters = [], heartbeats = [], heartbeat_seq = 0\<rparr>"

section \<open>Counters\<close>

definition snapshot :: "telemetry \<Rightarrow> exn + telemetry_snapshot" where
  "snapshot t =
    (case map (dict_get (counters t)) COUNTER_NAMES of
       [Some r, Some d, Some q] \<Rightarrow> Inr \<lparr>snap_routed = r, snap_dropped = d, snap_dlq = q\<rparr>
     | _ \<Rightarrow> Inl (RuntimeError ''TELEMETRY_COUNTER_STATE_INCOMPLETE''))"

definition increment :: "telemetry \<Rightarrow> string \<Rightarrow> pyval \<Rightarrow> (exn + telemetry_snapshot) \<times> telemetry" where
  "increment t name amount_arg =
    (if name \<notin> set COUNTER_NAMES then (Inl (ValueError ''UNKNOWN_TELEMETRY_COUNTER''), t)
     else case amount_arg of
       PInt amount \<Rightarrow>
         if amount < 0 then (Inl (ValueError ''INVALID_TELEMETRY_INCREMENT''), t)
         else
           let t' = t\<lparr>counters := map (\<lambda>(k, v). (k, if k = name then v + amount else v)) (counters t)\<rparr> in
           (case snapshot t' of Inl e \<Rightarrow> (Inl e, t) | Inr s \<Rightarrow> (Inr s, t'))
     | _ \<Rightarrow> (Inl (ValueError ''INVALID_TELEMETRY_INCREMENT''), t))"

section \<open>Heartbeats\<close>

text \<open>\<open>ORDER BY emitted_at_ms DESC, heartbeat_id DESC\<close>, by two stable sorts.\<close>

definition latest_first :: "heartbeat_row list \<Rightarrow> heartbeat_row list" where
  "latest_first rows = rev (sort_key emitted_at_ms (sort_key heartbeat_id rows))"

definition last_heartbeat_ms :: "telemetry \<Rightarrow> int option" where
  "last_heartbeat_ms t =
    (case latest_first (heartbeats t) of [] \<Rightarrow> None | r # _ \<Rightarrow> Some (emitted_at_ms r))"

definition milliseconds_until_heartbeat :: "telemetry \<Rightarrow> pyval \<Rightarrow> exn + int" where
  "milliseconds_until_heartbeat t now_arg = (case now_arg of
      PInt now \<Rightarrow>
        if now < 0 then Inl (ValueError ''INVALID_HEARTBEAT_TIME'')
        else (case last_heartbeat_ms t of
           None \<Rightarrow> Inr 0
         | Some lst \<Rightarrow>
             if now < lst then Inl (ValueError ''HEARTBEAT_CLOCK_REGRESSION'')
             else Inr (max 0 (HEARTBEAT_INTERVAL_MS - (now - lst))))
    | _ \<Rightarrow> Inl (ValueError ''INVALID_HEARTBEAT_TIME''))"

definition heartbeat_message ::
  "string \<Rightarrow> int \<Rightarrow> int \<Rightarrow> int \<Rightarrow> telemetry_snapshot \<Rightarrow> string option \<Rightarrow> string option \<Rightarrow> pymap" where
  "heartbeat_message created hid now missed snap src prov =
    (let counts = PDict (snapshot_as_dict snap);
         pay = PDict [(''heartbeat_sequence'', PInt hid), (''emitted_at_ms'', PInt now),
           (''missed_intervals'', PInt missed), (''counts'', counts),
           (''source_ref'', row_text src), (''provider_state'', row_text prov)] in
     [(''schema_version'', PInt 1), (''message_id'', PStr (''radar-heartbeat-'' @ int_text now)),
      (''created_at'', PStr created), (''sender'', PStr ''radar''), (''audience'', PList []),
      (''domain'', PStr ''system''), (''intent'', PStr ''telemetry''), (''priority'', PInt 4),
      (''payload'', pay), (''heartbeat_sequence'', PInt hid), (''emitted_at_ms'', PInt now),
      (''missed_intervals'', PInt missed), (''counts'', counts),
      (''source_ref'', row_text src), (''provider_state'', row_text prov)])"

text \<open>
  \<open>iso_of\<close> is the library's rendering of a time stamp. It fails on years the library cannot
  represent; the row is committed by then.
\<close>

definition create_heartbeat ::
  "(int \<Rightarrow> exn + string) \<Rightarrow> telemetry \<Rightarrow> pyval \<Rightarrow> string option \<Rightarrow> string option \<Rightarrow> string \<Rightarrow>
   (exn + pymap option) \<times> telemetry" where
  "create_heartbeat iso_of t now_arg src prov delivery = (case now_arg of
      PInt now \<Rightarrow>
        if now < 0 then (Inl (ValueError ''INVALID_HEARTBEAT_TIME''), t)
        else if delivery \<notin> {''PENDING'', ''DELIVERED''}
        then (Inl (ValueError ''INVALID_HEARTBEAT_DELIVERY_STATE''), t)
        else
          let lst = last_heartbeat_ms t in
          if (case lst of None \<Rightarrow> False | Some l \<Rightarrow> now < l)
          then (Inl (ValueError ''HEARTBEAT_CLOCK_REGRESSION''), t)
          else if (case lst of None \<Rightarrow> False | Some l \<Rightarrow> now - l < HEARTBEAT_INTERVAL_MS)
          then (Inr None, t)
          else
            let missed = (case lst of None \<Rightarrow> 0
                          | Some l \<Rightarrow> max 0 ((now - l) div HEARTBEAT_INTERVAL_MS - 1)) in
            (case snapshot t of
               Inl e \<Rightarrow> (Inl e, t)
             | Inr snap \<Rightarrow>
                 let hid = heartbeat_seq t + 1;
                     row = \<lparr>heartbeat_id = hid, emitted_at_ms = now, hb_counts = snap, source_ref = src,
                            provider_state = prov, delivery_state = delivery,
                            missed_intervals = Some missed\<rparr>;
                     t' = t\<lparr>heartbeats := heartbeats t @ [row], heartbeat_seq := hid\<rparr> in
                 (bindE (iso_of now) (\<lambda>created.
                    Inr (Some (heartbeat_message (str_replace ''+00:00'' ''Z'' created)
                                hid now missed snap src prov))), t'))
    | _ \<Rightarrow> (Inl (ValueError ''INVALID_HEARTBEAT_TIME''), t))"

definition emit_heartbeat ::
  "(int \<Rightarrow> exn + string) \<Rightarrow> telemetry \<Rightarrow> pyval \<Rightarrow> string option \<Rightarrow> string option \<Rightarrow>
   (exn + pymap option) \<times> telemetry" where
  "emit_heartbeat iso_of t now_arg src prov = create_heartbeat iso_of t now_arg src prov ''DELIVERED''"

definition claim_heartbeat ::
  "(int \<Rightarrow> exn + string) \<Rightarrow> telemetry \<Rightarrow> pyval \<Rightarrow> string option \<Rightarrow> string option \<Rightarrow>
   (exn + pymap option) \<times> telemetry" where
  "claim_heartbeat iso_of t now_arg src prov = create_heartbeat iso_of t now_arg src prov ''PENDING''"

definition mark_heartbeat_delivery :: "telemetry \<Rightarrow> pyval \<Rightarrow> string \<Rightarrow> (exn + unit) \<times> telemetry" where
  "mark_heartbeat_delivery t id_arg delivery = (case id_arg of
      PInt hid \<Rightarrow>
        if hid \<le> 0 then (Inl (ValueError ''INVALID_HEARTBEAT_ID''), t)
        else if delivery \<notin> set HEARTBEAT_FINAL_STATES
        then (Inl (ValueError ''INVALID_HEARTBEAT_DELIVERY_STATE''), t)
        else
          let hit = (\<lambda>r. heartbeat_id r = hid \<and> delivery_state r = ''PENDING'');
              t' = t\<lparr>heartbeats := map (\<lambda>r. if hit r then r\<lparr>delivery_state := delivery\<rparr> else r) (heartbeats t)\<rparr> in
          if length (filter hit (heartbeats t)) \<noteq> 1
          then (Inl (RuntimeError ''HEARTBEAT_DELIVERY_STATE_NOT_PENDING''), t')
          else (Inr (), t')
    | _ \<Rightarrow> (Inl (ValueError ''INVALID_HEARTBEAT_ID''), t))"

definition recent_heartbeats :: "telemetry \<Rightarrow> pyval \<Rightarrow> exn + heartbeat_row list" where
  "recent_heartbeats t limit_arg = (case limit_arg of
      PInt n \<Rightarrow> if n \<le> 0 then Inl (ValueError ''limit must be > 0'')
        else Inr (take (nat n) (latest_first (heartbeats t)))
    | _ \<Rightarrow> Inl (ValueError ''limit must be > 0''))"

section \<open>The invariant\<close>

definition spaced :: "heartbeat_row list \<Rightarrow> bool" where
  "spaced rows \<longleftrightarrow> sorted_wrt (\<lambda>a b. emitted_at_ms a + HEARTBEAT_INTERVAL_MS \<le> emitted_at_ms b) rows"

text \<open>Each row accounts for the whole intervals since the row before it.\<close>

fun accounted :: "int option \<Rightarrow> heartbeat_row list \<Rightarrow> bool" where
  "accounted prev [] = True"
| "accounted prev (r # rs) \<longleftrightarrow> missed_intervals r = Some (case prev of None \<Rightarrow> 0
      | Some p \<Rightarrow> (emitted_at_ms r - p) div HEARTBEAT_INTERVAL_MS - 1) \<and> accounted (Some (emitted_at_ms r)) rs"

definition row_ok :: "heartbeat_row \<Rightarrow> bool" where
  "row_ok r \<longleftrightarrow> 0 < heartbeat_id r \<and> 0 \<le> emitted_at_ms r \<and>
     delivery_state r \<in> {''PENDING'', ''DELIVERED'', ''UNCONFIRMED''} \<and>
     0 \<le> snap_routed (hb_counts r) \<and> 0 \<le> snap_dropped (hb_counts r) \<and> 0 \<le> snap_dlq (hb_counts r)"

definition telemetry_wf :: "telemetry \<Rightarrow> bool" where
  "telemetry_wf t \<longleftrightarrow>
     map fst (counters t) = COUNTER_NAMES \<and> (\<forall>(k, v) \<in> set (counters t). 0 \<le> v) \<and>
     spaced (heartbeats t) \<and> accounted None (heartbeats t) \<and> list_all row_ok (heartbeats t) \<and>
     sorted_wrt (<) (map heartbeat_id (heartbeats t)) \<and>
     (\<forall>r \<in> set (heartbeats t). heartbeat_id r \<le> heartbeat_seq t) \<and> 0 \<le> heartbeat_seq t"

lemma telemetry_wf_empty: "telemetry_wf empty_telemetry"
  by (simp add: telemetry_wf_def empty_telemetry_def open_store_def insert_or_ignore_def
      migrate_heartbeat_columns_def COUNTER_NAMES_def spaced_def)

text \<open>On a well-formed history the newest row is the last inserted one.\<close>

lemma latest_first_wf: "telemetry_wf t \<Longrightarrow> latest_first (heartbeats t) = rev (heartbeats t)"
proof -
  assume wf: "telemetry_wf t"
  have "sorted (map heartbeat_id (heartbeats t))"
    using wf by (auto simp: telemetry_wf_def intro: strict_sorted_imp_sorted)
  moreover have "sorted (map emitted_at_ms (heartbeats t))"
    using wf by (auto simp: telemetry_wf_def spaced_def sorted_map HEARTBEAT_INTERVAL_MS_def
        elim!: sorted_wrt_mono_rel [rotated])
  ultimately show ?thesis
    by (simp add: latest_first_def sort_key_id_if_sorted)
qed

lemma last_heartbeat_wf:
  "telemetry_wf t \<Longrightarrow> last_heartbeat_ms t =
     (if heartbeats t = [] then None else Some (emitted_at_ms (last (heartbeats t))))"
  unfolding last_heartbeat_ms_def by (subst latest_first_wf; cases "heartbeats t" rule: rev_cases) simp_all

text \<open>The value of a counter, and the counters as one table.\<close>

definition counter_value :: "telemetry \<Rightarrow> string \<Rightarrow> int" where
  "counter_value t k = (case dict_get (counters t) k of None \<Rightarrow> 0 | Some v \<Rightarrow> v)"

lemma counters_wf:
  assumes "telemetry_wf t"
  shows "counters t = [(''routed'', counter_value t ''routed''), (''dropped'', counter_value t ''dropped''),
    (''dlq'', counter_value t ''dlq'')]" and "0 \<le> counter_value t k"
proof -
  obtain r d q where c: "counters t = [(''routed'', r), (''dropped'', d), (''dlq'', q)]"
    using assms by (auto simp: telemetry_wf_def COUNTER_NAMES_def map_eq_Cons_conv)
  then show "counters t = [(''routed'', counter_value t ''routed''), (''dropped'', counter_value t ''dropped''),
    (''dlq'', counter_value t ''dlq'')]"
    by (simp add: counter_value_def)
  show "0 \<le> counter_value t k"
    using assms c by (auto simp: telemetry_wf_def counter_value_def)
qed

lemma snapshot_wf:
  "telemetry_wf t \<Longrightarrow> snapshot t = Inr \<lparr>snap_routed = counter_value t ''routed'',
     snap_dropped = counter_value t ''dropped'', snap_dlq = counter_value t ''dlq''\<rparr>"
  by (subst snapshot_def, subst counters_wf) (simp_all add: COUNTER_NAMES_def)

lemma increment_wf:
  assumes wf: "telemetry_wf t" and k: "k \<in> set COUNTER_NAMES" and n: "0 \<le> n"
  shows "\<exists>s t'. increment t k (PInt n) = (Inr s, t') \<and> telemetry_wf t' \<and>
    heartbeats t' = heartbeats t \<and> heartbeat_seq t' = heartbeat_seq t \<and>
    counter_value t' = (counter_value t)(k := counter_value t k + n)"
proof -
  let ?t = "t\<lparr>counters := map (\<lambda>(j, v). (j, if j = k then v + n else v)) (counters t)\<rparr>"
  have wf': "telemetry_wf ?t"
    using wf n by (auto simp: telemetry_wf_def case_prod_unfold comp_def)
  have "counter_value ?t j = ((counter_value t)(k := counter_value t k + n)) j" for j
  proof -
    obtain r d q where c: "counters t = [(''routed'', r), (''dropped'', d), (''dlq'', q)]"
      using counters_wf(1) [OF wf] by blast
    show ?thesis
      using k by (auto simp: counter_value_def COUNTER_NAMES_def c)
  qed
  then show ?thesis
    using wf' k n snapshot_wf [OF wf'] by (auto simp: increment_def Let_def)
qed

section \<open>The counter interface\<close>

locale counter_store =
  fixes ok :: "'t \<Rightarrow> bool"
    and value_of :: "'t \<Rightarrow> string \<Rightarrow> int"
    and bump :: "'t \<Rightarrow> string \<Rightarrow> pyval \<Rightarrow> (exn + 'r) \<times> 't"
  assumes bump_ok: "ok t \<Longrightarrow> k \<in> set COUNTER_NAMES \<Longrightarrow>
      \<exists>s t'. bump t k (PInt 1) = (Inr s, t') \<and> ok t' \<and>
        value_of t' = (value_of t)(k := value_of t k + 1)"
begin

definition total :: "'t \<Rightarrow> int" where
  "total t = (\<Sum>k \<leftarrow> COUNTER_NAMES. value_of t k)"

lemma bump_total:
  assumes "ok t" "k \<in> set COUNTER_NAMES"
  shows "ok (snd (bump t k (PInt 1)))" "total (snd (bump t k (PInt 1))) = total t + 1"
  using bump_ok [OF assms] assms(2) by (auto simp: total_def COUNTER_NAMES_def)

end

interpretation tel: counter_store telemetry_wf counter_value increment
  by unfold_locales (use increment_wf [where n = 1] in force)

section \<open>Heartbeat creation\<close>

lemma spaced_snoc:
  "spaced (rows @ [r]) \<longleftrightarrow> spaced rows \<and>
     (\<forall>a \<in> set rows. emitted_at_ms a + HEARTBEAT_INTERVAL_MS \<le> emitted_at_ms r)"
  by (auto simp: spaced_def sorted_wrt_append)

lemma spaced_last: "spaced rows \<Longrightarrow> a \<in> set rows \<Longrightarrow> emitted_at_ms a \<le> emitted_at_ms (last rows)"
  by (cases rows rule: rev_cases) (auto simp: spaced_snoc HEARTBEAT_INTERVAL_MS_def)

lemma accounted_snoc:
  "accounted p (rows @ [r]) \<longleftrightarrow> accounted p rows \<and>
     missed_intervals r = Some (case (if rows = [] then p else Some (emitted_at_ms (last rows))) of
       None \<Rightarrow> 0 | Some l \<Rightarrow> (emitted_at_ms r - l) div HEARTBEAT_INTERVAL_MS - 1)"
  by (induction rows arbitrary: p) auto

text \<open>The two outcomes of an attempt at a valid time, and its errors.\<close>

definition due :: "telemetry \<Rightarrow> int \<Rightarrow> bool" where
  "due t now \<longleftrightarrow> heartbeats t = [] \<or>
     emitted_at_ms (last (heartbeats t)) + HEARTBEAT_INTERVAL_MS \<le> now"

definition new_row :: "telemetry \<Rightarrow> int \<Rightarrow> string option \<Rightarrow> string option \<Rightarrow> string \<Rightarrow> heartbeat_row" where
  "new_row t now src prov delivery =
    \<lparr>heartbeat_id = heartbeat_seq t + 1, emitted_at_ms = now, hb_counts = projr (snapshot t),
     source_ref = src, provider_state = prov, delivery_state = delivery,
     missed_intervals = Some (if heartbeats t = [] then 0 else
       (now - emitted_at_ms (last (heartbeats t))) div HEARTBEAT_INTERVAL_MS - 1)\<rparr>"

lemma interval_div: "l + HEARTBEAT_INTERVAL_MS \<le> now \<Longrightarrow> 1 \<le> (now - l) div HEARTBEAT_INTERVAL_MS"
  by (simp add: HEARTBEAT_INTERVAL_MS_def)

lemma create_heartbeat_wf:
  assumes wf: "telemetry_wf t" and now: "0 \<le> now" and d: "delivery \<in> {''PENDING'', ''DELIVERED''}"
  shows "create_heartbeat iso_of t (PInt now) src prov delivery =
    (if heartbeats t \<noteq> [] \<and> now < emitted_at_ms (last (heartbeats t))
     then (Inl (ValueError ''HEARTBEAT_CLOCK_REGRESSION''), t)
     else if \<not> due t now then (Inr None, t)
     else (bindE (iso_of now) (\<lambda>created. Inr (Some (heartbeat_message (str_replace ''+00:00'' ''Z'' created)
             (heartbeat_seq t + 1) now (the (missed_intervals (new_row t now src prov delivery)))
             (projr (snapshot t)) src prov))),
           t\<lparr>heartbeats := heartbeats t @ [new_row t now src prov delivery],
             heartbeat_seq := heartbeat_seq t + 1\<rparr>))"
  using now d interval_div [of "emitted_at_ms (last (heartbeats t))" now] snapshot_wf [OF wf]
  by (auto simp: create_heartbeat_def last_heartbeat_wf [OF wf] due_def new_row_def Let_def max_def
      not_less not_le)

lemma telemetry_wf_new_row:
  assumes wf: "telemetry_wf t" and now: "0 \<le> now" and due: "due t now"
    and d: "delivery \<in> {''PENDING'', ''DELIVERED''}"
  shows "telemetry_wf (t\<lparr>heartbeats := heartbeats t @ [new_row t now src prov delivery],
    heartbeat_seq := heartbeat_seq t + 1\<rparr>)"
proof -
  have "emitted_at_ms a + HEARTBEAT_INTERVAL_MS \<le> now" if "a \<in> set (heartbeats t)" for a
    using due spaced_last [of "heartbeats t" a] that wf by (auto simp: due_def telemetry_wf_def)
  moreover have "row_ok (new_row t now src prov delivery)"
    using wf now d counters_wf(2) [OF wf] snapshot_wf [OF wf]
    by (auto simp: new_row_def row_ok_def telemetry_wf_def)
  ultimately show ?thesis
    using wf by (force simp: telemetry_wf_def spaced_snoc accounted_snoc new_row_def sorted_wrt_append)
qed

section \<open>Settling a claim\<close>

definition settled :: "int \<Rightarrow> string \<Rightarrow> heartbeat_row list \<Rightarrow> heartbeat_row list" where
  "settled hid delivery rows = map (\<lambda>r. if heartbeat_id r = hid \<and> delivery_state r = ''PENDING''
     then r\<lparr>delivery_state := delivery\<rparr> else r) rows"

lemma mark_eq:
  "mark_heartbeat_delivery t (PInt hid) delivery =
    (if hid \<le> 0 then (Inl (ValueError ''INVALID_HEARTBEAT_ID''), t)
     else if delivery \<notin> set HEARTBEAT_FINAL_STATES
     then (Inl (ValueError ''INVALID_HEARTBEAT_DELIVERY_STATE''), t)
     else (if length (filter (\<lambda>r. heartbeat_id r = hid \<and> delivery_state r = ''PENDING'') (heartbeats t)) \<noteq> 1
           then Inl (RuntimeError ''HEARTBEAT_DELIVERY_STATE_NOT_PENDING'') else Inr (),
           t\<lparr>heartbeats := settled hid delivery (heartbeats t)\<rparr>))"
  by (simp add: mark_heartbeat_delivery_def settled_def Let_def)

lemma settled_columns [simp]:
  "map heartbeat_id (settled hid d rows) = map heartbeat_id rows"
  "map emitted_at_ms (settled hid d rows) = map emitted_at_ms rows"
  by (auto simp: settled_def)

lemma settled_spaced [simp]: "spaced (settled hid d rows) \<longleftrightarrow> spaced rows"
proof -
  have "spaced xs \<longleftrightarrow> sorted_wrt (\<lambda>a b. a + HEARTBEAT_INTERVAL_MS \<le> b) (map emitted_at_ms xs)" for xs
    by (simp add: spaced_def sorted_wrt_map)
  then show ?thesis by simp
qed

lemma settled_accounted [simp]: "accounted p (settled hid d rows) \<longleftrightarrow> accounted p rows"
  by (induction rows arbitrary: p) (auto simp: settled_def split: option.splits)

lemma settled_wf:
  assumes wf: "telemetry_wf t" and d: "d \<in> set HEARTBEAT_FINAL_STATES"
  shows "telemetry_wf (t\<lparr>heartbeats := settled hid d (heartbeats t)\<rparr>)"
proof -
  have "list_all row_ok (settled hid d (heartbeats t))"
    using wf d by (auto simp: settled_def telemetry_wf_def list_all_iff row_ok_def HEARTBEAT_FINAL_STATES_def)
  moreover have "\<forall>r \<in> set (settled hid d (heartbeats t)). heartbeat_id r \<le> heartbeat_seq t"
    using wf by (auto simp: settled_def telemetry_wf_def)
  ultimately show ?thesis
    using wf by (simp add: telemetry_wf_def)
qed

section \<open>The store as a state machine\<close>

datatype telemetry_call =
    Increment string pyval
  | Emit pyval "string option" "string option"
  | Claim pyval "string option" "string option"
  | MarkDelivery pyval string

fun telemetry_exec :: "(int \<Rightarrow> exn + string) \<Rightarrow> telemetry_call \<Rightarrow> telemetry \<Rightarrow> telemetry" where
  "telemetry_exec iso_of (Increment k n) t = snd (increment t k n)"
| "telemetry_exec iso_of (Emit now s p) t = snd (emit_heartbeat iso_of t now s p)"
| "telemetry_exec iso_of (Claim now s p) t = snd (claim_heartbeat iso_of t now s p)"
| "telemetry_exec iso_of (MarkDelivery hid d) t = snd (mark_heartbeat_delivery t hid d)"

lemma create_cases:
  assumes "telemetry_wf t"
  obtains (same) "snd (create_heartbeat iso_of t now_arg src prov delivery) = t"
  | (created) now where "now_arg = PInt now" "0 \<le> now" "due t now" "delivery \<in> {''PENDING'', ''DELIVERED''}"
      "snd (create_heartbeat iso_of t now_arg src prov delivery) =
       t\<lparr>heartbeats := heartbeats t @ [new_row t now src prov delivery], heartbeat_seq := heartbeat_seq t + 1\<rparr>"
proof -
  have "snd (create_heartbeat iso_of t now_arg src prov delivery) = t \<or>
    (\<exists>now. now_arg = PInt now \<and> 0 \<le> now \<and> due t now \<and> delivery \<in> {''PENDING'', ''DELIVERED''} \<and>
      snd (create_heartbeat iso_of t now_arg src prov delivery) =
       t\<lparr>heartbeats := heartbeats t @ [new_row t now src prov delivery], heartbeat_seq := heartbeat_seq t + 1\<rparr>)"
  proof (cases now_arg)
    case (PInt now)
    then show ?thesis
      using create_heartbeat_wf [OF assms, of now delivery iso_of src prov]
      by (cases "0 \<le> now \<and> delivery \<in> {''PENDING'', ''DELIVERED''}") (auto simp: create_heartbeat_def)
  qed (simp_all add: create_heartbeat_def)
  then show ?thesis
    using same created by blast
qed

lemma increment_cases:
  obtains (same) "snd (increment t k n_arg) = t"
  | (added) n s where "n_arg = PInt n" "0 \<le> n" "k \<in> set COUNTER_NAMES" "increment t k n_arg = (Inr s, snd (increment t k n_arg))"
proof -
  have "snd (increment t k n_arg) = t \<or> (\<exists>n s. n_arg = PInt n \<and> 0 \<le> n \<and> k \<in> set COUNTER_NAMES \<and>
      increment t k n_arg = (Inr s, snd (increment t k n_arg)))"
    by (cases n_arg) (auto simp: increment_def Let_def split: sum.splits)
  then show ?thesis
    using same added by blast
qed

lemma mark_cases:
  obtains (same) "snd (mark_heartbeat_delivery t id_arg d) = t"
  | (marked) hid where "id_arg = PInt hid" "0 < hid" "d \<in> set HEARTBEAT_FINAL_STATES"
      "snd (mark_heartbeat_delivery t id_arg d) = t\<lparr>heartbeats := settled hid d (heartbeats t)\<rparr>"
proof -
  have "snd (mark_heartbeat_delivery t id_arg d) = t \<or> (\<exists>hid. id_arg = PInt hid \<and> 0 < hid \<and>
      d \<in> set HEARTBEAT_FINAL_STATES \<and>
      snd (mark_heartbeat_delivery t id_arg d) = t\<lparr>heartbeats := settled hid d (heartbeats t)\<rparr>)"
    by (cases id_arg) (auto simp: mark_heartbeat_delivery_def settled_def Let_def)
  then show ?thesis
    using same marked by blast
qed

text \<open>A settled row differs from the claimed one in its delivery state only, and only once.\<close>

definition settles :: "heartbeat_row \<Rightarrow> heartbeat_row \<Rightarrow> bool" where
  "settles a b \<longleftrightarrow> b = a \<or>
     delivery_state a = ''PENDING'' \<and> b = a\<lparr>delivery_state := delivery_state b\<rparr>"

definition telemetry_before :: "telemetry \<Rightarrow> telemetry \<Rightarrow> bool" where
  "telemetry_before t t' \<longleftrightarrow> (\<forall>k. counter_value t k \<le> counter_value t' k) \<and>
     length (heartbeats t) \<le> length (heartbeats t') \<and>
     (\<forall>i < length (heartbeats t). settles (heartbeats t ! i) (heartbeats t' ! i))"

lemma settles_refl [simp]: "settles r r"
  by (simp add: settles_def)

lemma settles_trans: "settles a b \<Longrightarrow> settles b c \<Longrightarrow> settles a c"
  unfolding settles_def by (cases a; cases b; cases c) auto

lemma counter_value_frame [simp]:
  "counter_value (t\<lparr>heartbeats := h\<rparr>) = counter_value t"
  "counter_value (t\<lparr>heartbeats := h, heartbeat_seq := n\<rparr>) = counter_value t"
  by (auto simp: counter_value_def)

lemma create_heartbeat_progress:
  assumes "telemetry_wf t"
  shows "telemetry_wf (snd (create_heartbeat iso_of t now_arg src prov delivery)) \<and>
    telemetry_before t (snd (create_heartbeat iso_of t now_arg src prov delivery))"
  using assms
  by (cases rule: create_cases [OF assms, of iso_of now_arg src prov delivery])
    (auto simp: telemetry_before_def nth_append telemetry_wf_new_row)

lemma telemetry_exec_progress:
  assumes wf: "telemetry_wf t"
  shows "telemetry_wf (telemetry_exec iso_of c t) \<and> telemetry_before t (telemetry_exec iso_of c t)"
proof (cases c)
  case (Increment k n)
  show ?thesis
  proof (cases rule: increment_cases [of t k n])
    case (added m s)
    then show ?thesis
      using increment_wf [OF wf added(3,2)] Increment by (auto simp: telemetry_before_def)
  qed (use wf Increment in \<open>auto simp: telemetry_before_def\<close>)
next
  case (MarkDelivery hid d)
  show ?thesis
  proof (cases rule: mark_cases [of t hid d])
    case (marked h)
    then show ?thesis
      using settled_wf [OF wf marked(3)] MarkDelivery
      by (auto simp: telemetry_before_def settled_def settles_def)
  qed (use wf MarkDelivery in \<open>auto simp: telemetry_before_def\<close>)
qed (use create_heartbeat_progress [OF wf] in \<open>simp_all add: emit_heartbeat_def claim_heartbeat_def\<close>)

interpretation telemetry: progressing_component "telemetry_exec iso_of" telemetry_wf telemetry_before
  for iso_of
proof unfold_locales
  fix s t u :: telemetry
  show "telemetry_before s t \<Longrightarrow> telemetry_before t u \<Longrightarrow> telemetry_before s u"
    unfolding telemetry_before_def by (meson settles_trans order_trans less_le_trans)
  show "telemetry_before s s"
    by (simp add: telemetry_before_def)
qed (simp_all add: telemetry_exec_progress)

text \<open>What one call adds to a counter.\<close>

definition increment_of :: "string \<Rightarrow> telemetry_call \<Rightarrow> int" where
  "increment_of k c = (case c of
      Increment j (PInt n) \<Rightarrow> if j = k \<and> k \<in> set COUNTER_NAMES \<and> 0 \<le> n then n else 0
    | _ \<Rightarrow> 0)"

lemma counter_value_exec:
  assumes wf: "telemetry_wf t"
  shows "counter_value (telemetry_exec iso_of c t) k = counter_value t k + increment_of k c"
proof (cases c)
  case (Increment j a)
  show ?thesis
  proof (cases a)
    case (PInt n)
    then show ?thesis
      using increment_wf [OF wf, of j n] Increment
      by (cases "j \<in> set COUNTER_NAMES \<and> 0 \<le> n") (auto simp: increment_of_def increment_def)
  qed (simp_all add: Increment increment_of_def increment_def)
next
  case (MarkDelivery hid d)
  then show ?thesis
    by (cases rule: mark_cases [of t hid d]) (simp_all add: increment_of_def)
next
  case (Emit now s p)
  then show ?thesis
    by (cases rule: create_cases [OF wf, of iso_of now s p "''DELIVERED''"])
      (simp_all add: increment_of_def emit_heartbeat_def)
next
  case (Claim now s p)
  then show ?thesis
    by (cases rule: create_cases [OF wf, of iso_of now s p "''PENDING''"])
      (simp_all add: increment_of_def claim_heartbeat_def)
qed

lemma settled_pending:
  assumes wf: "telemetry_wf t" and m: "mark_heartbeat_delivery t (PInt hid) d = (Inr (), t1)"
  shows "\<exists>i r. i < length (heartbeats t1) \<and> heartbeats t1 ! i = r \<and> heartbeat_id r = hid \<and>
    delivery_state r = d \<and> d \<noteq> ''PENDING'' \<and> 0 < hid"
proof -
  from m have final: "d \<in> set HEARTBEAT_FINAL_STATES" "0 < hid"
    and t1: "t1 = t\<lparr>heartbeats := settled hid d (heartbeats t)\<rparr>"
    and one: "length (filter (\<lambda>r. heartbeat_id r = hid \<and> delivery_state r = ''PENDING'') (heartbeats t)) = 1"
    by (auto simp: mark_eq split: if_splits)
  from one have "filter (\<lambda>r. heartbeat_id r = hid \<and> delivery_state r = ''PENDING'') (heartbeats t) \<noteq> []"
    by auto
  then obtain r where r: "r \<in> set (heartbeats t)" "heartbeat_id r = hid" "delivery_state r = ''PENDING''"
    by (auto simp: filter_empty_conv)
  then obtain i where i: "i < length (heartbeats t)" "heartbeats t ! i = r"
    by (auto simp: in_set_conv_nth)
  have "heartbeats t1 ! i = r\<lparr>delivery_state := d\<rparr>"
    using i r by (simp add: t1 settled_def)
  moreover have "d \<noteq> ''PENDING''"
    using final(1) by (auto simp: HEARTBEAT_FINAL_STATES_def)
  ultimately show ?thesis
    using i(1) r(2) final(2) by (intro exI [of _ i] exI [of _ "r\<lparr>delivery_state := d\<rparr>"]) (simp add: t1 settled_def)
qed

definition sample_telemetry :: telemetry where
  "sample_telemetry = fold (telemetry_exec (\<lambda>_. Inr ''t''))
     [Increment ''routed'' (PInt 2), Claim (PInt 5) None None] empty_telemetry"

lemma sample_telemetry_wf: "telemetry_wf sample_telemetry"
  unfolding sample_telemetry_def by (rule telemetry.run_inv) (rule telemetry_wf_empty)

section \<open>Properties\<close>

text \<open>
  The counters are exact and durable: after any sequence of calls on a new store, a counter
  holds the sum of the valid increments made to it, and nothing else moved it.
\<close>

theorem counters_sum_increments:
  "counter_value (fold (telemetry_exec iso_of) calls empty_telemetry) k = (\<Sum>c \<leftarrow> calls. increment_of k c)"
proof -
  have "counter_value (fold (telemetry_exec iso_of) calls t) k = counter_value t k + (\<Sum>c \<leftarrow> calls. increment_of k c)"
    if "telemetry_wf t" for t
    using that
  proof (induction calls arbitrary: t)
    case (Cons c calls)
    then show ?case
      using counter_value_exec [OF Cons.prems] telemetry_exec_progress [OF Cons.prems] by simp
  qed simp
  moreover have "counter_value empty_telemetry k = 0"
    using counters_wf(1) [OF telemetry_wf_empty]
    by (simp add: counter_value_def empty_telemetry_def open_store_def insert_or_ignore_def COUNTER_NAMES_def)
  ultimately show ?thesis
    using telemetry_wf_empty by simp
qed

text \<open>
  C9: whatever is called on a new store, its heartbeats are at least 60 000 ms apart, each
  records exactly the whole intervals missed since the one before it, and their ids increase.
\<close>

theorem heartbeats_spaced_and_accounted:
  assumes "rows = heartbeats (fold (telemetry_exec iso_of) calls empty_telemetry)"
    and "i < j" and "j < length rows"
  shows "60000 \<le> emitted_at_ms (rows ! j) - emitted_at_ms (rows ! i) \<and>
    heartbeat_id (rows ! i) < heartbeat_id (rows ! j) \<and>
    (j = Suc i \<longrightarrow> missed_intervals (rows ! j) =
      Some ((emitted_at_ms (rows ! j) - emitted_at_ms (rows ! i)) div 60000 - 1))"
proof -
  let ?t = "fold (telemetry_exec iso_of) calls empty_telemetry"
  have wf: "telemetry_wf ?t"
    by (rule telemetry.run_inv) (rule telemetry_wf_empty)
  have acc: "accounted p rows \<Longrightarrow> Suc i < length rows \<Longrightarrow> missed_intervals (rows ! Suc i) =
      Some ((emitted_at_ms (rows ! Suc i) - emitted_at_ms (rows ! i)) div 60000 - 1)" for p rows i
  proof (induction p rows arbitrary: i rule: accounted.induct)
    case (2 prev r rs)
    then show ?case
      by (cases i; cases rs) (auto simp: HEARTBEAT_INTERVAL_MS_def)
  qed simp
  show ?thesis
    using wf acc [of None "heartbeats ?t" i] assms
    by (fastforce simp: telemetry_wf_def spaced_def sorted_wrt_iff_nth_less HEARTBEAT_INTERVAL_MS_def)
qed

theorem heartbeats_spaced_and_accounted_witness:
  "let rows = heartbeats (fold (telemetry_exec (\<lambda>_. Inr ''t''))
     [Claim (PInt 5) None None, Claim (PInt 180005) None None] empty_telemetry) in
   map missed_intervals rows ! 1 = Some 2"
proof -
  let ?rows = "heartbeats (fold (telemetry_exec (\<lambda>_. Inr ''t''))
     [Claim (PInt 5) None None, Claim (PInt 180005) None None] empty_telemetry)"
  have "map emitted_at_ms ?rows = [5, 180005]"
    by (simp add: claim_heartbeat_def create_heartbeat_def empty_telemetry_def last_heartbeat_ms_def latest_first_def snapshot_def
      Let_def migrate_heartbeat_columns_def HEARTBEAT_INTERVAL_MS_def COUNTER_NAMES_def open_store_def insert_or_ignore_def)
  then have "length ?rows = 2" "emitted_at_ms (?rows ! 0) = 5" "emitted_at_ms (?rows ! 1) = 180005"
    by (auto simp: map_eq_Cons_conv)
  then show ?thesis
    using heartbeats_spaced_and_accounted [OF refl, of 0 1 "\<lambda>_. Inr ''t''"
      "[Claim (PInt 5) None None, Claim (PInt 180005) None None]"] by (simp add: Let_def del: fold_simps telemetry_exec.simps)
qed

text \<open>
  The advertised wait is exact: from now on, a claim succeeds at \<open>u\<close> if and only if the wait
  has passed by then, and the wait is never longer than one interval.
\<close>

theorem heartbeat_wait_exact:
  assumes "telemetry_wf t" and "milliseconds_until_heartbeat t (PInt now) = Inr w" and "now \<le> u"
  shows "0 \<le> w \<and> w \<le> 60000 \<and>
    (now + w \<le> u \<longleftrightarrow> heartbeats (snd (claim_heartbeat iso_of t (PInt u) src prov)) \<noteq> heartbeats t)"
proof -
  have now: "0 \<le> now"
    using assms(2) by (auto simp: milliseconds_until_heartbeat_def split: if_splits)
  have w: "heartbeats t \<noteq> [] \<longrightarrow> emitted_at_ms (last (heartbeats t)) \<le> now"
    "w = (if heartbeats t = [] then 0 else max 0 (60000 - (now - emitted_at_ms (last (heartbeats t)))))"
    using assms(2) now
    by (auto simp: milliseconds_until_heartbeat_def last_heartbeat_wf [OF assms(1)] HEARTBEAT_INTERVAL_MS_def
        split: if_splits)
  have "due t u \<longleftrightarrow> now + w \<le> u"
    using w assms(3) by (auto simp: due_def HEARTBEAT_INTERVAL_MS_def max_def)
  then show ?thesis
    using w assms(3) now create_heartbeat_wf [OF assms(1), of u "''PENDING''" iso_of src prov]
    by (auto simp: claim_heartbeat_def)
qed

theorem heartbeat_wait_exact_witness:
  "milliseconds_until_heartbeat sample_telemetry (PInt 1005) = Inr 59000 \<and>
   heartbeats (snd (claim_heartbeat (\<lambda>_. Inr ''t'') sample_telemetry (PInt 60005) None None)) \<noteq> heartbeats sample_telemetry"
proof -
  have wait: "milliseconds_until_heartbeat sample_telemetry (PInt 1005) = Inr 59000"
    by code_simp
  show ?thesis
    using heartbeat_wait_exact [OF sample_telemetry_wf wait, of 60005 "\<lambda>_. Inr ''t''" None None] wait by simp
qed

text \<open>
  A claim is settled once: after a delivery state is recorded for a heartbeat, no sequence of
  calls changes that row, and every further attempt to record one fails.
\<close>

theorem delivery_recorded_once:
  assumes "telemetry_wf t" and "mark_heartbeat_delivery t (PInt hid) d = (Inr (), t1)"
    and "d' \<in> set HEARTBEAT_FINAL_STATES"
  shows "let t2 = fold (telemetry_exec iso_of) calls t1 in
    (\<exists>r \<in> set (heartbeats t2). heartbeat_id r = hid \<and> delivery_state r = d) \<and>
    fst (mark_heartbeat_delivery t2 (PInt hid) d') = Inl (RuntimeError ''HEARTBEAT_DELIVERY_STATE_NOT_PENDING'')"
proof -
  let ?t2 = "fold (telemetry_exec iso_of) calls t1"
  have wf1: "telemetry_wf t1"
    using telemetry_exec_progress [OF assms(1), of iso_of "MarkDelivery (PInt hid) d"] assms(2) by simp
  have wf: "telemetry_wf ?t2" and bef: "telemetry_before t1 ?t2"
    using wf1 by (rule telemetry.run_inv, rule telemetry.run_before)
  obtain i r where i: "i < length (heartbeats t1)" "heartbeats t1 ! i = r" "heartbeat_id r = hid"
      "delivery_state r = d" "d \<noteq> ''PENDING''" "0 < hid"
    using settled_pending [OF assms(1,2)] by blast
  then have "i < length (heartbeats ?t2)" "heartbeats ?t2 ! i = r"
    using bef by (auto simp: telemetry_before_def settles_def)
  then have r: "r \<in> set (heartbeats ?t2)"
    by (metis nth_mem)
  have "filter (\<lambda>x. heartbeat_id x = hid \<and> delivery_state x = ''PENDING'') (heartbeats ?t2) = []"
    using filter_unique_key [of heartbeat_id "heartbeats ?t2" r "\<lambda>x. delivery_state x = ''PENDING''"] wf r i
    by (simp add: telemetry_wf_def)
  then show ?thesis
    using r i assms(3) by (auto simp: mark_eq Let_def)
qed

theorem delivery_recorded_once_witness:
  "fst (mark_heartbeat_delivery (snd (mark_heartbeat_delivery sample_telemetry (PInt 1) ''DELIVERED''))
     (PInt 1) ''UNCONFIRMED'') = Inl (RuntimeError ''HEARTBEAT_DELIVERY_STATE_NOT_PENDING'')"
proof -
  have "\<not> isl (fst (mark_heartbeat_delivery sample_telemetry (PInt 1) ''DELIVERED''))"
    by code_simp
  then have m: "mark_heartbeat_delivery sample_telemetry (PInt 1) ''DELIVERED'' =
      (Inr (), snd (mark_heartbeat_delivery sample_telemetry (PInt 1) ''DELIVERED''))"
    by (cases "mark_heartbeat_delivery sample_telemetry (PInt 1) ''DELIVERED''"; cases "fst (mark_heartbeat_delivery sample_telemetry (PInt 1) ''DELIVERED'')") auto
  show ?thesis
    using delivery_recorded_once [OF sample_telemetry_wf m, of "''UNCONFIRMED''" "\<lambda>_. Inr ''t''" "[]"]
    by (simp add: HEARTBEAT_FINAL_STATES_def Let_def)
qed

end
