(* ===== verification/Heartbeat.thy ===== *)
theory Heartbeat
  imports Telemetry
begin

text \<open>
  The heartbeat scheduler (\<open>src/src/radar/heartbeat.py\<close>): one tick claims a due heartbeat, hands
  it to the sink and settles the claim; the loop ticks, and sleeps for the remaining wait. The
  clock readings, the sink's outcomes and the stop flags are the environment's; the model records
  the messages handed to the sink and the sleeps.
\<close>

datatype evidence_source = Value "string option" | Callback "exn + string option"

definition resolve_evidence :: "evidence_source \<Rightarrow> exn + string option" where
  "resolve_evidence src = (case src of Value v \<Rightarrow> Inr v | Callback res \<Rightarrow> res)"

record tick_env =
  clock_ms :: pyval
  sink_returns :: bool

record 'a effects =
  outcome :: 'a
  store_after :: telemetry
  sent :: "pymap list"

definition settle_tick :: "telemetry \<Rightarrow> pymap \<Rightarrow> pyval \<Rightarrow> bool \<Rightarrow> (exn + pymap option) effects" where
  "settle_tick t m hid returned =
    (if returned then
       (case mark_heartbeat_delivery t hid ''DELIVERED'' of
          (Inl e, t') \<Rightarrow> \<lparr>outcome = Inl e, store_after = t', sent = [m]\<rparr>
        | (Inr _, t') \<Rightarrow> \<lparr>outcome = Inr (Some m), store_after = t', sent = [m]\<rparr>)
     else
       (case mark_heartbeat_delivery t hid ''UNCONFIRMED'' of
          (Inl e, t') \<Rightarrow> \<lparr>outcome = Inl e, store_after = t', sent = [m]\<rparr>
        | (Inr _, t') \<Rightarrow> \<lparr>outcome = Inl (HeartbeatSinkError ''HEARTBEAT_SINK_UNCONFIRMED''),
                          store_after = t', sent = [m]\<rparr>))"

definition tick ::
  "(int \<Rightarrow> exn + string) \<Rightarrow> evidence_source \<Rightarrow> evidence_source \<Rightarrow> tick_env \<Rightarrow> telemetry \<Rightarrow>
   (exn + pymap option) effects" where
  "tick iso_of src prov env t =
    (case bindE (resolve_evidence src) (\<lambda>s. bindE (resolve_evidence prov) (\<lambda>p. Inr (s, p))) of
       Inl e \<Rightarrow> \<lparr>outcome = Inl e, store_after = t, sent = []\<rparr>
     | Inr (s, p) \<Rightarrow>
         (case claim_heartbeat iso_of t (clock_ms env) s p of
            (Inl e, t1) \<Rightarrow> \<lparr>outcome = Inl e, store_after = t1, sent = []\<rparr>
          | (Inr None, t1) \<Rightarrow> \<lparr>outcome = Inr None, store_after = t1, sent = []\<rparr>
          | (Inr (Some m), t1) \<Rightarrow>
              (case get_default m ''heartbeat_sequence'' PNone of
                 PInt hid \<Rightarrow>
                   if hid \<le> 0
                   then \<lparr>outcome = Inl (RuntimeError ''HEARTBEAT_SEQUENCE_MISSING''), store_after = t1, sent = []\<rparr>
                   else settle_tick t1 m (PInt hid) (sink_returns env)
               | _ \<Rightarrow> \<lparr>outcome = Inl (RuntimeError ''HEARTBEAT_SEQUENCE_MISSING''),
                       store_after = t1, sent = []\<rparr>)))"






section \<open>One tick\<close>


lemma new_row_columns [simp]:
  "emitted_at_ms (new_row t now s p d) = now" "delivery_state (new_row t now s p d) = d"
  by (simp_all add: new_row_def)

lemma settled_new_row:
  assumes "telemetry_wf t"
  shows "settled (heartbeat_seq t + 1) d (heartbeats t @ [new_row t now s p ''PENDING'']) =
    heartbeats t @ [new_row t now s p d]"
proof -
  have "\<forall>r \<in> set (heartbeats t). heartbeat_id r \<noteq> heartbeat_seq t + 1"
    using assms by (auto simp: telemetry_wf_def)
  then have "settled (heartbeat_seq t + 1) d (heartbeats t) = heartbeats t"
    unfolding settled_def by (intro map_idI) auto
  then show ?thesis
    by (simp add: settled_def new_row_def)
qed

lemma mark_new_row:
  assumes wf: "telemetry_wf t" and d: "d \<in> set HEARTBEAT_FINAL_STATES"
  shows "mark_heartbeat_delivery
      (t\<lparr>heartbeats := heartbeats t @ [new_row t now s p ''PENDING''], heartbeat_seq := heartbeat_seq t + 1\<rparr>)
      (PInt (heartbeat_seq t + 1)) d =
    (Inr (), t\<lparr>heartbeats := heartbeats t @ [new_row t now s p d], heartbeat_seq := heartbeat_seq t + 1\<rparr>)"
proof -
  have "\<forall>r \<in> set (heartbeats t). heartbeat_id r \<noteq> heartbeat_seq t + 1" "0 \<le> heartbeat_seq t"
    using wf by (auto simp: telemetry_wf_def)
  then show ?thesis
    using d by (simp add: mark_eq settled_new_row [OF wf])
      (auto simp: new_row_def filter_empty_conv)
qed

definition claimed_message :: "(int \<Rightarrow> exn + string) \<Rightarrow> telemetry \<Rightarrow> int \<Rightarrow> string option \<Rightarrow> string option \<Rightarrow> pymap" where
  "claimed_message iso_of t now s p =
     heartbeat_message (str_replace ''+00:00'' ''Z'' (projr (iso_of now))) (heartbeat_seq t + 1) now
       (the (missed_intervals (new_row t now s p ''PENDING''))) (projr (snapshot t)) s p"

definition settled_store :: "telemetry \<Rightarrow> int \<Rightarrow> string option \<Rightarrow> string option \<Rightarrow> bool \<Rightarrow> telemetry" where
  "settled_store t now s p returned =
     t\<lparr>heartbeats := heartbeats t @ [new_row t now s p (if returned then ''DELIVERED'' else ''UNCONFIRMED'')],
       heartbeat_seq := heartbeat_seq t + 1\<rparr>"

lemma tick_due:
  assumes wf: "telemetry_wf t" and ev: "resolve_evidence src = Inr s" "resolve_evidence prov = Inr p"
    and now: "clock_ms env = PInt now" "0 \<le> now" and iso: "iso_of now = Inr c" and due: "due t now"
  shows "tick iso_of src prov env t =
    \<lparr>outcome = (if sink_returns env then Inr (Some (claimed_message iso_of t now s p))
                else Inl (HeartbeatSinkError ''HEARTBEAT_SINK_UNCONFIRMED'')),
     store_after = settled_store t now s p (sink_returns env),
     sent = [claimed_message iso_of t now s p]\<rparr>"
proof -
  have claim: "claim_heartbeat iso_of t (clock_ms env) s p = (Inr (Some (claimed_message iso_of t now s p)),
      t\<lparr>heartbeats := heartbeats t @ [new_row t now s p ''PENDING''], heartbeat_seq := heartbeat_seq t + 1\<rparr>)"
    using due spaced_last create_heartbeat_wf [OF wf now(2), of "''PENDING''" iso_of s p] iso
    by (auto simp: claim_heartbeat_def now(1) claimed_message_def due_def HEARTBEAT_INTERVAL_MS_def)
  have hid: "get_default (claimed_message iso_of t now s p) ''heartbeat_sequence'' PNone = PInt (heartbeat_seq t + 1)"
    by (simp add: claimed_message_def heartbeat_message_def get_default_def Let_def)
  have pos: "\<not> heartbeat_seq t + 1 \<le> 0"
    using wf by (simp add: telemetry_wf_def)
  show ?thesis
    using mark_new_row [OF wf, of "''DELIVERED''"] mark_new_row [OF wf, of "''UNCONFIRMED''"]
    by (simp add: tick_def ev claim hid pos settle_tick_def settled_store_def HEARTBEAT_FINAL_STATES_def)
qed

lemma tick_not_due:
  assumes wf: "telemetry_wf t" and ev: "resolve_evidence src = Inr s" "resolve_evidence prov = Inr p"
    and now: "clock_ms env = PInt now" "0 \<le> now" and due: "\<not> due t now"
  shows "tick iso_of src prov env t =
    \<lparr>outcome = (if now < emitted_at_ms (last (heartbeats t))
                then Inl (ValueError ''HEARTBEAT_CLOCK_REGRESSION'') else Inr None),
     store_after = t, sent = []\<rparr>"
  using due create_heartbeat_wf [OF wf now(2), of "''PENDING''" iso_of s p]
  by (auto simp: tick_def ev claim_heartbeat_def now(1) due_def)




section \<open>The loop\<close>









section \<open>Properties\<close>

text \<open>
  One tick at a valid time either does nothing (not due) or makes exactly one sink call with
  the message of a fresh claim, and settles that claim: \<open>DELIVERED\<close> when the sink returns (and
  the message is the result), \<open>UNCONFIRMED\<close> with a \<open>HeartbeatSinkError\<close> when it raises. The claim
  is never left pending, never retried in the interval, and nothing else in the store changes.
\<close>

theorem tick_outcomes:
  assumes "telemetry_wf t" and "resolve_evidence src = Inr s" and "resolve_evidence prov = Inr p"
    and "clock_ms env = PInt now" and "0 \<le> now" and "iso_of now = Inr c"
  shows "tick iso_of src prov env t =
    (if due t now
     then \<lparr>outcome = (if sink_returns env then Inr (Some (claimed_message iso_of t now s p))
                     else Inl (HeartbeatSinkError ''HEARTBEAT_SINK_UNCONFIRMED'')),
           store_after = t\<lparr>heartbeats := heartbeats t @
               [new_row t now s p (if sink_returns env then ''DELIVERED'' else ''UNCONFIRMED'')],
             heartbeat_seq := heartbeat_seq t + 1\<rparr>,
           sent = [claimed_message iso_of t now s p]\<rparr>
     else \<lparr>outcome = (if now < emitted_at_ms (last (heartbeats t))
                     then Inl (ValueError ''HEARTBEAT_CLOCK_REGRESSION'') else Inr None),
           store_after = t, sent = []\<rparr>)"
  using tick_due [OF assms(1-3), of env now iso_of c] tick_not_due [OF assms(1-3), of env now iso_of] assms(4-6)
  by (simp add: settled_store_def)

theorem tick_outcomes_witness:
  "sent (tick (\<lambda>_. Inr ''t'') (Value None) (Callback (Inr None)) \<lparr>clock_ms = PInt 60005, sink_returns = False\<rparr>
     sample_telemetry) \<noteq> [] \<and>
   sent (tick (\<lambda>_. Inr ''t'') (Value None) (Callback (Inr None)) \<lparr>clock_ms = PInt 60004, sink_returns = False\<rparr>
     sample_telemetry) = []"
proof -
  have "due sample_telemetry 60005" "\<not> due sample_telemetry 60004"
    by code_simp+
  then show ?thesis
    using tick_outcomes [OF sample_telemetry_wf, where src = "Value None" and s = None and
        prov = "Callback (Inr None)" and p = None and iso_of = "\<lambda>_. Inr ''t''" and c = "''t''"]
    by (simp add: resolve_evidence_def)
qed




end
