(* ===== verification/Dlq.thy ===== *)
theory Dlq
  imports Json
begin

text \<open>
  The dead-letter store (\<open>src/src/radar/dlq.py\<close>): a SQLite table with generated ids. Every method
  is one transaction under the object's lock, so one transition; a method that rolls back leaves
  the table as it was. The JSON text column is represented by the value it decodes to.
\<close>

section \<open>The table\<close>

datatype applicability = UNKNOWN_APPLICABILITY | APPLICABLE | NOT_APPLICABLE

datatype replay_state = PENDING | REPLAYED | DISCARDED

record dead_letter =
  item_id :: int
  dl_message_id :: string
  failure_stage :: string
  failure_code :: string
  dl_envelope :: pyval
  diagnostic :: string
  reason_category :: string
  source_locator :: "string option"
  applicability :: applicability
  replay_state :: replay_state
  retry_count :: int

record dlq =
  dead_letters :: "dead_letter list"
  dlq_seq :: int

definition empty_dlq :: dlq where
  "empty_dlq = \<lparr>dead_letters = [], dlq_seq = 0\<rparr>"

definition MAX_RETRIES :: int where "MAX_RETRIES = 5"

text \<open>Opening an older table adds the missing evidence columns with their defaults.\<close>

definition migrate_evidence_columns :: "bool \<Rightarrow> bool \<Rightarrow> dlq \<Rightarrow> dlq" where
  "migrate_evidence_columns has_category has_locator s =
    (let rows1 = (if has_category then dead_letters s
                  else map (\<lambda>r. r\<lparr>reason_category := ''UNCLASSIFIED''\<rparr>) (dead_letters s)) in
     s\<lparr>dead_letters := (if has_locator then rows1 else map (\<lambda>r. r\<lparr>source_locator := None\<rparr>) rows1)\<rparr>)"

section \<open>Operations\<close>

text \<open>The required texts, in the order they are checked.\<close>

fun require_texts :: "(pyval \<times> string) list \<Rightarrow> exn + unit" where
  "require_texts [] = Inr ()"
| "require_texts ((v, code) # rest) =
    (if \<not> is_text v then Inl (DeadLetterError code) else require_texts rest)"

definition record_dead_letter ::
  "dlq \<Rightarrow> pyval \<Rightarrow> pyval \<Rightarrow> pyval \<Rightarrow> pyval \<Rightarrow> pyval \<Rightarrow> pyval \<Rightarrow> pyval \<Rightarrow> (exn + int) \<times> dlq" where
  "record_dead_letter s mid stage code env diag cat loc =
    (let checked =
       bindE (require_texts [(mid, ''MESSAGE_ID_REQUIRED''), (stage, ''FAILURE_STAGE_REQUIRED''),
                             (code, ''FAILURE_CODE_REQUIRED''), (diag, ''DIAGNOSTIC_REQUIRED'')]) (\<lambda>_.
       if \<not> is_text cat then Inl (DeadLetterError ''REASON_CATEGORY_REQUIRED'')
       else if loc \<noteq> PNone \<and> \<not> is_text loc then Inl (DeadLetterError ''INVALID_SOURCE_LOCATOR'')
       else case env of
         PDict ms \<Rightarrow>
           (case json_dumps True '','' '':'' env of
              Inl _ \<Rightarrow> Inl (DeadLetterError ''ENVELOPE_NOT_JSON_SERIALIZABLE'')
            | Inr _ \<Rightarrow> Inr ())
       | _ \<Rightarrow> Inl (DeadLetterError ''ENVELOPE_REQUIRED'')) in
     case checked of
       Inl e \<Rightarrow> (Inl e, s)
     | Inr _ \<Rightarrow>
         let new = \<lparr>item_id = dlq_seq s + 1, dl_message_id = strip (text_of mid),
                    failure_stage = strip (text_of stage), failure_code = strip (text_of code),
                    dl_envelope = json_reload env, diagnostic = strip (text_of diag),
                    reason_category = upper (strip (text_of cat)),
                    source_locator = (if loc = PNone then None else Some (strip (text_of loc))),
                    applicability = UNKNOWN_APPLICABILITY, replay_state = PENDING, retry_count = 0\<rparr> in
         (Inr (dlq_seq s + 1), \<lparr>dead_letters = dead_letters s @ [new], dlq_seq = dlq_seq s + 1\<rparr>))"

definition find_item :: "dlq \<Rightarrow> int \<Rightarrow> dead_letter option" where
  "find_item s i = find (\<lambda>r. item_id r = i) (dead_letters s)"

definition inspect :: "dlq \<Rightarrow> int \<Rightarrow> exn + dead_letter" where
  "inspect s i = (case find_item s i of
      None \<Rightarrow> Inl (DeadLetterError ''NOT_FOUND'') | Some r \<Rightarrow> Inr r)"

definition update_items :: "(dead_letter \<Rightarrow> bool) \<Rightarrow> (dead_letter \<Rightarrow> dead_letter) \<Rightarrow> dlq \<Rightarrow> int \<times> dlq" where
  "update_items hit f s =
    (int (length (filter hit (dead_letters s))),
     s\<lparr>dead_letters := map (\<lambda>r. if hit r then f r else r) (dead_letters s)\<rparr>)"

definition applicability_of :: "string \<Rightarrow> applicability option" where
  "applicability_of v =
    (if v = ''APPLICABLE'' then Some APPLICABLE
     else if v = ''NOT_APPLICABLE'' then Some NOT_APPLICABLE else None)"

definition set_applicability :: "dlq \<Rightarrow> int \<Rightarrow> string \<Rightarrow> (exn + unit) \<times> dlq" where
  "set_applicability s i value = (case applicability_of value of
      None \<Rightarrow> (Inl (DeadLetterError ''INVALID_APPLICABILITY''), s)
    | Some a \<Rightarrow>
        let (rowcount, s') = update_items (\<lambda>r. item_id r = i) (\<lambda>r. r\<lparr>applicability := a\<rparr>) s in
        (if rowcount \<noteq> 1 then Inl (DeadLetterError ''NOT_FOUND'') else Inr (), s'))"

definition list_pending_applicable :: "dlq \<Rightarrow> pyval \<Rightarrow> exn + dead_letter list" where
  "list_pending_applicable s limit_arg = (case limit_arg of
      PInt n \<Rightarrow> if n \<le> 0 then Inl (DeadLetterError ''INVALID_LIMIT'')
        else Inr (take (nat n) (sort_key item_id
               (filter (\<lambda>r. applicability r = APPLICABLE \<and> replay_state r = PENDING) (dead_letters s))))
    | _ \<Rightarrow> Inl (DeadLetterError ''INVALID_LIMIT''))"

definition mark_replay :: "dlq \<Rightarrow> int \<Rightarrow> (exn + unit) \<times> dlq" where
  "mark_replay s i = (case find_item s i of
      None \<Rightarrow> (Inl (DeadLetterError ''NOT_FOUND''), s)
    | Some item \<Rightarrow>
        if replay_state item \<noteq> PENDING then (Inl (DeadLetterError ''REPLAY_ALREADY_COMPLETED''), s)
        else if applicability item = UNKNOWN_APPLICABILITY
        then (Inl (DeadLetterError ''APPLICABILITY_NOT_REFRESHED''), s)
        else if applicability item \<noteq> APPLICABLE then (Inl (DeadLetterError ''MESSAGE_NOT_APPLICABLE''), s)
        else if MAX_RETRIES \<le> retry_count item then (Inl (DeadLetterError ''MAX_RETRIES_EXCEEDED''), s)
        else
          let (rowcount, s') = update_items
                (\<lambda>r. item_id r = i \<and> replay_state r = PENDING \<and> applicability r = APPLICABLE)
                (\<lambda>r. r\<lparr>replay_state := REPLAYED, retry_count := retry_count r + 1\<rparr>) s in
          if rowcount \<noteq> 1 then (Inl (DeadLetterError ''REPLAY_STATE_CHANGED''), s)
          else (Inr (), s'))"

section \<open>The invariant\<close>

definition item_ok :: "dead_letter \<Rightarrow> bool" where
  "item_ok r \<longleftrightarrow> 0 < item_id r \<and> clean (dl_message_id r) \<and> clean (failure_stage r) \<and>
     clean (failure_code r) \<and> clean (diagnostic r) \<and> pred_option clean (source_locator r) \<and>
     retry_count r = (if replay_state r = REPLAYED then 1 else 0) \<and> replay_state r \<noteq> DISCARDED"

definition dlq_wf :: "dlq \<Rightarrow> bool" where
  "dlq_wf s \<longleftrightarrow> list_all item_ok (dead_letters s) \<and> sorted_wrt (<) (map item_id (dead_letters s)) \<and>
     (\<forall>r \<in> set (dead_letters s). item_id r \<le> dlq_seq s) \<and> 0 \<le> dlq_seq s"

lemma dlq_wf_empty: "dlq_wf empty_dlq"
  by (simp add: dlq_wf_def empty_dlq_def)

lemma find_item_wf:
  "dlq_wf s \<Longrightarrow> find_item s i = Some r \<longleftrightarrow> r \<in> set (dead_letters s) \<and> item_id r = i"
  by (simp add: find_item_def dlq_wf_def find_unique_key)

lemma filter_item_wf:
  "dlq_wf s \<Longrightarrow> r \<in> set (dead_letters s) \<Longrightarrow>
     filter (\<lambda>x. item_id x = item_id r \<and> P x) (dead_letters s) = (if P r then [r] else [])"
  unfolding dlq_wf_def by (blast intro: filter_unique_key)

text \<open>Updates that keep the ids.\<close>

definition updated :: "(dead_letter \<Rightarrow> bool) \<Rightarrow> (dead_letter \<Rightarrow> dead_letter) \<Rightarrow> dlq \<Rightarrow> dlq" where
  "updated hit f s = s\<lparr>dead_letters := map (\<lambda>r. if hit r then f r else r) (dead_letters s)\<rparr>"

lemma updated_wf:
  assumes "dlq_wf s" and "\<And>r. item_id (f r) = item_id r" and "\<And>r. hit r \<Longrightarrow> item_ok r \<Longrightarrow> item_ok (f r)"
  shows "dlq_wf (updated hit f s)"
proof -
  have "map item_id (dead_letters (updated hit f s)) = map item_id (dead_letters s)"
    using assms(2) by (simp add: updated_def)
  then have "sorted_wrt (<) (map item_id (dead_letters (updated hit f s)))"
    using assms(1) by (simp only: dlq_wf_def)
  moreover have "list_all item_ok (dead_letters (updated hit f s))"
    and "\<forall>r \<in> set (dead_letters (updated hit f s)). item_id r \<le> dlq_seq s"
    using assms by (auto simp: dlq_wf_def updated_def list_all_iff)
  ultimately show ?thesis
    using assms(1) by (simp add: dlq_wf_def) (simp add: updated_def)
qed

lemma mark_replay_eq:
  assumes "dlq_wf s" "find_item s i = Some r"
  shows "mark_replay s i =
    (if replay_state r \<noteq> PENDING then (Inl (DeadLetterError ''REPLAY_ALREADY_COMPLETED''), s)
     else if applicability r = UNKNOWN_APPLICABILITY then (Inl (DeadLetterError ''APPLICABILITY_NOT_REFRESHED''), s)
     else if applicability r \<noteq> APPLICABLE then (Inl (DeadLetterError ''MESSAGE_NOT_APPLICABLE''), s)
     else (Inr (), updated (\<lambda>r. item_id r = i \<and> replay_state r = PENDING \<and> applicability r = APPLICABLE)
             (\<lambda>r. r\<lparr>replay_state := REPLAYED, retry_count := retry_count r + 1\<rparr>) s))"
proof -
  have r: "r \<in> set (dead_letters s)" "item_id r = i"
    using assms by (simp_all add: find_item_wf)
  then have ok: "replay_state r = PENDING \<Longrightarrow> retry_count r = 0"
    using assms(1) by (auto simp: dlq_wf_def list_all_iff item_ok_def)
  have one: "length (filter (\<lambda>x. item_id x = i \<and> replay_state x = PENDING \<and> applicability x = APPLICABLE)
      (dead_letters s)) = (if replay_state r = PENDING \<and> applicability r = APPLICABLE then 1 else 0)"
    using filter_item_wf [OF assms(1) r(1), of "\<lambda>x. replay_state x = PENDING \<and> applicability x = APPLICABLE"]
    by (simp add: r(2))
  show ?thesis
    using ok one by (simp add: mark_replay_def assms(2) update_items_def updated_def MAX_RETRIES_def)
qed

section \<open>The store as a state machine\<close>

datatype dlq_call =
    RecordLetter pyval pyval pyval pyval pyval pyval pyval
  | SetApplicability int string
  | MarkReplay int

fun dlq_exec :: "dlq_call \<Rightarrow> dlq \<Rightarrow> dlq" where
  "dlq_exec (RecordLetter m st c e d cat loc) s = snd (record_dead_letter s m st c e d cat loc)"
| "dlq_exec (SetApplicability i v) s = snd (set_applicability s i v)"
| "dlq_exec (MarkReplay i) s = snd (mark_replay s i)"

lemma require_texts_Inr: "require_texts xs = Inr u \<longleftrightarrow> (\<forall>(v, c) \<in> set xs. is_text v)"
  by (induction xs rule: require_texts.induct) auto

definition letter_accepted :: "pyval \<Rightarrow> pyval \<Rightarrow> pyval \<Rightarrow> pyval \<Rightarrow> pyval \<Rightarrow> pyval \<Rightarrow> pyval \<Rightarrow> bool" where
  "letter_accepted m st c e d cat loc \<longleftrightarrow> is_text m \<and> is_text st \<and> is_text c \<and> is_text d \<and> is_text cat \<and>
     (loc = PNone \<or> is_text loc) \<and> (\<exists>ms. e = PDict ms) \<and> json_ok e"

definition new_letter :: "int \<Rightarrow> pyval \<Rightarrow> pyval \<Rightarrow> pyval \<Rightarrow> pyval \<Rightarrow> pyval \<Rightarrow> pyval \<Rightarrow> pyval \<Rightarrow> dead_letter" where
  "new_letter i m st c e d cat loc =
    \<lparr>item_id = i, dl_message_id = strip (text_of m), failure_stage = strip (text_of st),
     failure_code = strip (text_of c), dl_envelope = json_reload e, diagnostic = strip (text_of d),
     reason_category = upper (strip (text_of cat)),
     source_locator = (if loc = PNone then None else Some (strip (text_of loc))),
     applicability = UNKNOWN_APPLICABILITY, replay_state = PENDING, retry_count = 0\<rparr>"

lemma record_accepted:
  assumes "letter_accepted m st c e d cat loc"
  shows "record_dead_letter s m st c e d cat loc =
    (Inr (dlq_seq s + 1), \<lparr>dead_letters = dead_letters s @ [new_letter (dlq_seq s + 1) m st c e d cat loc],
       dlq_seq = dlq_seq s + 1\<rparr>)"
proof -
  obtain t where "json_dumps True '','' '':'' e = Inr t"
    using assms json_dumps_ok(1) [of True "'',''" "'':''" e] by (auto simp: letter_accepted_def)
  then show ?thesis
    using assms by (auto simp: record_dead_letter_def letter_accepted_def new_letter_def)
qed

lemma record_rejected:
  assumes "\<not> letter_accepted m st c e d cat loc"
  shows "\<exists>code. record_dead_letter s m st c e d cat loc = (Inl (DeadLetterError code), s)"
proof -
  have "\<not> json_ok e \<Longrightarrow> \<exists>x. json_dumps True '','' '':'' e = Inl x"
    using json_dumps_ok(1) [of True "'',''" "'':''" e] by (cases "json_dumps True '','' '':'' e") auto
  then show ?thesis
    using assms
    by (cases e) (auto simp: record_dead_letter_def letter_accepted_def Let_def
        simp del: json_dumps.simps json_ok.simps split: sum.split)
qed

lemma new_letter_ok:
  "letter_accepted m st c e d cat loc \<Longrightarrow> 0 < i \<Longrightarrow> item_ok (new_letter i m st c e d cat loc)"
  by (auto simp: new_letter_def item_ok_def letter_accepted_def is_text_iff)

lemma set_applicability_eq:
  "set_applicability s i v = (case applicability_of v of
      None \<Rightarrow> (Inl (DeadLetterError ''INVALID_APPLICABILITY''), s)
    | Some a \<Rightarrow> (if length (filter (\<lambda>r. item_id r = i) (dead_letters s)) \<noteq> 1
                then Inl (DeadLetterError ''NOT_FOUND'') else Inr (),
                updated (\<lambda>r. item_id r = i) (\<lambda>r. r\<lparr>applicability := a\<rparr>) s))"
  by (simp add: set_applicability_def update_items_def updated_def split: option.split)

text \<open>Nothing but the applicability and the one replay of an item ever changes.\<close>

definition letter_before :: "dead_letter \<Rightarrow> dead_letter \<Rightarrow> bool" where
  "letter_before a b \<longleftrightarrow>
     b = a\<lparr>applicability := applicability b, replay_state := replay_state b, retry_count := retry_count b\<rparr> \<and>
     (replay_state b = replay_state a \<and> retry_count b = retry_count a \<or>
      replay_state a = PENDING \<and> replay_state b = REPLAYED \<and> retry_count b = retry_count a + 1)"

definition dlq_before :: "dlq \<Rightarrow> dlq \<Rightarrow> bool" where
  "dlq_before s s' \<longleftrightarrow> (\<exists>old new. dead_letters s' = old @ new \<and> list_all2 letter_before (dead_letters s) old)"

lemma letter_before_refl [simp]: "letter_before r r"
  by (simp add: letter_before_def)

lemma letter_before_trans: "letter_before a b \<Longrightarrow> letter_before b c \<Longrightarrow> letter_before a c"
  by (cases a; cases b; cases c) (auto simp: letter_before_def)

lemma letter_before_fields:
  "letter_before a b \<Longrightarrow> item_id b = item_id a \<and> (replay_state a = REPLAYED \<longrightarrow> replay_state b = REPLAYED)"
  by (cases a; cases b) (auto simp: letter_before_def)

lemma dlq_before_refl [simp]: "dlq_before s s"
  unfolding dlq_before_def by (intro exI [of _ "dead_letters s"] exI [of _ "[]"]) (simp add: list_all2_same)

lemma dlq_before_trans:
  assumes "dlq_before s t" "dlq_before t u"
  shows "dlq_before s u"
proof -
  obtain old new where a: "dead_letters t = old @ new" "list_all2 letter_before (dead_letters s) old"
    using assms(1) by (auto simp: dlq_before_def)
  obtain old1 old2 new2 where b: "dead_letters u = (old1 @ old2) @ new2" "list_all2 letter_before old old1"
    using assms(2) by (auto simp: dlq_before_def a list_all2_append1)
  have "list_all2 letter_before (dead_letters s) old1"
    using a(2) b(2) by (rule list_all2_trans [rotated 1]) (rule letter_before_trans)
  then show ?thesis
    using b(1) by (auto simp: dlq_before_def)
qed

lemma dlq_before_item:
  assumes "dlq_before s s'" "r \<in> set (dead_letters s)"
  shows "\<exists>r' \<in> set (dead_letters s'). letter_before r r'"
proof -
  have "list_all2 letter_before xs ys \<Longrightarrow> r \<in> set xs \<Longrightarrow> \<exists>r' \<in> set ys. letter_before r r'" for xs ys
    by (induction rule: list_all2_induct) auto
  then show ?thesis
    using assms by (fastforce simp: dlq_before_def)
qed

lemma updated_before:
  assumes "\<And>r. r \<in> set (dead_letters s) \<Longrightarrow> hit r \<Longrightarrow> letter_before r (f r)"
  shows "dlq_before s (updated hit f s)"
  unfolding dlq_before_def
  using assms by (intro exI [of _ "dead_letters (updated hit f s)"] exI [of _ "[]"])
    (auto simp: updated_def list_all2_conv_all_nth)

lemma dlq_exec_progress:
  assumes wf: "dlq_wf s"
  shows "dlq_wf (dlq_exec c s) \<and> dlq_before s (dlq_exec c s)"
proof (cases c)
  case (RecordLetter m st co e d cat loc)
  show ?thesis
  proof (cases "letter_accepted m st co e d cat loc")
    case True
    have "item_ok (new_letter (dlq_seq s + 1) m st co e d cat loc)"
      using wf True by (intro new_letter_ok) (auto simp: dlq_wf_def)
    moreover have "item_id (new_letter (dlq_seq s + 1) m st co e d cat loc) = dlq_seq s + 1"
      by (simp add: new_letter_def)
    moreover have "\<forall>r \<in> set (dead_letters s). item_id r < dlq_seq s + 1"
      using wf by (simp add: dlq_wf_def)
    ultimately have "dlq_wf (dlq_exec c s)"
      using wf by (auto simp: RecordLetter record_accepted [OF True] dlq_wf_def sorted_wrt_append)
    moreover have "dlq_before s (dlq_exec c s)"
      by (auto simp: RecordLetter record_accepted [OF True] dlq_before_def list_all2_same)
    ultimately show ?thesis by blast
  next
    case False
    then show ?thesis
      using record_rejected [OF False, of s] wf RecordLetter by auto
  qed
next
  case (SetApplicability i v)
  have "dlq_wf (updated (\<lambda>r. item_id r = i) (\<lambda>r. r\<lparr>applicability := a\<rparr>) s)" for a
    using wf by (rule updated_wf) (auto simp: item_ok_def)
  moreover have "dlq_before s (updated (\<lambda>r. item_id r = i) (\<lambda>r. r\<lparr>applicability := a\<rparr>) s)" for a
    by (rule updated_before) (simp add: letter_before_def)
  ultimately show ?thesis
    using wf by (auto simp: SetApplicability set_applicability_eq split: option.split)
next
  case (MarkReplay i)
  show ?thesis
  proof (cases "find_item s i")
    case None
    then show ?thesis
      using wf by (simp add: MarkReplay mark_replay_def)
  next
    case (Some r)
    let ?u = "updated (\<lambda>r. item_id r = i \<and> replay_state r = PENDING \<and> applicability r = APPLICABLE)
             (\<lambda>r. r\<lparr>replay_state := REPLAYED, retry_count := retry_count r + 1\<rparr>) s"
    have "dlq_wf ?u"
      using wf by (rule updated_wf) (auto simp: item_ok_def)
    moreover have "dlq_before s ?u"
      by (rule updated_before) (simp add: letter_before_def)
    ultimately show ?thesis
      using wf by (simp add: MarkReplay mark_replay_eq [OF wf Some])
  qed
qed

interpretation dlq: progressing_component dlq_exec dlq_wf dlq_before
  by unfold_locales (auto simp: dlq_exec_progress intro: dlq_before_trans)

section \<open>The interface the runtime uses\<close>

text \<open>A sink that numbers and keeps every well-formed letter, and refuses the others unchanged.\<close>

locale dead_letter_sink =
  fixes ok :: "'d \<Rightarrow> bool"
    and letters :: "'d \<Rightarrow> dead_letter list"
    and post :: "'d \<Rightarrow> pyval \<Rightarrow> pyval \<Rightarrow> pyval \<Rightarrow> pyval \<Rightarrow> pyval \<Rightarrow> pyval \<Rightarrow> pyval \<Rightarrow> (exn + int) \<times> 'd"
  assumes post_accepted: "ok s \<Longrightarrow> letter_accepted m st c e d cat loc \<Longrightarrow>
      \<exists>i s'. post s m st c e d cat loc = (Inr i, s') \<and> ok s' \<and>
        i \<notin> item_id ` set (letters s) \<and> letters s' = letters s @ [new_letter i m st c e d cat loc]"
    and post_refused: "ok s \<Longrightarrow> \<not> letter_accepted m st c e d cat loc \<Longrightarrow>
      \<exists>code. post s m st c e d cat loc = (Inl (DeadLetterError code), s)"
begin

lemma post_length:
  assumes "ok s"
  shows "ok (snd (post s m st c e d cat loc)) \<and>
    length (letters (snd (post s m st c e d cat loc))) =
    length (letters s) + (if letter_accepted m st c e d cat loc then 1 else 0)"
  using post_accepted [OF assms, of m st c e d cat loc] post_refused [OF assms, of m st c e d cat loc] assms
  by (cases "letter_accepted m st c e d cat loc") auto

end

lemma record_fresh:
  assumes "dlq_wf s" "letter_accepted m st c e d cat loc"
  shows "\<exists>i s'. record_dead_letter s m st c e d cat loc = (Inr i, s') \<and> dlq_wf s' \<and>
    i \<notin> item_id ` set (dead_letters s) \<and> dead_letters s' = dead_letters s @ [new_letter i m st c e d cat loc]"
  using assms(1) dlq_exec_progress [OF assms(1), of "RecordLetter m st c e d cat loc"]
  by (auto simp: record_accepted [OF assms(2)] dlq_wf_def)

interpretation letters: dead_letter_sink dlq_wf dead_letters record_dead_letter
  by unfold_locales (blast intro: record_fresh record_rejected)+

section \<open>Properties\<close>

definition sample_dlq :: dlq where
  "sample_dlq = fold dlq_exec
     [RecordLetter (PStr '' m '') (PStr ''s'') (PStr ''c'') (PDict [(''b'', PInt 1), (''a'', PTuple [])])
        (PStr ''d'') (PStr ''tax'') PNone,
      SetApplicability 1 ''APPLICABLE''] empty_dlq"

lemma sample_dlq_wf: "dlq_wf sample_dlq"
  unfolding sample_dlq_def by (rule dlq.run_inv) (rule dlq_wf_empty)

text \<open>
  A well-formed letter is stored under a fresh id and reads back: \<open>inspect\<close> returns its trimmed
  texts, its category in upper case and its decoded envelope, not yet applicable and not
  replayed; every other item reads as before. An ill-formed letter changes nothing.
\<close>

theorem dead_letter_reads_back:
  assumes "dlq_wf s"
  shows "(letter_accepted m st c e d cat loc \<longrightarrow>
      (\<exists>i s'. record_dead_letter s m st c e d cat loc = (Inr i, s') \<and>
        inspect s i = Inl (DeadLetterError ''NOT_FOUND'') \<and>
        inspect s' i = Inr (new_letter i m st c e d cat loc) \<and>
        (\<forall>j. j \<noteq> i \<longrightarrow> inspect s' j = inspect s j))) \<and>
    (\<not> letter_accepted m st c e d cat loc \<longrightarrow>
      (\<exists>code. record_dead_letter s m st c e d cat loc = (Inl (DeadLetterError code), s)))"
proof (cases "letter_accepted m st c e d cat loc")
  case True
  obtain i s' where rec: "record_dead_letter s m st c e d cat loc = (Inr i, s')" "dlq_wf s'"
      "i \<notin> item_id ` set (dead_letters s)" "dead_letters s' = dead_letters s @ [new_letter i m st c e d cat loc]"
    using record_fresh [OF assms True] by blast
  have id: "item_id (new_letter i m st c e d cat loc) = i"
    by (simp add: new_letter_def)
  have "find (\<lambda>r. item_id r = j) (rs @ [x]) = (case find (\<lambda>r. item_id r = j) rs of
      Some r \<Rightarrow> Some r | None \<Rightarrow> if item_id x = j then Some x else None)" for j rs and x :: dead_letter
    by (induction rs) auto
  moreover have "find_item s i = None"
    using rec(3) by (auto simp: find_item_def find_None_iff)
  ultimately have "inspect s i = Inl (DeadLetterError ''NOT_FOUND'')"
    and "inspect s' j = (if j = i then Inr (new_letter i m st c e d cat loc) else inspect s j)" for j
    by (auto simp: inspect_def find_item_def rec(4) id split: option.split)
  with True rec(1) show ?thesis by auto
qed (use record_rejected in blast)

theorem dead_letter_reads_back_witness:
  "\<exists>i s'. record_dead_letter empty_dlq (PStr ''m'') (PStr ''s'') (PStr ''c'') (PDict []) (PStr ''d'') (PStr ''t'') PNone
     = (Inr i, s') \<and> inspect s' i = Inr (new_letter i (PStr ''m'') (PStr ''s'') (PStr ''c'') (PDict []) (PStr ''d'') (PStr ''t'') PNone)"
proof -
  have "letter_accepted (PStr ''m'') (PStr ''s'') (PStr ''c'') (PDict []) (PStr ''d'') (PStr ''t'') PNone"
    by (simp add: letter_accepted_def is_text_def) code_simp
  then show ?thesis
    using dead_letter_reads_back [OF dlq_wf_empty] by blast
qed

text \<open>
  C11: an item is replayed at most once: \<open>mark_replay\<close> succeeds exactly on a stored item that is
  pending and was found applicable, and after it succeeded, whatever is called in between
  (refreshing the applicability included), it fails for ever as already completed.
\<close>

theorem replay_at_most_once:
  assumes "dlq_wf s"
  shows "(fst (mark_replay s i) = Inr () \<longleftrightarrow>
      (\<exists>r. inspect s i = Inr r \<and> replay_state r = PENDING \<and> applicability r = APPLICABLE)) \<and>
    (fst (mark_replay s i) = Inr () \<longrightarrow>
      fst (mark_replay (fold dlq_exec calls (snd (mark_replay s i))) i) =
      Inl (DeadLetterError ''REPLAY_ALREADY_COMPLETED''))"
proof -
  have iff: "fst (mark_replay s i) = Inr () \<longleftrightarrow>
      (\<exists>r. inspect s i = Inr r \<and> replay_state r = PENDING \<and> applicability r = APPLICABLE)"
  proof (cases "find_item s i")
    case None
    then show ?thesis by (simp add: mark_replay_def inspect_def)
  next
    case (Some r)
    then show ?thesis
      by (cases "applicability r") (simp_all add: mark_replay_eq [OF assms Some] inspect_def)
  qed
  have "fst (mark_replay (fold dlq_exec calls (snd (mark_replay s i))) i) =
      Inl (DeadLetterError ''REPLAY_ALREADY_COMPLETED'')" if ok: "fst (mark_replay s i) = Inr ()"
  proof -
    let ?s1 = "snd (mark_replay s i)" let ?s2 = "fold dlq_exec calls ?s1"
    have wf1: "dlq_wf ?s1"
      using dlq_exec_progress [OF assms, of "MarkReplay i"] by simp
    then have wf2: "dlq_wf ?s2" and bef: "dlq_before ?s1 ?s2"
      by (rule dlq.run_inv, rule dlq.run_before)
    obtain r where r: "find_item s i = Some r" "replay_state r = PENDING" "applicability r = APPLICABLE"
      using iff ok by (auto simp: inspect_def split: option.splits)
    let ?r = "r\<lparr>replay_state := REPLAYED, retry_count := retry_count r + 1\<rparr>"
    have "?r \<in> set (dead_letters ?s1)" and id: "item_id ?r = i"
      using r by (auto simp: mark_replay_eq [OF assms r(1)] updated_def find_item_wf [OF assms])
    then obtain r2 where r2: "r2 \<in> set (dead_letters ?s2)" "letter_before ?r r2"
      using dlq_before_item [OF bef] by blast
    have "item_id r2 = i" "replay_state r2 = REPLAYED"
      using letter_before_fields [OF r2(2)] id by simp_all
    then have "find_item ?s2 i = Some r2"
      using r2(1) find_item_wf [OF wf2, of i r2] by simp
    then show ?thesis
      using \<open>replay_state r2 = REPLAYED\<close> by (simp add: mark_replay_def)
  qed
  with iff show ?thesis by blast
qed

theorem replay_at_most_once_witness:
  "fst (mark_replay (fold dlq_exec [SetApplicability 1 ''APPLICABLE''] (snd (mark_replay sample_dlq 1))) 1) =
     Inl (DeadLetterError ''REPLAY_ALREADY_COMPLETED'')"
proof -
  have "\<not> isl (fst (mark_replay sample_dlq 1))"
    by code_simp
  then have "fst (mark_replay sample_dlq 1) = Inr ()"
    by (cases "fst (mark_replay sample_dlq 1)") auto
  then show ?thesis
    using replay_at_most_once [OF sample_dlq_wf] by blast
qed

text \<open>
  The replay list is exactly the work there is: with a limit that covers the store, the listed
  items are those \<open>mark_replay\<close> accepts, in insertion order and each once; a smaller limit gives a
  prefix of it. The retry limit never stops an item, since an item is only ever replayed once.
\<close>

theorem pending_list_is_replayable:
  assumes "dlq_wf s" and "0 < n"
  shows "\<exists>rs. list_pending_applicable s (PInt n) = Inr (take (nat n) rs) \<and>
    sorted_wrt (<) (map item_id rs) \<and>
    (\<forall>i. i \<in> item_id ` set rs \<longleftrightarrow> fst (mark_replay s i) = Inr ()) \<and>
    (\<forall>i. fst (mark_replay s i) \<noteq> Inl (DeadLetterError ''MAX_RETRIES_EXCEEDED''))"
proof -
  let ?rs = "filter (\<lambda>r. applicability r = APPLICABLE \<and> replay_state r = PENDING) (dead_letters s)"
  have sorted_rs: "sorted_wrt (<) (map item_id ?rs)"
    using assms(1) by (simp add: dlq_wf_def sorted_wrt_map sorted_wrt_filter)
  then have "sort_key item_id ?rs = ?rs"
    by (intro sort_key_id_if_sorted) (rule strict_sorted_imp_sorted)
  moreover have "i \<in> item_id ` set ?rs \<longleftrightarrow> fst (mark_replay s i) = Inr ()" for i
  proof (cases "find_item s i")
    case None
    then show ?thesis
      using find_item_wf [OF assms(1), of i] by (auto simp: mark_replay_def)
  next
    case (Some r)
    have r: "r \<in> set (dead_letters s)" "item_id r = i"
      using Some find_item_wf [OF assms(1)] by simp_all
    have "i \<in> item_id ` set ?rs \<longleftrightarrow>
        filter (\<lambda>x. item_id x = i \<and> applicability x = APPLICABLE \<and> replay_state x = PENDING) (dead_letters s) \<noteq> []"
      by (auto simp: filter_empty_conv image_iff)
    also have "\<dots> \<longleftrightarrow> applicability r = APPLICABLE \<and> replay_state r = PENDING"
      using filter_item_wf [OF assms(1) r(1), of "\<lambda>x. applicability x = APPLICABLE \<and> replay_state x = PENDING"]
      by (simp add: r(2))
    finally show ?thesis
      by (cases "applicability r") (simp_all add: mark_replay_eq [OF assms(1) Some])
  qed
  moreover have "fst (mark_replay s i) \<noteq> Inl (DeadLetterError ''MAX_RETRIES_EXCEEDED'')" for i
  proof (cases "find_item s i")
    case None
    then show ?thesis by (simp add: mark_replay_def)
  next
    case (Some r)
    then show ?thesis by (simp add: mark_replay_eq [OF assms(1) Some])
  qed
  ultimately show ?thesis
    using assms(2) sorted_rs by (intro exI [of _ ?rs]) (simp add: list_pending_applicable_def)
qed

theorem pending_list_is_replayable_witness:
  "\<exists>rs. list_pending_applicable sample_dlq (PInt 5) = Inr (take 5 rs) \<and> (1 :: int) \<in> item_id ` set rs"
proof -
  have "\<not> isl (fst (mark_replay sample_dlq 1))"
    by code_simp
  then have "fst (mark_replay sample_dlq 1) = Inr ()"
    by (cases "fst (mark_replay sample_dlq 1)") auto
  then show ?thesis
    using pending_list_is_replayable [OF sample_dlq_wf, of 5] by auto
qed

end
