(* ===== verification/Runtime.thy ===== *)
theory Runtime
  imports Routing Heartbeat Dlq
begin

text \<open>
  The in-process runtime (\<open>src/src/radar/runtime.py\<close>): admission classifies a raw message,
  suppresses duplicates, queues, and accounts for every outcome; dispatch takes the next envelope
  and routes it. The admission lock makes each method one transition of the joined state.
\<close>

section \<open>State and receipts\<close>

record runtime =
  rt_registry :: registry
  rt_telemetry :: telemetry
  rt_dlq :: dlq
  rt_queue :: priority_queue
  rt_dedupe :: dedupe_window

record receipt =
  rc_state :: string
  rc_message_id :: string
  rc_recipients :: "string list"
  rc_dlq_item :: "int option"
  rc_evicted :: "string option"
  rc_errors :: "string list"

definition receipt_of :: "string \<Rightarrow> string \<Rightarrow> receipt" where
  "receipt_of st mid = \<lparr>rc_state = st, rc_message_id = mid, rc_recipients = [], rc_dlq_item = None,
     rc_evicted = None, rc_errors = []\<rparr>"

definition new_runtime :: "registry \<Rightarrow> telemetry \<Rightarrow> dlq \<Rightarrow> pyval \<Rightarrow> pyval \<Rightarrow> exn + runtime" where
  "new_runtime reg tel dead queue_size dedupe_window_ms =
    bindE (new_queue queue_size) (\<lambda>q.
    bindE (new_window dedupe_window_ms) (\<lambda>w.
    Inr \<lparr>rt_registry = reg, rt_telemetry = tel, rt_dlq = dead, rt_queue = q, rt_dedupe = w\<rparr>))"

section \<open>Dead-letter evidence\<close>

definition type_tag :: "string \<Rightarrow> pyval" where
  "type_tag name = PStr (''<'' @ name @ ''>'')"

text \<open>What the \<open>default\<close> hook of \<open>json.dumps\<close> substitutes: values JSON cannot carry.\<close>

fun with_default :: "pyval \<Rightarrow> pyval" where
  "with_default (PBytes b) = type_tag ''bytes''"
| "with_default (PObj t) = type_tag t"
| "with_default (PList vs) = PList (map with_default vs)"
| "with_default (PTuple vs) = PTuple (map with_default vs)"
| "with_default (PDict ms) = PDict (map (\<lambda>(k, v). (k, with_default v)) ms)"
| "with_default v = v"

definition raw_message_id :: "(string \<Rightarrow> string) \<Rightarrow> pymap \<Rightarrow> string" where
  "raw_message_id sha raw =
    (let v = get_value raw ''message_id'' in
     if is_text v then strip (text_of v)
     else ''radar-dlq-'' @ take 16 (sha (utf8 (projr (json_dumps False '','' '':'' (with_default (PDict raw)))))))"

fun safe_dlq_value :: "pyval \<Rightarrow> pyval" where
  "safe_dlq_value (PDict ms) = PDict (map (\<lambda>(k, v). (k, safe_dlq_value v)) (sort_key fst ms))"
| "safe_dlq_value (PList vs) = PList (map safe_dlq_value vs)"
| "safe_dlq_value (PTuple vs) = PList (map safe_dlq_value vs)"
| "safe_dlq_value (PBytes b) = type_tag ''bytes''"
| "safe_dlq_value (PObj t) = type_tag t"
| "safe_dlq_value v = v"

definition safe_dlq_envelope :: "pymap \<Rightarrow> pyval" where
  "safe_dlq_envelope raw = PDict (map (\<lambda>(k, v). (k, safe_dlq_value v)) raw)"

section \<open>Dispatch and admission\<close>

text \<open>\<open>telemetry.increment\<close> on the runtime's store; its exceptions propagate.\<close>

definition count_then :: "string \<Rightarrow> runtime \<Rightarrow> receipt \<Rightarrow> (exn + receipt) \<times> runtime" where
  "count_then name s r =
    (case increment (rt_telemetry s) name (PInt 1) of
       (Inl e, t) \<Rightarrow> (Inl e, s\<lparr>rt_telemetry := t\<rparr>)
     | (Inr _, t) \<Rightarrow> (Inr r, s\<lparr>rt_telemetry := t\<rparr>))"

definition dispatch_next :: "runtime \<Rightarrow> pyval \<Rightarrow> (exn + receipt) \<times> runtime" where
  "dispatch_next s now_arg = (case now_arg of
      PInt now \<Rightarrow>
        if now < 0 then (Inl (ValueError ''INVALID_ROUTE_TIME''), s)
        else (case pop (rt_queue s) of
          (Inl e, q) \<Rightarrow> (Inl e, s\<lparr>rt_queue := q\<rparr>)
        | (Inr env, q) \<Rightarrow>
            let s1 = s\<lparr>rt_queue := q\<rparr> in
            (case route (rt_registry s) env now_arg of
               Inl e \<Rightarrow> (Inl e, s1)
             | Inr decision \<Rightarrow>
                 if recipients decision = []
                 then count_then ''dropped'' s1 (receipt_of ''DROPPED_NO_ROUTE'' (message_id env))
                 else count_then ''routed'' s1
                   ((receipt_of ''DISPATCHED'' (message_id env))\<lparr>rc_recipients := recipients decision\<rparr>)))
    | _ \<Rightarrow> (Inl (ValueError ''INVALID_ROUTE_TIME''), s))"

definition admit_dlq :: "runtime \<Rightarrow> string \<Rightarrow> pymap \<Rightarrow> string list \<Rightarrow> pyval \<Rightarrow> (exn + receipt) \<times> runtime" where
  "admit_dlq s mid raw errs source_loc =
    (let diag = (if join '','' errs = [] then ''unknown taxonomy'' else join '','' errs) in
     case record_dead_letter (rt_dlq s) (PStr mid) (PStr ''ADMISSION'') (PStr ''UNKNOWN_TAXONOMY'')
            (safe_dlq_envelope raw) (PStr diag) (PStr ''TAXONOMY'') source_loc of
       (Inl e, d) \<Rightarrow> (Inl e, s\<lparr>rt_dlq := d\<rparr>)
     | (Inr i, d) \<Rightarrow>
         count_then ''dlq'' (s\<lparr>rt_dlq := d\<rparr>)
           ((receipt_of ''DLQ'' mid)\<lparr>rc_dlq_item := Some i, rc_errors := errs\<rparr>))"

text \<open>\<open>replace(dispatched, evicted_message_id=...)\<close>\<close>

definition with_evicted :: "string option \<Rightarrow> (exn + receipt) \<times> runtime \<Rightarrow> (exn + receipt) \<times> runtime" where
  "with_evicted ev res = (case res of
      (Inl e, s) \<Rightarrow> (Inl e, s)
    | (Inr r, s) \<Rightarrow> (Inr (r\<lparr>rc_evicted := ev\<rparr>), s))"

text \<open>What follows a successful push: account for the displaced envelope, dispatch an urgent one.\<close>

definition after_push :: "runtime \<Rightarrow> radar_envelope \<Rightarrow> pyval \<Rightarrow> radar_envelope option \<Rightarrow> (exn + receipt) \<times> runtime" where
  "after_push s env now_arg evicted =
    (let ev = map_option message_id evicted;
         queued = (receipt_of ''QUEUED'' (message_id env))\<lparr>rc_evicted := ev\<rparr>;
         counted = (case evicted of None \<Rightarrow> (Inr queued, s) | Some _ \<Rightarrow> count_then ''dropped'' s queued) in
     case counted of
       (Inl e, s1) \<Rightarrow> (Inl e, s1)
     | (Inr _, s1) \<Rightarrow>
         if priority env = 0 then with_evicted ev (dispatch_next s1 now_arg) else (Inr queued, s1))"

definition admit_envelope :: "runtime \<Rightarrow> radar_envelope \<Rightarrow> pyval \<Rightarrow> (exn + receipt) \<times> runtime" where
  "admit_envelope s env now_arg =
    (let key = idempotency_key env; mid = message_id env in
     case accept (rt_dedupe s) key now_arg of
       (Inl e, w) \<Rightarrow> (Inl e, s\<lparr>rt_dedupe := w\<rparr>)
     | (Inr False, w) \<Rightarrow> count_then ''dropped'' (s\<lparr>rt_dedupe := w\<rparr>) (receipt_of ''DROPPED_DUPLICATE'' mid)
     | (Inr True, w) \<Rightarrow>
         (case push (rt_queue s) env of
            (Inl (OverflowError _), q) \<Rightarrow>
              (case rollback_accept w key now_arg of
                 (Inl e, w') \<Rightarrow> (Inl e, s\<lparr>rt_dedupe := w', rt_queue := q\<rparr>)
               | (Inr _, w') \<Rightarrow>
                   count_then ''dropped'' (s\<lparr>rt_dedupe := w', rt_queue := q\<rparr>) (receipt_of ''DROPPED_QUEUE_FULL'' mid))
          | (Inl e, q) \<Rightarrow> (Inl e, s\<lparr>rt_dedupe := w, rt_queue := q\<rparr>)
          | (Inr evicted, q) \<Rightarrow>
              after_push (s\<lparr>rt_dedupe := w, rt_queue := q\<rparr>) env now_arg evicted))"

definition admit ::
  "(string \<Rightarrow> string) \<Rightarrow> string \<Rightarrow> string \<Rightarrow> runtime \<Rightarrow> pymap \<Rightarrow> pyval \<Rightarrow> pyval \<Rightarrow> (exn + receipt) \<times> runtime" where
  "admit sha uuid_hex now_iso s raw now_arg source_loc =
    (case from_mapping sha uuid_hex now_iso raw of
       Inl e \<Rightarrow> (Inl e, s)
     | Inr result \<Rightarrow>
         let mid = raw_message_id sha raw in
         if classification result = DLQ then admit_dlq s mid raw (errors result) source_loc
         else (case envelope result of
           None \<Rightarrow> count_then ''dropped'' s ((receipt_of ''REJECTED'' mid)\<lparr>rc_errors := errors result\<rparr>)
         | Some env \<Rightarrow>
             if classification result = REJECTED
             then count_then ''dropped'' s ((receipt_of ''REJECTED'' mid)\<lparr>rc_errors := errors result\<rparr>)
             else admit_envelope s env now_arg))"

section \<open>The invariant\<close>

text \<open>Only well-formed, non-urgent envelopes wait: urgent ones are dispatched on admission.\<close>

definition runtime_wf :: "runtime \<Rightarrow> bool" where
  "runtime_wf s \<longleftrightarrow> registry_wf (rt_registry s) \<and> telemetry_wf (rt_telemetry s) \<and> dlq_wf (rt_dlq s) \<and>
     queue_wf (rt_queue s) \<and> window_wf (rt_dedupe s) \<and>
     (\<forall>e \<in> set (contents (rt_queue s)). env_wf e \<and> 0 < priority e)"

text \<open>Everything the runtime has accepted responsibility for.\<close>

definition accounted_for :: "runtime \<Rightarrow> int" where
  "accounted_for s = tel.total (rt_telemetry s) + int (length (contents (rt_queue s)))"

lemma count_then_wf:
  assumes "telemetry_wf (rt_telemetry s)" "name \<in> set COUNTER_NAMES"
  obtains t where "count_then name s r = (Inr r, s\<lparr>rt_telemetry := t\<rparr>)" "telemetry_wf t"
    "counter_value t = (counter_value (rt_telemetry s))(name := counter_value (rt_telemetry s) name + 1)"
    "tel.total t = tel.total (rt_telemetry s) + 1" "heartbeats t = heartbeats (rt_telemetry s)"
proof -
  obtain x t where inc: "increment (rt_telemetry s) name (PInt 1) = (Inr x, t)" "telemetry_wf t"
      "heartbeats t = heartbeats (rt_telemetry s)"
      "counter_value t = (counter_value (rt_telemetry s))(name := counter_value (rt_telemetry s) name + 1)"
    using increment_wf [OF assms, of 1] by auto
  moreover have "tel.total t = tel.total (rt_telemetry s) + 1"
    using tel.bump_total(2) [OF assms] inc(1) by simp
  ultimately show ?thesis
    using that by (simp add: count_then_def)
qed

lemma counter_names [simp]: "''dropped'' \<in> set COUNTER_NAMES" "''routed'' \<in> set COUNTER_NAMES"
  "''dlq'' \<in> set COUNTER_NAMES"
  by (simp_all add: COUNTER_NAMES_def)

lemma runtime_wfD:
  assumes "runtime_wf s"
  shows "registry_wf (rt_registry s)" "telemetry_wf (rt_telemetry s)" "dlq_wf (rt_dlq s)"
    "queue_wf (rt_queue s)" "window_wf (rt_dedupe s)"
    "e \<in> set (contents (rt_queue s)) \<Longrightarrow> env_wf e" "e \<in> set (contents (rt_queue s)) \<Longrightarrow> 0 < priority e"
  using assms by (auto simp: runtime_wf_def)

text \<open>Whom an envelope reaches when it is dispatched.\<close>

definition reached_by :: "registry \<Rightarrow> radar_envelope \<Rightarrow> int \<Rightarrow> string \<Rightarrow> bool" where
  "reached_by r e now k \<longleftrightarrow> node_reached r (domain e) (priority e) (Some (intent e)) now k \<and>
     (audience e = [] \<or> (\<exists>a \<in> set (audience e). \<exists>i. resolve_identity_id r a = Inr i \<and> node_owner r k = Some i))"

text \<open>The receipt of a dispatch that found the given recipients.\<close>

definition dispatch_receipt :: "radar_envelope \<Rightarrow> string list \<Rightarrow> receipt" where
  "dispatch_receipt e rs = (if rs = [] then receipt_of ''DROPPED_NO_ROUTE'' (message_id e)
     else (receipt_of ''DISPATCHED'' (message_id e))\<lparr>rc_recipients := rs\<rparr>)"

lemma dispatch_head:
  assumes pop: "pop (rt_queue s) = (Inr e, q)" and e: "env_wf e" and now: "0 \<le> now"
    and reg: "registry_wf (rt_registry s)" and tel: "telemetry_wf (rt_telemetry s)"
  obtains rs t where "dispatch_next s (PInt now) = (Inr (dispatch_receipt e rs), s\<lparr>rt_queue := q, rt_telemetry := t\<rparr>)"
    "distinct rs" "\<forall>k. k \<in> set rs \<longleftrightarrow> reached_by (rt_registry s) e now k"
    "telemetry_wf t" "tel.total t = tel.total (rt_telemetry s) + 1"
    "counter_value t = (counter_value (rt_telemetry s))
       ((if rs = [] then ''dropped'' else ''routed'') :=
         counter_value (rt_telemetry s) (if rs = [] then ''dropped'' else ''routed'') + 1)"
proof -
  obtain rs where route: "route (rt_registry s) e (PInt now) =
      Inr \<lparr>recipients = rs, route_priority = priority e, route_authority = authority_ref e\<rparr>"
      "distinct rs" "\<forall>k. k \<in> set rs \<longleftrightarrow> reached_by (rt_registry s) e now k"
    using directory.route_exact [OF reg e now] unfolding route_def reached_by_def by blast
  let ?name = "if rs = [] then ''dropped'' else ''routed''"
  have "?name \<in> set COUNTER_NAMES"
    by simp
  then obtain t where t: "count_then ?name (s\<lparr>rt_queue := q\<rparr>) (dispatch_receipt e rs) =
        (Inr (dispatch_receipt e rs), (s\<lparr>rt_queue := q\<rparr>)\<lparr>rt_telemetry := t\<rparr>)" "telemetry_wf t"
      "counter_value t = (counter_value (rt_telemetry s))(?name := counter_value (rt_telemetry s) ?name + 1)"
      "tel.total t = tel.total (rt_telemetry s) + 1"
    using count_then_wf [of "s\<lparr>rt_queue := q\<rparr>" ?name "dispatch_receipt e rs"] tel by auto
  then have "dispatch_next s (PInt now) = (Inr (dispatch_receipt e rs), s\<lparr>rt_queue := q, rt_telemetry := t\<rparr>)"
    using now by (auto simp: dispatch_next_def pop route(1) dispatch_receipt_def Let_def split: if_splits)
  then show ?thesis
    using that route(2,3) t by blast
qed

lemma dispatch_empty: "0 \<le> now \<Longrightarrow> contents (rt_queue s) = [] \<Longrightarrow>
    dispatch_next s (PInt now) = (Inl (IndexError ''RADAR_QUEUE_EMPTY''), s)"
  by (simp add: dispatch_next_def pop_empty)

lemma dispatch_invalid_time: "(\<forall>now. a = PInt now \<longrightarrow> now < 0) \<Longrightarrow>
    dispatch_next s a = (Inl (ValueError ''INVALID_ROUTE_TIME''), s)"
  by (cases a) (auto simp: dispatch_next_def)

text \<open>Dispatch keeps the invariant and loses nothing.\<close>

lemma dispatch_progress:
  assumes wf: "runtime_wf s"
  shows "runtime_wf (snd (dispatch_next s a)) \<and> accounted_for (snd (dispatch_next s a)) = accounted_for s"
proof (cases "\<exists>now. a = PInt now \<and> 0 \<le> now \<and> contents (rt_queue s) \<noteq> []")
  case False
  then have "snd (dispatch_next s a) = s"
    using dispatch_empty [of _ s] dispatch_invalid_time [of a s] by (cases a) force+
  with wf show ?thesis by simp
next
  case True
  then obtain now e es where a: "a = PInt now" "0 \<le> now" and c: "contents (rt_queue s) = e # es"
    by (auto simp: neq_Nil_conv)
  obtain q where pop: "pop (rt_queue s) = (Inr e, q)" "queue_wf q" "contents q = es"
    using pop_head [OF runtime_wfD(4) [OF wf] c] by blast
  have "env_wf e"
    using runtime_wfD(6) [OF wf] c by simp
  from dispatch_head [OF pop(1) this a(2) runtime_wfD(1,2) [OF wf]]
  obtain rs t where "dispatch_next s a = (Inr (dispatch_receipt e rs), s\<lparr>rt_queue := q, rt_telemetry := t\<rparr>)"
      "telemetry_wf t" "tel.total t = tel.total (rt_telemetry s) + 1"
    unfolding a(1) by metis
  then show ?thesis
    using wf pop c by (auto simp: runtime_wf_def accounted_for_def)
qed

section \<open>Admission, branch by branch\<close>

lemma env_priority: "env_wf e \<Longrightarrow> 0 \<le> priority e"
  by (simp add: env_wf_def priority_defs)

lemma rollback_fresh:
  assumes wf: "window_wf d" and acc: "accept d key (PInt now) = (Inr True, w)"
  shows "\<exists>w'. rollback_accept w key (PInt now) = (Inr True, w') \<and> window_wf w' \<and>
    dict_get (seen w') key = None \<and> last_now_ms w' = Some now \<and> window_ms w' = window_ms d"
  using acc
proof (cases rule: accept_cases [of d key "PInt now"])
  case (accepted n)
  have w: "w = d\<lparr>last_now_ms := Some now,
      seen := prune key (now - window_ms d) (dict_del (seen d) key @ [(key, now)])\<rparr>"
    using accepted acc by simp
  have seen: "dict_get (seen w) key = Some now" and wfw: "window_wf w"
    using accepted_wf(1,3) [OF wf accepted(4) refl, of key] accepted(1) by (simp_all add: w)
  have rb: "rollback_accept w key (PInt now) = (Inr True, w\<lparr>seen := dict_del (seen w) key\<rparr>)"
    using seen accepted(1-3) by (simp add: rollback_accept_def)
  have "window_wf (w\<lparr>seen := dict_del (seen w) key\<rparr>)"
    using window_exec_wf [OF wfw, of "Rollback key (PInt now)"] rb by simp
  then show ?thesis
    using rb by (simp add: w)
qed simp_all

lemma admit_envelope_cases:
  assumes wf: "runtime_wf s" and e: "env_wf e"
  obtains
    (error) x where "admit_envelope s e a = (Inl x, s)"
      "accept (rt_dedupe s) (idempotency_key e) a = (Inl x, rt_dedupe s)"
  | (duplicate) t now where "a = PInt now"
      "accept (rt_dedupe s) (idempotency_key e) a = (Inr False, (rt_dedupe s)\<lparr>last_now_ms := Some now\<rparr>)"
      "admit_envelope s e a = (Inr (receipt_of ''DROPPED_DUPLICATE'' (message_id e)),
         s\<lparr>rt_dedupe := (rt_dedupe s)\<lparr>last_now_ms := Some now\<rparr>, rt_telemetry := t\<rparr>)"
      "telemetry_wf t" "tel.total t = tel.total (rt_telemetry s) + 1"
      "window_wf ((rt_dedupe s)\<lparr>last_now_ms := Some now\<rparr>)"
  | (refused) t q w now where "priority e \<noteq> 0" "int (length (contents (rt_queue s))) = max_size (rt_queue s)"
      "admit_envelope s e a = (Inr (receipt_of ''DROPPED_QUEUE_FULL'' (message_id e)),
         s\<lparr>rt_dedupe := w, rt_queue := q, rt_telemetry := t\<rparr>)"
      "telemetry_wf t" "tel.total t = tel.total (rt_telemetry s) + 1"
      "queue_wf q" "contents q = contents (rt_queue s)" "max_size q = max_size (rt_queue s)"
      "window_wf w" "dict_get (seen w) (idempotency_key e) = None" "a = PInt now" "0 \<le> now"
      "idempotency_key e \<noteq> []" "last_now_ms w = Some now"
      "w = fold window_exec [Accept (idempotency_key e) a, Rollback (idempotency_key e) a] (rt_dedupe s)"
      "fst (accept (rt_dedupe s) (idempotency_key e) a) = Inr True"
  | (queued) q w where "priority e \<noteq> 0" "int (length (contents (rt_queue s))) < max_size (rt_queue s)"
      "admit_envelope s e a = (Inr (receipt_of ''QUEUED'' (message_id e)), s\<lparr>rt_dedupe := w, rt_queue := q\<rparr>)"
      "queue_wf q" "contents q = enqueue e (contents (rt_queue s))" "max_size q = max_size (rt_queue s)"
      "window_wf w" "accept (rt_dedupe s) (idempotency_key e) a = (Inr True, w)"
  | (urgent) now q w t rs evicted where "priority e = 0" "a = PInt now"
      "admit_envelope s e a = (Inr ((dispatch_receipt e rs)\<lparr>rc_evicted := map_option message_id evicted\<rparr>),
         s\<lparr>rt_dedupe := w, rt_queue := q, rt_telemetry := t\<rparr>)"
      "distinct rs" "\<forall>k. k \<in> set rs \<longleftrightarrow> reached_by (rt_registry s) e now k"
      "queue_wf q" "max_size q = max_size (rt_queue s)" "window_wf w" "telemetry_wf t"
      "contents q = (if evicted = None then contents (rt_queue s) else butlast (contents (rt_queue s)))"
      "evicted = None \<or> evicted = Some (last (contents (rt_queue s))) \<and> contents (rt_queue s) \<noteq> []"
      "tel.total t = tel.total (rt_telemetry s) + (if evicted = None then 1 else 2)"
      "accept (rt_dedupe s) (idempotency_key e) a = (Inr True, w)"
proof (cases rule: accept_cases [of "rt_dedupe s" "idempotency_key e" a])
  case (error x)
  then have "admit_envelope s e a = (Inl x, s)"
    by (simp add: admit_envelope_def)
  then show ?thesis
    using error by (intro that(1))
next
  case (duplicate now t0)
  let ?w = "(rt_dedupe s)\<lparr>last_now_ms := Some now\<rparr>"
  obtain t where t: "count_then ''dropped'' (s\<lparr>rt_dedupe := ?w\<rparr>) (receipt_of ''DROPPED_DUPLICATE'' (message_id e)) =
        (Inr (receipt_of ''DROPPED_DUPLICATE'' (message_id e)), (s\<lparr>rt_dedupe := ?w\<rparr>)\<lparr>rt_telemetry := t\<rparr>)"
      "telemetry_wf t" "tel.total t = tel.total (rt_telemetry s) + 1"
    using count_then_wf [of "s\<lparr>rt_dedupe := ?w\<rparr>" "''dropped''"] runtime_wfD(2) [OF wf] by auto
  have "window_wf ?w"
    using window_exec_wf [OF runtime_wfD(5) [OF wf], of "Accept (idempotency_key e) a"] duplicate(7) by simp
  moreover have "admit_envelope s e a = (Inr (receipt_of ''DROPPED_DUPLICATE'' (message_id e)),
      (s\<lparr>rt_dedupe := ?w\<rparr>)\<lparr>rt_telemetry := t\<rparr>)"
    using t(1) duplicate(7) by (simp add: admit_envelope_def)
  ultimately show ?thesis
    using t duplicate(1,7) by (intro that(2)) simp_all
next
  case (accepted now)
  define w where "w = snd (accept (rt_dedupe s) (idempotency_key e) a)"
  have acc: "accept (rt_dedupe s) (idempotency_key e) (PInt now) = (Inr True, w)"
    using accepted(1,6) by (simp add: w_def)
  have wfw: "window_wf w"
    using window_exec_wf [OF runtime_wfD(5) [OF wf], of "Accept (idempotency_key e) a"] by (simp add: w_def)
  let ?s = "s\<lparr>rt_dedupe := w\<rparr>"
  show ?thesis
  proof (cases "priority e = 0")
    case True
    have rest: "\<forall>x \<in> set (contents (rt_queue s)). 0 < priority x"
      using runtime_wfD(7) [OF wf] by blast
    obtain evicted q1 q2 where push: "push (rt_queue s) e = (Inr evicted, q1)" "pop q1 = (Inr e, q2)"
        "queue_wf q2" "max_size q2 = max_size (rt_queue s)"
        "contents q2 = (if evicted = None then contents (rt_queue s) else butlast (contents (rt_queue s)))"
        "evicted = None \<or> evicted = Some (last (contents (rt_queue s))) \<and> contents (rt_queue s) \<noteq> []"
      using rq.put_urgent [OF runtime_wfD(4) [OF wf] True rest] by blast
    let ?ev = "map_option message_id evicted"
    let ?queued = "(receipt_of ''QUEUED'' (message_id e))\<lparr>rc_evicted := ?ev\<rparr>"
    let ?s1 = "s\<lparr>rt_dedupe := w, rt_queue := q1\<rparr>"
    obtain t1 where t1: "(case evicted of None \<Rightarrow> (Inr ?queued, ?s1) | Some _ \<Rightarrow> count_then ''dropped'' ?s1 ?queued) =
          (Inr ?queued, ?s1\<lparr>rt_telemetry := t1\<rparr>)" "telemetry_wf t1"
        "tel.total t1 = tel.total (rt_telemetry s) + (if evicted = None then 0 else 1)"
    proof (cases evicted)
      case None
      then show ?thesis
        using that [of "rt_telemetry s"] runtime_wfD(2) [OF wf] by simp
    next
      case (Some v)
      have "telemetry_wf (rt_telemetry ?s1)"
        using runtime_wfD(2) [OF wf] by simp
      then obtain t1 where "count_then ''dropped'' ?s1 ?queued = (Inr ?queued, ?s1\<lparr>rt_telemetry := t1\<rparr>)"
          "telemetry_wf t1" "tel.total t1 = tel.total (rt_telemetry s) + 1"
        using count_then_wf [of ?s1 "''dropped''" ?queued] by auto
      then show ?thesis
        using that [of t1] Some by simp
    qed
    obtain rs t where d: "dispatch_next (?s1\<lparr>rt_telemetry := t1\<rparr>) (PInt now) =
          (Inr (dispatch_receipt e rs), (?s1\<lparr>rt_telemetry := t1\<rparr>)\<lparr>rt_queue := q2, rt_telemetry := t\<rparr>)"
        "distinct rs" "\<forall>k. k \<in> set rs \<longleftrightarrow> reached_by (rt_registry s) e now k"
        "telemetry_wf t" "tel.total t = tel.total t1 + 1"
    proof (rule dispatch_head [of "?s1\<lparr>rt_telemetry := t1\<rparr>" e q2 now])
      show "pop (rt_queue (?s1\<lparr>rt_telemetry := t1\<rparr>)) = (Inr e, q2)"
        using push(2) by simp
    qed (use e accepted(3) runtime_wfD(1) [OF wf] t1(2) that in simp_all)
    have "admit_envelope s e a = (Inr ((dispatch_receipt e rs)\<lparr>rc_evicted := ?ev\<rparr>),
        s\<lparr>rt_dedupe := w, rt_queue := q2, rt_telemetry := t\<rparr>)"
      by (simp add: admit_envelope_def accepted(1) acc push(1) after_push_def Let_def t1(1) True d(1) with_evicted_def)
    then show ?thesis
      using True accepted(1) d push wfw t1(3) acc
      by (intro that(5) [where evicted = evicted and q = q2]) (simp_all split: if_splits, auto)
  next
    case False
    show ?thesis
      using runtime_wfD(4) [OF wf]
    proof (cases rule: rq.put_cases [of "rt_queue s" e])
      case (room q)
      then have "admit_envelope s e a = (Inr (receipt_of ''QUEUED'' (message_id e)), s\<lparr>rt_dedupe := w, rt_queue := q\<rparr>)"
        using False by (simp add: admit_envelope_def accepted(1) acc after_push_def receipt_of_def)
      then show ?thesis
        using room False wfw acc accepted(1) by (intro that(4) [where q = q and w = w]) simp_all
    next
      case (refused q)
      obtain w' where rb: "rollback_accept w (idempotency_key e) (PInt now) = (Inr True, w')" "window_wf w'"
          "dict_get (seen w') (idempotency_key e) = None" "last_now_ms w' = Some now"
        using rollback_fresh [OF runtime_wfD(5) [OF wf] acc] by blast
      let ?s1 = "s\<lparr>rt_dedupe := w', rt_queue := q\<rparr>"
      obtain t where t: "count_then ''dropped'' ?s1 (receipt_of ''DROPPED_QUEUE_FULL'' (message_id e)) =
            (Inr (receipt_of ''DROPPED_QUEUE_FULL'' (message_id e)), ?s1\<lparr>rt_telemetry := t\<rparr>)"
          "telemetry_wf t" "tel.total t = tel.total (rt_telemetry s) + 1"
        using count_then_wf [of ?s1 "''dropped''"] runtime_wfD(2) [OF wf] by auto
      then have "admit_envelope s e a = (Inr (receipt_of ''DROPPED_QUEUE_FULL'' (message_id e)),
          s\<lparr>rt_dedupe := w', rt_queue := q, rt_telemetry := t\<rparr>)"
        by (simp add: admit_envelope_def accepted(1) acc refused(1) rb(1))
      then show ?thesis
        using False refused rb t accepted(1-3) acc
        by (intro that(3) [where q = q and w = w' and now = now]) simp_all
    qed (use False in simp)
  qed
qed

section \<open>Admission of a raw message\<close>

lemma admit_envelope_progress:
  assumes wf: "runtime_wf s" and e: "env_wf e"
  shows "runtime_wf (snd (admit_envelope s e a)) \<and> accounted_for (snd (admit_envelope s e a)) =
    accounted_for s + (if isl (fst (admit_envelope s e a)) then 0 else 1)"
  using wf e
proof (cases rule: admit_envelope_cases [of s e a])
  case (urgent now q w t rs evicted)
  have "contents (rt_queue s) \<noteq> [] \<Longrightarrow>
      int (length (contents (rt_queue s)) - Suc 0) = int (length (contents (rt_queue s))) - 1"
    by (cases "contents (rt_queue s)") auto
  moreover have "set (contents q) \<subseteq> set (contents (rt_queue s))"
    using urgent(10) by (auto dest: in_set_butlastD)
  ultimately show ?thesis
    using wf urgent by (auto simp: runtime_wf_def accounted_for_def split: if_splits)
next
  case (queued q w)
  then show ?thesis
    using wf e env_priority [OF e] by (auto simp: runtime_wf_def accounted_for_def)
qed (use wf in \<open>auto simp: runtime_wf_def accounted_for_def\<close>)

lemma safe_dlq_value_ok: "json_ok (safe_dlq_value v)"
  by (induction v rule: safe_dlq_value.induct) (auto simp: type_tag_def)

lemma blank_join: "blank (join sep xs) \<Longrightarrow> x \<in> set xs \<Longrightarrow> blank x"
  by (induction sep xs rule: join.induct) (auto simp: blank_iff)

lemma from_mapping_dlq_errors:
  "from_mapping sha uuid_hex now_iso raw = Inr r \<Longrightarrow> classification r = DLQ \<Longrightarrow>
     errors r \<noteq> [] \<and> set (errors r) \<subseteq> {''domain'', ''intent''} \<and> envelope r = None"
  by (auto simp: from_mapping_def Let_def rejected_def split: if_splits prod.splits sum.splits)

lemma from_mapping_never_fails: "\<exists>r. from_mapping sha uuid_hex now_iso raw = Inr r"
  by (cases rule: from_mapping_outcomes [of raw sha uuid_hex now_iso]) blast+

lemma raw_message_id_text: "\<not> blank (raw_message_id sha raw)"
proof -
  have "\<not> is_space (CHR ''r'')"
    by code_simp
  then have "\<not> blank (''radar-dlq-'' @ t)" for t
    by (simp add: blank_iff)
  then show ?thesis
    by (auto simp: raw_message_id_def Let_def is_text_iff)
qed

text \<open>A dead-lettered message is stored once and counted, unless its source locator is unusable.\<close>

lemma admit_dlq_cases:
  assumes wf: "runtime_wf s" and errs: "errs \<noteq> []" "set errs \<subseteq> {''domain'', ''intent''}" and mid: "\<not> blank mid"
  obtains (stored) i d t where "loc = PNone \<or> is_text loc"
      "admit_dlq s mid raw errs loc = (Inr ((receipt_of ''DLQ'' mid)\<lparr>rc_dlq_item := Some i, rc_errors := errs\<rparr>),
         s\<lparr>rt_dlq := d, rt_telemetry := t\<rparr>)"
      "dlq_wf d" "dead_letters d = dead_letters (rt_dlq s) @
         [new_letter i (PStr mid) (PStr ''ADMISSION'') (PStr ''UNKNOWN_TAXONOMY'') (safe_dlq_envelope raw)
            (PStr (join '','' errs)) (PStr ''TAXONOMY'') loc]"
      "telemetry_wf t" "tel.total t = tel.total (rt_telemetry s) + 1"
  | (bad_locator) code where "loc \<noteq> PNone" "\<not> is_text loc"
      "admit_dlq s mid raw errs loc = (Inl (DeadLetterError code), s)"
proof -
  let ?post = "record_dead_letter (rt_dlq s) (PStr mid) (PStr ''ADMISSION'') (PStr ''UNKNOWN_TAXONOMY'')
      (safe_dlq_envelope raw) (PStr (join '','' errs)) (PStr ''TAXONOMY'') loc"
  have letters: "\<not> blank ''domain''" "\<not> blank ''intent''" "\<not> blank ''ADMISSION''" "\<not> blank ''UNKNOWN_TAXONOMY''"
    "\<not> blank ''TAXONOMY''"
    by code_simp+
  obtain x where x: "x \<in> set errs" "\<not> blank x"
    using errs letters(1,2) by (cases errs) auto
  then have diag: "\<not> blank (join '','' errs)" "join '','' errs \<noteq> []"
    using blank_join [of "'',''" errs x] by (auto simp: blank_iff)
  have env: "json_ok (safe_dlq_envelope raw)" "\<exists>ms. safe_dlq_envelope raw = PDict ms"
    using safe_dlq_value_ok by (auto simp: safe_dlq_envelope_def)
  have acc: "letter_accepted (PStr mid) (PStr ''ADMISSION'') (PStr ''UNKNOWN_TAXONOMY'') (safe_dlq_envelope raw)
      (PStr (join '','' errs)) (PStr ''TAXONOMY'') loc \<longleftrightarrow> loc = PNone \<or> is_text loc"
    using mid letters diag(1) env by (simp add: letter_accepted_def)
  show ?thesis
  proof (cases "loc = PNone \<or> is_text loc")
    case True
    obtain i d where post: "?post = (Inr i, d)" "dlq_wf d"
        "dead_letters d = dead_letters (rt_dlq s) @ [new_letter i (PStr mid) (PStr ''ADMISSION'')
           (PStr ''UNKNOWN_TAXONOMY'') (safe_dlq_envelope raw) (PStr (join '','' errs)) (PStr ''TAXONOMY'') loc]"
      using letters.post_accepted [OF runtime_wfD(3) [OF wf]] acc True by blast
    have "telemetry_wf (rt_telemetry (s\<lparr>rt_dlq := d\<rparr>))"
      using runtime_wfD(2) [OF wf] by simp
    then obtain t where "count_then ''dlq'' (s\<lparr>rt_dlq := d\<rparr>)
          ((receipt_of ''DLQ'' mid)\<lparr>rc_dlq_item := Some i, rc_errors := errs\<rparr>) =
          (Inr ((receipt_of ''DLQ'' mid)\<lparr>rc_dlq_item := Some i, rc_errors := errs\<rparr>), (s\<lparr>rt_dlq := d\<rparr>)\<lparr>rt_telemetry := t\<rparr>)"
        "telemetry_wf t" "tel.total t = tel.total (rt_telemetry s) + 1"
      using count_then_wf [of "s\<lparr>rt_dlq := d\<rparr>" "''dlq''"] by auto
    then show ?thesis
      using True post diag(2) by (intro that(1)) (simp_all add: admit_dlq_def Let_def)
  next
    case False
    obtain code where "?post = (Inl (DeadLetterError code), rt_dlq s)"
      using letters.post_refused [OF runtime_wfD(3) [OF wf]] acc False by blast
    then show ?thesis
      using False diag(2) by (intro that(2)) (simp_all add: admit_dlq_def Let_def)
  qed
qed

text \<open>The three ways a raw message goes.\<close>

lemma admit_cases:
  assumes wf: "runtime_wf s"
  obtains (dead) errs where "header_ok raw" "\<not> taxonomy_ok raw" "errs \<noteq> []" "set errs \<subseteq> {''domain'', ''intent''}"
      "admit sha uuid_hex now_iso s raw a loc = admit_dlq s (raw_message_id sha raw) raw errs loc"
  | (rejected) errs t where "\<not> header_ok raw \<or> taxonomy_ok raw \<and> \<not> fields_ok raw" "errs \<noteq> []"
      "admit sha uuid_hex now_iso s raw a loc =
       (Inr ((receipt_of ''REJECTED'' (raw_message_id sha raw))\<lparr>rc_errors := errs\<rparr>), s\<lparr>rt_telemetry := t\<rparr>)"
      "telemetry_wf t" "tel.total t = tel.total (rt_telemetry s) + 1"
  | (envelope) "header_ok raw" "taxonomy_ok raw" "fields_ok raw"
      "env_wf (built_envelope sha uuid_hex now_iso raw)"
      "admit sha uuid_hex now_iso s raw a loc = admit_envelope s (built_envelope sha uuid_hex now_iso raw) a"
proof -
  have reject: thesis if f: "from_mapping sha uuid_hex now_iso raw = Inr (Envelope.rejected errs)" "errs \<noteq> []"
    "\<not> header_ok raw \<or> taxonomy_ok raw \<and> \<not> fields_ok raw" for errs
  proof -
    obtain t where "count_then ''dropped'' s ((receipt_of ''REJECTED'' (raw_message_id sha raw))\<lparr>rc_errors := errs\<rparr>) =
          (Inr ((receipt_of ''REJECTED'' (raw_message_id sha raw))\<lparr>rc_errors := errs\<rparr>), s\<lparr>rt_telemetry := t\<rparr>)"
        "telemetry_wf t" "tel.total t = tel.total (rt_telemetry s) + 1"
      using count_then_wf [OF runtime_wfD(2) [OF wf], of "''dropped''"] by auto
    then show thesis
      using f by (intro rejected) (simp_all add: admit_def rejected_def)
  qed
  show thesis
  proof (cases rule: from_mapping_outcomes [of raw sha uuid_hex now_iso])
    case (dlq errs)
    then show thesis
      using from_mapping_dlq_errors [OF dlq(4)] by (intro dead) (simp_all add: admit_def)
  next
    case accepted
    then show thesis
      using built_envelope_wf [OF accepted(1-3)] by (intro envelope) (simp_all add: admit_def)
  qed (use reject in blast)+
qed

lemma admit_progress:
  assumes wf: "runtime_wf s"
  shows "runtime_wf (snd (admit sha uuid_hex now_iso s raw a loc)) \<and>
    accounted_for (snd (admit sha uuid_hex now_iso s raw a loc)) =
    accounted_for s + (if isl (fst (admit sha uuid_hex now_iso s raw a loc)) then 0 else 1)"
  using wf
proof (cases rule: admit_cases [of s raw sha uuid_hex now_iso a loc])
  case (dead errs)
  show ?thesis
    using wf by (cases rule: admit_dlq_cases [OF wf dead(3,4) raw_message_id_text, of loc sha raw raw])
      (auto simp: dead(5) runtime_wf_def accounted_for_def)
next
  case (rejected errs t)
  then show ?thesis
    using wf by (auto simp: runtime_wf_def accounted_for_def)
next
  case envelope
  then show ?thesis
    using admit_envelope_progress [OF wf envelope(4), of a] by simp
qed

section \<open>The runtime as a state machine\<close>

text \<open>
  The calls of its clients, in any order and interleaved with changes to the registry. Each
  admission carries its own random id and wall clock.
\<close>

datatype runtime_call =
    Admit string string pymap pyval pyval
  | Dispatch pyval
  | ChangeRegistry registry_call

fun runtime_exec :: "(string \<Rightarrow> string) \<Rightarrow> runtime_call \<Rightarrow> runtime \<Rightarrow> runtime" where
  "runtime_exec sha (Admit uuid_hex now_iso raw a loc) s = snd (admit sha uuid_hex now_iso s raw a loc)"
| "runtime_exec sha (Dispatch a) s = snd (dispatch_next s a)"
| "runtime_exec sha (ChangeRegistry c) s = s\<lparr>rt_registry := registry_exec c (rt_registry s)\<rparr>"

text \<open>The number of admissions in a run that returned a receipt.\<close>

fun receipts :: "(string \<Rightarrow> string) \<Rightarrow> runtime_call list \<Rightarrow> runtime \<Rightarrow> int" where
  "receipts sha [] s = 0"
| "receipts sha (c # cs) s =
    (case c of
       Admit uuid_hex now_iso raw a loc \<Rightarrow> if isl (fst (admit sha uuid_hex now_iso s raw a loc)) then 0 else 1
     | _ \<Rightarrow> 0) + receipts sha cs (runtime_exec sha c s)"

lemma runtime_exec_wf: "runtime_wf s \<Longrightarrow> runtime_wf (runtime_exec sha c s)"
  using admit_progress [of s sha] dispatch_progress [of s] registry_exec_wf [of "rt_registry s"]
  by (cases c) (auto simp: runtime_wf_def)

interpretation runtime: component "runtime_exec sha" runtime_wf for sha
  by unfold_locales (rule runtime_exec_wf)

lemma accounted_run:
  "runtime_wf s \<Longrightarrow> accounted_for (fold (runtime_exec sha) cs s) = accounted_for s + receipts sha cs s"
proof (induction cs arbitrary: s)
  case (Cons c cs)
  have "accounted_for (runtime_exec sha c s) = accounted_for s + (case c of
       Admit uuid_hex now_iso raw a loc \<Rightarrow> if isl (fst (admit sha uuid_hex now_iso s raw a loc)) then 0 else 1
     | _ \<Rightarrow> 0)"
    using admit_progress [OF Cons.prems, of sha] dispatch_progress [OF Cons.prems]
    by (cases c) (simp_all add: accounted_for_def)
  then show ?case
    using Cons runtime_exec_wf [OF Cons.prems, of sha c] by simp
qed simp

lemma new_runtime_wf:
  assumes "new_runtime reg empty_telemetry empty_dlq n w = Inr s" "registry_wf reg"
  shows "runtime_wf s" "accounted_for s = 0" "rt_telemetry s = empty_telemetry" "contents (rt_queue s) = []"
proof -
  obtain q d where q: "new_queue n = Inr q" and d: "new_window w = Inr d"
    and s: "s = \<lparr>rt_registry = reg, rt_telemetry = empty_telemetry, rt_dlq = empty_dlq, rt_queue = q, rt_dedupe = d\<rparr>"
    using assms(1) by (auto simp: new_runtime_def)
  have "queue_wf q" "contents q = []" "window_wf d"
    using q d by (auto simp: new_queue_def new_window_def queue_wf_def window_wf_def contents_def
        split: pyval.splits if_splits)
  moreover have "tel.total empty_telemetry = 0"
    by (simp add: tel.total_def counter_value_def empty_telemetry_def open_store_def insert_or_ignore_def
        COUNTER_NAMES_def)
  ultimately show "runtime_wf s" "accounted_for s = 0" "rt_telemetry s = empty_telemetry" "contents (rt_queue s) = []"
    using assms(2) telemetry_wf_empty dlq_wf_empty by (auto simp: s runtime_wf_def accounted_for_def)
qed

section \<open>A small runtime\<close>

definition sample_runtime :: runtime where
  "sample_runtime = projr (new_runtime sample_registry empty_telemetry empty_dlq (PInt 2) (PInt 500))"

lemma sample_runtime_new: "new_runtime sample_registry empty_telemetry empty_dlq (PInt 2) (PInt 500) = Inr sample_runtime"
  by (simp add: sample_runtime_def new_runtime_def new_queue_def new_window_def)

lemma sample_runtime_wf: "runtime_wf sample_runtime"
  by (rule new_runtime_wf [OF sample_runtime_new sample_registry_wf])

definition sample_full :: runtime where
  "sample_full = fold (\<lambda>e s. snd (admit_envelope s e (PInt 6))) [sample_env ''a'' 2 [], sample_env ''b'' 2 []] sample_runtime"

lemma sample_message_wf: "\<not> blank mid \<Longrightarrow> p \<in> {0..3} \<Longrightarrow> env_wf (sample_env mid p [])"
  using sample_env_wf by (simp add: env_wf_def sample_env_def priority_defs)

lemma receipt_exists: "map_sum (\<lambda>_. ()) rc_state (fst x) = Inr st \<Longrightarrow> \<exists>r s'. x = (Inr r, s') \<and> rc_state r = st"
  by (cases x; cases "fst x") auto

lemma sample_full_wf: "runtime_wf sample_full" "env_wf (sample_env ''c'' 2 [])"
proof -
  have "\<not> blank ''a''" "\<not> blank ''b''" "\<not> blank ''c''"
    by code_simp+
  then have e: "env_wf (sample_env ''a'' 2 [])" "env_wf (sample_env ''b'' 2 [])" "env_wf (sample_env ''c'' 2 [])"
    by (simp_all add: sample_message_wf)
  show "env_wf (sample_env ''c'' 2 [])" by (rule e(3))
  show "runtime_wf sample_full"
    using admit_envelope_progress sample_runtime_wf e by (simp add: sample_full_def)
qed

definition unknown_raw :: pymap where
  "unknown_raw = [(''schema_version'', PInt 1), (''sender'', PStr ''b''), (''domain'', PStr ''nowhere''),
     (''intent'', PStr ''event''), (''payload'', PNone)]"

section \<open>Properties\<close>

text \<open>
  C1: no message is lost or counted twice. From a new runtime, after any interleaving of
  admissions (valid, malformed, duplicate, urgent, over a full queue), dispatches and registry
  changes, the counters \<open>routed + dropped + dlq\<close> plus the queue length equal the number of
  admissions that returned a receipt. An admission that raised moved none of them.
\<close>

theorem admissions_accounted:
  assumes "new_runtime reg empty_telemetry empty_dlq n w = Inr s0" and "registry_wf reg"
  shows "let s = fold (runtime_exec sha) calls s0 in
    counter_value (rt_telemetry s) ''routed'' + counter_value (rt_telemetry s) ''dropped'' +
    counter_value (rt_telemetry s) ''dlq'' + int (length (contents (rt_queue s))) = receipts sha calls s0"
  using accounted_run [OF new_runtime_wf(1) [OF assms], of sha calls] new_runtime_wf(2) [OF assms]
  by (simp add: Let_def accounted_for_def tel.total_def COUNTER_NAMES_def)

theorem admissions_accounted_witness:
  "let s = fold (runtime_exec (\<lambda>b. b)) [Admit ''ab'' ''t'' [] (PInt 1) PNone] sample_runtime in
    counter_value (rt_telemetry s) ''routed'' + counter_value (rt_telemetry s) ''dropped'' +
    counter_value (rt_telemetry s) ''dlq'' + int (length (contents (rt_queue s))) =
    receipts (\<lambda>b. b) [Admit ''ab'' ''t'' [] (PInt 1) PNone] sample_runtime"
  by (rule admissions_accounted [OF sample_runtime_new sample_registry_wf])

text \<open>
  Dispatch is orderly and total: under the invariant it never fails on a nonempty queue. It
  takes the head of the queue, delivers to exactly the live, subscribed nodes the envelope
  reaches at that moment, reports those recipients, and counts one routed or one dropped; an
  empty queue is an \<open>IndexError\<close> that changes nothing.
\<close>

theorem dispatch_in_order:
  assumes "runtime_wf s" and "0 \<le> now"
  shows "(case contents (rt_queue s) of
      [] \<Rightarrow> dispatch_next s (PInt now) = (Inl (IndexError ''RADAR_QUEUE_EMPTY''), s)
    | e # es \<Rightarrow> (\<exists>rs s'. dispatch_next s (PInt now) = (Inr (dispatch_receipt e rs), s') \<and>
        distinct rs \<and> (\<forall>k. k \<in> set rs \<longleftrightarrow> reached_by (rt_registry s) e now k) \<and>
        contents (rt_queue s') = es \<and> rt_dedupe s' = rt_dedupe s \<and> rt_registry s' = rt_registry s \<and>
        (let name = if rs = [] then ''dropped'' else ''routed'' in
         counter_value (rt_telemetry s') = (counter_value (rt_telemetry s))(name := counter_value (rt_telemetry s) name + 1))))"
proof (cases "contents (rt_queue s)")
  case Nil
  then show ?thesis
    using dispatch_empty [OF assms(2)] by simp
next
  case (Cons e es)
  obtain q where pop: "pop (rt_queue s) = (Inr e, q)" "contents q = es"
    using pop_head [OF runtime_wfD(4) [OF assms(1)] Cons] by blast
  have "env_wf e"
    using runtime_wfD(6) [OF assms(1)] Cons by simp
  from dispatch_head [OF pop(1) this assms(2) runtime_wfD(1,2) [OF assms(1)]]
  obtain rs t where "dispatch_next s (PInt now) = (Inr (dispatch_receipt e rs), s\<lparr>rt_queue := q, rt_telemetry := t\<rparr>)"
    "distinct rs" "\<forall>k. k \<in> set rs \<longleftrightarrow> reached_by (rt_registry s) e now k"
    "counter_value t = (counter_value (rt_telemetry s))
       ((if rs = [] then ''dropped'' else ''routed'') :=
         counter_value (rt_telemetry s) (if rs = [] then ''dropped'' else ''routed'') + 1)"
    by metis
  then show ?thesis
    using Cons pop(2) by (auto simp: Let_def)
qed

theorem dispatch_in_order_witness:
  "dispatch_next sample_runtime (PInt 6) = (Inl (IndexError ''RADAR_QUEUE_EMPTY''), sample_runtime)"
  using dispatch_in_order [OF sample_runtime_wf, of 6] new_runtime_wf(4) [OF sample_runtime_new sample_registry_wf]
  by simp

text \<open>
  C4: an urgent message (priority 0) is never queued, refused or delayed: unless it is suppressed
  as a duplicate, the admitting call itself dispatches it, with the recipients it reaches at that
  moment, ahead of everything queued. At most the newest entry of the lowest priority is
  displaced for it, and then the receipt names it.
\<close>

theorem urgent_dispatched_on_admission:
  assumes "runtime_wf s" and "header_ok raw" "taxonomy_ok raw" "fields_ok raw"
    and "priority (built_envelope sha uuid_hex now_iso raw) = 0"
    and "admit sha uuid_hex now_iso s raw a loc = (Inr r, s')" and "rc_state r \<noteq> ''DROPPED_DUPLICATE''"
  shows "\<exists>now rs displaced. a = PInt now \<and>
    r = (dispatch_receipt (built_envelope sha uuid_hex now_iso raw) rs)\<lparr>rc_evicted := map_option message_id displaced\<rparr> \<and>
    distinct rs \<and>
    (\<forall>k. k \<in> set rs \<longleftrightarrow> reached_by (rt_registry s) (built_envelope sha uuid_hex now_iso raw) now k) \<and>
    (displaced = None \<and> contents (rt_queue s') = contents (rt_queue s) \<or>
     contents (rt_queue s) \<noteq> [] \<and> displaced = Some (last (contents (rt_queue s))) \<and>
     contents (rt_queue s') = butlast (contents (rt_queue s)))"
proof -
  let ?e = "built_envelope sha uuid_hex now_iso raw"
  have e: "env_wf ?e" "admit_envelope s ?e a = (Inr r, s')"
    using assms(2-6) built_envelope_wf [OF assms(2-4)] from_mapping_accepts [OF assms(2-4), of sha uuid_hex now_iso]
    by (simp_all add: admit_def split: if_splits)
  show ?thesis
    using assms(1) e(1)
  proof (cases rule: admit_envelope_cases [of s ?e a])
    case (urgent now q w t rs evicted)
    then show ?thesis
      using e(2) by (intro exI [of _ now] exI [of _ rs] exI [of _ evicted]) auto
  next
    case (duplicate t now)
    then show ?thesis
      using e(2) assms(7) by (auto simp: receipt_of_def)
  qed (use e(2) assms(5) in simp_all)
qed

definition urgent_raw :: pymap where
  "urgent_raw = [(''schema_version'', PInt 1), (''sender'', PStr ''b''), (''domain'', PStr ''ui''),
     (''intent'', PStr ''event''), (''priority'', PInt 0), (''payload'', PNone)]"

lemma urgent_raw_ok: "header_ok urgent_raw" "taxonomy_ok urgent_raw" "fields_ok urgent_raw"
  "priority (built_envelope (\<lambda>b. b) ''ab'' ''t'' urgent_raw) = 0"
  by code_simp+

theorem urgent_dispatched_on_admission_witness:
  "contents (rt_queue (snd (admit (\<lambda>b. b) ''ab'' ''t'' sample_runtime urgent_raw (PInt 6) PNone))) = []"
proof -
  let ?e = "built_envelope (\<lambda>b. b) ''ab'' ''t'' urgent_raw"
  let ?res = "admit (\<lambda>b. b) ''ab'' ''t'' sample_runtime urgent_raw (PInt 6) PNone"
  have adm: "?res = admit_envelope sample_runtime ?e (PInt 6)"
    using from_mapping_accepts [OF urgent_raw_ok(1-3), of "\<lambda>b. b" "''ab''" "''t''"] by (simp add: admit_def)
  have key: "idempotency_key ?e \<noteq> []"
    by code_simp
  have empty: "seen (rt_dedupe sample_runtime) = []" "last_now_ms (rt_dedupe sample_runtime) = None"
    by (simp_all add: sample_runtime_def new_runtime_def new_queue_def new_window_def)
  then have acc: "fst (accept (rt_dedupe sample_runtime) (idempotency_key ?e) (PInt 6)) = Inr True"
    using key by (simp add: accept_def)
  have "env_wf ?e"
    by (rule built_envelope_wf [OF urgent_raw_ok(1-3)])
  with sample_runtime_wf have "\<exists>r. fst ?res = Inr r \<and> rc_state r \<noteq> ''DROPPED_DUPLICATE''"
  proof (cases rule: admit_envelope_cases [of sample_runtime ?e "PInt 6"])
  qed (use acc urgent_raw_ok(4) in \<open>auto simp: adm dispatch_receipt_def receipt_of_def\<close>)
  then obtain r where r: "?res = (Inr r, snd ?res)" "rc_state r \<noteq> ''DROPPED_DUPLICATE''"
    by (cases ?res) auto
  from urgent_dispatched_on_admission [OF sample_runtime_wf urgent_raw_ok r] show ?thesis
    using new_runtime_wf(4) [OF sample_runtime_new sample_registry_wf] by auto
qed

text \<open>An acceptance keeps suppressing its key whatever the runtime does next.\<close>

lemma accepted_suppresses:
  assumes "window_wf d" "accept d key a = (Inr True, d1)" "a = PInt t"
  shows "suppresses key t d1"
  using assms accepted_wf(3) [OF assms(1) _ refl, of t key key]
  by (cases rule: accept_cases [of d key a]) (auto simp: suppresses_def)

lemma not_suppressed:
  assumes "suppresses key t d" "fst (accept d key (PInt u)) = Inr True"
  shows "window_ms d < u - t"
  using assms by (cases rule: accept_cases [of d key "PInt u"]) (auto simp: suppresses_def)

lemma suppresses_admit:
  assumes wf: "runtime_wf s" and e: "env_wf e" and sup: "suppresses key t (rt_dedupe s)"
  shows "suppresses key t (rt_dedupe (snd (admit_envelope s e a)))"
proof -
  have step: "suppresses key t (snd (accept (rt_dedupe s) (idempotency_key e) a))"
    using suppresses_exec [OF runtime_wfD(5) [OF wf] sup, of "Accept (idempotency_key e) a"] by simp
  show ?thesis
    using wf e
  proof (cases rule: admit_envelope_cases [of s e a])
    case (refused t' q w now)
    show ?thesis
    proof (cases "idempotency_key e = key")
      case True
      then have "window_ms (rt_dedupe s) < now - t"
        using not_suppressed [OF sup] refused(11,16) by simp
      moreover have "window_ms w = window_ms (rt_dedupe s)"
        unfolding refused(15) by (rule window_ms_run)
      ultimately show ?thesis
        unfolding refused(3) using refused(14) by (simp add: suppresses_def)
    next
      case False
      then have "suppresses key t w"
        unfolding refused(15) by (intro suppresses_run runtime_wfD(5) [OF wf] sup) auto
      then show ?thesis
        using refused(3) by simp
    qed
  qed (use sup step in simp_all)
qed

lemma window_ms_admit:
  assumes wf: "runtime_wf s" and e: "env_wf e"
  shows "window_ms (rt_dedupe (snd (admit_envelope s e a))) = window_ms (rt_dedupe s)"
proof -
  have step: "window_ms (snd (accept (rt_dedupe s) (idempotency_key e) a)) = window_ms (rt_dedupe s)"
    using window_ms_exec [of "Accept (idempotency_key e) a" "rt_dedupe s"] by simp
  show ?thesis
    using wf e
  proof (cases rule: admit_envelope_cases [of s e a])
    case (refused t' q w now)
    have "window_ms w = window_ms (rt_dedupe s)"
      unfolding refused(15) by (rule window_ms_run)
    then show ?thesis
      using refused(3) by simp
  qed (use step in simp_all)
qed

lemma dispatch_keeps_window [simp]: "rt_dedupe (snd (dispatch_next s a)) = rt_dedupe s"
  by (auto simp: dispatch_next_def count_then_def Let_def split: pyval.split sum.split prod.split)

lemma admit_keeps_window:
  assumes wf: "runtime_wf s"
  obtains "rt_dedupe (snd (admit sha uuid_hex now_iso s raw a loc)) = rt_dedupe s"
  | e where "env_wf e" "admit sha uuid_hex now_iso s raw a loc = admit_envelope s e a"
  using wf
proof (cases rule: admit_cases [of s raw sha uuid_hex now_iso a loc])
  case (dead errs)
  show ?thesis
    using wf dead(3,4) raw_message_id_text [of sha raw]
    by (cases rule: admit_dlq_cases [of s errs "raw_message_id sha raw" loc raw]) (simp_all add: that(1) dead(5))
next
  case envelope
  then show ?thesis
    using that(2) by blast
qed (simp add: that(1))

lemma suppresses_runtime_exec:
  assumes wf: "runtime_wf s" and sup: "suppresses key t (rt_dedupe s)"
  shows "suppresses key t (rt_dedupe (runtime_exec sha c s))"
proof (cases c)
  case (Admit uuid_hex now_iso raw a loc)
  show ?thesis
    using wf
  proof (cases rule: admit_keeps_window [of s sha uuid_hex now_iso raw a loc])
    case (2 e)
    then show ?thesis
      using suppresses_admit [OF wf 2(1) sup] Admit by simp
  qed (simp add: Admit sup)
qed (use sup in simp_all)

lemma window_ms_runtime_exec:
  assumes wf: "runtime_wf s"
  shows "window_ms (rt_dedupe (runtime_exec sha c s)) = window_ms (rt_dedupe s)"
proof (cases c)
  case (Admit uuid_hex now_iso raw a loc)
  show ?thesis
    using wf
  proof (cases rule: admit_keeps_window [of s sha uuid_hex now_iso raw a loc])
    case (2 e)
    then show ?thesis
      using window_ms_admit [OF wf 2(1)] Admit by simp
  qed (simp add: Admit)
qed simp_all

text \<open>
  C3: duplicates are suppressed across the whole pipeline: once a message is admitted (queued or
  dispatched) at \<open>t\<close>, whatever admissions, dispatches and registry changes follow, a message with the
  same idempotency key that is admitted no later than the window after \<open>t\<close> is dropped as a
  duplicate and leaves the queue alone.
\<close>

theorem duplicate_admission_dropped:
  assumes "runtime_wf s" and "env_wf e" and "env_wf e'" and "idempotency_key e' = idempotency_key e"
    and "admit_envelope s e (PInt t) = (Inr r, s1)" and "rc_state r \<notin> {''DROPPED_DUPLICATE'', ''DROPPED_QUEUE_FULL''}"
    and "admit_envelope (fold (runtime_exec sha) calls s1) e' (PInt u) = (Inr r', s2)"
    and "u - t \<le> window_ms (rt_dedupe s)"
  shows "r' = receipt_of ''DROPPED_DUPLICATE'' (message_id e') \<and>
    rt_queue s2 = rt_queue (fold (runtime_exec sha) calls s1)"
proof -
  let ?s = "fold (runtime_exec sha) calls s1"
  have wf1: "runtime_wf s1"
    using admit_envelope_progress [OF assms(1,2), of "PInt t"] assms(5) by simp
  have "accept (rt_dedupe s) (idempotency_key e) (PInt t) = (Inr True, rt_dedupe s1)"
    using assms(1,2)
  proof (cases rule: admit_envelope_cases [of s e "PInt t"])
  qed (use assms(5,6) in \<open>auto simp: receipt_of_def\<close>)
  then have sup: "suppresses (idempotency_key e) t (rt_dedupe s1)"
    and w1: "window_ms (rt_dedupe s1) = window_ms (rt_dedupe s)"
    using accepted_suppresses [OF runtime_wfD(5) [OF assms(1)] _ refl]
      window_ms_exec [of "Accept (idempotency_key e) (PInt t)" "rt_dedupe s"] by simp_all
  have run: "runtime_wf ?s \<and> suppresses (idempotency_key e) t (rt_dedupe ?s) \<and>
      window_ms (rt_dedupe ?s) = window_ms (rt_dedupe s1)"
    using wf1 sup
    by (induction calls arbitrary: s1)
      (simp_all add: runtime_exec_wf suppresses_runtime_exec window_ms_runtime_exec)
  have "fst (accept (rt_dedupe ?s) (idempotency_key e') (PInt u)) \<noteq> Inr True"
    using not_suppressed [of "idempotency_key e" t "rt_dedupe ?s" u] run w1 assms(4,8) by auto
  note new = this
  show ?thesis
    using conjunct1 [OF run] assms(3)
    by (cases rule: admit_envelope_cases [of ?s e' "PInt u"]) (use assms(7) new in auto)
qed

theorem duplicate_admission_dropped_witness:
  "\<exists>s2. admit_envelope (snd (admit_envelope sample_runtime (sample_env ''m'' 2 [''x'', ''zz'']) (PInt 6)))
      (sample_env ''m'' 2 [''x'', ''zz'']) (PInt 506) = (Inr (receipt_of ''DROPPED_DUPLICATE'' ''m''), s2)"
proof -
  let ?e = "sample_env ''m'' 2 [''x'', ''zz'']"
  obtain r s1 where first: "admit_envelope sample_runtime ?e (PInt 6) = (Inr r, s1)" "rc_state r = ''QUEUED''"
  proof -
    have "map_sum (\<lambda>_. ()) rc_state (fst (admit_envelope sample_runtime ?e (PInt 6))) = Inr ''QUEUED''"
      by code_simp
    from receipt_exists [OF this] that show thesis by blast
  qed
  have "map_sum (\<lambda>_. ()) rc_state (fst (admit_envelope (snd (admit_envelope sample_runtime ?e (PInt 6))) ?e (PInt 506))) =
      Inr ''DROPPED_DUPLICATE''"
    by code_simp
  from receipt_exists [OF this] obtain r' s2 where second: "admit_envelope s1 ?e (PInt 506) = (Inr r', s2)"
    unfolding first(1) by auto
  have "window_ms (rt_dedupe sample_runtime) = 500"
    by code_simp
  moreover have "message_id ?e = ''m''"
    by (simp add: sample_env_def)
  ultimately show ?thesis
    using duplicate_admission_dropped [OF sample_runtime_wf sample_env_wf sample_env_wf refl first(1), of id "[]" 506 r' s2]
      first second by simp
qed

text \<open>
  A full queue does not poison the duplicate window: a message dropped because the queue was
  full leaves the queue as it was and its acceptance is undone, so the same payload is accepted
  again, at any later time (the clock itself does not go back), without waiting for the window.
\<close>

theorem queue_full_drop_can_be_retried:
  assumes "runtime_wf s" and "env_wf e" and "admit_envelope s e (PInt t) = (Inr r, s1)"
    and "rc_state r = ''DROPPED_QUEUE_FULL''" and "t \<le> u"
  shows "contents (rt_queue s1) = contents (rt_queue s) \<and> priority e \<noteq> 0 \<and>
    fst (accept (rt_dedupe s1) (idempotency_key e) (PInt u)) = Inr True"
  using assms(1,2)
proof (cases rule: admit_envelope_cases [of s e "PInt t"])
  case (refused t' q w)
  then show ?thesis
    using assms(3,5) by (auto simp: accept_def)
next
  case (urgent now q w t' rs evicted)
  then show ?thesis
    using assms(3,4) by (auto simp: dispatch_receipt_def receipt_of_def split: if_splits)
qed (use assms(3,4) in \<open>auto simp: receipt_of_def\<close>)

theorem queue_full_drop_can_be_retried_witness:
  "fst (accept (rt_dedupe (snd (admit_envelope sample_full (sample_env ''c'' 2 []) (PInt 7)))) ''c'' (PInt 8)) = Inr True"
proof -
  have "map_sum (\<lambda>_. ()) rc_state (fst (admit_envelope sample_full (sample_env ''c'' 2 []) (PInt 7))) =
      Inr ''DROPPED_QUEUE_FULL''"
    by code_simp
  from receipt_exists [OF this] obtain r s1 where
      "admit_envelope sample_full (sample_env ''c'' 2 []) (PInt 7) = (Inr r, s1)" "rc_state r = ''DROPPED_QUEUE_FULL''"
    by blast
  moreover have "idempotency_key (sample_env ''c'' 2 []) = ''c''"
    by (simp add: sample_env_def)
  ultimately show ?thesis
    using queue_full_drop_can_be_retried [OF sample_full_wf, of 7 r s1 8] by simp
qed

text \<open>
  Malformed messages only leave evidence: a message the classifier does not accept changes
  neither the queue nor the duplicate window nor the registry. One with an unknown domain or
  intent is stored as a dead letter that reads back its trimmed message id and the failing
  fields; any other is counted as dropped and stores nothing.
\<close>

theorem malformed_only_leaves_evidence:
  assumes "runtime_wf s" and "\<not> (header_ok raw \<and> taxonomy_ok raw \<and> fields_ok raw)"
    and "admit sha uuid_hex now_iso s raw a loc = (Inr r, s')"
  shows "rt_queue s' = rt_queue s \<and> rt_dedupe s' = rt_dedupe s \<and> rt_registry s' = rt_registry s \<and>
    rc_message_id r = raw_message_id sha raw \<and> rc_errors r \<noteq> [] \<and>
    (if header_ok raw \<and> \<not> taxonomy_ok raw
     then rc_state r = ''DLQ'' \<and> (\<exists>i letter. rc_dlq_item r = Some i \<and>
       dead_letters (rt_dlq s') = dead_letters (rt_dlq s) @ [letter] \<and> inspect (rt_dlq s') i = Inr letter \<and>
       dl_message_id letter = strip (raw_message_id sha raw) \<and> diagnostic letter = strip (join '','' (rc_errors r)) \<and>
       set (rc_errors r) \<subseteq> {''domain'', ''intent''})
     else rc_state r = ''REJECTED'' \<and> rt_dlq s' = rt_dlq s)"
  using assms(1)
proof (cases rule: admit_cases [of s raw sha uuid_hex now_iso a loc])
  case (dead errs)
  show ?thesis
    using assms(1) dead(3,4) raw_message_id_text [of sha raw]
  proof (cases rule: admit_dlq_cases [of s errs "raw_message_id sha raw" loc raw])
    case (stored i d t)
    let ?l = "new_letter i (PStr (raw_message_id sha raw)) (PStr ''ADMISSION'') (PStr ''UNKNOWN_TAXONOMY'')
      (safe_dlq_envelope raw) (PStr (join '','' errs)) (PStr ''TAXONOMY'') loc"
    have "find_item d i = Some ?l"
      using stored(3,4) by (simp add: find_item_wf) (simp add: new_letter_def)
    then show ?thesis
      using stored dead assms(3) by (auto simp: receipt_of_def inspect_def) (auto simp: new_letter_def text_of_def)
  next
    case (bad_locator code)
    then show ?thesis
      using dead(5) assms(3) by simp
  qed
next
  case (rejected errs t)
  then show ?thesis
    using assms(3) by (auto simp: receipt_of_def)
qed (use assms(2) in simp)

theorem malformed_only_leaves_evidence_witness:
  "\<exists>r s' letter. admit (\<lambda>b. b) ''ab'' ''t'' sample_runtime unknown_raw (PInt 6) PNone = (Inr r, s') \<and>
     rc_state r = ''DLQ'' \<and> dead_letters (rt_dlq s') = dead_letters (rt_dlq sample_runtime) @ [letter]"
proof -
  have raw: "header_ok unknown_raw" "\<not> taxonomy_ok unknown_raw"
    by code_simp+
  have "\<exists>r s'. admit (\<lambda>b. b) ''ab'' ''t'' sample_runtime unknown_raw (PInt 6) PNone = (Inr r, s')"
    using sample_runtime_wf
  proof (cases rule: admit_cases [of sample_runtime unknown_raw "\<lambda>b. b" "''ab''" "''t''" "PInt 6" PNone])
    case (dead errs)
    show ?thesis
      using sample_runtime_wf dead(3,4) raw_message_id_text [of "\<lambda>b. b" unknown_raw] unfolding dead(5)
      by (cases rule: admit_dlq_cases [of sample_runtime errs "raw_message_id (\<lambda>b. b) unknown_raw" PNone unknown_raw]) auto
  qed (use raw in simp_all)
  then obtain r s' where "admit (\<lambda>b. b) ''ab'' ''t'' sample_runtime unknown_raw (PInt 6) PNone = (Inr r, s')"
    by blast
  then show ?thesis
    using malformed_only_leaves_evidence [OF sample_runtime_wf, of unknown_raw "\<lambda>b. b" "''ab''" "''t''" "PInt 6" PNone r s']
      raw by auto
qed

end
