(* ===== verification/Journal.thy ===== *)
theory Journal
  imports Json
begin

text \<open>
  The projection journal (\<open>src/src/radar/reconciliation_journal.py\<close>): lanes with a cursor, control
  cuts, claimed batches and the files of each batch. Every exception is raised before the first
  write, so a call returns its result with the new state or an exception and the old one; the
  lock makes each method one transition.
\<close>

declare split_paired_All [simp del] split_paired_Ex [simp del]

section \<open>Data\<close>

datatype batch_file_state = PENDING | PROJECTED | IDEMPOTENT | FAILED | CONFLICT

definition TERMINAL_SUCCESS :: "batch_file_state list" where
  "TERMINAL_SUCCESS = [PROJECTED, IDEMPOTENT]"

record batch_claim =
  batch_id :: string
  claim_token :: string
  claim_identity :: string
  claim_branch :: string
  expected_projected_head :: "string option"
  target_head :: string
  control_sha :: string
  topology_sha :: string
  claim_owner :: string
  lease_expires_ms :: int

record lane_state =
  lane_identity :: string
  lane_branch :: string
  projected_head_sha :: "string option"

record batch_record =
  batch_claim_of :: batch_claim
  batch_files :: "(string, batch_file_state) dict"
  batch_complete :: bool
  finalized_state :: "lane_state option"

type_synonym lane_key = "string \<times> string"

text \<open>
  \<open>drawn\<close> counts the identifiers taken from the random source, which is a parameter
  \<open>uuid :: nat \<Rightarrow> string\<close> of the operations.
\<close>

record journal =
  lanes :: "(lane_key, lane_state) dict"
  control_cuts :: "(lane_key, string \<times> string) dict"
  batches :: "(string, batch_record) dict"
  active_batch :: "(lane_key, string) dict"
  drawn :: nat

definition empty_journal :: journal where
  "empty_journal = \<lparr>lanes = [], control_cuts = [], batches = [], active_batch = [], drawn = 0\<rparr>"

section \<open>Argument checks\<close>

definition journal_text :: "pyval \<Rightarrow> string \<Rightarrow> exn + string" where
  "journal_text v code = (if is_text v then Inr (strip (text_of v)) else Inl (JournalError code))"

definition journal_time :: "pyval \<Rightarrow> string \<Rightarrow> exn + int" where
  "journal_time v code = (case v of
      PInt n \<Rightarrow> if n < 0 then Inl (JournalError code) else Inr n
    | _ \<Rightarrow> Inl (JournalError code))"

definition journal_head :: "pyval \<Rightarrow> exn + string option" where
  "journal_head v = (if v = PNone then Inr None
     else bindE (journal_text v ''INVALID_PROJECTED_HEAD'') (\<lambda>h. Inr (Some h)))"

definition journal_files :: "pyval \<Rightarrow> exn + string list" where
  "journal_files v = (case v of
      PTuple vs \<Rightarrow>
        requireE (\<forall>p \<in> set vs. case p of PStr s \<Rightarrow> s \<noteq> [] | _ \<Rightarrow> False) (JournalError ''INVALID_BATCH_FILES'')
          (requireE (distinct (map text_of vs)) (JournalError ''DUPLICATE_BATCH_FILE'')
            (Inr (map text_of vs)))
    | _ \<Rightarrow> Inl (JournalError ''INVALID_BATCH_FILES''))"

section \<open>Operations\<close>

definition seed_lane_state :: "journal \<Rightarrow> pyval \<Rightarrow> pyval \<Rightarrow> pyval \<Rightarrow> exn + unit \<times> journal" where
  "seed_lane_state s identity_arg branch_arg head_arg =
    bindE (journal_text identity_arg ''INVALID_IDENTITY'') (\<lambda>identity.
    bindE (journal_text branch_arg ''INVALID_BRANCH'') (\<lambda>branch.
    bindE (journal_head head_arg) (\<lambda>head.
    requireE (case dict_get (lanes s) (identity, branch) of
        None \<Rightarrow> True | Some existing \<Rightarrow> projected_head_sha existing = head) (JournalError ''LANE_STATE_ALREADY_SEEDED'')
      (Inr ((), s\<lparr>lanes := dict_set (lanes s) (identity, branch)
          \<lparr>lane_identity = identity, lane_branch = branch, projected_head_sha = head\<rparr>\<rparr>)))))"

definition projected_head :: "journal \<Rightarrow> string \<Rightarrow> string \<Rightarrow> string option" where
  "projected_head s identity branch =
    (case dict_get (lanes s) (identity, branch) of None \<Rightarrow> None | Some st \<Rightarrow> projected_head_sha st)"

definition set_control_cut :: "journal \<Rightarrow> pyval \<Rightarrow> pyval \<Rightarrow> pyval \<Rightarrow> pyval \<Rightarrow> exn + unit \<times> journal" where
  "set_control_cut s identity_arg branch_arg control_arg topology_arg =
    bindE (journal_text identity_arg ''INVALID_IDENTITY'') (\<lambda>identity.
    bindE (journal_text branch_arg ''INVALID_BRANCH'') (\<lambda>branch.
    bindE (journal_text control_arg ''INVALID_CONTROL_SHA'') (\<lambda>control.
    bindE (journal_text topology_arg ''INVALID_TOPOLOGY_SHA'') (\<lambda>topology.
    requireE (dict_has (lanes s) (identity, branch)) (JournalError ''LANE_UNSEEDED'')
      (Inr ((), s\<lparr>control_cuts := dict_set (control_cuts s) (identity, branch) (control, topology)\<rparr>))))))"

record claim_request =
  req_identity :: pyval
  req_branch :: pyval
  req_expected :: pyval
  req_target :: pyval
  req_control :: pyval
  req_topology :: pyval
  req_files :: pyval
  req_owner :: pyval
  req_now :: pyval
  req_lease :: pyval

text \<open>The checks on the arguments, in their order; the result is the claim without its identifiers.\<close>

definition checked_request :: "claim_request \<Rightarrow> exn + batch_claim \<times> int \<times> string list" where
  "checked_request r =
    bindE (journal_text (req_identity r) ''INVALID_IDENTITY'') (\<lambda>identity.
    bindE (journal_text (req_branch r) ''INVALID_BRANCH'') (\<lambda>branch.
    bindE (journal_text (req_target r) ''INVALID_TARGET_HEAD'') (\<lambda>target.
    bindE (journal_text (req_control r) ''INVALID_CONTROL_SHA'') (\<lambda>control.
    bindE (journal_text (req_topology r) ''INVALID_TOPOLOGY_SHA'') (\<lambda>topology.
    bindE (journal_text (req_owner r) ''INVALID_CLAIM_OWNER'') (\<lambda>owner.
    bindE (journal_time (req_now r) ''INVALID_CLAIM_TIME'') (\<lambda>now.
    bindE (journal_time (req_lease r) ''INVALID_CLAIM_LEASE'') (\<lambda>lease.
    requireE (0 < lease) (JournalError ''INVALID_CLAIM_LEASE'')
    (bindE (journal_head (req_expected r)) (\<lambda>expected.
     bindE (journal_files (req_files r)) (\<lambda>files.
     Inr (\<lparr>batch_id = [], claim_token = [], claim_identity = identity, claim_branch = branch,
            expected_projected_head = expected, target_head = target, control_sha = control,
            topology_sha = topology, claim_owner = owner, lease_expires_ms = now + lease\<rparr>,
          now, files))))))))))))"

definition lane_of :: "batch_claim \<Rightarrow> lane_key" where
  "lane_of c = (claim_identity c, claim_branch c)"

text \<open>A lane is busy while its active batch is incomplete and inside its lease.\<close>

definition lane_busy :: "journal \<Rightarrow> lane_key \<Rightarrow> int \<Rightarrow> bool" where
  "lane_busy s key now = (case dict_get (active_batch s) key of
      None \<Rightarrow> False
    | Some previous \<Rightarrow> (case dict_get (batches s) previous of
        None \<Rightarrow> False
      | Some r \<Rightarrow> \<not> batch_complete r \<and> now < lease_expires_ms (batch_claim_of r)))"

definition claim_batch :: "(nat \<Rightarrow> string) \<Rightarrow> journal \<Rightarrow> claim_request \<Rightarrow> exn + batch_claim \<times> journal" where
  "claim_batch uuid s r =
    bindE (checked_request r) (\<lambda>(c, now, files).
    let key = lane_of c in
    requireE (dict_has (lanes s) key) (JournalError ''LANE_UNSEEDED'')
    (requireE (projected_head_sha (the (dict_get (lanes s) key)) = expected_projected_head c)
      (JournalError ''PROJECTED_BASE_CHANGED'')
    (requireE (dict_get (control_cuts s) key = Some (control_sha c, topology_sha c))
      (JournalError ''CONTROL_CUT_CHANGED'')
    (requireE (case dict_get (active_batch s) key of None \<Rightarrow> True | Some previous \<Rightarrow> dict_has (batches s) previous)
      (KeyError ''batches'')
    (requireE (\<not> lane_busy s key now) (JournalError ''CLAIM_BUSY'')
    (let claim = c\<lparr>batch_id := uuid (drawn s), claim_token := uuid (Suc (drawn s))\<rparr>;
         entry = \<lparr>batch_claim_of = claim, batch_files = map (\<lambda>p. (p, PENDING)) files,
                  batch_complete = False, finalized_state = None\<rparr> in
     Inr (claim, s\<lparr>batches := dict_set (batches s) (batch_id claim) entry,
                   active_batch := dict_set (active_batch s) key (batch_id claim),
                   drawn := drawn s + 2\<rparr>)))))))"

definition record_for_current_claim :: "journal \<Rightarrow> batch_claim \<Rightarrow> exn + batch_record" where
  "record_for_current_claim s c = (case dict_get (batches s) (batch_id c) of
      None \<Rightarrow> Inl (JournalError ''STALE_CLAIM'')
    | Some r \<Rightarrow>
        requireE (claim_token (batch_claim_of r) = claim_token c) (JournalError ''STALE_CLAIM'')
        (requireE (dict_get (active_batch s) (lane_of c) = Some (batch_id c) \<or> batch_complete r)
          (JournalError ''STALE_CLAIM'') (Inr r)))"

text \<open>\<open>None\<close> stands for a value that is no \<open>BatchFileState\<close>.\<close>

definition record_file_result ::
  "journal \<Rightarrow> batch_claim \<Rightarrow> string \<Rightarrow> batch_file_state option \<Rightarrow> exn + unit \<times> journal" where
  "record_file_result s c path state_arg = (case state_arg of
      None \<Rightarrow> Inl (JournalError ''INVALID_BATCH_FILE_STATE'')
    | Some state \<Rightarrow>
        requireE (state \<noteq> PENDING) (JournalError ''INVALID_BATCH_FILE_STATE'')
        (bindE (record_for_current_claim s c) (\<lambda>r.
         requireE (\<not> batch_complete r) (JournalError ''BATCH_ALREADY_COMPLETE'')
         (case dict_get (batch_files r) path of
            None \<Rightarrow> Inl (JournalError ''UNKNOWN_BATCH_FILE'')
          | Some existing \<Rightarrow>
              requireE (existing = PENDING \<or> existing = state) (JournalError ''BATCH_FILE_RESULT_CONFLICT'')
              (Inr ((), s\<lparr>batches := dict_set (batches s) (batch_id c)
                  (r\<lparr>batch_files := dict_set (batch_files r) path state\<rparr>)\<rparr>))))))"

text \<open>The state a completed batch was finalized with: a retry of the same claim returns it.\<close>

definition replayed_state :: "journal \<Rightarrow> batch_claim \<Rightarrow> (exn + lane_state) option" where
  "replayed_state s c = (case dict_get (batches s) (batch_id c) of
      None \<Rightarrow> None
    | Some r \<Rightarrow>
        if batch_complete r \<and> claim_token (batch_claim_of r) = claim_token c
        then Some (case finalized_state r of None \<Rightarrow> Inl AssertionError | Some st \<Rightarrow> Inr st)
        else None)"

definition finalize_batch :: "journal \<Rightarrow> batch_claim \<Rightarrow> pyval \<Rightarrow> exn + lane_state \<times> journal" where
  "finalize_batch s c now_arg =
    bindE (journal_time now_arg ''INVALID_FINALIZE_TIME'') (\<lambda>now.
    case replayed_state s c of
      Some res \<Rightarrow> bindE res (\<lambda>st. Inr (st, s))
    | None \<Rightarrow>
        bindE (record_for_current_claim s c) (\<lambda>r.
        requireE (now < lease_expires_ms c) (JournalError ''STALE_CLAIM'')
        (requireE (dict_get (control_cuts s) (lane_of c) = Some (control_sha c, topology_sha c))
          (JournalError ''CONTROL_CUT_CHANGED'')
        (case dict_get (lanes s) (lane_of c) of
           None \<Rightarrow> Inl (JournalError ''LANE_UNSEEDED'')
         | Some lane \<Rightarrow>
             requireE (projected_head_sha lane = expected_projected_head c) (JournalError ''PROJECTED_BASE_CHANGED'')
             (requireE (\<forall>st \<in> set (map snd (batch_files r)). st \<in> set TERMINAL_SUCCESS)
               (JournalError ''UNRESOLVED_BATCH_FILES'')
             (let fin = \<lparr>lane_identity = claim_identity c, lane_branch = claim_branch c,
                         projected_head_sha = Some (target_head c)\<rparr> in
              Inr (fin, s\<lparr>lanes := dict_set (lanes s) (lane_of c) fin,
                          batches := dict_set (batches s) (batch_id c)
                            (r\<lparr>batch_complete := True, finalized_state := Some fin\<rparr>),
                          active_batch := dict_del (active_batch s) (lane_of c)\<rparr>)))))))"

definition force_projected_head_for_test :: "journal \<Rightarrow> string \<Rightarrow> string \<Rightarrow> string option \<Rightarrow> journal" where
  "force_projected_head_for_test s identity branch head = s\<lparr>lanes := dict_set (lanes s) (identity, branch)
     \<lparr>lane_identity = identity, lane_branch = branch, projected_head_sha = head\<rparr>\<rparr>"

section \<open>What each operation did\<close>

lemma lane_of_update [simp]: "lane_of (c\<lparr>batch_id := b\<rparr>) = lane_of c" "lane_of (c\<lparr>claim_token := t\<rparr>) = lane_of c"
  by (simp_all add: lane_of_def)

lemma journal_time_Inr [simp]: "journal_time v code = Inr n \<longleftrightarrow> v = PInt n \<and> 0 \<le> n"
  by (cases v) (auto simp: journal_time_def)

lemma journal_text_Inr: "journal_text v code = Inr t \<longleftrightarrow> is_text v \<and> t = strip (text_of v)"
  by (auto simp: journal_text_def)

lemma journal_files_distinct: "journal_files v = Inr ps \<Longrightarrow> distinct ps"
  by (cases v) (auto simp: journal_files_def)

lemma checked_request_Inr:
  assumes "checked_request r = Inr (c, now, files)"
  shows "0 \<le> now" "now < lease_expires_ms c" "distinct files" "req_now r = PInt now"
  using assms by (auto simp: checked_request_def journal_files_distinct)

lemma seed_lane_stateE:
  assumes "seed_lane_state s i b h = Inr ((), t)"
  obtains k st where "t = s\<lparr>lanes := dict_set (lanes s) k st\<rparr>" "(lane_identity st, lane_branch st) = k"
    "k = (strip (text_of i), strip (text_of b))" "journal_head h = Inr (projected_head_sha st)"
    "case dict_get (lanes s) k of None \<Rightarrow> True | Some existing \<Rightarrow> projected_head_sha existing = projected_head_sha st"
proof -
  obtain i' b' h' where args: "journal_text i ''INVALID_IDENTITY'' = Inr i'" "journal_text b ''INVALID_BRANCH'' = Inr b'"
      "journal_head h = Inr h'"
    using assms by (auto simp: seed_lane_state_def)
  let ?st = "\<lparr>lane_identity = i', lane_branch = b', projected_head_sha = h'\<rparr>"
  show ?thesis
    using assms args by (intro that [of "(i', b')" ?st]) (auto simp: seed_lane_state_def journal_text_Inr split: option.splits)
qed

lemma set_control_cutE:
  assumes "set_control_cut s i b ct tp = Inr ((), t)"
  obtains k v where "t = s\<lparr>control_cuts := dict_set (control_cuts s) k v\<rparr>" "dict_has (lanes s) k"
proof -
  obtain i' b' c' t' where args: "journal_text i ''INVALID_IDENTITY'' = Inr i'" "journal_text b ''INVALID_BRANCH'' = Inr b'"
      "journal_text ct ''INVALID_CONTROL_SHA'' = Inr c'" "journal_text tp ''INVALID_TOPOLOGY_SHA'' = Inr t'"
    using assms by (auto simp: set_control_cut_def)
  show ?thesis
    using assms args by (intro that [of "(i', b')" "(c', t')"]) (auto simp: set_control_cut_def)
qed

lemma claim_batchE:
  assumes "claim_batch uuid s r = Inr (c, t)"
  obtains c0 now files lane where "checked_request r = Inr (c0, now, files)" "req_now r = PInt now"
    "0 \<le> now" "now < lease_expires_ms c" "distinct files"
    "dict_get (lanes s) (lane_of c) = Some lane" "projected_head_sha lane = expected_projected_head c"
    "dict_get (control_cuts s) (lane_of c) = Some (control_sha c, topology_sha c)"
    "\<not> lane_busy s (lane_of c) now"
    "c = c0\<lparr>batch_id := uuid (drawn s), claim_token := uuid (Suc (drawn s))\<rparr>"
    "t = s\<lparr>batches := dict_set (batches s) (batch_id c)
            \<lparr>batch_claim_of = c, batch_files = map (\<lambda>p. (p, PENDING)) files, batch_complete = False,
             finalized_state = None\<rparr>,
          active_batch := dict_set (active_batch s) (lane_of c) (batch_id c), drawn := drawn s + 2\<rparr>"
proof -
  obtain c0 now files where req: "checked_request r = Inr (c0, now, files)"
    using assms by (auto simp: claim_batch_def)
  then show ?thesis
    using assms checked_request_Inr [OF req]
    by (intro that [of c0 now files "the (dict_get (lanes s) (lane_of c))"]) (auto simp: claim_batch_def Let_def)
qed

lemma claim_lane:
  assumes "claim_batch uuid s r = Inr (c, t)"
  shows "lane_of c = (strip (text_of (req_identity r)), strip (text_of (req_branch r)))"
  using assms by (cases rule: claim_batchE) (auto simp: checked_request_def journal_text_Inr lane_of_def)

lemma record_for_current_claim_Inr:
  "record_for_current_claim s c = Inr r \<longleftrightarrow> dict_get (batches s) (batch_id c) = Some r \<and>
     claim_token (batch_claim_of r) = claim_token c \<and>
     (dict_get (active_batch s) (lane_of c) = Some (batch_id c) \<or> batch_complete r)"
  by (auto simp: record_for_current_claim_def split: option.splits)

lemma record_file_resultE:
  assumes "record_file_result s c path state_arg = Inr (u, t)"
  obtains r state existing where "state_arg = Some state" "state \<noteq> PENDING"
    "dict_get (batches s) (batch_id c) = Some r" "claim_token (batch_claim_of r) = claim_token c"
    "dict_get (active_batch s) (lane_of c) = Some (batch_id c)" "\<not> batch_complete r"
    "dict_get (batch_files r) path = Some existing" "existing = PENDING \<or> existing = state"
    "t = s\<lparr>batches := dict_set (batches s) (batch_id c)
            (r\<lparr>batch_files := dict_set (batch_files r) path state\<rparr>)\<rparr>"
  using assms that
  by (auto simp: record_file_result_def record_for_current_claim_Inr split: option.splits)

lemma finalize_batchE:
  assumes "finalize_batch s c now_arg = Inr (fin, t)"
  obtains (replay) r where "dict_get (batches s) (batch_id c) = Some r" "batch_complete r"
      "claim_token (batch_claim_of r) = claim_token c" "finalized_state r = Some fin" "t = s"
  | (swapped) r now lane where "dict_get (batches s) (batch_id c) = Some r" "\<not> batch_complete r"
      "claim_token (batch_claim_of r) = claim_token c"
      "dict_get (active_batch s) (lane_of c) = Some (batch_id c)" "now_arg = PInt now" "0 \<le> now"
      "now < lease_expires_ms c"
      "dict_get (control_cuts s) (lane_of c) = Some (control_sha c, topology_sha c)"
      "dict_get (lanes s) (lane_of c) = Some lane" "projected_head_sha lane = expected_projected_head c"
      "\<forall>st \<in> set (map snd (batch_files r)). st \<in> set TERMINAL_SUCCESS"
      "fin = \<lparr>lane_identity = claim_identity c, lane_branch = claim_branch c, projected_head_sha = Some (target_head c)\<rparr>"
      "t = s\<lparr>lanes := dict_set (lanes s) (lane_of c) fin,
            batches := dict_set (batches s) (batch_id c) (r\<lparr>batch_complete := True, finalized_state := Some fin\<rparr>),
            active_batch := dict_del (active_batch s) (lane_of c)\<rparr>"
proof -
  obtain now where now: "now_arg = PInt now" "0 \<le> now"
    using assms by (auto simp: finalize_batch_def)
  show ?thesis
  proof (cases "replayed_state s c")
    case (Some res)
    then have "res = Inr fin" "t = s"
      using assms by (auto simp: finalize_batch_def)
    then show ?thesis
      using Some replay by (auto simp: replayed_state_def split: option.splits if_splits)
  next
    case None
    then obtain r lane where r: "record_for_current_claim s c = Inr r" "dict_get (lanes s) (lane_of c) = Some lane"
      using assms now by (auto simp: finalize_batch_def split: option.splits)
    moreover have "\<not> batch_complete r"
      using r(1) None by (auto simp: record_for_current_claim_Inr replayed_state_def)
    ultimately show ?thesis
      using assms now None
      by (intro swapped [of r now lane]) (simp add: finalize_batch_def record_for_current_claim_Inr Let_def, blast?)+
  qed
qed

section \<open>The journal as a state machine\<close>

datatype journal_call =
    SeedLane pyval pyval pyval
  | SetCut pyval pyval pyval pyval
  | ClaimBatch claim_request
  | RecordFile batch_claim string "batch_file_state option"
  | FinalizeBatch batch_claim pyval
  | ForceHead string string "string option"

fun journal_exec :: "(nat \<Rightarrow> string) \<Rightarrow> journal_call \<Rightarrow> journal \<Rightarrow> journal" where
  "journal_exec uuid (SeedLane i b h) s = after s (seed_lane_state s i b h)"
| "journal_exec uuid (SetCut i b c t) s = after s (set_control_cut s i b c t)"
| "journal_exec uuid (ClaimBatch r) s = after s (claim_batch uuid s r)"
| "journal_exec uuid (RecordFile c p st) s = after s (record_file_result s c p st)"
| "journal_exec uuid (FinalizeBatch c n) s = after s (finalize_batch s c n)"
| "journal_exec uuid (ForceHead i b h) s = force_projected_head_for_test s i b h"

definition batch_wf :: "(nat \<Rightarrow> string) \<Rightarrow> journal \<Rightarrow> string \<Rightarrow> batch_record \<Rightarrow> bool" where
  "batch_wf uuid s b r \<longleftrightarrow> batch_id (batch_claim_of r) = b \<and> b \<in> uuid ` {..<drawn s} \<and>
     dict_wf (batch_files r) \<and> dict_has (lanes s) (lane_of (batch_claim_of r)) \<and>
     (batch_complete r \<longleftrightarrow> finalized_state r \<noteq> None)"

definition journal_wf :: "(nat \<Rightarrow> string) \<Rightarrow> journal \<Rightarrow> bool" where
  "journal_wf uuid s \<longleftrightarrow> inj uuid \<and>
     (\<forall>k st. dict_get (lanes s) k = Some st \<longrightarrow> (lane_identity st, lane_branch st) = k) \<and>
     (\<forall>k. dict_has (control_cuts s) k \<longrightarrow> dict_has (lanes s) k) \<and>
     (\<forall>b r. dict_get (batches s) b = Some r \<longrightarrow> batch_wf uuid s b r) \<and>
     (\<forall>k b. dict_get (active_batch s) k = Some b \<longrightarrow>
        (\<exists>r. dict_get (batches s) b = Some r \<and> lane_of (batch_claim_of r) = k \<and> \<not> batch_complete r))"

text \<open>A batch is fenced off once it lost its lane without having been completed.\<close>

definition fenced_off :: "journal \<Rightarrow> string \<Rightarrow> bool" where
  "fenced_off s b \<longleftrightarrow> (\<exists>r. dict_get (batches s) b = Some r \<and> \<not> batch_complete r \<and>
     dict_get (active_batch s) (lane_of (batch_claim_of r)) \<noteq> Some b)"

text \<open>
  What no call undoes: seeded lanes stay, batches keep their claim, settled files and completed
  batches never change, a batch that lost its lane never gets it back.
\<close>

definition batch_before :: "batch_record \<Rightarrow> batch_record \<Rightarrow> bool" where
  "batch_before r r' \<longleftrightarrow> batch_claim_of r' = batch_claim_of r \<and> (batch_complete r \<longrightarrow> r' = r) \<and>
     (\<forall>p st. dict_get (batch_files r) p = Some st \<and> st \<noteq> PENDING \<longrightarrow> dict_get (batch_files r') p = Some st)"

definition journal_before :: "journal \<Rightarrow> journal \<Rightarrow> bool" where
  "journal_before s t \<longleftrightarrow> (\<forall>k. dict_has (lanes s) k \<longrightarrow> dict_has (lanes t) k) \<and>
     (\<forall>b r. dict_get (batches s) b = Some r \<longrightarrow> (\<exists>r'. dict_get (batches t) b = Some r' \<and> batch_before r r')) \<and>
     (\<forall>b. fenced_off s b \<longrightarrow> fenced_off t b)"

lemma batch_before_refl [simp]: "batch_before r r"
  by (simp add: batch_before_def)

lemma batch_before_trans: "batch_before r r' \<Longrightarrow> batch_before r' r'' \<Longrightarrow> batch_before r r''"
  by (auto simp: batch_before_def)

lemma journal_before_refl: "journal_before s s"
  by (auto simp: journal_before_def)

lemma journal_before_trans: "journal_before s t \<Longrightarrow> journal_before t u \<Longrightarrow> journal_before s u"
  unfolding journal_before_def by (meson batch_before_trans)

text \<open>Updating one batch, or adding one, keeps the invariant and the progress relation.\<close>

lemma journal_wfD:
  assumes "journal_wf uuid s"
  shows "dict_get (batches s) b = Some r \<Longrightarrow> batch_wf uuid s b r"
    and "dict_get (active_batch s) k = Some b \<Longrightarrow>
      \<exists>r. dict_get (batches s) b = Some r \<and> lane_of (batch_claim_of r) = k \<and> \<not> batch_complete r"
    and "dict_has (control_cuts s) k \<Longrightarrow> dict_has (lanes s) k"
    and "dict_get (lanes s) k = Some st \<Longrightarrow> (lane_identity st, lane_branch st) = k"
  using assms unfolding journal_wf_def by blast+

lemma uuid_fresh:
  assumes "journal_wf uuid s" shows "dict_get (batches s) (uuid (drawn s)) = None"
proof (rule ccontr)
  assume "dict_get (batches s) (uuid (drawn s)) \<noteq> None"
  then have "uuid (drawn s) \<in> uuid ` {..<drawn s}"
    using assms by (auto simp: journal_wf_def batch_wf_def)
  then show False
    using assms by (auto simp: journal_wf_def inj_def)
qed

lemma claim_progress:
  assumes wf: "journal_wf uuid s" and ok: "claim_batch uuid s r = Inr (c, t)"
  shows "journal_wf uuid t \<and> journal_before s t"
  using ok
proof (cases rule: claim_batchE)
  case (1 c0 now files lane)
  have new: "dict_get (batches s) (batch_id c) = None"
    using uuid_fresh [OF wf] 1(10) by simp
  have id: "batch_id c = uuid (drawn s)"
    using 1(10) by simp
  let ?r = "\<lparr>batch_claim_of = c, batch_files = map (\<lambda>p. (p, PENDING)) files, batch_complete = False,
      finalized_state = None\<rparr>"
  have "batch_wf uuid t (batch_id c) ?r"
    using 1(5,6) by (auto simp: 1(11) batch_wf_def id comp_def)
  moreover have "batch_wf uuid t b r'" if "batch_wf uuid s b r'" for b r'
    using that by (auto simp: 1(11) batch_wf_def)
  moreover have "\<exists>r. dict_get (batches t) b = Some r \<and> lane_of (batch_claim_of r) = k \<and> \<not> batch_complete r"
    if "dict_get (active_batch t) k = Some b" for k b
    using that journal_wfD(2) [OF wf, of k b] new by (auto simp: 1(11) split: if_splits)
  ultimately have "journal_wf uuid t"
    using wf by (auto simp: journal_wf_def 1(11))
  moreover have "journal_before s t"
    using new unfolding 1(11) journal_before_def fenced_off_def by auto
  ultimately show ?thesis ..
qed

text \<open>Changing a lane or a control cut touches no batch.\<close>

lemma lanes_progress:
  assumes wf: "journal_wf uuid s" and st: "(lane_identity st, lane_branch st) = k"
  shows "journal_wf uuid (s\<lparr>lanes := dict_set (lanes s) k st\<rparr>) \<and>
    journal_before s (s\<lparr>lanes := dict_set (lanes s) k st\<rparr>)"
  using wf st by (auto simp: journal_wf_def batch_wf_def journal_before_def fenced_off_def)

lemma cut_progress:
  assumes wf: "journal_wf uuid s" and k: "dict_has (lanes s) k"
  shows "journal_wf uuid (s\<lparr>control_cuts := dict_set (control_cuts s) k v\<rparr>) \<and>
    journal_before s (s\<lparr>control_cuts := dict_set (control_cuts s) k v\<rparr>)"
  using wf k by (auto simp: journal_wf_def batch_wf_def journal_before_def fenced_off_def)

lemma record_progress:
  assumes wf: "journal_wf uuid s" and ok: "record_file_result s c path state_arg = Inr (u, t)"
  shows "journal_wf uuid t \<and> journal_before s t"
  using ok
proof (cases rule: record_file_resultE)
  case (1 r state existing)
  let ?r = "r\<lparr>batch_files := dict_set (batch_files r) path state\<rparr>"
  have r: "batch_wf uuid s (batch_id c) r"
    using wf 1(3) by (rule journal_wfD(1))
  have act: "lane_of (batch_claim_of r) = k \<and> \<not> batch_complete r" if "dict_get (active_batch s) k = Some (batch_id c)" for k
    using journal_wfD(2) [OF wf that] 1(3) by simp
  have "journal_wf uuid t"
    using wf r 1(3) act unfolding journal_wf_def by (auto simp: batch_wf_def 1(9))
  moreover have "batch_before r ?r"
    using 1(6-8) by (auto simp: batch_before_def)
  then have "journal_before s t"
    using 1(3,6) by (auto simp: journal_before_def fenced_off_def 1(9))
  ultimately show ?thesis ..
qed

lemma finalize_progress:
  assumes wf: "journal_wf uuid s" and ok: "finalize_batch s c now_arg = Inr (fin, t)"
  shows "journal_wf uuid t \<and> journal_before s t"
  using ok
proof (cases rule: finalize_batchE)
  case (replay r)
  then show ?thesis
    using wf journal_before_refl by simp
next
  case (swapped r now lane)
  let ?r = "r\<lparr>batch_complete := True, finalized_state := Some fin\<rparr>"
  have r: "batch_wf uuid s (batch_id c) r" "lane_of (batch_claim_of r) = lane_of c"
    using journal_wfD(1) [OF wf swapped(1)] journal_wfD(2) [OF wf swapped(4)] swapped(1) by auto
  have k: "(lane_identity fin, lane_branch fin) = lane_of c"
    by (simp add: swapped(12) lane_of_def)
  have other: "b \<noteq> batch_id c" if "dict_get (active_batch s) k = Some b" "k \<noteq> lane_of c" for k b
    using journal_wfD(2) [OF wf that(1)] that(2) swapped(1) r(2) by auto
  have "journal_wf uuid t"
    using wf r(1) k other unfolding journal_wf_def batch_wf_def by (auto simp: swapped(13))
  moreover have "batch_before r ?r"
    using swapped(2) by (simp add: batch_before_def)
  then have "journal_before s t"
    using swapped(1,4) r(2) unfolding journal_before_def fenced_off_def by (auto simp: swapped(13))
  ultimately show ?thesis ..
qed

lemma journal_exec_progress:
  assumes wf: "journal_wf uuid s"
  shows "journal_wf uuid (journal_exec uuid c s) \<and> journal_before s (journal_exec uuid c s)"
proof (cases c)
  case (SeedLane i b h)
  show ?thesis
  proof (cases rule: after_cases [of "seed_lane_state s i b h" s])
    case (returned a t)
    then have "seed_lane_state s i b h = Inr ((), t)"
      by simp
    then obtain k st where "t = s\<lparr>lanes := dict_set (lanes s) k st\<rparr>" "(lane_identity st, lane_branch st) = k"
      by (rule seed_lane_stateE)
    then show ?thesis
      using lanes_progress [OF wf, of st k] SeedLane returned(2) by simp
  qed (use wf journal_before_refl SeedLane in simp)
next
  case (SetCut i b ct tp)
  show ?thesis
  proof (cases rule: after_cases [of "set_control_cut s i b ct tp" s])
    case (returned a t)
    then have "set_control_cut s i b ct tp = Inr ((), t)"
      by simp
    then obtain k v where "t = s\<lparr>control_cuts := dict_set (control_cuts s) k v\<rparr>" "dict_has (lanes s) k"
      by (rule set_control_cutE)
    then show ?thesis
      using cut_progress [OF wf] SetCut returned(2) by simp
  qed (use wf journal_before_refl SetCut in simp)
next
  case (ClaimBatch r)
  then show ?thesis
    using claim_progress [OF wf, of r] wf journal_before_refl
    by (cases rule: after_cases [of "claim_batch uuid s r" s]) auto
next
  case (RecordFile cl p st)
  then show ?thesis
    using record_progress [OF wf, of cl p st] wf journal_before_refl
    by (cases rule: after_cases [of "record_file_result s cl p st" s]) auto
next
  case (FinalizeBatch cl n)
  then show ?thesis
    using finalize_progress [OF wf, of cl n] wf journal_before_refl
    by (cases rule: after_cases [of "finalize_batch s cl n" s]) auto
next
  case (ForceHead i b h)
  then show ?thesis
    using lanes_progress [OF wf, of "\<lparr>lane_identity = i, lane_branch = b, projected_head_sha = h\<rparr>" "(i, b)"]
    by (simp add: force_projected_head_for_test_def)
qed

interpretation journal: progressing_component "journal_exec uuid" "journal_wf uuid" journal_before for uuid
  using journal_exec_progress journal_before_refl journal_before_trans by unfold_locales blast+

lemma empty_journal_wf: "inj uuid \<Longrightarrow> journal_wf uuid empty_journal"
  by (simp add: journal_wf_def empty_journal_def)

section \<open>The abstract view: a compare-and-swap register per lane\<close>

text \<open>\<open>None\<close> is an unseeded lane, \<open>Some None\<close> a seeded lane that has no projection yet.\<close>

type_synonym registers = "lane_key \<Rightarrow> string option option"

datatype register_event = Seed lane_key "string option" | Swap lane_key "string option" string

fun register_step :: "register_event \<Rightarrow> registers \<Rightarrow> registers option" where
  "register_step (Seed k v) h = (if h k = None \<or> h k = Some v then Some (h(k := Some v)) else None)"
| "register_step (Swap k old new) h = (if h k = Some old then Some (h(k := Some (Some new))) else None)"

fun register_run :: "register_event list \<Rightarrow> registers \<Rightarrow> registers option" where
  "register_run [] h = Some h"
| "register_run (e # es) h = (case register_step e h of None \<Rightarrow> None | Some h' \<Rightarrow> register_run es h')"

definition registers_of :: "journal \<Rightarrow> registers" where
  "registers_of s k = map_option projected_head_sha (dict_get (lanes s) k)"

text \<open>What a call does to the registers: seeding and the first finalization of a batch, nothing else.\<close>

fun register_events :: "journal_call \<Rightarrow> journal \<Rightarrow> register_event list" where
  "register_events (SeedLane i b h) s =
     (if isl (seed_lane_state s i b h) then []
      else [Seed (strip (text_of i), strip (text_of b)) (projr (journal_head h))])"
| "register_events (FinalizeBatch c n) s =
     (if isl (finalize_batch s c n) \<or> replayed_state s c \<noteq> None then []
      else [Swap (lane_of c) (expected_projected_head c) (target_head c)])"
| "register_events _ s = []"

fun run_events :: "(nat \<Rightarrow> string) \<Rightarrow> journal_call list \<Rightarrow> journal \<Rightarrow> register_event list" where
  "run_events uuid [] s = []"
| "run_events uuid (c # cs) s = register_events c s @ run_events uuid cs (journal_exec uuid c s)"

definition is_force :: "journal_call \<Rightarrow> bool" where
  "is_force c \<longleftrightarrow> (\<exists>i b h. c = ForceHead i b h)"

lemma register_run_append:
  "register_run (es @ fs) h = (case register_run es h of None \<Rightarrow> None | Some h' \<Rightarrow> register_run fs h')"
  by (induction es arbitrary: h) (auto split: option.splits)

lemma registers_of_update [simp]:
  "registers_of (s\<lparr>lanes := dict_set (lanes s) k st\<rparr>) = (registers_of s)(k := Some (projected_head_sha st))"
  "registers_of (s\<lparr>control_cuts := c\<rparr>) = registers_of s"
  "registers_of (s\<lparr>batches := bs\<rparr>) = registers_of s"
  "registers_of (s\<lparr>active_batch := as\<rparr>) = registers_of s"
  "registers_of (s\<lparr>drawn := n\<rparr>) = registers_of s"
  by (auto simp: registers_of_def)

lemma register_step_refines:
  assumes "\<not> is_force c"
  shows "register_run (register_events c s) (registers_of s) = Some (registers_of (journal_exec uuid c s))"
proof (cases c)
  case (SeedLane i b h)
  show ?thesis
  proof (cases "seed_lane_state s i b h")
    case (Inr at)
    then have ok: "seed_lane_state s i b h = Inr ((), snd at)"
      by (cases at) simp
    then show ?thesis
    proof (cases rule: seed_lane_stateE)
      case (1 k st)
      then show ?thesis
        using ok by (auto simp: SeedLane registers_of_def split: option.splits)
    qed
  qed (simp add: SeedLane)
next
  case (FinalizeBatch cl n)
  show ?thesis
  proof (cases "finalize_batch s cl n")
    case (Inr at)
    then obtain fin t where ok: "finalize_batch s cl n = Inr (fin, t)"
      by (cases at) auto
    then show ?thesis
    proof (cases rule: finalize_batchE)
      case (replay r)
      then show ?thesis
        using ok by (simp add: FinalizeBatch replayed_state_def)
    next
      case (swapped r now lane)
      have "replayed_state s cl = None"
        using swapped(1,2) by (simp add: replayed_state_def)
      moreover have "registers_of s (lane_of cl) = Some (expected_projected_head cl)"
        using swapped(9,10) by (simp add: registers_of_def)
      moreover have "registers_of t = (registers_of s)(lane_of cl := Some (Some (target_head cl)))"
        by (auto simp: registers_of_def swapped(12,13))
      ultimately show ?thesis
        using ok by (simp add: FinalizeBatch)
    qed
  qed (simp add: FinalizeBatch)
next
  case (SetCut i b ct tp)
  show ?thesis
  proof (cases "set_control_cut s i b ct tp")
    case (Inr at)
    then have "set_control_cut s i b ct tp = Inr ((), snd at)"
      by (cases at) simp
    then obtain k v where "snd at = s\<lparr>control_cuts := dict_set (control_cuts s) k v\<rparr>" "dict_has (lanes s) k"
      by (rule set_control_cutE)
    then show ?thesis
      using Inr by (cases at) (simp add: SetCut)
  qed (simp add: SetCut)
next
  case (ClaimBatch r)
  show ?thesis
  proof (cases "claim_batch uuid s r")
    case (Inr at)
    then obtain cl t where ok: "claim_batch uuid s r = Inr (cl, t)"
      by (cases at) auto
    then have "registers_of t = registers_of s"
      by (cases rule: claim_batchE) simp
    with ok show ?thesis
      by (simp add: ClaimBatch)
  qed (simp add: ClaimBatch)
next
  case (RecordFile cl p st)
  show ?thesis
  proof (cases "record_file_result s cl p st")
    case (Inr at)
    then obtain t where ok: "record_file_result s cl p st = Inr ((), t)"
      by (cases at) auto
    then have "registers_of t = registers_of s"
      by (cases rule: record_file_resultE) simp
    with ok show ?thesis
      by (simp add: RecordFile)
  qed (simp add: RecordFile)
qed (use assms in \<open>auto simp: is_force_def\<close>)

section \<open>Leases\<close>

text \<open>A batch holds its lane while it is active there; completing it is the only other way out in time.\<close>

definition holds_lane :: "journal \<Rightarrow> batch_claim \<Rightarrow> bool" where
  "holds_lane s c \<longleftrightarrow> (\<exists>r. dict_get (batches s) (batch_id c) = Some r \<and> batch_claim_of r = c \<and>
     (batch_complete r \<or> dict_get (active_batch s) (lane_of c) = Some (batch_id c)))"

definition batch_done :: "journal \<Rightarrow> batch_claim \<Rightarrow> bool" where
  "batch_done s c \<longleftrightarrow> (\<exists>r. dict_get (batches s) (batch_id c) = Some r \<and> batch_complete r)"

text \<open>The claims of a call come before a time.\<close>

definition claims_before :: "int \<Rightarrow> journal_call \<Rightarrow> bool" where
  "claims_before L call \<longleftrightarrow> (\<forall>r n. call = ClaimBatch r \<and> req_now r = PInt n \<longrightarrow> n < L)"

lemma claim_holds_lane:
  assumes "claim_batch uuid s r = Inr (c, t)"
  shows "holds_lane t c"
  using assms by (cases rule: claim_batchE) (simp add: holds_lane_def)

lemma held_lane_busy: "holds_lane s c \<Longrightarrow> \<not> batch_done s c \<Longrightarrow> n < lease_expires_ms c \<Longrightarrow> lane_busy s (lane_of c) n"
  by (auto simp: holds_lane_def batch_done_def lane_busy_def)

lemma batch_keeps:
  assumes "journal_before s t" "dict_get (batches s) b = Some r"
  obtains r' where "dict_get (batches t) b = Some r'" "batch_claim_of r' = batch_claim_of r"
    "batch_complete r \<longrightarrow> r' = r"
  using assms unfolding journal_before_def batch_before_def by blast

lemma holds_lane_exec:
  assumes wf: "journal_wf uuid s" and held: "holds_lane s c" and before: "claims_before (lease_expires_ms c) call"
  shows "holds_lane (journal_exec uuid call s) c"
proof -
  obtain r where r: "dict_get (batches s) (batch_id c) = Some r" "batch_claim_of r = c"
    "batch_complete r \<or> dict_get (active_batch s) (lane_of c) = Some (batch_id c)"
    using held by (auto simp: holds_lane_def)
  obtain r' where r': "dict_get (batches (journal_exec uuid call s)) (batch_id c) = Some r'" "batch_claim_of r' = c"
    "batch_complete r \<longrightarrow> r' = r"
    using batch_keeps [OF _ r(1)] journal_exec_progress [OF wf] r(2) by metis
  have "batch_complete r' \<or> dict_get (active_batch (journal_exec uuid call s)) (lane_of c) = Some (batch_id c)"
  proof (cases "batch_complete r")
    case False
    then have act: "dict_get (active_batch s) (lane_of c) = Some (batch_id c)" and open_batch: "\<not> batch_done s c"
      using r by (auto simp: batch_done_def)
    show ?thesis
    proof (cases call)
      case (ClaimBatch req)
      show ?thesis
      proof (cases rule: after_cases [of "claim_batch uuid s req" s])
        case (returned c' t)
        from returned(1) show ?thesis
        proof (cases rule: claim_batchE)
          case (1 c0 now files lane)
          have "lane_of c' \<noteq> lane_of c"
            using 1(2,9) before held_lane_busy [OF held open_batch, of now] by (auto simp: ClaimBatch claims_before_def)
          then show ?thesis
            using act returned(2) 1(11) by (simp add: ClaimBatch)
        qed
      qed (use act ClaimBatch in simp)
    next
      case (FinalizeBatch cl n)
      show ?thesis
      proof (cases rule: after_cases [of "finalize_batch s cl n" s])
        case (returned fin t)
        from returned(1) show ?thesis
        proof (cases rule: finalize_batchE)
          case (swapped r2 now lane)
          show ?thesis
          proof (cases "lane_of cl = lane_of c")
            case True
            then have "batch_id cl = batch_id c"
              using act swapped(4) by simp
            then have "batch_complete r'"
              using r'(1) returned(2) swapped(13) by (auto simp: FinalizeBatch)
            then show ?thesis ..
          next
            case False
            then show ?thesis
              using act returned(2) swapped(13) by (simp add: FinalizeBatch)
          qed
        qed (use act returned(2) FinalizeBatch in simp)
      qed (use act FinalizeBatch in simp)
    next
      case (RecordFile cl p st)
      have "active_batch (after s (record_file_result s cl p st)) = active_batch s"
        by (cases rule: after_cases [of "record_file_result s cl p st" s]) (auto elim: record_file_resultE)
      then show ?thesis
        using act by (simp add: RecordFile)
    next
      case (SeedLane i b h)
      have "active_batch (after s (seed_lane_state s i b h)) = active_batch s"
        by (auto simp: after_def seed_lane_state_def split: sum.split)
      then show ?thesis
        using act by (simp add: SeedLane)
    next
      case (SetCut i b ct tp)
      have "active_batch (after s (set_control_cut s i b ct tp)) = active_batch s"
        by (auto simp: after_def set_control_cut_def split: sum.split)
      then show ?thesis
        using act by (simp add: SetCut)
    qed (use act in \<open>simp add: force_projected_head_for_test_def\<close>)
  qed (use r'(3) in simp)
  then show ?thesis
    using r' by (auto simp: holds_lane_def)
qed

lemma holds_lane_run:
  "journal_wf uuid s \<Longrightarrow> holds_lane s c \<Longrightarrow> \<forall>call \<in> set calls. claims_before (lease_expires_ms c) call \<Longrightarrow>
    holds_lane (fold (journal_exec uuid) calls s) c"
proof (induction calls arbitrary: s)
  case (Cons call calls)
  then have "holds_lane (journal_exec uuid call s) c"
    by (intro holds_lane_exec) simp_all
  then show ?case
    using Cons journal.exec_inv [of uuid s call] by simp
qed simp

text \<open>A claim of a fenced-off batch is refused by every operation.\<close>

lemma fenced_off_refused:
  assumes off: "fenced_off s (batch_id c)"
    and claim: "dict_get (batches s) (batch_id c) = Some r" "batch_claim_of r = c"
  shows "record_for_current_claim s c = Inl (JournalError ''STALE_CLAIM'')" and "replayed_state s c = None"
  using off claim by (auto simp: fenced_off_def record_for_current_claim_def replayed_state_def)

section \<open>A small journal\<close>

definition sample_uuid :: "nat \<Rightarrow> string" where
  "sample_uuid n = replicate n CHR ''u''"

definition sample_request :: "int \<Rightarrow> string \<Rightarrow> claim_request" where
  "sample_request now owner = \<lparr>req_identity = PStr ''alpha'', req_branch = PStr ''main'', req_expected = PNone,
     req_target = PStr ''h1'', req_control = PStr ''c'', req_topology = PStr ''t'', req_files = PTuple [PStr ''f''],
     req_owner = PStr owner, req_now = PInt now, req_lease = PInt 10\<rparr>"

definition sample_journal :: journal where
  "sample_journal = fold (journal_exec sample_uuid)
     [SeedLane (PStr ''alpha'') (PStr ''main'') PNone,
      SetCut (PStr ''alpha'') (PStr ''main'') (PStr ''c'') (PStr ''t'')] empty_journal"

definition sample_claim :: batch_claim where
  "sample_claim = \<lparr>batch_id = [], claim_token = ''u'', claim_identity = ''alpha'', claim_branch = ''main'',
     expected_projected_head = None, target_head = ''h1'', control_sha = ''c'', topology_sha = ''t'',
     claim_owner = ''o'', lease_expires_ms = 11\<rparr>"

lemma sample_journal_wf: "journal_wf sample_uuid sample_journal"
proof -
  have "inj sample_uuid"
    by (rule injI) (metis sample_uuid_def length_replicate)
  then show ?thesis
    unfolding sample_journal_def by (intro journal.run_inv empty_journal_wf)
qed

lemma sample_journal_claim:
  "claim_batch sample_uuid sample_journal (sample_request 1 ''o'') =
    Inr (sample_claim, after sample_journal (claim_batch sample_uuid sample_journal (sample_request 1 ''o'')))"
proof -
  have strips: "strip ''alpha'' = ''alpha''" "strip ''main'' = ''main''" "strip ''c'' = ''c''" "strip ''t'' = ''t''"
      "strip ''h1'' = ''h1''" "strip ''o'' = ''o''"
    by code_simp+
  show ?thesis
    by (simp add: claim_batch_def checked_request_def sample_request_def sample_journal_def sample_uuid_def
        journal_text_def journal_time_def journal_head_def journal_files_def seed_lane_state_def set_control_cut_def
        empty_journal_def lane_of_def lane_busy_def sample_claim_def Let_def blank_def strips)
qed

lemma sample_journal_later:
  "\<not> isl (claim_batch sample_uuid (after sample_journal (claim_batch sample_uuid sample_journal (sample_request 1 ''o'')))
     (sample_request 11 ''p''))"
  "\<not> isl (finalize_batch (journal_exec sample_uuid (RecordFile sample_claim ''f'' (Some PROJECTED))
     (after sample_journal (claim_batch sample_uuid sample_journal (sample_request 1 ''o'')))) sample_claim (PInt 5))"
  by code_simp+

section \<open>Properties\<close>

text \<open>
  C12: the journal implements one compare-and-swap register per lane. Whatever its clients call
  (the test hook apart), with claims genuine, stale or made up, the cursors of all lanes are what
  the registers hold after this run's seedings and first finalizations, in order, and each of
  those is a legal register operation: a lane is seeded once, and a finalization moves it from
  the head its claim expected to the claim's target and from no other. Retries and failed calls
  move nothing.
\<close>

theorem journal_refines_registers:
  assumes "\<forall>c \<in> set calls. \<not> is_force c"
  shows "register_run (run_events uuid calls s) (registers_of s) = Some (registers_of (fold (journal_exec uuid) calls s))"
  using assms
proof (induction calls arbitrary: s)
  case (Cons c calls)
  then show ?case
    using register_step_refines [of c s uuid] by (simp add: register_run_append)
qed simp

theorem journal_refines_registers_witness:
  "register_run (run_events sample_uuid [SeedLane (PStr ''alpha'') (PStr ''main'') PNone] empty_journal)
     (registers_of empty_journal) = Some ((\<lambda>_. None)((''alpha'', ''main'') \<mapsto> None))"
proof -
  have strips: "strip ''alpha'' = ''alpha''" "strip ''main'' = ''main''"
    by code_simp+
  have "registers_of (fold (journal_exec sample_uuid) [SeedLane (PStr ''alpha'') (PStr ''main'') PNone] empty_journal) =
      (\<lambda>_. None)((''alpha'', ''main'') \<mapsto> None)"
    by (auto simp: registers_of_def seed_lane_state_def journal_text_def journal_head_def empty_journal_def blank_def strips)
  then show ?thesis
    using journal_refines_registers [of "[SeedLane (PStr ''alpha'') (PStr ''main'') PNone]" sample_uuid empty_journal]
    by (simp add: is_force_def)
qed

text \<open>
  C13: a lease is exclusive: after a batch is claimed, and any calls in which no claim comes at or
  after the end of its lease, a new claim of the same lane before that end is refused, unless the
  batch has been completed by then.
\<close>

theorem lease_is_exclusive:
  assumes "journal_wf uuid s" and "claim_batch uuid s r = Inr (c, t)"
    and "\<forall>call \<in> set calls. claims_before (lease_expires_ms c) call"
    and "claim_batch uuid (fold (journal_exec uuid) calls t) r' = Inr (c', u)"
    and "req_now r' = PInt n" and "n < lease_expires_ms c"
  shows "lane_of c' \<noteq> lane_of c \<or> batch_done (fold (journal_exec uuid) calls t) c"
proof -
  let ?t = "fold (journal_exec uuid) calls t"
  have "holds_lane ?t c"
    using claim_progress [OF assms(1,2)] claim_holds_lane [OF assms(2)] assms(3) by (intro holds_lane_run) auto
  note busy = held_lane_busy [OF this _ assms(6)]
  from assms(4) show ?thesis
    by (cases rule: claim_batchE; cases "batch_done ?t c") (use busy assms(5) in auto)
qed

theorem lease_is_exclusive_witness:
  "isl (claim_batch sample_uuid (after sample_journal (claim_batch sample_uuid sample_journal (sample_request 1 ''o'')))
     (sample_request 10 ''p''))"
proof (rule ccontr)
  define t where "t = after sample_journal (claim_batch sample_uuid sample_journal (sample_request 1 ''o''))"
  have first: "claim_batch sample_uuid sample_journal (sample_request 1 ''o'') = Inr (sample_claim, t)"
    unfolding t_def by (rule sample_journal_claim)
  assume "\<not> ?thesis"
  then obtain c' u where second: "claim_batch sample_uuid t (sample_request 10 ''p'') = Inr (c', u)"
    unfolding t_def [symmetric] by (cases "claim_batch sample_uuid t (sample_request 10 ''p'')") auto
  have "lane_of c' \<noteq> lane_of sample_claim \<or> batch_done t sample_claim"
    using lease_is_exclusive [OF sample_journal_wf first, of "[]" "sample_request 10 ''p''" c' u 10] second
    by (simp add: sample_request_def sample_claim_def)
  moreover have "lane_of c' = lane_of sample_claim"
    using claim_lane [OF first] claim_lane [OF second] by (simp add: sample_request_def)
  moreover have "\<not> batch_done t sample_claim"
    using first by (cases rule: claim_batchE) (simp add: batch_done_def)
  ultimately show False by blast
qed

text \<open>
  Fencing: once a claim has been superseded on its lane without having been completed, it is
  dead for ever: whatever is called afterwards, recording a file result and finalizing with it
  fail as stale.
\<close>

theorem superseded_claim_is_fenced:
  assumes "journal_wf uuid s" and "claim_batch uuid s r = Inr (c, t)"
    and "claim_batch uuid (fold (journal_exec uuid) calls t) r' = Inr (c', u)" and "lane_of c' = lane_of c"
    and "\<not> batch_done (fold (journal_exec uuid) calls t) c" and "0 \<le> n" and "st \<noteq> PENDING"
  shows "let w = fold (journal_exec uuid) later u in
    record_file_result w c path (Some st) = Inl (JournalError ''STALE_CLAIM'') \<and>
    finalize_batch w c (PInt n) = Inl (JournalError ''STALE_CLAIM'')"
proof -
  let ?t = "fold (journal_exec uuid) calls t" and ?w = "fold (journal_exec uuid) later u"
  have wft: "journal_wf uuid t" and wf: "journal_wf uuid ?t"
    using claim_progress [OF assms(1,2)] journal.run_inv by blast+
  obtain r0 where "dict_get (batches t) (batch_id c) = Some r0" "batch_claim_of r0 = c"
    using claim_holds_lane [OF assms(2)] by (auto simp: holds_lane_def)
  then obtain r1 where r1: "dict_get (batches ?t) (batch_id c) = Some r1" "batch_claim_of r1 = c"
    using batch_keeps [OF journal.run_before [OF wft]] by metis
  have wfu: "journal_wf uuid u" and tu: "journal_before ?t u"
    using claim_progress [OF wf assms(3)] by blast+
  have off: "fenced_off u (batch_id c)"
    using assms(3)
  proof (cases rule: claim_batchE)
    case (1 c0 now files lane)
    have "batch_id c \<noteq> batch_id c'"
      using uuid_fresh [OF wf] r1(1) 1(10) by auto
    then show ?thesis
      using 1(11) r1 assms(4,5) by (auto simp: fenced_off_def batch_done_def)
  qed
  obtain r2 where "dict_get (batches u) (batch_id c) = Some r2" "batch_claim_of r2 = c"
    using batch_keeps [OF tu r1(1)] r1(2) by metis
  then obtain r3 where r3: "dict_get (batches ?w) (batch_id c) = Some r3" "batch_claim_of r3 = c"
    using batch_keeps [OF journal.run_before [OF wfu]] by metis
  have "fenced_off ?w (batch_id c)"
    using journal.run_before [OF wfu, of later] off by (simp add: journal_before_def)
  from fenced_off_refused [OF this r3] show ?thesis
    using assms(6,7) by (simp add: Let_def record_file_result_def finalize_batch_def journal_time_def)
qed

theorem superseded_claim_is_fenced_witness:
  "\<exists>u. finalize_batch u sample_claim (PInt 12) = Inl (JournalError ''STALE_CLAIM'')"
proof -
  define t where "t = after sample_journal (claim_batch sample_uuid sample_journal (sample_request 1 ''o''))"
  have first: "claim_batch sample_uuid sample_journal (sample_request 1 ''o'') = Inr (sample_claim, t)"
    unfolding t_def by (rule sample_journal_claim)
  obtain c' u where second: "claim_batch sample_uuid t (sample_request 11 ''p'') = Inr (c', u)"
    using sample_journal_later(1) unfolding t_def [symmetric]
    by (cases "claim_batch sample_uuid t (sample_request 11 ''p'')") auto
  have "\<not> batch_done t sample_claim"
    using first by (cases rule: claim_batchE) (simp add: batch_done_def)
  moreover have "lane_of c' = lane_of sample_claim"
    using claim_lane [OF first] claim_lane [OF second] by (simp add: sample_request_def)
  ultimately show ?thesis
    using superseded_claim_is_fenced [OF sample_journal_wf first, of "[]" "sample_request 11 ''p''" c' u 12 PROJECTED "[]"]
      second by auto
qed

text \<open>
  Finalization can be retried: after it succeeded, the same claim finalized again, at any time
  and whatever was called in between (new claims of the lane, expiry, control changes included),
  returns the same lane state and changes nothing.
\<close>

theorem finalize_is_idempotent:
  assumes "journal_wf uuid s" and "finalize_batch s c a = Inr (fin, t)" and "0 \<le> n"
  shows "finalize_batch (fold (journal_exec uuid) calls t) c (PInt n) = Inr (fin, fold (journal_exec uuid) calls t)"
proof -
  let ?u = "fold (journal_exec uuid) calls t"
  have wf: "journal_wf uuid t"
    using finalize_progress [OF assms(1,2)] by blast
  have "\<exists>r. dict_get (batches t) (batch_id c) = Some r \<and> batch_complete r \<and>
      claim_token (batch_claim_of r) = claim_token c \<and> finalized_state r = Some fin"
    using assms(2) by (cases rule: finalize_batchE) auto
  then obtain r where r: "dict_get (batches t) (batch_id c) = Some r" "batch_complete r"
      "claim_token (batch_claim_of r) = claim_token c" "finalized_state r = Some fin"
    by blast
  then have "dict_get (batches ?u) (batch_id c) = Some r"
    using batch_keeps [OF journal.run_before [OF wf] r(1)] by metis
  then show ?thesis
    using r assms(3) by (simp add: finalize_batch_def journal_time_def replayed_state_def)
qed

theorem finalize_is_idempotent_witness:
  "\<exists>s fin t. finalize_batch s sample_claim (PInt 5) = Inr (fin, t) \<and>
     finalize_batch (journal_exec sample_uuid (SetCut (PStr ''alpha'') (PStr ''main'') (PStr ''x'') (PStr ''t'')) t)
       sample_claim (PInt 99) =
     Inr (fin, journal_exec sample_uuid (SetCut (PStr ''alpha'') (PStr ''main'') (PStr ''x'') (PStr ''t'')) t)"
proof -
  define s where "s = fold (journal_exec sample_uuid)
     [ClaimBatch (sample_request 1 ''o''), RecordFile sample_claim ''f'' (Some PROJECTED)] sample_journal"
  have wf: "journal_wf sample_uuid s"
    unfolding s_def by (rule journal.run_inv [OF sample_journal_wf])
  obtain fin t where fin: "finalize_batch s sample_claim (PInt 5) = Inr (fin, t)"
    using sample_journal_later(2) by (cases "finalize_batch s sample_claim (PInt 5)") (auto simp: s_def)
  show ?thesis
    using fin finalize_is_idempotent [OF wf fin, of 99 "[SetCut (PStr ''alpha'') (PStr ''main'') (PStr ''x'') (PStr ''t'')]"]
    by auto
qed

end
