(* ===== verification/Workflow.thy ===== *)
theory Workflow
  imports Json
begin

text \<open>
  Workflow rules (\<open>src/src/radar/workflow.py\<close>): the effect scope two permission mappings grant, the
  decision table for executing an action, and the dependency graph of assignments with its
  cycle check. A Python set is a list without repetition, in the order of insertion.
\<close>

section \<open>Decisions\<close>

definition LANE_ACTION_REQUIRED_CREATE_LANE :: string where
  "LANE_ACTION_REQUIRED_CREATE_LANE = ''ACTION_REQUIRED:CREATE_LANE''"

definition LANE_SATISFIED :: string where
  "LANE_SATISFIED = ''SATISFIED''"

definition LANE_NOT_REQUIRED :: string where
  "LANE_NOT_REQUIRED = ''NOT_REQUIRED''"

definition DECISION_REQUIRE_CLARIFICATION :: string where
  "DECISION_REQUIRE_CLARIFICATION = ''REQUIRE_CLARIFICATION''"

definition DECISION_REQUIRE_EXACT_AUTHORITY :: string where
  "DECISION_REQUIRE_EXACT_AUTHORITY = ''REQUIRE_EXACT_AUTHORITY''"

definition DECISION_DO_VERIFY_REPORT :: string where
  "DECISION_DO_VERIFY_REPORT = ''DO_VERIFY_REPORT''"

definition DECISION_REQUIRE_ASSIGNMENT :: string where
  "DECISION_REQUIRE_ASSIGNMENT = ''REQUIRE_ASSIGNMENT''"

lemmas decision_defs = DECISION_REQUIRE_CLARIFICATION_def DECISION_REQUIRE_EXACT_AUTHORITY_def
  DECISION_DO_VERIFY_REPORT_def DECISION_REQUIRE_ASSIGNMENT_def

definition require_bool :: "pyval \<Rightarrow> string \<Rightarrow> exn + bool" where
  "require_bool v name = (case v of PBool b \<Rightarrow> Inr b | _ \<Rightarrow> Inl (WorkflowError (''INVALID_BOOLEAN:'' @ name)))"

fun mapping_bool :: "pymap \<Rightarrow> string list \<Rightarrow> bool \<Rightarrow> exn + bool" where
  "mapping_bool m [] dflt = Inr dflt"
| "mapping_bool m (key # keys) dflt =
     (case dict_get m key of Some v \<Rightarrow> require_bool v key | None \<Rightarrow> mapping_bool m keys dflt)"

definition assignment_id_of :: "pyval \<Rightarrow> exn + string" where
  "assignment_id_of v = (if is_text v then Inr (strip (text_of v)) else Inl (WorkflowError ''ASSIGNMENT_ID_REQUIRED''))"

record effect_scope =
  isolated_branch :: bool
  scope_merge :: bool
  scope_deploy :: bool

definition scope_allows :: "effect_scope \<Rightarrow> string \<Rightarrow> bool" where
  "scope_allows s action =
    (if action \<in> {''create_isolated_branch'', ''create_branch'', ''write_isolated''} then isolated_branch s
     else if action = ''merge'' then scope_merge s
     else if action = ''deploy'' then scope_deploy s
     else False)"

definition classify_lane_requirement :: "pyval \<Rightarrow> pyval \<Rightarrow> exn + string" where
  "classify_lane_requirement required_arg exists_arg =
    bindE (require_bool required_arg ''required'') (\<lambda>required.
    bindE (require_bool exists_arg ''exists'') (\<lambda>exist.
    Inr (if required \<and> \<not> exist then LANE_ACTION_REQUIRED_CREATE_LANE
         else if required \<and> exist then LANE_SATISFIED
         else LANE_NOT_REQUIRED)))"

definition resolve_effect_scope :: "pyval \<Rightarrow> pyval \<Rightarrow> exn + effect_scope" where
  "resolve_effect_scope older_arg newer_arg = (case (older_arg, newer_arg) of
      (PDict older, PDict newer) \<Rightarrow>
        bindE (mapping_bool newer [''create_isolated_branch'', ''create_branch'', ''write_isolated''] False) (\<lambda>granted.
        bindE (if granted then Inr True
               else bindE (mapping_bool older [''local_only''] False) (\<lambda>local_only.
                 if local_only then Inr False
                 else mapping_bool older [''isolated_branch'', ''create_isolated_branch''] False)) (\<lambda>isolated.
        bindE (mapping_bool older [''merge''] False) (\<lambda>old_merge.
        bindE (mapping_bool newer [''merge''] old_merge) (\<lambda>merge.
        bindE (mapping_bool older [''deploy''] False) (\<lambda>old_deploy.
        bindE (mapping_bool newer [''deploy''] old_deploy) (\<lambda>deploy.
        Inr \<lparr>isolated_branch = isolated, scope_merge = merge, scope_deploy = deploy\<rparr>))))))
    | _ \<Rightarrow> Inl (WorkflowError ''EFFECT_SCOPE_MAPPING_REQUIRED''))"

definition execution_decision :: "pyval \<Rightarrow> pyval \<Rightarrow> pyval \<Rightarrow> pyval \<Rightarrow> pyval \<Rightarrow> exn + string" where
  "execution_decision action assigned_arg reversible_arg protected_arg ambiguous_arg =
    requireE (is_text action) (WorkflowError ''ACTION_REQUIRED'')
    (bindE (require_bool assigned_arg ''explicitly_assigned'') (\<lambda>assigned.
     bindE (require_bool reversible_arg ''reversible'') (\<lambda>reversible.
     bindE (require_bool protected_arg ''protected'') (\<lambda>protected.
     bindE (require_bool ambiguous_arg ''ambiguous'') (\<lambda>ambiguous.
     Inr (if ambiguous then DECISION_REQUIRE_CLARIFICATION
          else if protected then DECISION_REQUIRE_EXACT_AUTHORITY
          else if assigned \<and> reversible then DECISION_DO_VERIFY_REPORT
          else if \<not> assigned then DECISION_REQUIRE_ASSIGNMENT
          else DECISION_REQUIRE_EXACT_AUTHORITY))))))"

section \<open>The dependency graph\<close>

definition set_add :: "'a \<Rightarrow> 'a list \<Rightarrow> 'a list" where
  "set_add x xs = (if x \<in> set xs then xs else xs @ [x])"

lemma set_set_add [simp]: "set (set_add x xs) = insert x (set xs)"
  by (auto simp: set_add_def)

record graph =
  assignments :: "string list"
  completed :: "string list"
  predecessors :: "(string, string list) dict"
  protected_assignments :: "string list"

definition empty_graph :: graph where
  "empty_graph = \<lparr>assignments = [], completed = [], predecessors = [], protected_assignments = []\<rparr>"

definition known_assignment :: "graph \<Rightarrow> pyval \<Rightarrow> exn + string" where
  "known_assignment g v = bindE (assignment_id_of v) (\<lambda>a.
     requireE (a \<in> set (assignments g)) (WorkflowError (''UNKNOWN_ASSIGNMENT: '' @ a)) (Inr a))"

definition add_assignment :: "graph \<Rightarrow> pyval \<Rightarrow> pyval \<Rightarrow> exn + unit \<times> graph" where
  "add_assignment g id_arg protected_arg =
    bindE (assignment_id_of id_arg) (\<lambda>a.
    bindE (require_bool protected_arg ''protected_authority'') (\<lambda>protected.
    requireE (a \<notin> set (assignments g)) (WorkflowError (''ASSIGNMENT_COLLISION: '' @ a))
      (Inr ((), g\<lparr>assignments := set_add a (assignments g), predecessors := dict_set (predecessors g) a [],
                protected_assignments := (if protected then set_add a (protected_assignments g)
                                          else protected_assignments g)\<rparr>))))"

definition set_at :: "(string, string list) dict \<Rightarrow> string \<Rightarrow> string list" where
  "set_at d k = (case dict_get d k of None \<Rightarrow> [] | Some xs \<Rightarrow> xs)"

text \<open>The successors of each assignment: \<open>reverse.setdefault(predecessor, set()).add(successor)\<close>.\<close>

definition add_successor :: "string \<Rightarrow> string \<Rightarrow> (string, string list) dict \<Rightarrow> (string, string list) dict" where
  "add_successor s p succs = dict_set succs p (set_add s (set_at succs p))"

definition reverse_edges :: "graph \<Rightarrow> (string, string list) dict" where
  "reverse_edges g = fold (\<lambda>(s, ps). fold (add_successor s) ps) (predecessors g) (map (\<lambda>a. (a, [])) (assignments g))"

text \<open>The loop of the search: the stack grows at its end, where it is popped.\<close>

function search :: "(string, string list) dict \<Rightarrow> string \<Rightarrow> string list \<Rightarrow> string list \<Rightarrow> bool" where
  "search succs target stack seen =
    (if stack = [] then False
     else let current = last stack; rest = butlast stack in
       if current = target then True
       else if current \<in> set seen then search succs target rest seen
       else search succs target (rest @ (set_at succs current)) (set_add current seen))"
  by pat_completeness auto
termination
proof (relation "measures [\<lambda>(succs, t, stack, seen). card (set (map fst succs) - set seen), \<lambda>(succs, t, stack, seen). length stack]",
    goal_cases)
  case (3 succs target stack seen current rest)
  show ?case
  proof (cases "dict_get succs current")
    case None
    then have "set (map fst succs) - insert current (set seen) = set (map fst succs) - set seen"
      by (auto simp: map_of_eq_None_iff)
    then show ?thesis
      using 3 None by (simp add: set_at_def)
  next
    case (Some xs)
    then have "current \<in> set (map fst succs)"
      by (metis map_of_eq_None_iff option.distinct(1) set_map)
    then have "set (map fst succs) - insert current (set seen) \<subset> set (map fst succs) - set seen"
      using 3 by auto
    then show ?thesis
      by (simp add: psubset_card_mono)
  qed
qed auto

declare search.simps [simp del]

definition reachable :: "graph \<Rightarrow> string \<Rightarrow> string \<Rightarrow> bool" where
  "reachable g start target = search (reverse_edges g) target [start] []"

definition add_edge :: "graph \<Rightarrow> pyval \<Rightarrow> pyval \<Rightarrow> exn + unit \<times> graph" where
  "add_edge g predecessor_arg successor_arg =
    bindE (known_assignment g predecessor_arg) (\<lambda>p.
    bindE (known_assignment g successor_arg) (\<lambda>s.
    requireE (\<not> (p = s \<or> reachable g s p)) (WorkflowError (''DEPENDENCY_CYCLE: '' @ p @ '' -> '' @ s))
    (case dict_get (predecessors g) s of
       None \<Rightarrow> Inl (KeyError s)
     | Some ps \<Rightarrow> Inr ((), g\<lparr>predecessors := dict_set (predecessors g) s (set_add p ps)\<rparr>))))"

definition complete :: "graph \<Rightarrow> pyval \<Rightarrow> exn + unit \<times> graph" where
  "complete g id_arg = bindE (known_assignment g id_arg) (\<lambda>a. Inr ((), g\<lparr>completed := set_add a (completed g)\<rparr>))"

definition ready :: "graph \<Rightarrow> pyval \<Rightarrow> exn + bool" where
  "ready g id_arg = bindE (known_assignment g id_arg) (\<lambda>a.
     Inr (set (set_at (predecessors g) a) \<subseteq> set (completed g)))"

definition protected_authority :: "graph \<Rightarrow> pyval \<Rightarrow> exn + bool" where
  "protected_authority g id_arg = bindE (known_assignment g id_arg) (\<lambda>a.
     Inr (a \<in> set (protected_assignments g)))"

section \<open>The search finds exactly the reachable assignments\<close>

definition edges_of :: "(string, string list) dict \<Rightarrow> (string \<times> string) set" where
  "edges_of succs = {(x, y). \<exists>ys. dict_get succs x = Some ys \<and> y \<in> set ys}"

lemma set_at_edges [simp]: "y \<in> set (set_at succs x) \<longleftrightarrow> (x, y) \<in> edges_of succs"
  by (cases "dict_get succs x") (simp_all add: set_at_def edges_of_def)

lemma search_sound: "search succs t stack seen \<Longrightarrow> \<exists>x \<in> set stack. (x, t) \<in> (edges_of succs)\<^sup>*"
proof (induction succs t stack seen rule: search.induct)
  case (1 succs t stack seen)
  let ?c = "last stack" and ?rest = "butlast stack"
  have ne: "stack \<noteq> []"
    using 1(3) by (simp add: search.simps split: if_splits)
  then have stack: "set stack = insert ?c (set ?rest)"
    by (metis append_butlast_last_id list.simps(15) rotate1.simps(2) set_rotate1)
  consider "?c = t" | "?c \<noteq> t" "?c \<in> set seen" | "?c \<noteq> t" "?c \<notin> set seen"
    by blast
  then show ?case
  proof cases
    case 2
    then have "search succs t ?rest seen"
      using 1(3) ne by (simp add: search.simps [of succs t stack] Let_def)
    then show ?thesis
      using 1(1) [OF ne refl refl] 2 stack by auto
  next
    case 3
    then have "search succs t (?rest @ (set_at succs ?c)) (set_add ?c seen)"
      using 1(3) ne by (simp add: search.simps [of succs t stack] Let_def)
    then obtain x where "x \<in> set (?rest @ (set_at succs ?c))"
        "(x, t) \<in> (edges_of succs)\<^sup>*"
      using 1(2) [OF ne refl refl] 3 by blast
    then show ?thesis
      using stack by (auto intro: converse_rtrancl_into_rtrancl)
  qed (use stack in auto)
qed

text \<open>When the search fails, what it saw is closed under the edges and avoids the target.\<close>

lemma search_complete:
  assumes "\<not> search succs t stack seen" and "t \<notin> set seen"
    and "\<forall>x y. x \<in> set seen \<and> (x, y) \<in> edges_of succs \<longrightarrow> y \<in> set seen \<union> set stack"
  shows "\<exists>S. set seen \<union> set stack \<subseteq> S \<and> t \<notin> S \<and> edges_of succs `` S \<subseteq> S"
  using assms
proof (induction succs t stack seen rule: search.induct)
  case (1 succs t stack seen)
  let ?c = "last stack" and ?rest = "butlast stack"
  show ?case
  proof (cases "stack = []")
    case True
    then show ?thesis
      using 1(4,5) by (intro exI [of _ "set seen"]) auto
  next
    case False
    then have stack: "set stack = insert ?c (set ?rest)"
      by (metis append_butlast_last_id list.simps(15) rotate1.simps(2) set_rotate1)
    have c: "?c \<noteq> t"
      using 1(3) False by (auto simp: search.simps [of succs t stack] Let_def)
    show ?thesis
    proof (cases "?c \<in> set seen")
      case True
      then have "\<not> search succs t ?rest seen"
        using 1(3) False c by (simp add: search.simps [of succs t stack] Let_def)
      moreover have "set seen \<union> set stack = set seen \<union> set ?rest"
        using True stack by auto
      ultimately show ?thesis
        using 1(1) [OF False refl refl c True] 1(4,5) by simp
    next
      case new: False
      let ?more = "set_at succs ?c"
      have "\<not> search succs t (?rest @ ?more) (set_add ?c seen)"
        using 1(3) False c new by (simp add: search.simps [of succs t stack] Let_def)
      moreover have "\<forall>x y. x \<in> set (set_add ?c seen) \<and> (x, y) \<in> edges_of succs \<longrightarrow>
          y \<in> set (set_add ?c seen) \<union> set (?rest @ ?more)"
        using 1(5) stack by auto
      ultimately obtain S where "set (set_add ?c seen) \<union> set (?rest @ ?more) \<subseteq> S" "t \<notin> S"
          "edges_of succs `` S \<subseteq> S"
        using 1(2) [OF False refl refl c new] 1(4) c by (metis insert_iff set_set_add)
      then show ?thesis
        unfolding stack by (intro exI [of _ S]) simp
    qed
  qed
qed

lemma search_iff: "search succs t [s] [] \<longleftrightarrow> (s, t) \<in> (edges_of succs)\<^sup>*"
proof
  assume path: "(s, t) \<in> (edges_of succs)\<^sup>*"
  show "search succs t [s] []"
  proof (rule ccontr)
    assume "\<not> ?thesis"
    then obtain S where S: "s \<in> S" "t \<notin> S" "edges_of succs `` S \<subseteq> S"
      using search_complete [of succs t "[s]" "[]"] by auto
    from path S(1) have "t \<in> S"
      by induction (use S(3) in auto)
    with S(2) show False ..
  qed
qed (use search_sound in fastforce)

text \<open>The direct dependencies: from a predecessor to its successor.\<close>

definition precedes :: "graph \<Rightarrow> (string \<times> string) set" where
  "precedes g = {(p, s). \<exists>ps. dict_get (predecessors g) s = Some ps \<and> p \<in> set ps}"

lemma edges_add_successor: "edges_of (add_successor s p succs) = insert (p, s) (edges_of succs)"
  by (auto simp: edges_of_def add_successor_def set_at_def split: option.splits if_splits)

lemma edges_fold_successors: "edges_of (fold (add_successor s) ps succs) = (\<lambda>p. (p, s)) ` set ps \<union> edges_of succs"
  by (induction ps arbitrary: succs) (auto simp: edges_add_successor)

lemma edges_fold_all: "edges_of (fold (\<lambda>(s, ps). fold (add_successor s) ps) d succs) =
    {(p, s). \<exists>ps. (s, ps) \<in> set d \<and> p \<in> set ps} \<union> edges_of succs"
  by (induction d arbitrary: succs) (auto simp: edges_fold_successors)

lemma edges_start: "edges_of (map (\<lambda>a. (a, [])) xs) = {}"
  by (induction xs) (auto simp: edges_of_def split: if_splits)

lemma reverse_edges_precede: "dict_wf (predecessors g) \<Longrightarrow> edges_of (reverse_edges g) = precedes g"
proof -
  assume "dict_wf (predecessors g)"
  then have "(s, ps) \<in> set (predecessors g) \<longleftrightarrow> dict_get (predecessors g) s = Some ps" for s ps
    by (rule dict_get_in)
  then show ?thesis
    by (simp only: reverse_edges_def edges_fold_all edges_start precedes_def Un_empty_right)
qed

lemma reachable_iff: "dict_wf (predecessors g) \<Longrightarrow> reachable g s t \<longleftrightarrow> (s, t) \<in> (precedes g)\<^sup>*"
  by (simp add: reachable_def search_iff reverse_edges_precede)

section \<open>The graph as a state machine\<close>

datatype graph_call = AddAssignment pyval pyval | AddEdge pyval pyval | Complete pyval

fun graph_exec :: "graph_call \<Rightarrow> graph \<Rightarrow> graph" where
  "graph_exec (AddAssignment i p) g = after g (add_assignment g i p)"
| "graph_exec (AddEdge p s) g = after g (add_edge g p s)"
| "graph_exec (Complete i) g = after g (complete g i)"

definition graph_wf :: "graph \<Rightarrow> bool" where
  "graph_wf g \<longleftrightarrow> dict_wf (predecessors g) \<and> (\<forall>a. dict_has (predecessors g) a \<longleftrightarrow> a \<in> set (assignments g)) \<and>
     (\<forall>p s. (p, s) \<in> precedes g \<longrightarrow> p \<in> set (assignments g)) \<and> acyclic (precedes g) \<and>
     set (completed g) \<subseteq> set (assignments g) \<and> set (protected_assignments g) \<subseteq> set (assignments g)"

lemma known_assignment_Inr:
  "known_assignment g v = Inr a \<longleftrightarrow> is_text v \<and> a = strip (text_of v) \<and> a \<in> set (assignments g)"
  by (auto simp: known_assignment_def assignment_id_of_def)

lemma precedes_set:
  "dict_get (predecessors g) s = Some ps \<Longrightarrow>
     precedes (g\<lparr>predecessors := dict_set (predecessors g) s (set_add p ps)\<rparr>) = insert (p, s) (precedes g)"
  by (auto simp: precedes_def split: if_splits)

lemma graph_wf_known: "graph_wf g \<Longrightarrow> known_assignment g v = Inr a \<Longrightarrow> \<exists>ps. dict_get (predecessors g) a = Some ps"
  unfolding graph_wf_def known_assignment_Inr by (metis not_None_eq)

lemma graph_wf_edges:
  assumes "graph_wf g" shows "precedes g \<subseteq> set (assignments g) \<times> set (assignments g)"
proof (rule subrelI)
  fix p s assume e: "(p, s) \<in> precedes g"
  then have "dict_has (predecessors g) s"
    by (auto simp: precedes_def)
  then show "(p, s) \<in> set (assignments g) \<times> set (assignments g)"
    using assms e by (auto simp: graph_wf_def)
qed

text \<open>An edge is accepted exactly when it closes no cycle.\<close>

lemma add_edge_known:
  assumes wf: "graph_wf g" and p: "known_assignment g pv = Inr p" and s: "known_assignment g sv = Inr s"
  shows "add_edge g pv sv = (if acyclic (insert (p, s) (precedes g))
      then Inr ((), g\<lparr>predecessors := dict_set (predecessors g) s (set_add p (set_at (predecessors g) s))\<rparr>)
      else Inl (WorkflowError (''DEPENDENCY_CYCLE: '' @ p @ '' -> '' @ s)))"
proof -
  have "p = s \<or> reachable g s p \<longleftrightarrow> (s, p) \<in> (precedes g)\<^sup>*"
    using wf by (auto simp: graph_wf_def reachable_iff)
  moreover have "acyclic (insert (p, s) (precedes g)) \<longleftrightarrow> (s, p) \<notin> (precedes g)\<^sup>*"
    using wf by (simp add: graph_wf_def acyclic_insert)
  moreover have "\<exists>ps. dict_get (predecessors g) s = Some ps"
    using wf s by (rule graph_wf_known)
  ultimately show ?thesis
    using p s by (auto simp: add_edge_def set_at_def)
qed

lemma precedes_new:
  assumes "dict_get (predecessors g) a = None"
  shows "precedes (g\<lparr>assignments := xs, predecessors := dict_set (predecessors g) a [], protected_assignments := ys\<rparr>) = precedes g"
  using assms by (auto simp: precedes_def split: if_splits)

lemma graph_exec_wf: "graph_wf g \<Longrightarrow> graph_wf (graph_exec c g)"
proof (cases c)
  case (AddAssignment i p)
  assume wf: "graph_wf g"
  show ?thesis
  proof (cases rule: after_cases [of "add_assignment g i p" g])
    case (returned u t)
    obtain a b where a: "assignment_id_of i = Inr a" "require_bool p ''protected_authority'' = Inr b"
        "a \<notin> set (assignments g)"
      using returned(1) by (auto simp: add_assignment_def)
    then have "dict_get (predecessors g) a = None"
      using wf by (auto simp: graph_wf_def)
    moreover have "t = g\<lparr>assignments := set_add a (assignments g), predecessors := dict_set (predecessors g) a [],
        protected_assignments := (if b then set_add a (protected_assignments g) else protected_assignments g)\<rparr>"
      using returned(1) a by (simp add: add_assignment_def)
    ultimately have "graph_wf t"
      using wf a(3) precedes_new [of g a] unfolding graph_wf_def by (auto split: if_splits)
    then show ?thesis
      using returned(2) by (simp add: AddAssignment)
  qed (use wf in \<open>simp add: AddAssignment\<close>)
next
  case (AddEdge p s)
  assume wf: "graph_wf g"
  show ?thesis
  proof (cases rule: after_cases [of "add_edge g p s" g])
    case (returned u t)
    obtain p' s' where ends: "known_assignment g p = Inr p'" "known_assignment g s = Inr s'"
      using returned(1) by (auto simp: add_edge_def)
    obtain ps where ps: "dict_get (predecessors g) s' = Some ps"
      using graph_wf_known [OF wf ends(2)] by blast
    have ok: "acyclic (insert (p', s') (precedes g))"
        "t = g\<lparr>predecessors := dict_set (predecessors g) s' (set_add p' ps)\<rparr>"
      using returned(1) ps by (auto simp: add_edge_known [OF wf ends] set_at_def split: if_splits)
    then show ?thesis
      using wf ps ends precedes_set [OF ps, of p'] returned(2)
      by (auto simp: AddEdge graph_wf_def known_assignment_Inr)
  qed (use wf in \<open>simp add: AddEdge\<close>)
next
  case (Complete i)
  assume wf: "graph_wf g"
  show ?thesis
  proof (cases "known_assignment g i")
    case (Inr a)
    have "precedes (g\<lparr>completed := set_add a (completed g)\<rparr>) = precedes g"
      by (simp add: precedes_def)
    moreover have "a \<in> set (assignments g)"
      using Inr by (auto simp: known_assignment_Inr)
    ultimately show ?thesis
      using wf Inr by (simp add: Complete complete_def graph_wf_def)
  qed (use wf in \<open>simp add: Complete complete_def\<close>)
qed

interpretation graph: component graph_exec graph_wf
  by unfold_locales (rule graph_exec_wf)

lemma empty_graph_wf: "graph_wf empty_graph"
  by (simp add: graph_wf_def empty_graph_def precedes_def acyclic_def)

section \<open>A small graph\<close>

definition sample_graph :: graph where
  "sample_graph = fold graph_exec [AddAssignment (PStr ''a'') (PBool False), AddAssignment (PStr ''b'') (PBool True),
     AddEdge (PStr ''a'') (PStr ''b'')] empty_graph"

lemma sample_graph_wf: "graph_wf sample_graph"
  unfolding sample_graph_def by (rule graph.run_inv [OF empty_graph_wf])

lemma sample_graph_known: "known_assignment sample_graph (PStr ''a'') = Inr ''a''"
  "known_assignment sample_graph (PStr ''b'') = Inr ''b''"
  by code_simp+

section \<open>Properties\<close>

text \<open>
  C14: the dependency graph never contains a cycle, whatever assignments, edges and completions are
  submitted, refused ones included; every edge joins registered assignments, and only registered
  assignments are complete or protected.
\<close>

theorem graph_stays_acyclic:
  "let g = fold graph_exec calls empty_graph in
    acyclic (precedes g) \<and> precedes g \<subseteq> set (assignments g) \<times> set (assignments g) \<and>
    set (completed g) \<subseteq> set (assignments g) \<and> set (protected_assignments g) \<subseteq> set (assignments g)"
  using graph.run_inv [OF empty_graph_wf, of calls] graph_wf_edges by (simp add: graph_wf_def Let_def)

text \<open>
  The cycle check is exact: between two registered assignments an edge is added if and only if
  the dependencies stay acyclic with it, and then it is the only change; otherwise the call raises
  and nothing changes. The search behind it always terminates.
\<close>

theorem add_edge_exact:
  assumes "graph_wf g" and "known_assignment g pv = Inr p" and "known_assignment g sv = Inr s"
  shows "if acyclic (insert (p, s) (precedes g))
    then \<exists>g'. add_edge g pv sv = Inr ((), g') \<and> precedes g' = insert (p, s) (precedes g) \<and>
      assignments g' = assignments g \<and> completed g' = completed g \<and> protected_assignments g' = protected_assignments g
    else add_edge g pv sv = Inl (WorkflowError (''DEPENDENCY_CYCLE: '' @ p @ '' -> '' @ s))"
proof -
  obtain ps where ps: "dict_get (predecessors g) s = Some ps"
    using graph_wf_known [OF assms(1,3)] by blast
  then show ?thesis
    using add_edge_known [OF assms] precedes_set [OF ps, of p] by (simp add: set_at_def)
qed

theorem add_edge_exact_witness:
  "add_edge sample_graph (PStr ''b'') (PStr ''a'') = Inl (WorkflowError ''DEPENDENCY_CYCLE: b -> a'')"
proof -
  have "(''a'', ''b'') \<in> precedes sample_graph"
  proof -
    have "dict_get (predecessors sample_graph) ''b'' = Some [''a'']"
      by code_simp
    then show ?thesis
      by (simp add: precedes_def)
  qed
  then have "\<not> acyclic (insert (''b'', ''a'') (precedes sample_graph))"
    by (simp add: acyclic_insert r_into_rtrancl)
  then show ?thesis
    using add_edge_exact [OF sample_graph_wf sample_graph_known(2) sample_graph_known(1)] by simp
qed

text \<open>
  Work never deadlocks on its dependencies: while some assignment is not complete, at least one
  incomplete assignment is ready.
\<close>

theorem some_assignment_ready:
  assumes "graph_wf g" and "a \<in> set (assignments g)" and "a \<notin> set (completed g)"
  shows "\<exists>b \<in> set (assignments g) - set (completed g).
    set (case dict_get (predecessors g) b of None \<Rightarrow> [] | Some ps \<Rightarrow> ps) \<subseteq> set (completed g) \<and>
    (\<forall>v. known_assignment g v = Inr b \<longrightarrow> ready g v = Inr True)"
proof -
  let ?todo = "set (assignments g) - set (completed g)"
  have "precedes g \<subseteq> set (assignments g) \<times> set (assignments g)"
    by (rule graph_wf_edges [OF assms(1)])
  then have "finite (precedes g)"
    by (rule finite_subset) simp
  then have "wf (precedes g)"
    using assms(1) by (intro finite_acyclic_wf) (simp_all add: graph_wf_def)
  moreover have "a \<in> ?todo"
    using assms(2,3) by simp
  ultimately obtain b where b: "b \<in> ?todo" "\<And>p. (p, b) \<in> precedes g \<Longrightarrow> p \<notin> ?todo"
    by (rule wfE_min) blast
  have "set (set_at (predecessors g) b) \<subseteq> set (completed g)"
  proof
    fix p assume "p \<in> set (set_at (predecessors g) b)"
    then have p: "(p, b) \<in> precedes g"
      by (cases "dict_get (predecessors g) b") (auto simp: precedes_def set_at_def)
    then show "p \<in> set (completed g)"
      using b(2) assms(1) by (auto simp: graph_wf_def)
  qed
  then show ?thesis
    using b(1) by (auto simp: ready_def set_at_def)
qed

theorem some_assignment_ready_witness:
  "\<exists>b \<in> set (assignments sample_graph) - set (completed sample_graph). \<forall>v. known_assignment sample_graph v = Inr b \<longrightarrow> ready sample_graph v = Inr True"
proof -
  have "''b'' \<in> set (assignments sample_graph)" "''b'' \<notin> set (completed sample_graph)"
    by code_simp+
  from some_assignment_ready [OF sample_graph_wf this] show ?thesis
    by blast
qed

text \<open>The keys whose explicit \<open>True\<close> grants an action.\<close>

definition grant_keys :: "string \<Rightarrow> string set" where
  "grant_keys action = (if action = ''merge'' \<or> action = ''deploy'' then {action}
     else {''isolated_branch'', ''create_isolated_branch'', ''create_branch'', ''write_isolated''})"

lemma mapping_bool_True:
  "mapping_bool m keys dflt = Inr True \<Longrightarrow> (\<exists>k \<in> set keys. dict_get m k = Some (PBool True)) \<or>
     dflt \<and> (\<forall>k \<in> set keys. dict_get m k = None)"
  by (induction m keys dflt rule: mapping_bool.induct) (auto simp: require_bool_def split: option.splits pyval.splits)

text \<open>
  No authority is invented: an action is allowed by a resolved scope only if one of the two
  mappings grants it with an explicit \<open>True\<close>; the older grant of a branch counts only when it is
  not confined to local work, and for merging and deploying the newer mapping has the last word.
  An action outside the list is never allowed.
\<close>

theorem effect_scope_needs_a_grant:
  assumes "resolve_effect_scope (PDict older) (PDict newer) = Inr sc" and "scope_allows sc action"
  shows "action \<in> {''create_isolated_branch'', ''create_branch'', ''write_isolated'', ''merge'', ''deploy''} \<and>
    ((\<exists>k \<in> grant_keys action. dict_get newer k = Some (PBool True)) \<or>
     (\<exists>k \<in> grant_keys action. dict_get older k = Some (PBool True)) \<and>
       (if action = ''merge'' \<or> action = ''deploy'' then dict_get newer action = None
        else dict_get older ''local_only'' \<noteq> Some (PBool True)))"
proof -
  obtain granted isolated old_merge merge old_deploy deploy where steps:
      "mapping_bool newer [''create_isolated_branch'', ''create_branch'', ''write_isolated''] False = Inr granted"
      "(if granted then Inr True else bindE (mapping_bool older [''local_only''] False) (\<lambda>local_only.
          if local_only then Inr False
          else mapping_bool older [''isolated_branch'', ''create_isolated_branch''] False)) = Inr isolated"
      "mapping_bool older [''merge''] False = Inr old_merge" "mapping_bool newer [''merge''] old_merge = Inr merge"
      "mapping_bool older [''deploy''] False = Inr old_deploy" "mapping_bool newer [''deploy''] old_deploy = Inr deploy"
      "sc = \<lparr>isolated_branch = isolated, scope_merge = merge, scope_deploy = deploy\<rparr>"
    using assms(1) by (auto simp: resolve_effect_scope_def)
  consider "action = ''merge''" "merge" | "action = ''deploy''" "deploy"
    | "action \<in> {''create_isolated_branch'', ''create_branch'', ''write_isolated''}" "isolated"
    using assms(2) by (auto simp: steps(7) scope_allows_def split: if_splits)
  then show ?thesis
  proof cases
    case 1
    then show ?thesis
      using mapping_bool_True [of newer "[''merge'']" old_merge] mapping_bool_True [of older "[''merge'']" False] steps(3,4)
      by (auto simp: grant_keys_def)
  next
    case 2
    then show ?thesis
      using mapping_bool_True [of newer "[''deploy'']" old_deploy] mapping_bool_True [of older "[''deploy'']" False] steps(5,6)
      by (auto simp: grant_keys_def)
  next
    case 3
    show ?thesis
    proof (cases granted)
      case True
      then have "\<exists>k \<in> {''create_isolated_branch'', ''create_branch'', ''write_isolated''}. dict_get newer k = Some (PBool True)"
        using mapping_bool_True [of newer "[''create_isolated_branch'', ''create_branch'', ''write_isolated'']" False] steps(1) by simp
      then obtain k where k: "k \<in> {''create_isolated_branch'', ''create_branch'', ''write_isolated''}"
          "dict_get newer k = Some (PBool True)" ..
      show ?thesis
      proof (intro conjI disjI1 bexI [of _ k])
        show "action \<in> {''create_isolated_branch'', ''create_branch'', ''write_isolated'', ''merge'', ''deploy''}"
          using 3(1) by (elim insertE) simp_all
        show "k \<in> grant_keys action"
          using k(1) 3(1) by (elim insertE) (simp_all add: grant_keys_def)
      qed (rule k(2))
    next
      case False
      then have old: "mapping_bool older [''local_only''] False = Inr False"
        "mapping_bool older [''isolated_branch'', ''create_isolated_branch''] False = Inr True"
        using steps(2) 3(2) by (auto split: if_splits)
      have "\<exists>k \<in> {''isolated_branch'', ''create_isolated_branch''}. dict_get older k = Some (PBool True)"
        using mapping_bool_True [of older "[''isolated_branch'', ''create_isolated_branch'']" False] old(2) by simp
      then obtain k where k: "k \<in> {''isolated_branch'', ''create_isolated_branch''}"
          "dict_get older k = Some (PBool True)" ..
      have local_only: "dict_get older ''local_only'' \<noteq> Some (PBool True)"
        using old(1) by (cases "dict_get older ''local_only''") (auto simp: require_bool_def)
      have act: "action \<noteq> ''merge'' \<and> action \<noteq> ''deploy''"
        using 3(1) by (elim insertE) simp_all
      show ?thesis
      proof (intro conjI disjI2 bexI [of _ k])
        show "action \<in> {''create_isolated_branch'', ''create_branch'', ''write_isolated'', ''merge'', ''deploy''}"
          using 3(1) by (elim insertE) simp_all
        show "k \<in> grant_keys action"
          using k(1) act by (elim insertE) (simp_all add: grant_keys_def)
        show "if action = ''merge'' \<or> action = ''deploy'' then dict_get newer action = None
            else dict_get older ''local_only'' \<noteq> Some (PBool True)"
          using local_only act by simp
      qed (rule k(2))
    qed
  qed
qed

theorem effect_scope_needs_a_grant_witness:
  "dict_get [(''merge'', PBool True)] ''merge'' = Some (PBool True) \<and>
   scope_allows (projr (resolve_effect_scope (PDict [(''merge'', PBool True)]) (PDict []))) ''merge''"
proof -
  let ?sc = "\<lparr>isolated_branch = False, scope_merge = True, scope_deploy = False\<rparr>"
  have sc: "resolve_effect_scope (PDict [(''merge'', PBool True)]) (PDict []) = Inr ?sc"
    by (simp add: resolve_effect_scope_def require_bool_def)
  have "scope_allows ?sc ''merge''"
    by (simp add: scope_allows_def)
  with effect_scope_needs_a_grant [OF sc this] show ?thesis
    using sc by (simp add: grant_keys_def)
qed

text \<open>
  Merging and deploying follow the newer mapping, a branch does not: a newer explicit refusal is
  overridden by an older grant.
\<close>

lemma newer_branch_refusal_overridden:
  "resolve_effect_scope (PDict [(''isolated_branch'', PBool True), (''merge'', PBool True)])
     (PDict [(''create_isolated_branch'', PBool False), (''merge'', PBool False)]) =
   Inr \<lparr>isolated_branch = True, scope_merge = False, scope_deploy = False\<rparr>"
  by (simp add: resolve_effect_scope_def require_bool_def)

end
