(* ===== verification/Ledger.thy ===== *)
theory Ledger
  imports Json
begin

text \<open>
  The assignment ledger of the chat bus (\<open>src/src/chat_bus/ledger.py\<close>, \<open>digests.py\<close>) over its
  SQLite schema (\<open>schema.sql\<close>): the tables, the constraints and the triggers that validate a
  transition event and project it on its assignment. A failing statement is rolled back, so
  every operation returns its result with the new tables or an exception and the old ones. Of
  the messages of SQLite's own constraint errors only the kind is kept.
\<close>

section \<open>Digests\<close>

definition is_sha256 :: "pyval \<Rightarrow> bool" where
  "is_sha256 v = (case v of PStr s \<Rightarrow> length s = 64 \<and> (\<forall>c \<in> set s. is_hex_lower c) | _ \<Rightarrow> False)"

definition require_sha256 :: "pyval \<Rightarrow> string \<Rightarrow> exn + string" where
  "require_sha256 v field = requireE (is_sha256 v)
     (ValueError (field @ '' must be exactly 64 lowercase hexadecimal characters'')) (Inr (text_of v))"

section \<open>Tables\<close>

datatype lifecycle =
    DRAFTED | ASSIGNED | ACKNOWLEDGED | RUNNING | REVIEW_PENDING | PAUSED_USAGE_EXHAUSTED
  | INTERRUPTED | HANDED_OFF | CHANGES_REQUESTED | STOPPED | CONFIRMED | SUPERSEDED

datatype context_action =
    NONE | SET_PAUSE | RESUME_PAUSE | SET_INTERRUPT | SET_INTERRUPT_FROM_PAUSE
  | RECOVER_INTERRUPT | CLEAR_CONTEXT | SUPERSEDE

record transition_rule =
  rule_from :: lifecycle
  rule_to :: lifecycle
  rule_actor :: string
  rule_context :: context_action

definition rule :: "lifecycle \<Rightarrow> lifecycle \<Rightarrow> string \<Rightarrow> context_action \<Rightarrow> transition_rule" where
  "rule f t a c = \<lparr>rule_from = f, rule_to = t, rule_actor = a, rule_context = c\<rparr>"

definition TRANSITION_RULES :: "(string, transition_rule) dict" where
  "TRANSITION_RULES =
    [(''ASSIGN'', rule DRAFTED ASSIGNED ''COORDINATOR'' NONE),
     (''ACKNOWLEDGE'', rule ASSIGNED ACKNOWLEDGED ''PRODUCER'' NONE),
     (''START'', rule ACKNOWLEDGED RUNNING ''PRODUCER'' NONE),
     (''REQUEST_REVIEW'', rule RUNNING REVIEW_PENDING ''PRODUCER'' NONE),
     (''CONFIRM'', rule REVIEW_PENDING CONFIRMED ''REVIEWER'' CLEAR_CONTEXT),
     (''CHANGES_REQUEST'', rule REVIEW_PENDING CHANGES_REQUESTED ''REVIEWER'' CLEAR_CONTEXT),
     (''CORRECT'', rule CHANGES_REQUESTED RUNNING ''PRODUCER'' CLEAR_CONTEXT),
     (''HANDOFF'', rule RUNNING HANDED_OFF ''PRODUCER'' NONE),
     (''REOPEN_HANDOFF'', rule HANDED_OFF RUNNING ''COORDINATOR'' NONE),
     (''PAUSE_FROM_ACKNOWLEDGED'', rule ACKNOWLEDGED PAUSED_USAGE_EXHAUSTED ''OPERATOR'' SET_PAUSE),
     (''PAUSE_FROM_RUNNING'', rule RUNNING PAUSED_USAGE_EXHAUSTED ''OPERATOR'' SET_PAUSE),
     (''PAUSE_FROM_REVIEW_PENDING'', rule REVIEW_PENDING PAUSED_USAGE_EXHAUSTED ''OPERATOR'' SET_PAUSE),
     (''RESUME_TO_ACKNOWLEDGED'', rule PAUSED_USAGE_EXHAUSTED ACKNOWLEDGED ''OPERATOR'' RESUME_PAUSE),
     (''RESUME_TO_RUNNING'', rule PAUSED_USAGE_EXHAUSTED RUNNING ''OPERATOR'' RESUME_PAUSE),
     (''RESUME_TO_REVIEW_PENDING'', rule PAUSED_USAGE_EXHAUSTED REVIEW_PENDING ''OPERATOR'' RESUME_PAUSE),
     (''INTERRUPT_FROM_ACKNOWLEDGED'', rule ACKNOWLEDGED INTERRUPTED ''OPERATOR'' SET_INTERRUPT),
     (''INTERRUPT_FROM_RUNNING'', rule RUNNING INTERRUPTED ''OPERATOR'' SET_INTERRUPT),
     (''INTERRUPT_FROM_REVIEW_PENDING'', rule REVIEW_PENDING INTERRUPTED ''OPERATOR'' SET_INTERRUPT),
     (''INTERRUPT_FROM_PAUSED'', rule PAUSED_USAGE_EXHAUSTED INTERRUPTED ''OPERATOR'' SET_INTERRUPT_FROM_PAUSE),
     (''RECOVER_TO_ACKNOWLEDGED'', rule INTERRUPTED ACKNOWLEDGED ''OPERATOR'' RECOVER_INTERRUPT),
     (''RECOVER_TO_RUNNING'', rule INTERRUPTED RUNNING ''OPERATOR'' RECOVER_INTERRUPT),
     (''RECOVER_TO_REVIEW_PENDING'', rule INTERRUPTED REVIEW_PENDING ''OPERATOR'' RECOVER_INTERRUPT),
     (''RECOVER_TO_PAUSED'', rule INTERRUPTED PAUSED_USAGE_EXHAUSTED ''OPERATOR'' RECOVER_INTERRUPT),
     (''STOP_FROM_DRAFTED'', rule DRAFTED STOPPED ''OPERATOR'' CLEAR_CONTEXT),
     (''STOP_FROM_ASSIGNED'', rule ASSIGNED STOPPED ''OPERATOR'' CLEAR_CONTEXT),
     (''STOP_FROM_ACKNOWLEDGED'', rule ACKNOWLEDGED STOPPED ''OPERATOR'' CLEAR_CONTEXT),
     (''STOP_FROM_RUNNING'', rule RUNNING STOPPED ''OPERATOR'' CLEAR_CONTEXT),
     (''STOP_FROM_REVIEW_PENDING'', rule REVIEW_PENDING STOPPED ''OPERATOR'' CLEAR_CONTEXT),
     (''STOP_FROM_PAUSED'', rule PAUSED_USAGE_EXHAUSTED STOPPED ''OPERATOR'' CLEAR_CONTEXT),
     (''STOP_FROM_INTERRUPTED'', rule INTERRUPTED STOPPED ''OPERATOR'' CLEAR_CONTEXT),
     (''STOP_FROM_HANDED_OFF'', rule HANDED_OFF STOPPED ''OPERATOR'' CLEAR_CONTEXT),
     (''STOP_FROM_CHANGES_REQUESTED'', rule CHANGES_REQUESTED STOPPED ''OPERATOR'' CLEAR_CONTEXT),
     (''SUPERSEDE'', rule DRAFTED SUPERSEDED ''COORDINATOR'' SUPERSEDE)]"

definition ARCHITECTURE_MODES :: "string list" where
  "ARCHITECTURE_MODES = [''NATIVE_MULTI_AGENT'', ''FALLBACK_COORDINATOR_RELAY'']"

record assignment_row =
  workflow_id :: string
  architecture_mode :: string
  current_state :: lifecycle
  current_event :: "int option"
  pre_pause_state :: "lifecycle option"
  pre_interrupt_state :: "lifecycle option"
  nested_pause_state :: "lifecycle option"
  superseded_by :: "string option"
  row_created_at_ms :: int

record event_row =
  event_id :: int
  ev_assignment :: string
  transition_type :: string
  ev_actor :: string
  from_state :: lifecycle
  to_state :: lifecycle
  predecessor_event :: "int option"
  operation_id :: string
  receipt_sha256 :: string
  target_assignment :: "string option"
  ev_created_at_ms :: int

record acceptance_row =
  receipt_id :: int
  acc_assignment :: string
  acc_mode :: string
  disposition :: string
  readback_confirmed :: bool
  evidence_sha256 :: string
  acc_created_at_ms :: int

text \<open>The rows of \<open>assignments\<close> by their primary key, the two logs, and their id sequences.\<close>

record ledger =
  assignment_rows :: "(string, assignment_row) dict"
  events :: "event_row list"
  event_seq :: int
  acceptances :: "acceptance_row list"
  acceptance_seq :: int

definition empty_ledger :: ledger where
  "empty_ledger = \<lparr>assignment_rows = [], events = [], event_seq = 0, acceptances = [], acceptance_seq = 0\<rparr>"

text \<open>\<open>created_at_ms\<close>, or the wall clock in its place.\<close>

definition created_or :: "int option \<Rightarrow> int \<Rightarrow> int" where
  "created_or created clock = (case created of None \<Rightarrow> clock | Some t \<Rightarrow> t)"

definition check_failed :: exn where
  "check_failed = LedgerError ''CHECK constraint failed''"

definition unique_failed :: exn where
  "unique_failed = LedgerError ''UNIQUE constraint failed''"

definition foreign_key_failed :: exn where
  "foreign_key_failed = LedgerError ''FOREIGN KEY constraint failed''"

section \<open>Assignments\<close>

definition create_assignment ::
  "ledger \<Rightarrow> string \<Rightarrow> string \<Rightarrow> string \<Rightarrow> int option \<Rightarrow> int \<Rightarrow> exn + unit \<times> ledger" where
  "create_assignment l aid wid mode created_arg clock =
    (let created = created_or created_arg clock in
     requireE (aid \<noteq> [] \<and> wid \<noteq> [] \<and> mode \<in> set ARCHITECTURE_MODES \<and> 0 \<le> created) check_failed
     (requireE (\<not> dict_has (assignment_rows l) aid) unique_failed
     (Inr ((), l\<lparr>assignment_rows := dict_set (assignment_rows l) aid
        \<lparr>workflow_id = wid, architecture_mode = mode, current_state = DRAFTED, current_event = None,
         pre_pause_state = None, pre_interrupt_state = None, nested_pause_state = None,
         superseded_by = None, row_created_at_ms = created\<rparr>\<rparr>))))"

definition inspect_assignment :: "ledger \<Rightarrow> string \<Rightarrow> exn + assignment_row" where
  "inspect_assignment l aid = (case dict_get (assignment_rows l) aid of
      None \<Rightarrow> Inl (LedgerError ''NOT_FOUND'') | Some r \<Rightarrow> Inr r)"

section \<open>Transition events\<close>

text \<open>A comparison \<open>x <> y\<close> with \<open>NULL\<close> is not true.\<close>

definition differs :: "lifecycle \<Rightarrow> lifecycle option \<Rightarrow> bool" where
  "differs x y = (case y of None \<Rightarrow> False | Some z \<Rightarrow> x \<noteq> z)"

text \<open>The trigger \<open>transition_event_validate_before_insert\<close>.\<close>

definition validate_event :: "ledger \<Rightarrow> event_row \<Rightarrow> exn + unit" where
  "validate_event l e =
    (let row = dict_get (assignment_rows l) (ev_assignment e);
         rl = dict_get TRANSITION_RULES (transition_type e);
         ctx = map_option rule_context rl in
     requireE (case (row, rl) of
         (Some a, Some r) \<Rightarrow> current_state a = from_state e \<and> rule_from r = from_state e \<and>
           rule_to r = to_state e \<and> rule_actor r = ev_actor e
       | _ \<Rightarrow> False) (LedgerError ''ILLEGAL_TRANSITION'')
     (requireE ((case Option.bind row current_event of None \<Rightarrow> - 1 | Some i \<Rightarrow> i) =
         (case predecessor_event e of None \<Rightarrow> - 1 | Some i \<Rightarrow> i)) (LedgerError ''STALE_PREDECESSOR'')
     (requireE (case predecessor_event e of
         None \<Rightarrow> True
       | Some i \<Rightarrow> \<exists>p \<in> set (events l). event_id p = i \<and> ev_assignment p = ev_assignment e)
       (LedgerError ''CROSS_ASSIGNMENT_PREDECESSOR'')
     (requireE (transition_type e = ''SUPERSEDE'' \<longrightarrow> (case target_assignment e of
         None \<Rightarrow> False | Some t \<Rightarrow> t \<noteq> ev_assignment e \<and> dict_has (assignment_rows l) t))
       (LedgerError ''INVALID_SUPERSESSION_TARGET'')
     (requireE (transition_type e \<noteq> ''SUPERSEDE'' \<longrightarrow> target_assignment e = None)
       (LedgerError ''UNEXPECTED_TARGET_ASSIGNMENT'')
     (requireE (\<not> (ctx = Some RESUME_PAUSE \<and> differs (to_state e) (Option.bind row pre_pause_state)))
       (LedgerError ''PAUSE_RESUME_TARGET_MISMATCH'')
     (requireE (\<not> (ctx = Some RECOVER_INTERRUPT \<and> differs (to_state e) (Option.bind row pre_interrupt_state)))
       (LedgerError ''INTERRUPT_RECOVERY_TARGET_MISMATCH'')
       (Inr ()))))))))"

text \<open>The column checks and the uniqueness of \<open>(assignment_id, operation_id)\<close>.\<close>

definition event_constraints :: "ledger \<Rightarrow> event_row \<Rightarrow> exn + unit" where
  "event_constraints l e =
    requireE (ev_assignment e \<noteq> [] \<and> transition_type e \<noteq> [] \<and> is_sha256 (PStr (receipt_sha256 e)) \<and>
        0 \<le> ev_created_at_ms e) check_failed
    (requireE (\<not> (\<exists>p \<in> set (events l). ev_assignment p = ev_assignment e \<and> operation_id p = operation_id e))
      unique_failed (Inr ()))"

text \<open>The row the trigger \<open>transition_apply_after_insert\<close> writes.\<close>

definition projected_row :: "event_row \<Rightarrow> assignment_row \<Rightarrow> assignment_row" where
  "projected_row e old =
    (let ctx = map_option rule_context (dict_get TRANSITION_RULES (transition_type e)) in
     old\<lparr>current_state := to_state e, current_event := Some (event_id e),
       pre_pause_state :=
         (if ctx = Some SET_PAUSE then Some (from_state e)
          else if ctx = Some RECOVER_INTERRUPT \<and> pre_interrupt_state old = Some PAUSED_USAGE_EXHAUSTED
          then nested_pause_state old else None),
       pre_interrupt_state :=
         (if ctx = Some SET_INTERRUPT then Some (from_state e)
          else if ctx = Some SET_INTERRUPT_FROM_PAUSE then Some PAUSED_USAGE_EXHAUSTED else None),
       nested_pause_state := (if ctx = Some SET_INTERRUPT_FROM_PAUSE then pre_pause_state old else None),
       superseded_by := (if transition_type e = ''SUPERSEDE'' then target_assignment e else superseded_by old)\<rparr>)"

text \<open>The trigger \<open>assignment_projection_guard_before_update\<close>, for the row of one assignment.\<close>

definition projection_guard :: "ledger \<Rightarrow> string \<Rightarrow> assignment_row \<Rightarrow> assignment_row \<Rightarrow> exn + unit" where
  "projection_guard l aid old new =
    requireE (workflow_id new = workflow_id old \<and> architecture_mode new = architecture_mode old \<and>
        row_created_at_ms new = row_created_at_ms old) (LedgerError ''IMMUTABLE_ASSIGNMENT_IDENTITY'')
    (requireE (new = old \<or> (\<exists>e \<in> set (events l). Some (event_id e) = current_event new \<and> ev_assignment e = aid \<and>
          predecessor_event e = current_event old \<and> from_state e = current_state old \<and>
          to_state e = current_state new \<and>
          (superseded_by new = superseded_by old \<or>
           transition_type e = ''SUPERSEDE'' \<and> superseded_by new \<noteq> None \<and> superseded_by new = target_assignment e)))
      (LedgerError ''PROJECTION_REQUIRES_BOUND_TRANSITION'') (Inr ()))"

text \<open>The state-dependent checks of an assignment row.\<close>

definition row_constraints :: "assignment_row \<Rightarrow> bool" where
  "row_constraints r \<longleftrightarrow>
     (current_state r = PAUSED_USAGE_EXHAUSTED \<longleftrightarrow> pre_pause_state r \<noteq> None) \<and>
     (current_state r = INTERRUPTED \<longleftrightarrow> pre_interrupt_state r \<noteq> None) \<and>
     (nested_pause_state r = None \<or>
      current_state r = INTERRUPTED \<and> pre_interrupt_state r = Some PAUSED_USAGE_EXHAUSTED) \<and>
     (superseded_by r = None \<or> current_state r = SUPERSEDED)"

text \<open>One \<open>INSERT\<close> into \<open>transition_events\<close> with everything it sets off.\<close>

definition insert_event :: "ledger \<Rightarrow> event_row \<Rightarrow> exn + ledger" where
  "insert_event l e =
    bindE (validate_event l e) (\<lambda>_.
    bindE (event_constraints l e) (\<lambda>_.
    let l1 = l\<lparr>events := events l @ [e], event_seq := event_id e\<rparr> in
    case dict_get (assignment_rows l) (ev_assignment e) of
      None \<Rightarrow> Inl foreign_key_failed
    | Some old \<Rightarrow>
        let new = projected_row e old in
        bindE (projection_guard l1 (ev_assignment e) old new) (\<lambda>_.
        requireE (row_constraints new) check_failed
        (Inr (l1\<lparr>assignment_rows := dict_set (assignment_rows l) (ev_assignment e) new\<rparr>)))))"

definition apply_transition ::
  "ledger \<Rightarrow> string \<Rightarrow> string \<Rightarrow> string \<Rightarrow> string \<Rightarrow> pyval \<Rightarrow> string option \<Rightarrow> int option \<Rightarrow> int \<Rightarrow>
   exn + int \<times> ledger" where
  "apply_transition l aid ttype actor op digest_arg target created_arg clock =
    bindE (require_sha256 digest_arg ''receipt_sha256'') (\<lambda>digest.
    bindE (inspect_assignment l aid) (\<lambda>snapshot.
    case dict_get TRANSITION_RULES ttype of
      None \<Rightarrow> Inl (LedgerError ''UNKNOWN_TRANSITION_TYPE'')
    | Some rl \<Rightarrow>
        requireE (rule_actor rl = actor) (LedgerError ''ACTOR_MISMATCH'')
        (let e = \<lparr>event_id = event_seq l + 1, ev_assignment = aid, transition_type = ttype, ev_actor = actor,
                  from_state = current_state snapshot, to_state = rule_to rl,
                  predecessor_event = current_event snapshot, operation_id = op, receipt_sha256 = digest,
                  target_assignment = target, ev_created_at_ms = created_or created_arg clock\<rparr> in
         bindE (insert_event l e) (\<lambda>l'.
         case dict_get (assignment_rows l') aid of
           None \<Rightarrow> Inl (LedgerError ''PROJECTION_NOT_ADVANCED'')
         | Some projected \<Rightarrow>
             requireE (current_event projected = Some (event_id e)) (LedgerError ''PROJECTION_NOT_ADVANCED'')
             (requireE (current_state projected = rule_to rl) (LedgerError ''PROJECTION_STATE_MISMATCH'')
               (Inr (event_id e, l')))))))"

section \<open>Final acceptance\<close>

definition record_final_acceptance ::
  "ledger \<Rightarrow> string \<Rightarrow> string \<Rightarrow> string \<Rightarrow> pyval \<Rightarrow> pyval \<Rightarrow> int option \<Rightarrow> int \<Rightarrow> exn + int \<times> ledger" where
  "record_final_acceptance l aid mode disp readback_arg digest_arg created_arg clock = (case readback_arg of
      PBool readback \<Rightarrow>
        bindE (require_sha256 digest_arg ''evidence_sha256'') (\<lambda>digest.
        let created = created_or created_arg clock; rid = acceptance_seq l + 1 in
        requireE (case dict_get (assignment_rows l) aid of
            None \<Rightarrow> False | Some a \<Rightarrow> current_state a = CONFIRMED \<and> architecture_mode a = mode)
          (LedgerError ''ACCEPTANCE_ASSIGNMENT_MODE_OR_STATE_MISMATCH'')
        (requireE (\<not> (disp = ''PASS'' \<and> \<not> readback)) (LedgerError ''PASS_REQUIRES_READBACK'')
        (requireE (aid \<noteq> [] \<and> mode \<in> set ARCHITECTURE_MODES \<and> disp \<in> {''PASS'', ''FAIL''} \<and> 0 \<le> created) check_failed
        (requireE (\<not> (\<exists>r \<in> set (acceptances l). acc_assignment r = aid)) unique_failed
        (Inr (rid, l\<lparr>acceptances := acceptances l @
            [\<lparr>receipt_id = rid, acc_assignment = aid, acc_mode = mode, disposition = disp,
              readback_confirmed = readback, evidence_sha256 = digest, acc_created_at_ms = created\<rparr>],
            acceptance_seq := rid\<rparr>))))))
    | _ \<Rightarrow> Inl (LedgerError ''READBACK_CONFIRMED_MUST_BE_BOOL''))"

section \<open>The rules\<close>

abbreviation WORK :: "lifecycle set" where
  "WORK \<equiv> {ACKNOWLEDGED, RUNNING, REVIEW_PENDING}"

text \<open>What the table says about each kind of context action.\<close>

definition rule_sound :: "transition_rule \<Rightarrow> bool" where
  "rule_sound r \<longleftrightarrow> rule_from r \<notin> {STOPPED, CONFIRMED, SUPERSEDED} \<and> (case rule_context r of
      SET_PAUSE \<Rightarrow> rule_from r \<in> WORK \<and> rule_to r = PAUSED_USAGE_EXHAUSTED
    | RESUME_PAUSE \<Rightarrow> rule_from r = PAUSED_USAGE_EXHAUSTED \<and> rule_to r \<in> WORK
    | SET_INTERRUPT \<Rightarrow> rule_from r \<in> WORK \<and> rule_to r = INTERRUPTED
    | SET_INTERRUPT_FROM_PAUSE \<Rightarrow> rule_from r = PAUSED_USAGE_EXHAUSTED \<and> rule_to r = INTERRUPTED
    | RECOVER_INTERRUPT \<Rightarrow> rule_from r = INTERRUPTED \<and> rule_to r \<in> insert PAUSED_USAGE_EXHAUSTED WORK
    | SUPERSEDE \<Rightarrow> rule_to r = SUPERSEDED
    | _ \<Rightarrow> rule_to r \<notin> {PAUSED_USAGE_EXHAUSTED, INTERRUPTED, SUPERSEDED})"

lemma rules_sound: "\<forall>(t, r) \<in> set TRANSITION_RULES. rule_sound r \<and> t \<noteq> [] \<and> (rule_context r = SUPERSEDE \<longleftrightarrow> t = ''SUPERSEDE'')"
  by code_simp

lemma rule_sound: "dict_get TRANSITION_RULES t = Some r \<Longrightarrow> rule_sound r"
  and rule_named: "dict_get TRANSITION_RULES t = Some r \<Longrightarrow> t \<noteq> []"
  and rule_supersedes: "dict_get TRANSITION_RULES t = Some r \<Longrightarrow> rule_context r = SUPERSEDE \<longleftrightarrow> t = ''SUPERSEDE''"
  using rules_sound by (fast dest: map_of_SomeD)+

section \<open>The invariant\<close>

definition history :: "ledger \<Rightarrow> string \<Rightarrow> event_row list" where
  "history l aid = filter (\<lambda>e. ev_assignment e = aid) (events l)"

definition fresh_row :: "assignment_row \<Rightarrow> assignment_row" where
  "fresh_row r = r\<lparr>current_state := DRAFTED, current_event := None, pre_pause_state := None,
     pre_interrupt_state := None, nested_pause_state := None, superseded_by := None\<rparr>"

text \<open>Events form a chain: each continues from the event and the state before it.\<close>

fun linked :: "int option \<Rightarrow> lifecycle \<Rightarrow> event_row list \<Rightarrow> bool" where
  "linked p s [] = True"
| "linked p s (e # es) = (predecessor_event e = p \<and> from_state e = s \<and> linked (Some (event_id e)) (to_state e) es)"

definition event_allowed :: "event_row \<Rightarrow> bool" where
  "event_allowed e \<longleftrightarrow> (\<exists>r. dict_get TRANSITION_RULES (transition_type e) = Some r \<and> rule_from r = from_state e \<and>
     rule_to r = to_state e \<and> rule_actor r = ev_actor e)"

definition row_wf :: "assignment_row \<Rightarrow> bool" where
  "row_wf r \<longleftrightarrow> row_constraints r \<and> architecture_mode r \<in> set ARCHITECTURE_MODES \<and>
     set_option (pre_pause_state r) \<subseteq> WORK \<and> set_option (pre_interrupt_state r) \<subseteq> insert PAUSED_USAGE_EXHAUSTED WORK \<and>
     set_option (nested_pause_state r) \<subseteq> WORK \<and>
     (pre_interrupt_state r = Some PAUSED_USAGE_EXHAUSTED \<longleftrightarrow> nested_pause_state r \<noteq> None)"

definition ledger_wf :: "ledger \<Rightarrow> bool" where
  "ledger_wf l \<longleftrightarrow>
     (\<forall>aid row. dict_get (assignment_rows l) aid = Some row \<longrightarrow> aid \<noteq> [] \<and> row_wf row \<and>
        row = fold projected_row (history l aid) (fresh_row row) \<and>
        current_event row = (if history l aid = [] then None else Some (event_id (last (history l aid))))) \<and>
     (\<forall>aid. linked None DRAFTED (history l aid)) \<and>
     (\<forall>e \<in> set (events l). event_allowed e \<and> dict_has (assignment_rows l) (ev_assignment e)) \<and>
     sorted_wrt (<) (map event_id (events l)) \<and> (\<forall>e \<in> set (events l). event_id e \<le> event_seq l) \<and>
     distinct (map (\<lambda>e. (ev_assignment e, operation_id e)) (events l)) \<and>
     distinct (map acc_assignment (acceptances l)) \<and>
     (\<forall>a \<in> set (acceptances l). (disposition a = ''PASS'' \<longrightarrow> readback_confirmed a) \<and>
        (\<exists>row. dict_get (assignment_rows l) (acc_assignment a) = Some row \<and> current_state row = CONFIRMED \<and>
          architecture_mode row = acc_mode a))"

lemma ledger_wf_empty: "ledger_wf empty_ledger"
  by (simp add: ledger_wf_def empty_ledger_def history_def)

lemma ledger_wfD:
  assumes "ledger_wf l"
  shows "dict_get (assignment_rows l) aid = Some row \<Longrightarrow> aid \<noteq> [] \<and> row_wf row \<and>
      row = fold projected_row (history l aid) (fresh_row row) \<and>
      current_event row = (if history l aid = [] then None else Some (event_id (last (history l aid))))"
    and "linked None DRAFTED (history l aid)"
    and "e \<in> set (events l) \<Longrightarrow> event_allowed e \<and> dict_has (assignment_rows l) (ev_assignment e)"
    and "sorted_wrt (<) (map event_id (events l))" and "e \<in> set (events l) \<Longrightarrow> event_id e \<le> event_seq l"
    and "distinct (map (\<lambda>e. (ev_assignment e, operation_id e)) (events l))"
    and "distinct (map acc_assignment (acceptances l))"
    and "a \<in> set (acceptances l) \<Longrightarrow> disposition a = ''PASS'' \<Longrightarrow> readback_confirmed a"
    and "a \<in> set (acceptances l) \<Longrightarrow> \<exists>row. dict_get (assignment_rows l) (acc_assignment a) = Some row \<and>
      current_state row = CONFIRMED \<and> architecture_mode row = acc_mode a"
  using assms unfolding ledger_wf_def by blast+

text \<open>The states an assignment will come back to, the current one first.\<close>

definition suspension :: "assignment_row \<Rightarrow> lifecycle list" where
  "suspension r = current_state r #
     (case pre_interrupt_state r of
        Some s \<Rightarrow> s # (case nested_pause_state r of Some x \<Rightarrow> [x] | None \<Rightarrow> [])
      | None \<Rightarrow> (case pre_pause_state r of Some s \<Rightarrow> [s] | None \<Rightarrow> []))"

fun suspension_step :: "context_action \<Rightarrow> lifecycle \<Rightarrow> lifecycle list \<Rightarrow> lifecycle list" where
  "suspension_step SET_PAUSE t st = t # st"
| "suspension_step SET_INTERRUPT t st = t # st"
| "suspension_step SET_INTERRUPT_FROM_PAUSE t st = t # st"
| "suspension_step RESUME_PAUSE t st = tl st"
| "suspension_step RECOVER_INTERRUPT t st = tl st"
| "suspension_step _ t st = [t]"

text \<open>A rule applies when its source is current and, for a return, its target is where to return to.\<close>

definition rule_applies :: "transition_rule \<Rightarrow> assignment_row \<Rightarrow> bool" where
  "rule_applies rl row \<longleftrightarrow> rule_from rl = current_state row \<and>
     (rule_context rl \<in> {RESUME_PAUSE, RECOVER_INTERRUPT} \<longrightarrow> rule_to rl = suspension row ! 1)"

lemma row_wf_cases:
  assumes "row_wf row"
  obtains (plain) "current_state row \<notin> {PAUSED_USAGE_EXHAUSTED, INTERRUPTED}" "pre_pause_state row = None"
      "pre_interrupt_state row = None" "nested_pause_state row = None"
  | (paused) w where "w \<in> WORK" "current_state row = PAUSED_USAGE_EXHAUSTED" "pre_pause_state row = Some w"
      "pre_interrupt_state row = None" "nested_pause_state row = None"
  | (interrupted) w where "w \<in> WORK" "current_state row = INTERRUPTED" "pre_pause_state row = None"
      "pre_interrupt_state row = Some w" "nested_pause_state row = None"
  | (interrupted_pause) w where "w \<in> WORK" "current_state row = INTERRUPTED" "pre_pause_state row = None"
      "pre_interrupt_state row = Some PAUSED_USAGE_EXHAUSTED" "nested_pause_state row = Some w"
proof (cases "current_state row \<in> {PAUSED_USAGE_EXHAUSTED, INTERRUPTED}")
  case False
  then show thesis
    using assms by (intro plain) (auto simp: row_wf_def row_constraints_def)
next
  case True
  then consider "current_state row = PAUSED_USAGE_EXHAUSTED" | "current_state row = INTERRUPTED" "nested_pause_state row = None"
    | "current_state row = INTERRUPTED" "nested_pause_state row \<noteq> None"
    by blast
  then show thesis
  proof cases
    case 1
    then show thesis
      using assms by (intro paused [of "the (pre_pause_state row)"]) (auto simp: row_wf_def row_constraints_def)
  next
    case 2
    then show thesis
      using assms by (intro interrupted [of "the (pre_interrupt_state row)"]) (auto simp: row_wf_def row_constraints_def)
  next
    case 3
    then show thesis
      using assms by (intro interrupted_pause [of "the (nested_pause_state row)"]) (auto simp: row_wf_def row_constraints_def)
  qed
qed

lemma projected_row_sound:
  assumes row: "row_wf row" and rl: "dict_get TRANSITION_RULES (transition_type e) = Some rl"
    and e: "from_state e = current_state row" "to_state e = rule_to rl" and applies: "rule_applies rl row"
    and target: "transition_type e \<noteq> ''SUPERSEDE'' \<longrightarrow> target_assignment e = None"
  shows "row_wf (projected_row e row) \<and>
    suspension (projected_row e row) = suspension_step (rule_context rl) (rule_to rl) (suspension row)"
proof -
  define sup where "sup \<longleftrightarrow> transition_type e = ''SUPERSEDE''"
  have sup: "sup \<longleftrightarrow> rule_context rl = SUPERSEDE"
    unfolding sup_def by (rule rule_supersedes [OF rl, symmetric])
  have from_ok: "rule_from rl = current_state row" and ret: "rule_context rl \<in> {RESUME_PAUSE, RECOVER_INTERRUPT} \<Longrightarrow>
      rule_to rl = suspension row ! 1"
    using applies by (auto simp: rule_applies_def)
  have no_sup: "superseded_by row = None"
    using row rule_sound [OF rl] from_ok by (auto simp: row_wf_def row_constraints_def rule_sound_def)
  have mode: "architecture_mode row \<in> set ARCHITECTURE_MODES"
    using row by (simp add: row_wf_def)
  have proj: "projected_row e row = row\<lparr>current_state := rule_to rl, current_event := Some (event_id e),
       pre_pause_state :=
         (if rule_context rl = SET_PAUSE then Some (current_state row)
          else if rule_context rl = RECOVER_INTERRUPT \<and> pre_interrupt_state row = Some PAUSED_USAGE_EXHAUSTED
          then nested_pause_state row else None),
       pre_interrupt_state :=
         (if rule_context rl = SET_INTERRUPT then Some (current_state row)
          else if rule_context rl = SET_INTERRUPT_FROM_PAUSE then Some PAUSED_USAGE_EXHAUSTED else None),
       nested_pause_state := (if rule_context rl = SET_INTERRUPT_FROM_PAUSE then pre_pause_state row else None),
       superseded_by := (if sup then target_assignment e else None)\<rparr>"
    by (simp add: projected_row_def rl e no_sup sup_def Let_def)
  show ?thesis
    unfolding proj using row rule_sound [OF rl] from_ok ret sup mode
    by (cases row rule: row_wf_cases; cases "rule_context rl")
      (auto simp: row_wf_def row_constraints_def rule_sound_def suspension_def)
qed

section \<open>When a transition succeeds\<close>

definition target_ok :: "ledger \<Rightarrow> string \<Rightarrow> string \<Rightarrow> string option \<Rightarrow> bool" where
  "target_ok l aid ttype target \<longleftrightarrow> (if ttype = ''SUPERSEDE''
     then \<exists>t. target = Some t \<and> t \<noteq> aid \<and> dict_has (assignment_rows l) t else target = None)"

definition op_unused :: "ledger \<Rightarrow> string \<Rightarrow> string \<Rightarrow> bool" where
  "op_unused l aid op \<longleftrightarrow> (\<forall>p \<in> set (history l aid). operation_id p \<noteq> op)"

text \<open>The event an application of a rule to a row submits.\<close>

definition event_of ::
  "ledger \<Rightarrow> string \<Rightarrow> assignment_row \<Rightarrow> string \<Rightarrow> transition_rule \<Rightarrow> string \<Rightarrow> string \<Rightarrow> string option \<Rightarrow> int \<Rightarrow> event_row" where
  "event_of l aid row ttype rl op digest target created =
    \<lparr>event_id = event_seq l + 1, ev_assignment = aid, transition_type = ttype, ev_actor = rule_actor rl,
     from_state = current_state row, to_state = rule_to rl, predecessor_event = current_event row,
     operation_id = op, receipt_sha256 = digest, target_assignment = target, ev_created_at_ms = created\<rparr>"

lemma event_of_simps [simp]:
  "event_id (event_of l aid row ttype rl op d t c) = event_seq l + 1"
  "ev_assignment (event_of l aid row ttype rl op d t c) = aid"
  "transition_type (event_of l aid row ttype rl op d t c) = ttype"
  "ev_actor (event_of l aid row ttype rl op d t c) = rule_actor rl"
  "from_state (event_of l aid row ttype rl op d t c) = current_state row"
  "to_state (event_of l aid row ttype rl op d t c) = rule_to rl"
  "predecessor_event (event_of l aid row ttype rl op d t c) = current_event row"
  "operation_id (event_of l aid row ttype rl op d t c) = op"
  "receipt_sha256 (event_of l aid row ttype rl op d t c) = d"
  "target_assignment (event_of l aid row ttype rl op d t c) = t"
  "ev_created_at_ms (event_of l aid row ttype rl op d t c) = c"
  by (simp_all add: event_of_def)

lemma current_event_in_history:
  assumes "ledger_wf l" "dict_get (assignment_rows l) aid = Some row" "current_event row = Some i"
  shows "\<exists>p \<in> set (events l). event_id p = i \<and> ev_assignment p = aid"
proof -
  have "history l aid \<noteq> []" "event_id (last (history l aid)) = i"
    using ledger_wfD(1) [OF assms(1,2)] assms(3) by (auto split: if_splits)
  then show ?thesis
    using last_in_set [of "history l aid"] by (auto simp: history_def)
qed

lemma return_target:
  assumes "row_wf row" "rule_sound rl" "rule_from rl = current_state row"
  shows "rule_context rl = RESUME_PAUSE \<Longrightarrow> differs (rule_to rl) (pre_pause_state row) \<longleftrightarrow> rule_to rl \<noteq> suspension row ! 1"
    and "rule_context rl = RECOVER_INTERRUPT \<Longrightarrow>
      differs (rule_to rl) (pre_interrupt_state row) \<longleftrightarrow> rule_to rl \<noteq> suspension row ! 1"
  using assms by (cases row rule: row_wf_cases; auto simp: rule_sound_def differs_def suspension_def)+

text \<open>A chain of checks ends well or with an error of the ledger.\<close>

definition ledger_outcome :: "exn + unit \<Rightarrow> bool" where
  "ledger_outcome m \<longleftrightarrow> m = Inr () \<or> (\<exists>code. m = Inl (LedgerError code))"

lemma ledger_outcome_intros:
  "ledger_outcome (Inr ())" "ledger_outcome m \<Longrightarrow> ledger_outcome (requireE b (LedgerError code) m)"
  by (auto simp: ledger_outcome_def requireE_def)

lemma validate_event_of:
  assumes wf: "ledger_wf l" and row: "dict_get (assignment_rows l) aid = Some row"
    and rl: "dict_get TRANSITION_RULES ttype = Some rl"
    and e_def: "e = event_of l aid row ttype rl op d target created"
  obtains (ok) "validate_event l e = Inr ()" "rule_applies rl row" "target_ok l aid ttype target"
  | (bad) code where "validate_event l e = Inl (LedgerError code)" "\<not> (rule_applies rl row \<and> target_ok l aid ttype target)"
proof -
  have rw: "row_wf row"
    using ledger_wfD(1) [OF wf row] by simp
  have pred: "case current_event row of None \<Rightarrow> True
      | Some i \<Rightarrow> \<exists>p \<in> set (events l). event_id p = i \<and> ev_assignment p = aid"
    using current_event_in_history [OF wf row] by (auto split: option.split)
  define resume where "resume \<longleftrightarrow> rule_context rl = RESUME_PAUSE \<and> differs (rule_to rl) (pre_pause_state row)"
  define recover where "recover \<longleftrightarrow> rule_context rl = RECOVER_INTERRUPT \<and> differs (rule_to rl) (pre_interrupt_state row)"
  have v: "validate_event l e =
     requireE (rule_from rl = current_state row) (LedgerError ''ILLEGAL_TRANSITION'')
     (requireE (ttype = ''SUPERSEDE'' \<longrightarrow> (case target of None \<Rightarrow> False | Some t \<Rightarrow> t \<noteq> aid \<and> dict_has (assignment_rows l) t))
       (LedgerError ''INVALID_SUPERSESSION_TARGET'')
     (requireE (ttype \<noteq> ''SUPERSEDE'' \<longrightarrow> target = None) (LedgerError ''UNEXPECTED_TARGET_ASSIGNMENT'')
     (requireE (\<not> resume) (LedgerError ''PAUSE_RESUME_TARGET_MISMATCH'')
     (requireE (\<not> recover) (LedgerError ''INTERRUPT_RECOVERY_TARGET_MISMATCH'') (Inr ())))))"
    using pred unfolding validate_event_def e_def
    by (cases "current_event row") (simp_all add: row rl Let_def resume_def recover_def cong: option.case_cong)
  have ret: "rule_from rl = current_state row \<Longrightarrow> \<not> resume \<and> \<not> recover \<longleftrightarrow> rule_applies rl row"
    using return_target [OF rw rule_sound [OF rl]] by (auto simp: resume_def recover_def rule_applies_def)
  have applies: "rule_applies rl row \<Longrightarrow> rule_from rl = current_state row"
    by (simp add: rule_applies_def)
  have t: "target_ok l aid ttype target \<longleftrightarrow>
      (ttype = ''SUPERSEDE'' \<longrightarrow> (case target of None \<Rightarrow> False | Some t \<Rightarrow> t \<noteq> aid \<and> dict_has (assignment_rows l) t)) \<and>
      (ttype \<noteq> ''SUPERSEDE'' \<longrightarrow> target = None)"
    by (simp add: target_ok_def split: option.split)
  show thesis
  proof (cases "rule_applies rl row \<and> target_ok l aid ttype target")
    case True
    then show thesis
      using v ret applies t by (intro ok) auto
  next
    case False
    have "ledger_outcome (validate_event l e)"
      unfolding v by (intro ledger_outcome_intros)
    moreover have "validate_event l e \<noteq> Inr ()"
      using False ret t by (auto simp: v)
    ultimately have "\<exists>code. validate_event l e = Inl (LedgerError code)"
      by (simp add: ledger_outcome_def)
    then show thesis
      using bad False by blast
  qed
qed

lemma projection_guard_event:
  assumes "old = row" "e = event_of l aid row ttype rl op d target created" "target_ok l aid ttype target"
    "l1 = l\<lparr>events := events l @ [e], event_seq := event_id e\<rparr>"
  shows "projection_guard l1 aid old (projected_row e old) = Inr ()"
  using assms by (auto simp: projection_guard_def projected_row_def Let_def target_ok_def)

text \<open>The tables after a transition was applied.\<close>

definition with_event :: "ledger \<Rightarrow> string \<Rightarrow> assignment_row \<Rightarrow> event_row \<Rightarrow> ledger" where
  "with_event l aid row e = l\<lparr>events := events l @ [e], event_seq := event_id e,
     assignment_rows := dict_set (assignment_rows l) aid (projected_row e row)\<rparr>"

lemma apply_transition_cases:
  assumes wf: "ledger_wf l" and row: "dict_get (assignment_rows l) aid = Some row"
    and rl: "dict_get TRANSITION_RULES ttype = Some rl" and d: "is_sha256 (PStr d)"
    and e_def: "e = event_of l aid row ttype rl op d target (created_or created_arg clock)"
  obtains (applied) "apply_transition l aid ttype actor op (PStr d) target created_arg clock =
        Inr (event_seq l + 1, with_event l aid row e)"
      "rule_actor rl = actor" "rule_applies rl row" "target_ok l aid ttype target" "op_unused l aid op"
      "0 \<le> created_or created_arg clock"
  | (refused) code where "apply_transition l aid ttype actor op (PStr d) target created_arg clock = Inl (LedgerError code)"
      "\<not> (rule_actor rl = actor \<and> rule_applies rl row \<and> target_ok l aid ttype target \<and> op_unused l aid op \<and>
         0 \<le> created_or created_arg clock)"
proof (cases "rule_actor rl = actor")
  case False
  then show thesis
    using d by (intro refused [of "''ACTOR_MISMATCH''"])
      (simp_all add: apply_transition_def require_sha256_def inspect_assignment_def row rl)
next
  case actor: True
  have unfolded: "apply_transition l aid ttype actor op (PStr d) target created_arg clock =
     bindE (insert_event l e) (\<lambda>l'. case dict_get (assignment_rows l') aid of
           None \<Rightarrow> Inl (LedgerError ''PROJECTION_NOT_ADVANCED'')
         | Some projected \<Rightarrow>
             requireE (current_event projected = Some (event_id e)) (LedgerError ''PROJECTION_NOT_ADVANCED'')
             (requireE (current_state projected = rule_to rl) (LedgerError ''PROJECTION_STATE_MISMATCH'')
               (Inr (event_id e, l'))))"
    unfolding e_def event_of_def actor [symmetric]
    using d by (simp add: apply_transition_def require_sha256_def inspect_assignment_def row rl Let_def)
  show thesis
    using wf row rl e_def
  proof (cases rule: validate_event_of)
    case (bad code)
    then have "insert_event l e = Inl (LedgerError code)"
      by (simp add: insert_event_def e_def)
    then show thesis
      using bad(2) unfolded by (intro refused [of code]) auto
  next
    case ok
    have v: "validate_event l e = Inr ()"
      using ok(1) by (simp add: e_def)
    have aid: "aid \<noteq> []" and rw: "row_wf row"
      using ledger_wfD(1) [OF wf row] by auto
    have used: "(\<exists>p \<in> set (events l). ev_assignment p = aid \<and> operation_id p = op) \<longleftrightarrow> \<not> op_unused l aid op"
      by (auto simp: op_unused_def history_def)
    show thesis
    proof (cases "op_unused l aid op \<and> 0 \<le> created_or created_arg clock")
      case False
      then have "\<exists>code. event_constraints l e = Inl (LedgerError code)"
        using used by (auto simp: event_constraints_def e_def requireE_def check_failed_def unique_failed_def)
      then obtain code where "insert_event l e = Inl (LedgerError code)"
        using v by (auto simp: insert_event_def)
      then show thesis
        using False unfolded by (intro refused [of code]) auto
    next
      case True
      then have "event_constraints l e = Inr ()"
        using used aid d rule_named [OF rl] by (simp add: event_constraints_def e_def)
      moreover have "row_wf (projected_row e row)"
        using projected_row_sound [OF rw, of e rl] ok(2,3) rl by (simp add: e_def target_ok_def split: if_splits)
      moreover have "projection_guard (l\<lparr>events := events l @ [e], event_seq := event_id e\<rparr>) aid row (projected_row e row) = Inr ()"
        by (rule projection_guard_event [OF refl e_def ok(3) refl])
      ultimately have "insert_event l e = Inr (with_event l aid row e)"
        using v row by (simp add: insert_event_def with_event_def row_wf_def Let_def e_def)
      then show thesis
        using unfolded True ok(2,3) actor
        by (intro applied) (simp_all add: with_event_def projected_row_def Let_def e_def)
    qed
  qed
qed

lemma apply_transition_unknown:
  "dict_get (assignment_rows l) aid = None \<or> dict_get TRANSITION_RULES ttype = None \<or> \<not> is_sha256 d \<Longrightarrow>
     isl (apply_transition l aid ttype actor op d target created_arg clock)"
  by (auto simp: apply_transition_def require_sha256_def inspect_assignment_def requireE_def split: option.split)

lemma apply_transition_Inr:
  assumes wf: "ledger_wf l" and ok: "apply_transition l aid ttype actor op d target created_arg clock = Inr (i, l')"
  obtains row rl e where "dict_get (assignment_rows l) aid = Some row" "dict_get TRANSITION_RULES ttype = Some rl"
    "e = event_of l aid row ttype rl op (text_of d) target (created_or created_arg clock)"
    "i = event_seq l + 1" "l' = with_event l aid row e" "rule_actor rl = actor" "rule_applies rl row"
    "target_ok l aid ttype target" "op_unused l aid op"
proof -
  have known: "\<not> (dict_get (assignment_rows l) aid = None \<or> dict_get TRANSITION_RULES ttype = None \<or> \<not> is_sha256 d)"
  proof
    assume "dict_get (assignment_rows l) aid = None \<or> dict_get TRANSITION_RULES ttype = None \<or> \<not> is_sha256 d"
    from apply_transition_unknown [OF this, of actor op target created_arg clock] ok show False
      by simp
  qed
  then obtain row rl s where k: "dict_get (assignment_rows l) aid = Some row" "dict_get TRANSITION_RULES ttype = Some rl"
      "d = PStr s" "is_sha256 (PStr s)"
    by (cases d) (auto simp: is_sha256_def)
  show ?thesis
    using wf k(1,2,4) refl
  proof (cases rule: apply_transition_cases [where op = op and target = target and created_arg = created_arg
        and clock = clock and actor = actor])
    case applied
    show ?thesis
      using applied(1) ok k(3) by (intro that [OF k(1,2) refl _ _ applied(2-5)]) simp_all
  next
    case (refused code)
    then show ?thesis
      using ok k(3) by simp
  qed
qed

lemma history_with_event: "history (with_event l aid row e) b = (if ev_assignment e = b then history l b @ [e] else history l b)"
  by (simp add: history_def with_event_def)

lemma linked_append: "linked p s (es @ [e]) \<longleftrightarrow> linked p s es \<and>
    predecessor_event e = (if es = [] then p else Some (event_id (last es))) \<and>
    from_state e = (if es = [] then s else to_state (last es))"
  by (induction p s es rule: linked.induct) auto

lemma fresh_row_projected [simp]: "fresh_row (projected_row e row) = fresh_row row"
  by (simp add: fresh_row_def projected_row_def Let_def)

lemma current_state_replay:
  "current_state (fold projected_row es (fresh_row row)) = (if es = [] then DRAFTED else to_state (last es))"
  by (cases es rule: rev_cases) (simp_all add: fresh_row_def projected_row_def Let_def)

lemma current_state_history:
  "ledger_wf l \<Longrightarrow> dict_get (assignment_rows l) aid = Some row \<Longrightarrow>
     current_state row = (if history l aid = [] then DRAFTED else to_state (last (history l aid)))"
  using ledger_wfD(1) [of l aid row] current_state_replay [of "history l aid" row] by simp

lemma with_event_wf:
  assumes "row_wf (projected_row e row)" "current_event (projected_row e row) = Some (event_id e)"
    "linked None DRAFTED (history l aid @ [e])" "event_allowed e" "\<forall>x \<in> set (events l). event_id x < event_id e"
    "\<forall>x \<in> set (events l). (ev_assignment x, operation_id x) \<noteq> (aid, op)"
    "projected_row e row = fold projected_row (history l aid @ [e]) (fresh_row row)"
    "\<forall>a \<in> set (acceptances l). acc_assignment a \<noteq> aid"
    and wf: "ledger_wf l" and "aid \<noteq> []" "dict_get (assignment_rows l) aid = Some row"
    "ev_assignment e = aid" "event_id e = event_seq l + 1" "operation_id e = op"
  shows "ledger_wf (with_event l aid row e)"
proof -
  have rows: "dict_get (assignment_rows (with_event l aid row e)) = (dict_get (assignment_rows l))(aid \<mapsto> projected_row e row)"
    and evs: "events (with_event l aid row e) = events l @ [e]" and seq: "event_seq (with_event l aid row e) = event_id e"
    and acc: "acceptances (with_event l aid row e) = acceptances l"
    by (auto simp: with_event_def)
  have hist: "history (with_event l aid row e) = (history l)(aid := history l aid @ [e])"
    using assms(12) by (auto simp: history_with_event)
  show ?thesis
    unfolding ledger_wf_def rows evs seq acc hist
  proof (intro conjI allI impI ballI, goal_cases)
    case (1 b r)
    then show ?case
      using ledger_wfD(1) [OF wf, of b r] assms(10) by (auto split: if_splits)
  next
    case (2 b r)
    then show ?case
      using ledger_wfD(1) [OF wf, of b r] assms(1) by (auto split: if_splits)
  next
    case (3 b r)
    then show ?case
      using ledger_wfD(1) [OF wf, of b r] assms(7) by (auto split: if_splits)
  next
    case (4 b r)
    then show ?case
      using ledger_wfD(1) [OF wf, of b r] assms(2) by (auto split: if_splits)
  next
    case (5 b)
    then show ?case
      using ledger_wfD(2) [OF wf] assms(3) by simp
  next
    case (6 x)
    then show ?case
      using ledger_wfD(3) [OF wf, of x] assms(4) by auto
  next
    case (7 x)
    then show ?case
      using ledger_wfD(3) [OF wf, of x] assms(12) by auto
  next
    case 8
    show ?case
      using ledger_wfD(4) [OF wf] assms(5) by (simp add: sorted_wrt_append)
  next
    case (9 x)
    then show ?case
      using assms(5) by auto
  next
    case 10
    show ?case
      using ledger_wfD(6) [OF wf] assms(6,12,14) by auto
  next
    case 11
    show ?case
      by (rule ledger_wfD(7) [OF wf])
  next
    case (12 a)
    then show ?case
      by (rule ledger_wfD(8) [OF wf])
  next
    case (13 a)
    then show ?case
      using ledger_wfD(9) [OF wf, of a] assms(8) by auto
  qed
qed

lemma apply_transition_wf:
  assumes wf: "ledger_wf l" and ok: "apply_transition l aid ttype actor op d target created_arg clock = Inr (i, l')"
  shows "ledger_wf l'"
  using wf ok
proof (cases rule: apply_transition_Inr)
  case (1 row rl e)
  have e: "ev_assignment e = aid" "event_id e = event_seq l + 1" "transition_type e = ttype" "from_state e = current_state row"
    "to_state e = rule_to rl" "predecessor_event e = current_event row" "operation_id e = op" "ev_actor e = rule_actor rl"
    "target_assignment e = target"
    by (simp_all add: 1(3))
  have old: "aid \<noteq> []" "row_wf row" "row = fold projected_row (history l aid) (fresh_row row)"
      "current_event row = (if history l aid = [] then None else Some (event_id (last (history l aid))))"
    using ledger_wfD(1) [OF wf 1(1)] by blast+
  have "row_wf (projected_row e row)"
    using projected_row_sound [OF old(2), of e rl] 1(2,7,8) e by (simp add: target_ok_def split: if_splits)
  moreover have "current_event (projected_row e row) = Some (event_id e)"
    by (simp add: projected_row_def Let_def)
  moreover have "linked None DRAFTED (history l aid @ [e])"
    using ledger_wfD(2) [OF wf] old(4) current_state_history [OF wf 1(1)] e by (simp add: linked_append)
  moreover have "event_allowed e"
    using 1(2,7) e by (simp add: event_allowed_def rule_applies_def)
  moreover have "\<forall>x \<in> set (events l). event_id x < event_id e"
    using ledger_wfD(5) [OF wf] e by fastforce
  moreover have "\<forall>x \<in> set (events l). (ev_assignment x, operation_id x) \<noteq> (aid, op)"
    using 1(9) by (auto simp: op_unused_def history_def)
  moreover have "projected_row e row = fold projected_row (history l aid @ [e]) (fresh_row row)"
    using old(3) by simp
  moreover have "\<forall>a \<in> set (acceptances l). acc_assignment a \<noteq> aid"
  proof
    fix a assume "a \<in> set (acceptances l)"
    then obtain r where "dict_get (assignment_rows l) (acc_assignment a) = Some r" "current_state r = CONFIRMED"
      using wf unfolding ledger_wf_def by blast
    moreover have "current_state row \<noteq> CONFIRMED"
      using 1(7) rule_sound [OF 1(2)] by (auto simp: rule_applies_def rule_sound_def)
    ultimately show "acc_assignment a \<noteq> aid"
      using 1(1) by auto
  qed
  ultimately show ?thesis
    using wf old(1) 1(1) e(1,2,7) unfolding 1(5) by (intro with_event_wf)
qed

section \<open>The ledger as a state machine\<close>

datatype ledger_call =
    CreateAssignment string string string "int option" int
  | ApplyTransition string string string string pyval "string option" "int option" int
  | RecordAcceptance string string string pyval pyval "int option" int

fun ledger_exec :: "ledger_call \<Rightarrow> ledger \<Rightarrow> ledger" where
  "ledger_exec (CreateAssignment aid wid mode created clock) l = after l (create_assignment l aid wid mode created clock)"
| "ledger_exec (ApplyTransition aid ttype actor op d target created clock) l =
     after l (apply_transition l aid ttype actor op d target created clock)"
| "ledger_exec (RecordAcceptance aid mode disp readback d created clock) l =
     after l (record_final_acceptance l aid mode disp readback d created clock)"

definition TERMINAL :: "lifecycle set" where
  "TERMINAL = {STOPPED, CONFIRMED, SUPERSEDED}"

text \<open>Assignments stay, finished ones as they are, and the two logs only grow.\<close>

definition ledger_before :: "ledger \<Rightarrow> ledger \<Rightarrow> bool" where
  "ledger_before l m \<longleftrightarrow> (\<exists>es. events m = events l @ es) \<and> (\<exists>as. acceptances m = acceptances l @ as) \<and>
     (\<forall>aid row. dict_get (assignment_rows l) aid = Some row \<longrightarrow>
        (\<exists>row'. dict_get (assignment_rows m) aid = Some row' \<and> (current_state row \<in> TERMINAL \<longrightarrow> row' = row)))"

lemma ledger_before_refl: "ledger_before l l"
  by (simp add: ledger_before_def)

lemma ledger_before_trans:
  assumes "ledger_before l m" "ledger_before m n" shows "ledger_before l n"
proof -
  have "\<exists>row''. dict_get (assignment_rows n) aid = Some row'' \<and> (current_state row \<in> TERMINAL \<longrightarrow> row'' = row)"
    if row: "dict_get (assignment_rows l) aid = Some row" for aid row
  proof -
    obtain row' where row': "dict_get (assignment_rows m) aid = Some row'" "current_state row \<in> TERMINAL \<longrightarrow> row' = row"
      using assms(1) row by (auto simp: ledger_before_def)
    then obtain row'' where "dict_get (assignment_rows n) aid = Some row''" "current_state row' \<in> TERMINAL \<longrightarrow> row'' = row'"
      using assms(2) unfolding ledger_before_def by blast
    then show ?thesis
      using row'(2) by auto
  qed
  then show ?thesis
    using assms by (auto simp: ledger_before_def)
qed

lemma create_progress:
  assumes wf: "ledger_wf l" and ok: "create_assignment l aid wid mode created clock = Inr (u, l')"
  shows "ledger_wf l' \<and> ledger_before l l'"
proof -
  define row where "row = \<lparr>workflow_id = wid, architecture_mode = mode, current_state = DRAFTED, current_event = None,
      pre_pause_state = None, pre_interrupt_state = None, nested_pause_state = None,
      superseded_by = None, row_created_at_ms = created_or created clock\<rparr>"
  have new: "dict_get (assignment_rows l) aid = None" "aid \<noteq> []" "mode \<in> set ARCHITECTURE_MODES"
    "l' = l\<lparr>assignment_rows := dict_set (assignment_rows l) aid row\<rparr>"
    using ok by (auto simp: create_assignment_def row_def Let_def)
  have none: "history l aid = []"
    using ledger_wfD(3) [OF wf] new(1) by (fastforce simp: history_def filter_empty_conv)
  have hist: "history l' = history l"
    by (rule ext) (simp add: history_def new(4))
  have row: "row_wf row" "fresh_row row = row" "current_event row = None"
    using new(3) by (simp_all add: row_wf_def row_constraints_def row_def fresh_row_def)
  have "ledger_wf l'"
    unfolding ledger_wf_def hist
  proof (intro conjI allI impI ballI, goal_cases)
    case (1 b r) then show ?case using ledger_wfD(1) [OF wf, of b r] new by (auto split: if_splits)
  next
    case (2 b r) then show ?case using ledger_wfD(1) [OF wf, of b r] new row by (auto split: if_splits)
  next
    case (3 b r) then show ?case using ledger_wfD(1) [OF wf, of b r] new row none by (auto split: if_splits)
  next
    case (4 b r) then show ?case using ledger_wfD(1) [OF wf, of b r] new row none by (auto split: if_splits)
  next
    case (5 b) then show ?case using ledger_wfD(2) [OF wf] by simp
  next
    case (6 x) then show ?case using ledger_wfD(3) [OF wf, of x] new by simp
  next
    case (7 x) then show ?case using ledger_wfD(3) [OF wf, of x] new by auto
  next
    case 8 then show ?case using ledger_wfD(4) [OF wf] new by simp
  next
    case (9 x) then show ?case using ledger_wfD(5) [OF wf, of x] new by simp
  next
    case 10 then show ?case using ledger_wfD(6) [OF wf] new by simp
  next
    case 11 then show ?case using ledger_wfD(7) [OF wf] new by simp
  next
    case (12 a) then show ?case using ledger_wfD(8) [OF wf, of a] new by simp
  next
    case (13 a) then show ?case using ledger_wfD(9) [OF wf, of a] new by auto
  qed
  moreover have "ledger_before l l'"
    using new by (auto simp: ledger_before_def)
  ultimately show ?thesis ..
qed

lemma transition_progress:
  assumes wf: "ledger_wf l" and ok: "apply_transition l aid ttype actor op d target created clock = Inr (i, l')"
  shows "ledger_wf l' \<and> ledger_before l l'"
proof
  show "ledger_wf l'"
    by (rule apply_transition_wf [OF wf ok])
  show "ledger_before l l'"
    using wf ok
  proof (cases rule: apply_transition_Inr)
    case (1 row rl e)
    have "current_state row \<notin> TERMINAL"
      using 1(7) rule_sound [OF 1(2)] by (auto simp: rule_applies_def rule_sound_def TERMINAL_def)
    then show ?thesis
      using 1(1) by (auto simp: 1(5) ledger_before_def with_event_def)
  qed
qed

lemma record_acceptance_Inr:
  assumes wf: "ledger_wf l" and ok: "record_final_acceptance l aid mode disp readback_arg d created clock = Inr (i, l')"
  obtains a row where "l' = l\<lparr>acceptances := acceptances l @ [a], acceptance_seq := receipt_id a\<rparr>"
      "acc_assignment a = aid" "\<forall>r \<in> set (acceptances l). acc_assignment r \<noteq> aid"
      "disposition a = ''PASS'' \<longrightarrow> readback_confirmed a"
      "dict_get (assignment_rows l) aid = Some row" "current_state row = CONFIRMED" "architecture_mode row = acc_mode a"
proof -
  obtain readback where rb: "readback_arg = PBool readback"
    using ok by (cases readback_arg) (simp_all add: record_final_acceptance_def)
  obtain digest where dg: "require_sha256 d ''evidence_sha256'' = Inr digest"
    using ok rb by (auto simp: record_final_acceptance_def)
  obtain row where row: "dict_get (assignment_rows l) aid = Some row"
    using ok rb dg by (cases "dict_get (assignment_rows l) aid") (simp_all add: record_final_acceptance_def Let_def)
  show ?thesis
    using ok by (intro that [of "\<lparr>receipt_id = acceptance_seq l + 1, acc_assignment = aid, acc_mode = mode, disposition = disp,
              readback_confirmed = readback, evidence_sha256 = digest, acc_created_at_ms = created_or created clock\<rparr>" row])
      (auto simp: record_final_acceptance_def Let_def rb dg row)
qed

lemma acceptance_progress:
  assumes wf: "ledger_wf l" and ok: "record_final_acceptance l aid mode disp readback d created clock = Inr (i, l')"
  shows "ledger_wf l' \<and> ledger_before l l'"
proof -
  obtain a row where a: "l' = l\<lparr>acceptances := acceptances l @ [a], acceptance_seq := receipt_id a\<rparr>"
      "acc_assignment a = aid" "\<forall>r \<in> set (acceptances l). acc_assignment r \<noteq> aid"
      "disposition a = ''PASS'' \<longrightarrow> readback_confirmed a"
      "dict_get (assignment_rows l) aid = Some row" "current_state row = CONFIRMED" "architecture_mode row = acc_mode a"
    using wf ok by (rule record_acceptance_Inr)
  have hist: "history l' = history l"
    by (rule ext) (simp add: history_def a(1))
  have same: "assignment_rows l' = assignment_rows l" "events l' = events l" "event_seq l' = event_seq l"
      "acceptances l' = acceptances l @ [a]"
    by (simp_all add: a(1))
  have "ledger_wf l'"
    using ledger_wfD [OF wf] a(2-7) unfolding ledger_wf_def hist same by auto
  moreover have "ledger_before l l'"
    by (auto simp: ledger_before_def same)
  ultimately show ?thesis ..
qed

lemma ledger_exec_progress:
  assumes wf: "ledger_wf l"
  shows "ledger_wf (ledger_exec c l) \<and> ledger_before l (ledger_exec c l)"
proof (cases c)
  case (CreateAssignment aid wid mode created clock)
  show ?thesis
    by (cases rule: after_cases [of "create_assignment l aid wid mode created clock" l])
      (use wf create_progress [OF wf] ledger_before_refl CreateAssignment in auto)
next
  case (ApplyTransition aid ttype actor op d target created clock)
  show ?thesis
    by (cases rule: after_cases [of "apply_transition l aid ttype actor op d target created clock" l])
      (use wf transition_progress [OF wf] ledger_before_refl ApplyTransition in auto)
next
  case (RecordAcceptance aid mode disp readback d created clock)
  show ?thesis
    by (cases rule: after_cases [of "record_final_acceptance l aid mode disp readback d created clock" l])
      (use wf acceptance_progress [OF wf] ledger_before_refl RecordAcceptance in auto)
qed

interpretation ledger: progressing_component ledger_exec ledger_wf ledger_before
  using ledger_exec_progress ledger_before_refl ledger_before_trans by unfold_locales blast+

section \<open>A small ledger\<close>

definition sample_digest :: string where
  "sample_digest = replicate 64 CHR ''a''"

lemma sample_digest_ok: "is_sha256 (PStr sample_digest)"
  by code_simp

definition sample_ledger :: ledger where
  "sample_ledger = fold ledger_exec
     [CreateAssignment ''a'' ''w'' ''NATIVE_MULTI_AGENT'' (Some 0) 0,
      ApplyTransition ''a'' ''ASSIGN'' ''COORDINATOR'' ''o1'' (PStr sample_digest) None (Some 1) 0,
      ApplyTransition ''a'' ''ACKNOWLEDGE'' ''PRODUCER'' ''o2'' (PStr sample_digest) None (Some 2) 0,
      ApplyTransition ''a'' ''PAUSE_FROM_ACKNOWLEDGED'' ''OPERATOR'' ''o3'' (PStr sample_digest) None (Some 3) 0] empty_ledger"

lemma sample_ledger_wf: "ledger_wf sample_ledger"
  unfolding sample_ledger_def by (rule ledger.run_inv [OF ledger_wf_empty])

lemma sample_ledger_state: "map_option suspension (dict_get (assignment_rows sample_ledger) ''a'') =
    Some [PAUSED_USAGE_EXHAUSTED, ACKNOWLEDGED]"
  by code_simp

section \<open>Properties\<close>



text \<open>
  C16: pausing and interrupting are transparent: seen as a stack of suspended states, a transition
  pushes, pops or replaces. One whose rule, actor, target and operation id are in order succeeds
  exactly when the rule starts in the current state and, for a resumption or a recovery, goes
  back to the state that was suspended, also through an interruption of a pause; it changes this
  assignment only. The triggers and checks of the schema never refuse more than that.
\<close>

theorem transition_refines_suspension:
  assumes "ledger_wf l" and "dict_get (assignment_rows l) aid = Some row"
    and "dict_get TRANSITION_RULES ttype = Some rl" and "is_sha256 (PStr d)"
    and "target_ok l aid ttype target" and "op_unused l aid op" and "0 \<le> created_or created clock"
  shows "if rule_actor rl = actor \<and> rule_from rl = hd (suspension row) \<and>
      (rule_context rl \<in> {RESUME_PAUSE, RECOVER_INTERRUPT} \<longrightarrow> rule_to rl = suspension row ! 1)
    then \<exists>l' row'. apply_transition l aid ttype actor op (PStr d) target created clock = Inr (event_seq l + 1, l') \<and>
      dict_get (assignment_rows l') = (dict_get (assignment_rows l))(aid \<mapsto> row') \<and>
      suspension row' = suspension_step (rule_context rl) (rule_to rl) (suspension row)
    else \<exists>code. apply_transition l aid ttype actor op (PStr d) target created clock = Inl (LedgerError code)"
proof -
  have cur: "hd (suspension row) = current_state row"
    by (simp add: suspension_def)
  show ?thesis
    using assms(1-4) refl
  proof (cases rule: apply_transition_cases [where op = op and target = target and created_arg = created
        and clock = clock and actor = actor])
    case applied
    let ?e = "event_of l aid row ttype rl op d target (created_or created clock)"
    have "suspension (projected_row ?e row) = suspension_step (rule_context rl) (rule_to rl) (suspension row)"
      using projected_row_sound [of row ?e rl] ledger_wfD(1) [OF assms(1,2)] assms(3) applied(3,4)
      by (simp add: target_ok_def split: if_splits)
    moreover have "dict_get (assignment_rows (with_event l aid row ?e)) =
        (dict_get (assignment_rows l))(aid \<mapsto> projected_row ?e row)"
      by (auto simp: with_event_def)
    ultimately show ?thesis
      using applied by (auto simp: rule_applies_def cur)
  next
    case (refused code)
    then show ?thesis
      using assms(5-7) by (auto simp: rule_applies_def cur)
  qed
qed

theorem transition_refines_suspension_witness:
  "(\<exists>l'. apply_transition sample_ledger ''a'' ''RESUME_TO_ACKNOWLEDGED'' ''OPERATOR'' ''o4'' (PStr sample_digest) None (Some 4) 0 =
      Inr (event_seq sample_ledger + 1, l')) \<and>
   isl (apply_transition sample_ledger ''a'' ''RESUME_TO_RUNNING'' ''OPERATOR'' ''o4'' (PStr sample_digest) None (Some 4) 0)"
proof -
  obtain row where row: "dict_get (assignment_rows sample_ledger) ''a'' = Some row"
      "suspension row = [PAUSED_USAGE_EXHAUSTED, ACKNOWLEDGED]"
    using sample_ledger_state by (auto simp: map_option_eq_Some)
  have "dict_get TRANSITION_RULES ''RESUME_TO_ACKNOWLEDGED'' =
      Some (rule PAUSED_USAGE_EXHAUSTED ACKNOWLEDGED ''OPERATOR'' RESUME_PAUSE)"
    and "dict_get TRANSITION_RULES ''RESUME_TO_RUNNING'' =
      Some (rule PAUSED_USAGE_EXHAUSTED RUNNING ''OPERATOR'' RESUME_PAUSE)"
    by code_simp+
  note rules = this
  have unused: "op_unused sample_ledger ''a'' ''o4''"
    by code_simp
  note refines = transition_refines_suspension [OF sample_ledger_wf row(1) _ sample_digest_ok _ unused,
      where target = None and created = "Some 4" and clock = 0 and actor = "''OPERATOR''"]
  show ?thesis
    using refines [OF rules(1)] refines [OF rules(2)] by (auto simp: row(2) rule_def target_ok_def created_or_def)
qed

text \<open>
  Finished is finished: the row of a stopped, confirmed or superseded assignment never changes
  again, whatever is called.
\<close>

theorem terminal_assignments_final:
  assumes "ledger_wf l" and "dict_get (assignment_rows l) aid = Some row"
    and "current_state row \<in> {STOPPED, CONFIRMED, SUPERSEDED}"
  shows "dict_get (assignment_rows (fold ledger_exec calls l)) aid = Some row"
  using ledger.run_before [OF assms(1), of calls] assms(2,3) unfolding ledger_before_def TERMINAL_def by blast

theorem terminal_assignments_final_witness:
  "\<exists>row. dict_get (assignment_rows (fold ledger_exec
     [ApplyTransition ''a'' ''RESUME_TO_ACKNOWLEDGED'' ''OPERATOR'' ''o5'' (PStr sample_digest) None (Some 5) 0]
     (ledger_exec (ApplyTransition ''a'' ''STOP_FROM_PAUSED'' ''OPERATOR'' ''o4'' (PStr sample_digest) None (Some 4) 0)
       sample_ledger))) ''a'' = Some row \<and> current_state row = STOPPED"
proof -
  let ?l = "ledger_exec (ApplyTransition ''a'' ''STOP_FROM_PAUSED'' ''OPERATOR'' ''o4'' (PStr sample_digest) None (Some 4) 0)
       sample_ledger"
  have "map_option current_state (dict_get (assignment_rows ?l) ''a'') = Some STOPPED"
    by code_simp
  then obtain row where row: "dict_get (assignment_rows ?l) ''a'' = Some row" "current_state row = STOPPED"
    by (auto simp: map_option_eq_Some)
  show ?thesis
    using terminal_assignments_final [OF ledger.exec_inv [OF sample_ledger_wf] row(1)] row(2) by blast
qed

text \<open>
  An operation is applied at most once: after a transition of an assignment succeeded, no later
  one with the same operation id succeeds on it, whatever was called in between.
\<close>

theorem operation_applied_once:
  assumes "ledger_wf l" and "apply_transition l aid ttype actor op d target created clock = Inr (i, l')"
  shows "isl (apply_transition (fold ledger_exec calls l') aid ttype' actor' op d' target' created' clock')"
proof (rule ccontr)
  let ?m = "fold ledger_exec calls l'"
  assume "\<not> ?thesis"
  then obtain j m' where ok: "apply_transition ?m aid ttype' actor' op d' target' created' clock' = Inr (j, m')"
    by (cases "apply_transition ?m aid ttype' actor' op d' target' created' clock'") auto
  have wf: "ledger_wf l'"
    by (rule apply_transition_wf [OF assms])
  obtain e where "e \<in> set (events l')" "ev_assignment e = aid" "operation_id e = op"
  proof -
    from assms show thesis
    proof (cases rule: apply_transition_Inr)
      case (1 row rl e)
      then show thesis
        by (intro that [of e]) (simp_all add: with_event_def)
    qed
  qed
  moreover obtain es where "events ?m = events l' @ es"
    using ledger.run_before [OF wf, of calls] by (auto simp: ledger_before_def)
  ultimately have "\<not> op_unused ?m aid op"
    by (auto simp: op_unused_def history_def)
  with ledger.run_inv [OF wf, of calls] ok show False
    by (auto elim: apply_transition_Inr)
qed

theorem operation_applied_once_witness:
  "isl (apply_transition (ledger_exec (ApplyTransition ''a'' ''STOP_FROM_PAUSED'' ''OPERATOR'' ''o4'' (PStr sample_digest) None (Some 4) 0)
       sample_ledger) ''a'' ''STOP_FROM_PAUSED'' ''OPERATOR'' ''o4'' (PStr sample_digest) None (Some 4) 0)"
proof -
  let ?r = "apply_transition sample_ledger ''a'' ''STOP_FROM_PAUSED'' ''OPERATOR'' ''o4'' (PStr sample_digest) None (Some 4) 0"
  have "\<not> isl ?r"
    by code_simp
  then obtain i l' where r: "?r = Inr (i, l')"
    by (cases ?r) auto
  from operation_applied_once [OF sample_ledger_wf r, of "[]"] show ?thesis
    by (simp add: r)
qed

text \<open>
  Final acceptances are sound: after any calls on a new ledger an assignment has at most one,
  it is confirmed and of the accepted architecture mode, and a \<open>PASS\<close> was read back.
\<close>

theorem acceptances_sound:
  "let l = fold ledger_exec calls empty_ledger in
    distinct (map acc_assignment (acceptances l)) \<and>
    (\<forall>a \<in> set (acceptances l). \<exists>row. dict_get (assignment_rows l) (acc_assignment a) = Some row \<and>
       current_state row = CONFIRMED \<and> architecture_mode row = acc_mode a \<and>
       (disposition a = ''PASS'' \<longrightarrow> readback_confirmed a))"
  using ledger.run_inv [OF ledger_wf_empty, of calls] unfolding ledger_wf_def Let_def by blast

definition sample_acceptance_calls :: "ledger_call list" where
  "sample_acceptance_calls =
     CreateAssignment ''a'' ''w'' ''NATIVE_MULTI_AGENT'' (Some 0) 0 #
     map (\<lambda>(t, actor). ApplyTransition ''a'' t actor t (PStr sample_digest) None (Some 1) 0)
       [(''ASSIGN'', ''COORDINATOR''), (''ACKNOWLEDGE'', ''PRODUCER''), (''START'', ''PRODUCER''),
        (''REQUEST_REVIEW'', ''PRODUCER''), (''CONFIRM'', ''REVIEWER'')] @
     [RecordAcceptance ''a'' ''NATIVE_MULTI_AGENT'' ''PASS'' (PBool True) (PStr sample_digest) (Some 9) 0]"

theorem acceptances_sound_witness:
  "let l = fold ledger_exec sample_acceptance_calls empty_ledger in
    \<exists>a row. acceptances l = [a] \<and> dict_get (assignment_rows l) (acc_assignment a) = Some row \<and> current_state row = CONFIRMED"
proof -
  let ?l = "fold ledger_exec sample_acceptance_calls empty_ledger"
  have "length (acceptances ?l) = 1"
    by code_simp
  then obtain a where a: "acceptances ?l = [a]"
    by (auto simp: length_Suc_conv)
  then show ?thesis
    using acceptances_sound [of sample_acceptance_calls] unfolding Let_def a by auto
qed

end
