(* ===== verification/Patterns.thy ===== *)
theory Patterns
  imports PyText
begin

text \<open>
  The regular expressions of the code as functions on text: character classes, a first character
  followed by a bounded run, and splitting off the longest run of a class. All runs end at a
  character outside their class, so greedy matching never has to give anything back but where
  it is said.
\<close>

section \<open>Character classes\<close>

definition is_alpha :: "char \<Rightarrow> bool" where
  "is_alpha c \<longleftrightarrow> is_lower c \<or> is_upper c"

definition is_alnum :: "char \<Rightarrow> bool" where
  "is_alnum c \<longleftrightarrow> is_alpha c \<or> is_digit c"

definition is_hex :: "char \<Rightarrow> bool" where
  "is_hex c \<longleftrightarrow> is_hex_lower c \<or> (let n = (of_char c :: nat) in 65 \<le> n \<and> n \<le> 70)"

definition upper_or_digit :: "char \<Rightarrow> bool" where
  "upper_or_digit c \<longleftrightarrow> is_upper c \<or> is_digit c"

text \<open>\<open>[A-Za-z0-9._:-]\<close> and \<open>[A-Za-z0-9_-]\<close>\<close>

definition id_char :: "char \<Rightarrow> bool" where
  "id_char c \<longleftrightarrow> is_alnum c \<or> c \<in> set ''._:-''"

definition name_char :: "char \<Rightarrow> bool" where
  "name_char c \<longleftrightarrow> is_alnum c \<or> c \<in> set ''_-''"

section \<open>Whole-text patterns\<close>

text \<open>A first character of one class, then at most \<open>n\<close> of another.\<close>

definition head_tail :: "(char \<Rightarrow> bool) \<Rightarrow> (char \<Rightarrow> bool) \<Rightarrow> nat \<Rightarrow> string \<Rightarrow> bool" where
  "head_tail p q n s = (case s of [] \<Rightarrow> False | c # cs \<Rightarrow> p c \<and> length cs \<le> n \<and> list_all q cs)"

text \<open>\<open>[A-Za-z0-9][A-Za-z0-9._:-]{0,127}\<close>\<close>

definition id_pattern :: "string \<Rightarrow> bool" where
  "id_pattern s \<longleftrightarrow> head_tail is_alnum id_char 127 s"

text \<open>A first character of a set, then one or more capitals and digits.\<close>

definition coded_id :: "string \<Rightarrow> string \<Rightarrow> bool" where
  "coded_id heads s = (case s of [] \<Rightarrow> False | c # cs \<Rightarrow> c \<in> set heads \<and> cs \<noteq> [] \<and> list_all upper_or_digit cs)"

text \<open>Two nonempty digit runs around a full stop.\<close>

definition decimal_point :: "string \<Rightarrow> bool" where
  "decimal_point s = (let a = takeWhile is_digit s; r = dropWhile is_digit s in
     a \<noteq> [] \<and> (case r of [] \<Rightarrow> False | c # b \<Rightarrow> c = CHR ''.'' \<and> b \<noteq> [] \<and> list_all is_digit b))"

section \<open>Lower case\<close>

definition lower_char :: "char \<Rightarrow> char" where
  "lower_char c = (let n = (of_char c :: nat) in
     if 65 \<le> n \<and> n \<le> 90 \<or> 192 \<le> n \<and> n \<le> 222 \<and> n \<noteq> 215 then char_of (n + 32) else c)"

text \<open>\<open>s.lower()\<close>\<close>

definition lower :: "string \<Rightarrow> string" where
  "lower s = map lower_char s"

section \<open>Facts\<close>

lemmas class_defs = is_alpha_def is_alnum_def is_lower_def is_upper_def is_digit_def name_char_def id_char_def

lemma name_char_not_space [simp]: "name_char c \<Longrightarrow> \<not> is_space c"
  by (auto simp: class_defs is_space_def Let_def)

lemma id_char_not_space [simp]: "id_char c \<Longrightarrow> \<not> is_space c"
  by (auto simp: class_defs is_space_def Let_def)

lemma id_pattern_clean:
  assumes "id_pattern s" shows "clean s"
proof -
  have "s \<noteq> []" "list_all id_char s"
    using assms by (auto simp: id_pattern_def head_tail_def class_defs split: list.splits)
  then have "\<not> is_space (hd s)" "\<not> is_space (last s)"
    by (simp_all add: list_all_iff)
  then show ?thesis
    using \<open>s \<noteq> []\<close> by (simp add: clean_def trimmed_def)
qed

lemma takeWhile_run: "list_all p s \<Longrightarrow> (case r of [] \<Rightarrow> True | c # cs \<Rightarrow> \<not> p c) \<Longrightarrow> takeWhile p (s @ r) = s"
  by (induction s) (auto split: list.splits)

lemma dropWhile_run: "list_all p s \<Longrightarrow> (case r of [] \<Rightarrow> True | c # cs \<Rightarrow> \<not> p c) \<Longrightarrow> dropWhile p (s @ r) = r"
  by (induction s) (auto split: list.splits)

end
