(* ===== verification/Endpoints.thy ===== *)
theory Endpoints
  imports Patterns Json
begin

text \<open>
  Logical endpoints of the chat bus (\<open>src/src/chat_bus/identity.py\<close>): the canonical form of an
  address, endpoints and their checks, and the immutable registry that admits no ambiguous
  address.
\<close>

section \<open>Addresses\<close>

definition address_pattern :: "string \<Rightarrow> bool" where
  "address_pattern s \<longleftrightarrow> head_tail is_lower (\<lambda>c. is_lower c \<or> is_digit c \<or> c \<in> set ''_-'') 63 s"

definition slack_user_pattern :: "string \<Rightarrow> bool" where
  "slack_user_pattern s \<longleftrightarrow> coded_id ''UW'' s"

definition normalize_address :: "pyval \<Rightarrow> exn + string" where
  "normalize_address v = (case v of
      PStr value \<Rightarrow>
        let address = strip value;
            bare = (if starts_with ''@'' address then drop 1 address else address);
            folded = casefold bare in
        requireE (address_pattern folded) (IdentityError ''INVALID_LOGICAL_ADDRESS'') (Inr folded)
    | _ \<Rightarrow> Inl (IdentityError ''ADDRESS_MUST_BE_TEXT''))"

section \<open>Endpoints\<close>

record logical_endpoint =
  endpoint_id :: string
  display_name :: string
  project_scope :: string
  aliases :: "string list"
  slack_user_id :: "string option"
  icon_emoji :: "string option"

text \<open>The loop over the aliases: each must be an address of its own.\<close>

fun check_aliases :: "string \<Rightarrow> string list \<Rightarrow> pyval list \<Rightarrow> exn + unit" where
  "check_aliases canonical seen [] = Inr ()"
| "check_aliases canonical seen (a # as) =
     bindE (normalize_address a) (\<lambda>n.
     requireE (\<not> (n = canonical \<or> n \<in> set seen)) (IdentityError ''DUPLICATE_ENDPOINT_ALIAS'')
     (check_aliases canonical (n # seen) as))"

definition slack_user_ok :: "pyval \<Rightarrow> bool" where
  "slack_user_ok v = (case v of PNone \<Rightarrow> True | PStr s \<Rightarrow> slack_user_pattern s | _ \<Rightarrow> False)"

definition icon_ok :: "pyval \<Rightarrow> bool" where
  "icon_ok v = (case v of
      PNone \<Rightarrow> True
    | PStr s \<Rightarrow> 3 \<le> length s \<and> starts_with '':'' s \<and> starts_with '':'' (rev s)
    | _ \<Rightarrow> False)"

definition opt_of :: "pyval \<Rightarrow> string option" where
  "opt_of v = (case v of PStr s \<Rightarrow> Some s | _ \<Rightarrow> None)"

text \<open>The constructor: \<open>__post_init__\<close> accepts a canonical id only; aliases are kept as given.\<close>

definition make_endpoint :: "pyval \<Rightarrow> pyval \<Rightarrow> pyval \<Rightarrow> pyval list \<Rightarrow> pyval \<Rightarrow> pyval \<Rightarrow> exn + logical_endpoint" where
  "make_endpoint id_arg name scope alias_args user icon =
    bindE (normalize_address id_arg) (\<lambda>canonical.
    requireE (PStr canonical = id_arg) (IdentityError ''ENDPOINT_ID_MUST_BE_CANONICAL'')
    (requireE (is_text name) (IdentityError ''DISPLAY_NAME_REQUIRED'')
    (requireE (is_text scope) (IdentityError ''PROJECT_SCOPE_REQUIRED'')
    (requireE (slack_user_ok user) (IdentityError ''INVALID_SLACK_USER_ID'')
    (requireE (icon_ok icon) (IdentityError ''INVALID_ICON_EMOJI'')
    (bindE (check_aliases canonical [] alias_args) (\<lambda>_.
     Inr \<lparr>endpoint_id = canonical, display_name = text_of name, project_scope = text_of scope,
          aliases = map text_of alias_args, slack_user_id = opt_of user, icon_emoji = opt_of icon\<rparr>)))))))"

definition create_endpoint :: "pyval \<Rightarrow> pyval \<Rightarrow> pyval \<Rightarrow> pyval list \<Rightarrow> pyval \<Rightarrow> pyval \<Rightarrow> exn + logical_endpoint" where
  "create_endpoint id_arg name scope alias_args user icon =
    bindE (normalize_address id_arg) (\<lambda>canonical_id.
    bindE (mapE normalize_address alias_args) (\<lambda>canonical_aliases.
    make_endpoint (PStr canonical_id) name scope (map PStr canonical_aliases) user icon))"

definition addresses :: "logical_endpoint \<Rightarrow> exn + string list" where
  "addresses e = bindE (mapE (\<lambda>a. normalize_address (PStr a)) (aliases e)) (\<lambda>ns. Inr (endpoint_id e # ns))"

section \<open>The registry\<close>

record endpoint_registry =
  by_id :: "(string, logical_endpoint) dict"
  by_address :: "(string, logical_endpoint) dict"
  by_slack_user :: "(string, logical_endpoint) dict"

definition no_endpoints :: endpoint_registry where
  "no_endpoints = \<lparr>by_id = [], by_address = [], by_slack_user = []\<rparr>"

fun add_addresses :: "logical_endpoint \<Rightarrow> string list \<Rightarrow> (string, logical_endpoint) dict \<Rightarrow> exn + (string, logical_endpoint) dict" where
  "add_addresses e [] d = Inr d"
| "add_addresses e (a # as) d =
     requireE (\<not> dict_has d a) (IdentityError ''LOGICAL_ADDRESS_COLLISION'') (add_addresses e as (dict_set d a e))"

definition add_endpoint :: "logical_endpoint \<Rightarrow> endpoint_registry \<Rightarrow> exn + endpoint_registry" where
  "add_endpoint e r =
    requireE (\<not> dict_has (by_id r) (endpoint_id e)) (IdentityError ''DUPLICATE_ENDPOINT_ID'')
    (bindE (addresses e) (\<lambda>as.
     bindE (add_addresses e as (by_address r)) (\<lambda>d.
     let r1 = r\<lparr>by_id := dict_set (by_id r) (endpoint_id e) e, by_address := d\<rparr> in
     case slack_user_id e of
       None \<Rightarrow> Inr r1
     | Some u \<Rightarrow> requireE (\<not> dict_has (by_slack_user r) u) (IdentityError ''SLACK_USER_ID_COLLISION'')
         (Inr (r1\<lparr>by_slack_user := dict_set (by_slack_user r) u e\<rparr>)))))"

fun add_endpoints :: "logical_endpoint list \<Rightarrow> endpoint_registry \<Rightarrow> exn + endpoint_registry" where
  "add_endpoints [] r = Inr r"
| "add_endpoints (e # es) r = bindE (add_endpoint e r) (add_endpoints es)"

definition new_endpoint_registry :: "logical_endpoint list \<Rightarrow> exn + endpoint_registry" where
  "new_endpoint_registry es = bindE (add_endpoints es no_endpoints) (\<lambda>r.
     requireE (by_id r \<noteq> []) (IdentityError ''AT_LEAST_ONE_ENDPOINT_REQUIRED'') (Inr r))"

definition endpoint_at :: "endpoint_registry \<Rightarrow> string \<Rightarrow> exn + logical_endpoint" where
  "endpoint_at r i = (case dict_get (by_id r) i of None \<Rightarrow> Inl (KeyError i) | Some e \<Rightarrow> Inr e)"

definition has_endpoint :: "endpoint_registry \<Rightarrow> pyval \<Rightarrow> bool" where
  "has_endpoint r v = (case v of PStr i \<Rightarrow> dict_has (by_id r) i | _ \<Rightarrow> False)"

definition endpoint_count :: "endpoint_registry \<Rightarrow> int" where
  "endpoint_count r = int (length (by_id r))"

definition endpoint_ids :: "endpoint_registry \<Rightarrow> string list" where
  "endpoint_ids r = sort (map fst (by_id r))"

definition iter_endpoint_ids :: "endpoint_registry \<Rightarrow> string list" where
  "iter_endpoint_ids r = sort (map fst (by_id r))"

definition resolve :: "endpoint_registry \<Rightarrow> pyval \<Rightarrow> exn + logical_endpoint" where
  "resolve r v = (case normalize_address v of
      Inl _ \<Rightarrow> Inl (IdentityError ''UNKNOWN_LOGICAL_ENDPOINT'')
    | Inr key \<Rightarrow> (case dict_get (by_address r) key of
        None \<Rightarrow> Inl (IdentityError ''UNKNOWN_LOGICAL_ENDPOINT'') | Some e \<Rightarrow> Inr e))"

definition get_endpoint_or_none :: "endpoint_registry \<Rightarrow> pyval \<Rightarrow> logical_endpoint option" where
  "get_endpoint_or_none r v = (case normalize_address v of Inl _ \<Rightarrow> None | Inr key \<Rightarrow> dict_get (by_address r) key)"

definition resolve_slack_user :: "endpoint_registry \<Rightarrow> string \<Rightarrow> exn + logical_endpoint" where
  "resolve_slack_user r u = (case dict_get (by_slack_user r) u of
      None \<Rightarrow> Inl (IdentityError ''UNKNOWN_SLACK_USER_ENDPOINT'') | Some e \<Rightarrow> Inr e)"

section \<open>Normal forms\<close>

lemma address_pattern_clean:
  assumes "address_pattern s"
  shows "casefold s = s" "strip s = s" "\<not> starts_with ''@'' s" "s \<noteq> []"
proof -
  have s: "list_all (\<lambda>c. is_lower c \<or> is_digit c \<or> c \<in> set ''_-'') s" "s \<noteq> []"
    using assms by (auto simp: address_pattern_def head_tail_def split: list.splits)
  have char: "fold_char c = [c] \<and> \<not> is_space c \<and> c \<noteq> CHR ''@''" if "is_lower c \<or> is_digit c \<or> c \<in> set ''_-''" for c
    using that by (auto simp: fold_char_def is_lower_def is_digit_def is_space_def Let_def)
  show "casefold s = s"
    using s(1) char by (intro casefold_fixed) (auto simp: list_all_iff)
  have "trimmed s"
    using s char by (auto simp: trimmed_def list_all_iff)
  then show "strip s = s"
    by (rule strip_trimmed)
  show "\<not> starts_with ''@'' s"
    using s char by (cases s) auto
  show "s \<noteq> []"
    by (rule s(2))
qed

lemma normalize_address_Inr: "normalize_address v = Inr k \<Longrightarrow> address_pattern k \<and> (\<exists>s. v = PStr s)"
  by (cases v) (auto simp: normalize_address_def Let_def split: if_splits)

text \<open>A canonical address is its own normal form, with or without the at sign.\<close>

lemma normalize_address_canonical:
  "address_pattern k \<Longrightarrow> normalize_address (PStr k) = Inr k \<and> normalize_address (PStr (CHR ''@'' # k)) = Inr k"
proof -
  assume k: "address_pattern k"
  note c = address_pattern_clean [OF k]
  have "trimmed k"
    using c(2) trimmed_strip [of k] by simp
  then have "trimmed (CHR ''@'' # k)"
    using c(4) by (auto simp: trimmed_def is_space_def)
  then have "strip (CHR ''@'' # k) = CHR ''@'' # k"
    by (rule strip_trimmed)
  with c k show ?thesis
    by (simp add: normalize_address_def Let_def)
qed

text \<open>All names an endpoint answers to, in canonical form.\<close>

definition canonical_name :: "string \<Rightarrow> string" where
  "canonical_name a = projr (normalize_address (PStr a))"

definition names :: "logical_endpoint \<Rightarrow> string list" where
  "names e = endpoint_id e # map canonical_name (aliases e)"

definition endpoint_wf :: "logical_endpoint \<Rightarrow> bool" where
  "endpoint_wf e \<longleftrightarrow> address_pattern (endpoint_id e) \<and>
     (\<forall>a \<in> set (aliases e). \<exists>k. normalize_address (PStr a) = Inr k) \<and> distinct (names e) \<and>
     \<not> blank (display_name e) \<and> \<not> blank (project_scope e) \<and>
     (\<forall>u. slack_user_id e = Some u \<longrightarrow> slack_user_pattern u)"

lemma check_aliases_Inr:
  "check_aliases canonical seen as = Inr u \<Longrightarrow>
     (\<forall>a \<in> set as. \<exists>k. normalize_address a = Inr k) \<and>
     distinct (map (\<lambda>a. projr (normalize_address a)) as) \<and>
     (\<forall>a \<in> set as. projr (normalize_address a) \<noteq> canonical \<and> projr (normalize_address a) \<notin> set seen)"
  by (induction canonical seen as rule: check_aliases.induct) auto

lemma make_endpoint_wf:
  assumes "make_endpoint id_arg name scope alias_args user icon = Inr e"
  shows "endpoint_wf e"
proof -
  obtain k where k: "normalize_address id_arg = Inr k" "check_aliases k [] alias_args = Inr ()"
      "e = \<lparr>endpoint_id = k, display_name = text_of name, project_scope = text_of scope,
          aliases = map text_of alias_args, slack_user_id = opt_of user, icon_emoji = opt_of icon\<rparr>"
      "is_text name" "is_text scope" "slack_user_ok user"
    using assms by (auto simp: make_endpoint_def)
  have as: "\<forall>a \<in> set alias_args. PStr (text_of a) = a"
    using check_aliases_Inr [OF k(2)] normalize_address_Inr by fastforce
  then have "names e = k # map (\<lambda>a. projr (normalize_address a)) alias_args"
    by (simp add: canonical_name_def names_def k(3))
  then have "distinct (names e)"
    using check_aliases_Inr [OF k(2)] by auto
  moreover have "\<forall>u. slack_user_id e = Some u \<longrightarrow> slack_user_pattern u"
    using k(3,6) by (auto simp: slack_user_ok_def opt_of_def split: pyval.splits)
  ultimately show ?thesis
    using check_aliases_Inr [OF k(2)] k as normalize_address_Inr [OF k(1)]
    by (auto simp: endpoint_wf_def is_text_iff)
qed

lemma addresses_wf: "endpoint_wf e \<Longrightarrow> addresses e = Inr (names e)"
proof -
  assume "endpoint_wf e"
  then have "mapE (\<lambda>a. normalize_address (PStr a)) (aliases e) = Inr (map canonical_name (aliases e))"
    by (intro mapE_all_Inr) (force simp: endpoint_wf_def canonical_name_def)
  then show ?thesis
    by (simp add: addresses_def names_def)
qed

section \<open>What the registry holds\<close>

definition id_entries :: "logical_endpoint list \<Rightarrow> (string, logical_endpoint) dict" where
  "id_entries es = map (\<lambda>e. (endpoint_id e, e)) es"

definition address_entries :: "logical_endpoint list \<Rightarrow> (string, logical_endpoint) dict" where
  "address_entries es = concat (map (\<lambda>e. map (\<lambda>a. (a, e)) (names e)) es)"

definition slack_entries :: "logical_endpoint list \<Rightarrow> (string, logical_endpoint) dict" where
  "slack_entries es = concat (map (\<lambda>e. case slack_user_id e of None \<Rightarrow> [] | Some u \<Rightarrow> [(u, e)]) es)"

lemma not_has_iff: "\<not> dict_has d k \<longleftrightarrow> k \<notin> fst ` set d"
  by (simp add: map_of_eq_None_iff)

lemma add_addresses_Inr:
  "dict_wf d \<Longrightarrow> add_addresses e as d = Inr d' \<longleftrightarrow>
     dict_wf (d @ map (\<lambda>a. (a, e)) as) \<and> d' = d @ map (\<lambda>a. (a, e)) as"
proof (induction as arbitrary: d)
  case (Cons a as)
  show ?case
  proof (cases "dict_get d a")
    case None
    then have "a \<notin> fst ` set d" "dict_set d a e = d @ [(a, e)]"
      by (simp_all add: map_of_eq_None_iff dict_set_new)
    then show ?thesis
      using Cons.IH [of "d @ [(a, e)]"] Cons.prems None by (auto simp: comp_def)
  next
    case (Some x)
    then have "a \<in> fst ` set d"
      by (metis map_of_eq_None_iff option.distinct(1))
    then show ?thesis
      using Some by auto
  qed
qed auto

lemma add_endpoint_Inr:
  assumes e: "endpoint_wf e" and r: "dict_wf (by_id r)" "dict_wf (by_address r)" "dict_wf (by_slack_user r)"
  shows "add_endpoint e r = Inr r' \<longleftrightarrow> dict_wf (by_id r @ id_entries [e]) \<and>
    dict_wf (by_address r @ address_entries [e]) \<and> dict_wf (by_slack_user r @ slack_entries [e]) \<and>
    r' = \<lparr>by_id = by_id r @ id_entries [e], by_address = by_address r @ address_entries [e],
          by_slack_user = by_slack_user r @ slack_entries [e]\<rparr>"
proof -
  have entries: "id_entries [e] = [(endpoint_id e, e)]" "address_entries [e] = map (\<lambda>a. (a, e)) (names e)"
    "slack_entries [e] = (case slack_user_id e of None \<Rightarrow> [] | Some u \<Rightarrow> [(u, e)])"
    by (simp_all add: id_entries_def address_entries_def slack_entries_def)
  have upd: "r\<lparr>by_id := a, by_address := b\<rparr> = \<lparr>by_id = a, by_address = b, by_slack_user = by_slack_user r\<rparr>"
    "r\<lparr>by_id := a, by_address := b, by_slack_user := c\<rparr> = \<lparr>by_id = a, by_address = b, by_slack_user = c\<rparr>" for a b c
    by (cases r; simp)+
  have fresh: "k \<notin> fst ` set d \<Longrightarrow> dict_set d k v = d @ [(k, v)]" for d :: "(string, logical_endpoint) dict" and k v
    by (rule dict_set_new) (simp add: map_of_eq_None_iff)
  have body: "add_endpoint e r = Inr r' \<longleftrightarrow> endpoint_id e \<notin> fst ` set (by_id r) \<and>
      dict_wf (by_address r @ map (\<lambda>a. (a, e)) (names e)) \<and>
      (case slack_user_id e of
         None \<Rightarrow> r' = \<lparr>by_id = by_id r @ [(endpoint_id e, e)], by_address = by_address r @ map (\<lambda>a. (a, e)) (names e),
           by_slack_user = by_slack_user r\<rparr>
       | Some u \<Rightarrow> u \<notin> fst ` set (by_slack_user r) \<and>
           r' = \<lparr>by_id = by_id r @ [(endpoint_id e, e)], by_address = by_address r @ map (\<lambda>a. (a, e)) (names e),
             by_slack_user = by_slack_user r @ [(u, e)]\<rparr>)"
    unfolding add_endpoint_def addresses_wf [OF e] not_has_iff
    by (auto simp: add_addresses_Inr [OF r(2)] upd fresh Let_def split: option.splits)
  show ?thesis
    unfolding entries body using r by (cases "slack_user_id e") auto
qed

lemma entries_Cons:
  "id_entries (e # es) = id_entries [e] @ id_entries es"
  "address_entries (e # es) = address_entries [e] @ address_entries es"
  "slack_entries (e # es) = slack_entries [e] @ slack_entries es"
  by (simp_all add: id_entries_def address_entries_def slack_entries_def)

lemma entries_Nil [simp]: "id_entries [] = []" "address_entries [] = []" "slack_entries [] = []"
  by (simp_all add: id_entries_def address_entries_def slack_entries_def)

lemma add_endpoints_Inr:
  assumes "\<forall>e \<in> set es. endpoint_wf e"
    and "dict_wf (by_id r)" "dict_wf (by_address r)" "dict_wf (by_slack_user r)"
  shows "add_endpoints es r = Inr r' \<longleftrightarrow> dict_wf (by_id r @ id_entries es) \<and>
    dict_wf (by_address r @ address_entries es) \<and> dict_wf (by_slack_user r @ slack_entries es) \<and>
    r' = \<lparr>by_id = by_id r @ id_entries es, by_address = by_address r @ address_entries es,
          by_slack_user = by_slack_user r @ slack_entries es\<rparr>"
  using assms
proof (induction es arbitrary: r)
  case Nil
  then show ?case
    by (cases r) auto
next
  case (Cons e es)
  let ?r = "\<lparr>by_id = by_id r @ id_entries [e], by_address = by_address r @ address_entries [e],
      by_slack_user = by_slack_user r @ slack_entries [e]\<rparr>"
  have first: "add_endpoint e r = Inr x \<longleftrightarrow> dict_wf (by_id ?r) \<and> dict_wf (by_address ?r) \<and> dict_wf (by_slack_user ?r) \<and> x = ?r" for x
    using add_endpoint_Inr [of e r x] Cons.prems by simp
  have rest: "add_endpoints es ?r = Inr r' \<longleftrightarrow> dict_wf (by_id ?r @ id_entries es) \<and>
      dict_wf (by_address ?r @ address_entries es) \<and> dict_wf (by_slack_user ?r @ slack_entries es) \<and>
      r' = \<lparr>by_id = by_id ?r @ id_entries es, by_address = by_address ?r @ address_entries es,
          by_slack_user = by_slack_user ?r @ slack_entries es\<rparr>"
    if "dict_wf (by_id ?r)" "dict_wf (by_address ?r)" "dict_wf (by_slack_user ?r)"
    using Cons.IH [of ?r] Cons.prems(1) that by simp
  have prefix: "dict_wf (d1 @ d2 @ d3) \<Longrightarrow> dict_wf (d1 @ d2)" for d1 d2 d3 :: "(string, logical_endpoint) dict"
    by auto
  show ?case
  proof (cases "dict_wf (by_id ?r) \<and> dict_wf (by_address ?r) \<and> dict_wf (by_slack_user ?r)")
    case True
    then have "add_endpoint e r = Inr ?r"
      by (simp only: first)
    then have "add_endpoints (e # es) r = add_endpoints es ?r"
      by simp
    moreover note rest
    ultimately show ?thesis
      unfolding entries_Cons [of e es] using True by (simp only: endpoint_registry.select_convs append_assoc)
  next
    case False
    then have "add_endpoints (e # es) r \<noteq> Inr r'"
      using first by auto
    moreover have "\<not> (dict_wf (by_id r @ id_entries (e # es)) \<and> dict_wf (by_address r @ address_entries (e # es)) \<and>
        dict_wf (by_slack_user r @ slack_entries (e # es)))"
      using False prefix unfolding entries_Cons [of e es] endpoint_registry.select_convs by blast
    ultimately show ?thesis
      by blast
  qed
qed

lemma new_registry_Inr:
  assumes "\<forall>e \<in> set es. endpoint_wf e"
  shows "new_endpoint_registry es = Inr r \<longleftrightarrow> es \<noteq> [] \<and> dict_wf (id_entries es) \<and> dict_wf (address_entries es) \<and>
    dict_wf (slack_entries es) \<and>
    r = \<lparr>by_id = id_entries es, by_address = address_entries es, by_slack_user = slack_entries es\<rparr>"
proof -
  have "id_entries es = [] \<longleftrightarrow> es = []"
    by (simp add: id_entries_def)
  then show ?thesis
    using add_endpoints_Inr [OF assms, of no_endpoints] by (auto simp: new_endpoint_registry_def no_endpoints_def)
qed

lemma address_entry: "(a, e) \<in> set (address_entries es) \<longleftrightarrow> e \<in> set es \<and> a \<in> set (names e)"
  by (auto simp: address_entries_def)

text \<open>An address has one meaning when it occurs once among the names of all endpoints.\<close>

definition unambiguous :: "logical_endpoint list \<Rightarrow> bool" where
  "unambiguous es \<longleftrightarrow> distinct (concat (map names es)) \<and> distinct (List.map_filter slack_user_id es)"

lemma unambiguous_iff:
  "unambiguous es \<longleftrightarrow> dict_wf (id_entries es) \<and> dict_wf (address_entries es) \<and> dict_wf (slack_entries es)"
proof -
  have addr: "map fst (address_entries es) = concat (map names es)"
    by (induction es) (simp_all add: address_entries_def comp_def)
  have slack: "map fst (slack_entries es) = List.map_filter slack_user_id es"
    by (induction es) (simp_all add: slack_entries_def List.map_filter_simps split: option.split)
  have "distinct (concat (map names es)) \<Longrightarrow> distinct (map endpoint_id es)"
    by (induction es) (auto simp: names_def)
  then show ?thesis
    by (auto simp: unambiguous_def addr slack id_entries_def comp_def)
qed

section \<open>A small registry\<close>

definition sample_endpoint :: "string \<Rightarrow> string list \<Rightarrow> logical_endpoint" where
  "sample_endpoint i as = \<lparr>endpoint_id = i, display_name = ''D'', project_scope = ''P'', aliases = as,
     slack_user_id = None, icon_emoji = None\<rparr>"

lemma sample_endpoints_wf: "\<forall>e \<in> set [sample_endpoint ''delta'' [''d''], sample_endpoint ''echo'' []]. endpoint_wf e"
proof -
  have "endpoint_wf e" if "make_endpoint a b c d f g = Inr e" for a b c d f g e
    using that by (rule make_endpoint_wf)
  moreover have "make_endpoint (PStr ''delta'') (PStr ''D'') (PStr ''P'') [PStr ''d''] PNone PNone =
      Inr (sample_endpoint ''delta'' [''d''])"
    "make_endpoint (PStr ''echo'') (PStr ''D'') (PStr ''P'') [] PNone PNone = Inr (sample_endpoint ''echo'' [])"
  proof -
    have "normalize_address (PStr ''delta'') = Inr ''delta''" "normalize_address (PStr ''echo'') = Inr ''echo''"
      "normalize_address (PStr ''d'') = Inr ''d''" "\<not> blank ''D''" "\<not> blank ''P''"
      by code_simp+
    then show "make_endpoint (PStr ''delta'') (PStr ''D'') (PStr ''P'') [PStr ''d''] PNone PNone =
      Inr (sample_endpoint ''delta'' [''d''])"
    "make_endpoint (PStr ''echo'') (PStr ''D'') (PStr ''P'') [] PNone PNone = Inr (sample_endpoint ''echo'' [])"
      by (simp_all add: make_endpoint_def sample_endpoint_def slack_user_ok_def icon_ok_def opt_of_def)
  qed
  ultimately show ?thesis
    by auto
qed

section \<open>Properties\<close>

text \<open>
  Addresses are never ambiguous, and no registry is refused for another reason: a nonempty list
  of endpoints is accepted exactly when all their names, canonical ids and aliases in normal form,
  are different, and so are their Slack users; then an address resolves to an endpoint exactly
  when its normal form is one of that endpoint's names.
\<close>

theorem endpoint_registry_unambiguous:
  assumes "\<forall>e \<in> set es. endpoint_wf e" and "es \<noteq> []"
  shows "if unambiguous es
    then \<exists>r. new_endpoint_registry es = Inr r \<and>
      (\<forall>v e. resolve r v = Inr e \<longleftrightarrow> e \<in> set es \<and> (\<exists>k. normalize_address v = Inr k \<and> k \<in> set (names e)))
    else isl (new_endpoint_registry es)"
proof (cases "unambiguous es")
  case True
  let ?r = "\<lparr>by_id = id_entries es, by_address = address_entries es, by_slack_user = slack_entries es\<rparr>"
  have r: "new_endpoint_registry es = Inr ?r" and wf: "dict_wf (address_entries es)"
    using True assms(2) new_registry_Inr [OF assms(1), of ?r] by (auto simp: unambiguous_iff)
  have "resolve ?r v = Inr e \<longleftrightarrow> e \<in> set es \<and> (\<exists>k. normalize_address v = Inr k \<and> k \<in> set (names e))" for v e
  proof (cases "normalize_address v")
    case (Inr k)
    have "resolve ?r v = Inr e \<longleftrightarrow> dict_get (address_entries es) k = Some e"
      by (auto simp: resolve_def Inr split: option.split)
    also have "\<dots> \<longleftrightarrow> (k, e) \<in> set (address_entries es)"
      by (rule dict_get_in [OF wf, symmetric])
    finally show ?thesis
      by (simp add: address_entry Inr)
  qed (simp add: resolve_def)
  with r True show ?thesis
    by auto
next
  case False
  then have "new_endpoint_registry es \<noteq> Inr r" for r
    using new_registry_Inr [OF assms(1)] by (auto simp: unambiguous_iff)
  with False show ?thesis
    by (cases "new_endpoint_registry es") auto
qed

theorem endpoint_registry_unambiguous_witness:
  "\<exists>r. new_endpoint_registry [sample_endpoint ''delta'' [''d''], sample_endpoint ''echo'' []] = Inr r \<and>
    resolve r (PStr '' @D '') = Inr (sample_endpoint ''delta'' [''d''])"
proof -
  have ok: "unambiguous [sample_endpoint ''delta'' [''d''], sample_endpoint ''echo'' []]"
    "normalize_address (PStr '' @D '') = Inr ''d''" "''d'' \<in> set (names (sample_endpoint ''delta'' [''d'']))"
    by code_simp+
  show ?thesis
    using endpoint_registry_unambiguous [OF sample_endpoints_wf] ok by auto
qed

end
