(* ===== verification/ClaimStore.thy ===== *)
theory ClaimStore
  imports Prelude
begin

text \<open>
  The interface of a durable claim store: a request is claimed under a key, the first claim is
  told it created the entry, every later claim of the same request is told it did not, and a
  different request under the same key is refused. Two relays of the system rest on it.
\<close>

locale claim_store = component exec inv
  for exec :: "'c \<Rightarrow> 's \<Rightarrow> 's" and inv :: "'s \<Rightarrow> bool" +
  fixes claim :: "'s \<Rightarrow> 'r \<Rightarrow> exn + bool \<times> 's"
    and claimed :: "'s \<Rightarrow> 'r \<Rightarrow> bool"
    and conflicting :: "'r \<Rightarrow> 'r \<Rightarrow> bool"
  assumes claim_new: "inv s \<Longrightarrow> claim s r = Inr (created, t) \<Longrightarrow> claimed t r \<and> inv t \<and> (created \<longleftrightarrow> \<not> claimed s r)"
    and claim_again: "inv s \<Longrightarrow> claimed s r \<Longrightarrow> claim s r = Inr (False, s)"
    and claim_conflict: "inv s \<Longrightarrow> claimed s r \<Longrightarrow> conflicting r r' \<Longrightarrow> isl (claim s r')"
    and claimed_stays: "inv s \<Longrightarrow> claimed s r \<Longrightarrow> claimed (exec c s) r"
begin

lemma claimed_run: "inv s \<Longrightarrow> claimed s r \<Longrightarrow> claimed (fold exec cs s) r"
  by (induction cs arbitrary: s) (simp_all add: exec_inv claimed_stays)

text \<open>At most one claim of a request ever creates it.\<close>

lemma created_once:
  assumes "inv s" "claim s r = Inr (created, t)"
  shows "claim (fold exec cs t) r = Inr (False, fold exec cs t)"
proof -
  have "inv t" "claimed t r"
    using claim_new [OF assms] by blast+
  then show ?thesis
    by (intro claim_again run_inv claimed_run)
qed

lemma conflict_refused:
  assumes "inv s" "claim s r = Inr (created, t)" "conflicting r r'"
  shows "isl (claim (fold exec cs t) r')"
proof -
  have "inv t" "claimed t r"
    using claim_new [OF assms(1,2)] by blast+
  then show ?thesis
    using assms(3) by (intro claim_conflict [of _ r] run_inv claimed_run)
qed

end

end
