(* ===== verification/SlackRelay.thy ===== *)
theory SlackRelay
  imports Endpoints ClaimStore
begin

text \<open>
  The Slack relay of the chat bus (\<open>src/src/chat_bus/slack_relay.py\<close>): envelopes and their digest,
  the addressing of inbound text, the rendering of outbound messages, and the durable store of
  delivery claims. SHA-256 is the parameter \<open>sha\<close> on bytes to hexadecimal text; the arrow of the
  signpost, a character beyond the modelled range, is the parameter \<open>arrow\<close>. A table row is an
  entry under its primary key; a failed statement is rolled back.
\<close>

section \<open>Envelopes\<close>

definition RELAY_SCHEMA :: string where
  "RELAY_SCHEMA = ''CHAT_BUS_SLACK_RELAY_V1''"

definition channel_pattern :: "string \<Rightarrow> bool" where
  "channel_pattern s \<longleftrightarrow> coded_id ''CDG'' s"

definition ts_pattern :: "string \<Rightarrow> bool" where
  "ts_pattern s \<longleftrightarrow> decimal_point s"

record relay_envelope =
  operation_id :: string
  message_id :: string
  sender_endpoint :: string
  recipient_endpoint :: string
  channel_id :: string
  body :: string
  created_at_ms :: int
  thread_ts :: "string option"
  reply_to_message_id :: "string option"
  schema :: string

definition id_ok :: "pyval \<Rightarrow> bool" where
  "id_ok v = (case v of PStr s \<Rightarrow> id_pattern s | _ \<Rightarrow> False)"

text \<open>\<open>pattern.fullmatch(value)\<close> raises \<open>TypeError\<close> on a value that is no text.\<close>

definition require_match :: "(string \<Rightarrow> bool) \<Rightarrow> pyval \<Rightarrow> string \<Rightarrow> exn + string" where
  "require_match p v code = (case v of PStr s \<Rightarrow> requireE (p s) (RelayError code) (Inr s) | _ \<Rightarrow> Inl TypeError)"

definition require_opt_match :: "(string \<Rightarrow> bool) \<Rightarrow> pyval \<Rightarrow> string \<Rightarrow> exn + string option" where
  "require_opt_match p v code = (if v = PNone then Inr None else bindE (require_match p v code) (\<lambda>s. Inr (Some s)))"

definition make_relay_envelope ::
  "pyval \<Rightarrow> pyval \<Rightarrow> string \<Rightarrow> string \<Rightarrow> pyval \<Rightarrow> pyval \<Rightarrow> pyval \<Rightarrow> pyval \<Rightarrow> pyval \<Rightarrow> string \<Rightarrow> exn + relay_envelope" where
  "make_relay_envelope op mid sender recipient channel body_arg created thread reply schema_arg =
    requireE (id_ok op) (RelayError ''INVALID_OPERATION_ID'')
    (requireE (id_ok mid) (RelayError ''INVALID_MESSAGE_ID'')
    (requireE (schema_arg = RELAY_SCHEMA) (RelayError ''UNKNOWN_RELAY_SCHEMA'')
    (bindE (require_match channel_pattern channel ''INVALID_SLACK_CHANNEL_ID'') (\<lambda>ch.
     requireE (is_text body_arg) (RelayError ''MESSAGE_BODY_REQUIRED'')
    (requireE (length (text_of body_arg) \<le> 40000) (RelayError ''MESSAGE_BODY_TOO_LARGE'')
    (bindE (case created of
        PInt n \<Rightarrow> requireE (0 \<le> n) (RelayError ''INVALID_CREATED_AT_MS'') (Inr n)
      | _ \<Rightarrow> Inl (RelayError ''INVALID_CREATED_AT_MS'')) (\<lambda>at.
     bindE (require_opt_match ts_pattern thread ''INVALID_THREAD_TS'') (\<lambda>th.
     bindE (require_opt_match id_pattern reply ''INVALID_REPLY_TO_MESSAGE_ID'') (\<lambda>rp.
     Inr \<lparr>operation_id = text_of op, message_id = text_of mid, sender_endpoint = sender,
          recipient_endpoint = recipient, channel_id = ch, body = text_of body_arg, created_at_ms = at,
          thread_ts = th, reply_to_message_id = rp, schema = schema_arg\<rparr>)))))))))"

definition opt_value :: "string option \<Rightarrow> pyval" where
  "opt_value t = (case t of None \<Rightarrow> PNone | Some s \<Rightarrow> PStr s)"

definition canonical_bytes :: "relay_envelope \<Rightarrow> string" where
  "canonical_bytes e = utf8 (projr (json_dumps False '','' '':'' (PDict
     [(''operation_id'', PStr (operation_id e)), (''message_id'', PStr (message_id e)),
      (''sender_endpoint'', PStr (sender_endpoint e)), (''recipient_endpoint'', PStr (recipient_endpoint e)),
      (''channel_id'', PStr (channel_id e)), (''body'', PStr (body e)), (''created_at_ms'', PInt (created_at_ms e)),
      (''thread_ts'', opt_value (thread_ts e)), (''reply_to_message_id'', opt_value (reply_to_message_id e)),
      (''schema'', PStr (schema e))])))"

definition envelope_sha256 :: "(string \<Rightarrow> string) \<Rightarrow> relay_envelope \<Rightarrow> string" where
  "envelope_sha256 sha e = sha (canonical_bytes e)"

section \<open>Inbound text\<close>

record addressed_text =
  addressed_recipient :: string
  addressed_body :: string

text \<open>\<open>^<@([UW][A-Z0-9]+)>\s*\<close>: the mentioned user and what follows the match.\<close>

definition bot_mention :: "string \<Rightarrow> (string \<times> string) option" where
  "bot_mention s =
    (if starts_with ''<@'' s
     then let r = drop 2 s; who = takeWhile (\<lambda>c. upper_or_digit c) r; rest = dropWhile (\<lambda>c. upper_or_digit c) r in
       if coded_id ''UW'' who \<and> starts_with ''>'' rest then Some (who, lstrip (drop 1 rest)) else None
     else None)"

text \<open>
  \<open>\s*(.+)$\<close> with \<open>DOTALL\<close>, after at least \<open>least\<close> spaces: the run of spaces is greedy, but gives its last
  one to the body when nothing else is left.
\<close>

definition spaced_body :: "nat \<Rightarrow> string \<Rightarrow> string option" where
  "spaced_body least s =
    (let ws = takeWhile is_space s; r = dropWhile is_space s in
     if r \<noteq> [] then (if least \<le> length ws then Some r else None)
     else if least < length ws then Some [last ws] else None)"

definition target_pattern :: "string \<Rightarrow> bool" where
  "target_pattern s \<longleftrightarrow> head_tail is_alpha name_char 63 s"

text \<open>\<open>^@(target)\s+(body)$\<close> and \<open>^(target)\s*:\s*(body)$\<close>\<close>

definition at_address :: "string \<Rightarrow> (string \<times> string) option" where
  "at_address s =
    (if starts_with ''@'' s
     then let r = drop 1 s; t = takeWhile name_char r in
       if target_pattern t then map_option (\<lambda>b. (t, b)) (spaced_body 1 (dropWhile name_char r)) else None
     else None)"

definition colon_address :: "string \<Rightarrow> (string \<times> string) option" where
  "colon_address s =
    (let t = takeWhile name_char s; r = lstrip (dropWhile name_char s) in
     if target_pattern t \<and> starts_with '':'' r then map_option (\<lambda>b. (t, b)) (spaced_body 0 (drop 1 r)) else None)"

definition parse_addressed_text :: "pyval \<Rightarrow> endpoint_registry \<Rightarrow> string option \<Rightarrow> exn + addressed_text" where
  "parse_addressed_text text reg relay_bot =
    requireE (is_text text) (RelayError ''EMPTY_INBOUND_TEXT'')
    (let stripped = strip (text_of text) in
     bindE (case bot_mention stripped of
         None \<Rightarrow> Inr stripped
       | Some (who, rest) \<Rightarrow>
           requireE (relay_bot = Some who) (RelayError ''UNEXPECTED_SLACK_BOT_MENTION'') (Inr (lstrip rest))) (\<lambda>candidate.
     case (case at_address candidate of Some m \<Rightarrow> Some m | None \<Rightarrow> colon_address candidate) of
       None \<Rightarrow> Inl (RelayError ''MISSING_LOGICAL_RECIPIENT'')
     | Some (target, raw_body) \<Rightarrow>
         (case resolve reg (PStr target) of
            Inl _ \<Rightarrow> Inl (RelayError ''UNKNOWN_LOGICAL_RECIPIENT'')
          | Inr endpoint \<Rightarrow>
              requireE (strip raw_body \<noteq> []) (RelayError ''MESSAGE_BODY_REQUIRED'')
              (Inr \<lparr>addressed_recipient = Endpoints.endpoint_id endpoint, addressed_body = strip raw_body\<rparr>))))"

section \<open>Outbound messages\<close>

record outbound_message =
  out_channel :: string
  out_text :: string
  out_thread_ts :: "string option"
  out_username :: "string option"
  out_icon_emoji :: "string option"
  out_metadata :: pyval

definition as_chat_post_message :: "outbound_message \<Rightarrow> pymap" where
  "as_chat_post_message m =
    [(''channel'', PStr (out_channel m)), (''text'', PStr (out_text m)), (''metadata'', out_metadata m)] @
    (case out_thread_ts m of None \<Rightarrow> [] | Some t \<Rightarrow> [(''thread_ts'', PStr t)]) @
    (case out_username m of None \<Rightarrow> [] | Some u \<Rightarrow> [(''username'', PStr u)]) @
    (case out_icon_emoji m of None \<Rightarrow> [] | Some i \<Rightarrow> [(''icon_emoji'', PStr i)])"

definition render_outbound ::
  "(string \<Rightarrow> string) \<Rightarrow> string \<Rightarrow> relay_envelope \<Rightarrow> endpoint_registry \<Rightarrow> bool \<Rightarrow> exn + outbound_message" where
  "render_outbound sha arrow e reg customize =
    (case (resolve reg (PStr (sender_endpoint e)), resolve reg (PStr (recipient_endpoint e))) of
       (Inr sender, Inr recipient) \<Rightarrow>
         let signpost = ''[Chat Bus relay '' @ [char_of (183 :: nat)] @ '' '' @ display_name sender @ '' '' @ arrow @ '' '' @
               display_name recipient @ '']'' in
         Inr \<lparr>out_channel = channel_id e, out_text = signpost @ [char_of (10 :: nat)] @ body e,
              out_thread_ts = thread_ts e,
              out_username = (if customize then Some (display_name sender) else None),
              out_icon_emoji = (if customize then icon_emoji sender else None),
              out_metadata = PDict [(''event_type'', PStr ''chat_bus_relay''),
                (''event_payload'', PDict [(''schema'', PStr (schema e)), (''operation_id'', PStr (operation_id e)),
                  (''message_id'', PStr (message_id e)), (''sender_endpoint'', PStr (Endpoints.endpoint_id sender)),
                  (''recipient_endpoint'', PStr (Endpoints.endpoint_id recipient)),
                  (''envelope_sha256'', PStr (envelope_sha256 sha e))])]\<rparr>
     | _ \<Rightarrow> Inl (RelayError ''UNKNOWN_ENVELOPE_ENDPOINT''))"

section \<open>The store of claims\<close>

record relay_row =
  row_message_id :: string
  row_sha256 :: string
  row_channel :: string
  row_ts :: "string option"
  row_created_at_ms :: int

type_synonym relay_store = "(string, relay_row) dict"

record relay_claim =
  claim_operation :: string
  claim_message :: string
  claim_sha256 :: string
  claim_ts :: "string option"
  claim_created :: bool

definition claim_from_row :: "string \<Rightarrow> relay_row \<Rightarrow> bool \<Rightarrow> relay_claim" where
  "claim_from_row op row created = \<lparr>claim_operation = op, claim_message = row_message_id row,
     claim_sha256 = row_sha256 row, claim_ts = row_ts row, claim_created = created\<rparr>"

definition hex64 :: "string \<Rightarrow> bool" where
  "hex64 s \<longleftrightarrow> length s = 64 \<and> list_all is_hex_lower s"

text \<open>
  \<open>INSERT ... ON CONFLICT(operation_id) DO NOTHING\<close>: the checks come first, then the operation id,
  whose conflict is no error, then the uniqueness of the message id.
\<close>

definition insert_claim :: "relay_store \<Rightarrow> relay_envelope \<Rightarrow> string \<Rightarrow> exn + bool \<times> relay_store" where
  "insert_claim s e digest =
    requireE (hex64 digest) (IntegrityError ''CHECK'')
    (if dict_has s (operation_id e) then Inr (False, s)
     else requireE (\<forall>(op, row) \<in> set s. row_message_id row \<noteq> message_id e) (IntegrityError ''UNIQUE'')
       (Inr (True, dict_set s (operation_id e)
          \<lparr>row_message_id = message_id e, row_sha256 = digest, row_channel = channel_id e, row_ts = None,
           row_created_at_ms = created_at_ms e\<rparr>)))"

definition claim :: "(string \<Rightarrow> string) \<Rightarrow> relay_store \<Rightarrow> relay_envelope \<Rightarrow> exn + relay_claim \<times> relay_store" where
  "claim sha s e =
    (let digest = envelope_sha256 sha e;
         other = (\<lambda>row. row_sha256 row \<noteq> digest \<or> row_message_id row \<noteq> message_id e) in
     case insert_claim s e digest of
       Inl _ \<Rightarrow>
         (case dict_get s (operation_id e) of
            None \<Rightarrow> Inl (RelayError ''MESSAGE_ID_CONFLICT'')
          | Some row \<Rightarrow> Inl (RelayError (if other row then ''OPERATION_ID_CONFLICT'' else ''MESSAGE_ID_CONFLICT'')))
     | Inr (created, s') \<Rightarrow>
         (case dict_get s' (operation_id e) of
            None \<Rightarrow> Inl (RelayError ''RELAY_CLAIM_STATE_MISSING'')
          | Some row \<Rightarrow> requireE (\<not> other row) (RelayError ''OPERATION_ID_CONFLICT'')
              (Inr (claim_from_row (operation_id e) row created, s'))))"

text \<open>The \<open>UPDATE\<close> of a delivery: it applies to the bound row with no or the same time stamp.\<close>

definition update_delivery :: "relay_store \<Rightarrow> string \<Rightarrow> string \<Rightarrow> string \<Rightarrow> relay_store" where
  "update_delivery s op digest ts = (case dict_get s op of
      None \<Rightarrow> s
    | Some row \<Rightarrow> if row_sha256 row = digest \<and> (row_ts row = None \<or> row_ts row = Some ts)
        then dict_set s op (row\<lparr>row_ts := Some ts\<rparr>) else s)"

definition mark_delivered :: "relay_store \<Rightarrow> string \<Rightarrow> string \<Rightarrow> string \<Rightarrow> (exn + relay_claim) \<times> relay_store" where
  "mark_delivered s op digest ts =
    (if \<not> ts_pattern ts then (Inl (RelayError ''INVALID_SLACK_MESSAGE_TS''), s)
     else let s' = update_delivery s op digest ts in
       (case dict_get s' op of
          None \<Rightarrow> (Inl (RelayError ''UNKNOWN_RELAY_OPERATION''), s')
        | Some row \<Rightarrow>
            (requireE (row_sha256 row = digest) (RelayError ''ENVELOPE_DIGEST_MISMATCH'')
             (requireE (row_ts row = Some ts) (RelayError ''DELIVERY_RECEIPT_CONFLICT'')
              (Inr (claim_from_row op row False))), s')))"


section \<open>Calls and what they keep\<close>

datatype relay_call = Claim relay_envelope | Deliver string string string

definition relay_exec :: "(string \<Rightarrow> string) \<Rightarrow> relay_call \<Rightarrow> relay_store \<Rightarrow> relay_store" where
  "relay_exec sha c s = (case c of
      Claim e \<Rightarrow> after s (claim sha s e)
    | Deliver op digest ts \<Rightarrow> snd (mark_delivered s op digest ts))"

definition relay_wf :: "relay_store \<Rightarrow> bool" where
  "relay_wf s \<longleftrightarrow> dict_wf s \<and> distinct (map (row_message_id \<circ> snd) s) \<and> dict_all (\<lambda>_ row. hex64 (row_sha256 row)) s"

lemma relay_wf_empty: "relay_wf []"
  by (simp add: relay_wf_def)

text \<open>What binds a row: all of it but the receipt, and the receipt once it is there.\<close>

definition row_binds :: "relay_row \<Rightarrow> relay_row \<Rightarrow> bool" where
  "row_binds r r' \<longleftrightarrow> r'\<lparr>row_ts := row_ts r\<rparr> = r \<and> (row_ts r \<noteq> None \<longrightarrow> r' = r)"

definition relay_before :: "relay_store \<Rightarrow> relay_store \<Rightarrow> bool" where
  "relay_before s t \<longleftrightarrow> (\<forall>op r. dict_get s op = Some r \<longrightarrow> (\<exists>r'. dict_get t op = Some r' \<and> row_binds r r'))"

lemma row_binds_refl [simp]: "row_binds r r"
  by (simp add: row_binds_def)

lemma row_binds_trans: "row_binds a b \<Longrightarrow> row_binds b c \<Longrightarrow> row_binds a c"
  by (cases a; cases b; cases c) (auto simp: row_binds_def)

lemma relay_before_refl: "relay_before s s"
  by (simp add: relay_before_def)

lemma relay_before_trans: "relay_before s t \<Longrightarrow> relay_before t u \<Longrightarrow> relay_before s u"
  unfolding relay_before_def by (meson row_binds_trans)

definition bound_to :: "(string \<Rightarrow> string) \<Rightarrow> relay_store \<Rightarrow> relay_envelope \<Rightarrow> bool" where
  "bound_to sha s e = (case dict_get s (operation_id e) of
      None \<Rightarrow> False
    | Some row \<Rightarrow> row_sha256 row = envelope_sha256 sha e \<and> row_message_id row = message_id e)"

definition fresh_relay_row :: "(string \<Rightarrow> string) \<Rightarrow> relay_envelope \<Rightarrow> relay_row" where
  "fresh_relay_row sha e = \<lparr>row_message_id = message_id e, row_sha256 = envelope_sha256 sha e, row_channel = channel_id e,
     row_ts = None, row_created_at_ms = created_at_ms e\<rparr>"

text \<open>A claim that returns found its row or adds it; any other claim raises.\<close>

lemma claim_cases [consumes 1, case_names replayed created refused]:
  assumes "relay_wf s"
  obtains row where "dict_get s (operation_id e) = Some row" "bound_to sha s e"
      "claim sha s e = Inr (claim_from_row (operation_id e) row False, s)"
  | "dict_get s (operation_id e) = None" "hex64 (envelope_sha256 sha e)"
      "message_id e \<notin> (row_message_id \<circ> snd) ` set s"
      "claim sha s e = Inr (claim_from_row (operation_id e) (fresh_relay_row sha e) True,
         dict_set s (operation_id e) (fresh_relay_row sha e))"
  | code where "claim sha s e = Inl (RelayError code)" "\<not> bound_to sha s e"
proof (cases "dict_get s (operation_id e)")
  case None
  note none = this
  show ?thesis
  proof (cases "hex64 (envelope_sha256 sha e) \<and> message_id e \<notin> (row_message_id \<circ> snd) ` set s")
    case True
    then have "insert_claim s e (envelope_sha256 sha e) = Inr (True, dict_set s (operation_id e) (fresh_relay_row sha e))"
      using None by (force simp: insert_claim_def fresh_relay_row_def)
    then show ?thesis
      using True None that(2) by (simp add: claim_def Let_def fresh_relay_row_def)
  next
    case False
    then have "isl (insert_claim s e (envelope_sha256 sha e))"
      using None by (force simp: insert_claim_def requireE_def)
    then show ?thesis
      using None that(3) by (cases "insert_claim s e (envelope_sha256 sha e)") (simp_all add: claim_def Let_def bound_to_def)
  qed
next
  case (Some row)
  then have "hex64 (row_sha256 row)"
    using assms by (auto simp: relay_wf_def dest: dict_allD)
  show ?thesis
  proof (cases "bound_to sha s e")
    case True
    then have "insert_claim s e (envelope_sha256 sha e) = Inr (False, s)"
      using Some \<open>hex64 (row_sha256 row)\<close> by (simp add: insert_claim_def bound_to_def)
    then show ?thesis
      using True Some that(1) by (simp add: claim_def Let_def bound_to_def)
  next
    case False
    then show ?thesis
      using Some that(3) by (cases "hex64 (envelope_sha256 sha e)")
        (simp_all add: claim_def insert_claim_def bound_to_def Let_def)
  qed
qed

lemma relay_wf_created:
  assumes "relay_wf s" "dict_get s op = None" "hex64 (row_sha256 row)" "row_message_id row \<notin> (row_message_id \<circ> snd) ` set s"
  shows "relay_wf (dict_set s op row)"
  using assms by (auto simp: relay_wf_def dict_set_new dict_all_def map_of_eq_None_iff)

lemma map_snd_set_same:
  "dict_get d k = Some v \<Longrightarrow> f v' = f v \<Longrightarrow> map (f \<circ> snd) (dict_set d k v') = map (f \<circ> snd) d"
  by (induction d) (auto split: if_splits)

lemma update_delivery_cases [case_names unchanged delivered]:
  obtains "update_delivery s op digest ts = s"
  | row where "dict_get s op = Some row" "row_sha256 row = digest" "row_ts row = None"
      "update_delivery s op digest ts = dict_set s op (row\<lparr>row_ts := Some ts\<rparr>)"
proof (cases "\<exists>row. dict_get s op = Some row \<and> row_sha256 row = digest \<and> row_ts row = None")
  case True
  then show ?thesis
    using that(2) by (auto simp: update_delivery_def)
next
  case False
  have "row\<lparr>row_ts := Some ts\<rparr> = row" if "row_ts row = Some ts" for row :: relay_row
    using that by (cases row) simp
  then have "update_delivery s op digest ts = s"
    using False by (auto simp: update_delivery_def update_triv split: option.split)
  then show ?thesis
    by (rule that(1))
qed

lemma update_delivery_wf:
  assumes "relay_wf s" shows "relay_wf (update_delivery s op digest ts)"
  using assms
proof (cases rule: update_delivery_cases [where s = s and op = op and digest = digest and ts = ts])
  case (delivered row)
  then have "hex64 (row_sha256 (row\<lparr>row_ts := Some ts\<rparr>))"
    using assms by (auto simp: relay_wf_def dest: dict_allD)
  then show ?thesis
    using assms delivered map_snd_set_same [of s op row row_message_id]
    unfolding relay_wf_def by (auto intro: dict_all_set)
qed simp

lemma update_delivery_before: "relay_before s (update_delivery s op digest ts)"
proof (cases rule: update_delivery_cases [where s = s and op = op and digest = digest and ts = ts])
  case (delivered row)
  then show ?thesis
    by (auto simp: relay_before_def row_binds_def)
qed (simp add: relay_before_refl)

lemma mark_delivered_store:
  "snd (mark_delivered s op digest ts) = (if ts_pattern ts then update_delivery s op digest ts else s)"
  by (simp add: mark_delivered_def Let_def split: option.split)

lemma relay_exec_progress:
  assumes "relay_wf s"
  shows "relay_wf (relay_exec sha c s) \<and> relay_before s (relay_exec sha c s)"
proof (cases c)
  case (Claim e)
  show ?thesis
    using assms
  proof (cases rule: claim_cases [where s = s and e = e and sha = sha])
    case created
    have "relay_wf (dict_set s (operation_id e) (fresh_relay_row sha e))"
      using created by (intro relay_wf_created [OF assms]) (simp_all add: fresh_relay_row_def)
    then show ?thesis
      using created Claim by (auto simp: relay_exec_def relay_before_def)
  qed (use Claim assms in \<open>simp_all add: relay_exec_def relay_before_refl\<close>)
next
  case (Deliver op digest ts)
  then show ?thesis
    using assms by (simp add: relay_exec_def mark_delivered_store update_delivery_wf update_delivery_before relay_before_refl)
qed

interpretation delivery: progressing_component "relay_exec sha" relay_wf relay_before for sha
  by unfold_locales (blast intro: relay_before_refl relay_before_trans dest: relay_exec_progress)+

section \<open>Claims as a claim store\<close>

definition claim_result :: "(string \<Rightarrow> string) \<Rightarrow> relay_store \<Rightarrow> relay_envelope \<Rightarrow> exn + bool \<times> relay_store" where
  "claim_result sha s e = map_sum id (map_prod claim_created id) (claim sha s e)"

text \<open>Two envelopes cannot both be relayed: one operation id with two contents, or one message under two ids.\<close>

definition envelopes_conflict :: "(string \<Rightarrow> string) \<Rightarrow> relay_envelope \<Rightarrow> relay_envelope \<Rightarrow> bool" where
  "envelopes_conflict sha e e' \<longleftrightarrow>
     (if operation_id e = operation_id e'
      then envelope_sha256 sha e \<noteq> envelope_sha256 sha e' \<or> message_id e \<noteq> message_id e'
      else message_id e = message_id e')"

lemma claim_result_cases [consumes 1, case_names replayed created refused]:
  assumes "relay_wf s"
  obtains "bound_to sha s e" "claim_result sha s e = Inr (False, s)"
  | "\<not> bound_to sha s e" "claim_result sha s e = Inr (True, relay_exec sha (Claim e) s)" "bound_to sha (relay_exec sha (Claim e) s) e"
  | "\<not> bound_to sha s e" "isl (claim_result sha s e)"
  using assms
proof (cases rule: claim_cases [where s = s and e = e and sha = sha])
  case (replayed row)
  then show ?thesis
    using that(1) by (simp add: claim_result_def claim_from_row_def)
next
  case created
  then show ?thesis
    using that(2) by (simp add: claim_result_def claim_from_row_def relay_exec_def bound_to_def fresh_relay_row_def)
next
  case (refused code)
  then show ?thesis
    using that(3) by (simp add: claim_result_def)
qed

lemma bound_to_before: "relay_before s t \<Longrightarrow> bound_to sha s e \<Longrightarrow> bound_to sha t e"
proof -
  assume before: "relay_before s t" and bound: "bound_to sha s e"
  obtain r where r: "dict_get s (operation_id e) = Some r" "row_sha256 r = envelope_sha256 sha e" "row_message_id r = message_id e"
    using bound by (auto simp: bound_to_def split: option.splits)
  obtain r' where r': "dict_get t (operation_id e) = Some r'" "row_binds r r'"
    using before r(1) by (auto simp: relay_before_def)
  have "row_sha256 r' = row_sha256 r" "row_message_id r' = row_message_id r"
    using r'(2) by (cases r; cases r'; simp add: row_binds_def)+
  with r r' show ?thesis
    by (simp add: bound_to_def)
qed

lemma claim_conflicting:
  assumes wf: "relay_wf s" and bound: "bound_to sha s e" and conflict: "envelopes_conflict sha e e'"
  shows "isl (claim_result sha s e')"
  using wf
proof (cases rule: claim_result_cases [where s = s and e = e' and sha = sha])
  case replayed
  obtain r r' where r: "dict_get s (operation_id e) = Some r" "row_sha256 r = envelope_sha256 sha e" "row_message_id r = message_id e"
    and r': "dict_get s (operation_id e') = Some r'" "row_sha256 r' = envelope_sha256 sha e'" "row_message_id r' = message_id e'"
    using bound replayed by (auto simp: bound_to_def split: option.splits)
  show ?thesis
  proof (cases "operation_id e = operation_id e'")
    case True
    then show ?thesis
      using conflict r r' by (simp add: envelopes_conflict_def)
  next
    case False
    then have "message_id e = message_id e'"
      using conflict by (simp add: envelopes_conflict_def)
    moreover have "(operation_id e, r) \<in> set s" "(operation_id e', r') \<in> set s"
      using r(1) r'(1) by (simp_all add: map_of_SomeD)
    moreover have "inj_on (row_message_id \<circ> snd) (set s)"
      using wf by (simp add: relay_wf_def distinct_map)
    ultimately have "(operation_id e, r) = (operation_id e', r')"
      using r(3) r'(3) by (metis comp_apply inj_onD snd_conv)
    with False show ?thesis
      by simp
  qed
next
  case created
  obtain r where r: "dict_get s (operation_id e) = Some r" "row_message_id r = message_id e" "row_sha256 r = envelope_sha256 sha e"
    using bound by (auto simp: bound_to_def split: option.splits)
  show ?thesis
    using wf
  proof (cases rule: claim_cases [where s = s and e = e' and sha = sha])
    case c: created
    have "operation_id e \<noteq> operation_id e'"
      using r(1) c(1) by auto
    then have "message_id e' = row_message_id r"
      using conflict r(2) by (simp add: envelopes_conflict_def)
    then show ?thesis
      using c(3) r(1) by (force dest: map_of_SomeD)
  qed (use created in \<open>simp_all add: claim_result_def claim_from_row_def\<close>)
qed

interpretation slack: claim_store "relay_exec sha" relay_wf "claim_result sha" "bound_to sha" "envelopes_conflict sha" for sha
proof
  fix s e created t
  assume wf: "relay_wf s" and res: "claim_result sha s e = Inr (created, t)"
  show "bound_to sha t e \<and> relay_wf t \<and> created = (\<not> bound_to sha s e)"
    using wf
  proof (cases rule: claim_result_cases [where s = s and e = e and sha = sha])
    case created
    then show ?thesis
      using res wf relay_exec_progress by auto
  qed (use res wf in auto)
next
  fix s e
  assume "relay_wf s" "bound_to sha s e"
  then show "claim_result sha s e = Inr (False, s)"
    by (cases rule: claim_result_cases [where s = s and e = e and sha = sha]) auto
next
  fix s e e'
  assume "relay_wf s" "bound_to sha s e" "envelopes_conflict sha e e'"
  then show "isl (claim_result sha s e')"
    by (rule claim_conflicting)
next
  fix s e c
  assume "relay_wf s" "bound_to sha s e"
  then show "bound_to sha (relay_exec sha c s) e"
    using relay_exec_progress bound_to_before by blast
qed

section \<open>Addressing\<close>

lemma spaced_body_one: "s \<noteq> [] \<Longrightarrow> \<not> is_space (hd s) \<Longrightarrow> least \<le> 1 \<Longrightarrow> spaced_body least (CHR '' '' # s) = Some s"
proof -
  assume s: "s \<noteq> []" "\<not> is_space (hd s)" and least: "least \<le> 1"
  have sp: "is_space (CHR '' '')"
    by code_simp
  obtain c cs where "s = c # cs" "\<not> is_space c"
    using s by (cases s) auto
  then show ?thesis
    using sp least by (simp add: spaced_body_def Let_def)
qed

lemma target_name: "target_pattern t \<Longrightarrow> list_all name_char t \<and> t \<noteq> [] \<and> is_alpha (hd t)"
  by (auto simp: target_pattern_def head_tail_def name_char_def is_alnum_def split: list.splits)

lemma target_head: "target_pattern t \<Longrightarrow> (hd t \<noteq> CHR ''@'' \<and> hd t \<noteq> CHR ''<'') \<and> \<not> is_space (hd t)"
  using target_name [of t] by (auto simp: class_defs is_space_def Let_def)

lemma name_run:
  assumes "target_pattern t" and "\<not> name_char c"
  shows "takeWhile name_char (t @ c # r) = t" and "dropWhile name_char (t @ c # r) = c # r"
  using target_name [OF assms(1)] assms(2) by (auto intro: takeWhile_run dropWhile_run)

lemma at_address_exact:
  assumes t: "target_pattern t" and s: "s \<noteq> []" "\<not> is_space (hd s)"
  shows "at_address (''@'' @ t @ '' '' @ s) = Some (t, s)"
proof -
  have "\<not> name_char (CHR '' '')"
    by code_simp
  then show ?thesis
    using t s by (simp add: at_address_def Let_def name_run spaced_body_one)
qed

lemma colon_address_exact:
  assumes t: "target_pattern t" and s: "s \<noteq> []" "\<not> is_space (hd s)"
  shows "at_address (t @ '': '' @ s) = None" and "colon_address (t @ '': '' @ s) = Some (t, s)"
proof -
  have c: "\<not> name_char (CHR '':'')" "\<not> is_space (CHR '':'')"
    by code_simp+
  obtain a as where a: "t = a # as" "a \<noteq> CHR ''@''"
    using target_name [OF t] target_head [OF t] by (cases t) auto
  then show "at_address (t @ '': '' @ s) = None"
    by (simp add: at_address_def)
  show "colon_address (t @ '': '' @ s) = Some (t, s)"
    using t s c by (simp add: colon_address_def Let_def name_run lstrip_def spaced_body_one)
qed

text \<open>What comes before the address: nothing, or the mention of the relay's own bot and a space.\<close>

definition mention :: "string option \<Rightarrow> string" where
  "mention who = (case who of None \<Rightarrow> [] | Some u \<Rightarrow> ''<@'' @ u @ ''> '')"

lemma bot_mention_exact:
  assumes "coded_id ''UW'' u" and "r \<noteq> []" and "\<not> is_space (hd r)"
  shows "bot_mention (''<@'' @ u @ ''> '' @ r) = Some (u, r)"
proof -
  have run: "list_all upper_or_digit u"
    using assms(1) by (auto simp: coded_id_def upper_or_digit_def class_defs split: list.splits)
  have c: "\<not> upper_or_digit (CHR ''>'')" "is_space (CHR '' '')"
    by code_simp+
  have "takeWhile upper_or_digit (u @ ''> '' @ r) = u" "dropWhile upper_or_digit (u @ ''> '' @ r) = ''> '' @ r"
    using run c(1) by (auto intro: takeWhile_run dropWhile_run)
  moreover have "lstrip (CHR '' '' # r) = r"
    using assms(2,3) c(2) by (cases r) (auto simp: lstrip_def)
  ultimately show ?thesis
    using assms(1) by (simp add: bot_mention_def Let_def)
qed

lemma parse_candidate:
  assumes cnd: "clean cand" "hd cand \<noteq> CHR ''<''"
    and who: "\<And>u. who = Some u \<Longrightarrow> coded_id ''UW'' u \<and> relay_bot = Some u"
    and addr: "(case at_address cand of Some m \<Rightarrow> Some m | None \<Rightarrow> colon_address cand) = Some (t, s)"
    and endpoint: "resolve reg (PStr t) = Inr e" and s: "clean s"
  shows "parse_addressed_text (PStr (mention who @ cand)) reg relay_bot =
    Inr \<lparr>addressed_recipient = Endpoints.endpoint_id e, addressed_body = s\<rparr>"
proof -
  have c: "cand \<noteq> []" "\<not> is_space (hd cand)" "\<not> is_space (last cand)"
    using cnd(1) by (auto simp: clean_def trimmed_def)
  have "\<not> is_space (CHR ''<'')"
    by code_simp
  then have "clean (mention who @ cand)"
    using c by (auto simp: clean_def trimmed_def mention_def split: option.splits)
  then have whole: "is_text (PStr (mention who @ cand))" "strip (mention who @ cand) = mention who @ cand"
    by (simp_all add: clean_not_blank clean_strip_eq)
  have "lstrip cand = cand"
    using c by (cases cand) (simp_all add: lstrip_def)
  moreover have "bot_mention cand = None"
    using c(1) cnd(2) by (cases cand) (simp_all add: bot_mention_def)
  moreover have "bot_mention (''<@'' @ u @ ''> '' @ cand) = Some (u, cand)" if "who = Some u" for u
    using bot_mention_exact [of u cand] who [OF that] c(1,2) by blast
  ultimately have "(case bot_mention (mention who @ cand) of
         None \<Rightarrow> Inr (mention who @ cand)
       | Some (w, rest) \<Rightarrow>
           requireE (relay_bot = Some w) (RelayError ''UNEXPECTED_SLACK_BOT_MENTION'') (Inr (lstrip rest))) = Inr cand"
    using who by (cases who) (simp_all add: mention_def)
  moreover have "strip s = s" "s \<noteq> []"
    using s by (simp_all add: clean_strip_eq clean_def)
  ultimately show ?thesis
    using whole addr endpoint by (simp add: parse_addressed_text_def Let_def)
qed

section \<open>Samples\<close>

definition sample_relay_envelope :: "string \<Rightarrow> string \<Rightarrow> relay_envelope" where
  "sample_relay_envelope op mid = \<lparr>operation_id = op, message_id = mid, sender_endpoint = ''delta'',
     recipient_endpoint = ''echo'', channel_id = ''C1'', body = ''hi'', created_at_ms = 5, thread_ts = None,
     reply_to_message_id = None, schema = RELAY_SCHEMA\<rparr>"

definition sample_sha :: "string \<Rightarrow> string" where
  "sample_sha s = replicate 64 (CHR ''a'')"

section \<open>Properties\<close>

text \<open>
  C17: a relay operation is claimed once. After a claim returned, whatever calls come next, the same
  envelope is answered by the row already there and told it was not created, with the store
  untouched; and an envelope that reuses the operation id for other content, or the message id
  for another operation, is refused.
\<close>

theorem relay_claimed_once:
  assumes "relay_wf s" and "claim_result sha s e = Inr (created, t)"
  shows "claim_result sha (fold (relay_exec sha) cs t) e = Inr (False, fold (relay_exec sha) cs t) \<and>
    (envelopes_conflict sha e e' \<longrightarrow> isl (claim_result sha (fold (relay_exec sha) cs t) e'))"
  using slack.created_once [OF assms] slack.conflict_refused [OF assms] by blast

theorem relay_claimed_once_witness:
  "\<exists>t. claim_result sample_sha [] (sample_relay_envelope ''o'' ''m'') = Inr (True, t) \<and>
    isl (claim_result sample_sha (fold (relay_exec sample_sha) [Deliver ''o'' (sample_sha []) ''1.5''] t)
       (sample_relay_envelope ''p'' ''m''))"
proof -
  let ?e = "sample_relay_envelope ''o'' ''m''" and ?e' = "sample_relay_envelope ''p'' ''m''"
  have "map_sum id fst (claim_result sample_sha [] ?e) = Inr True"
    by code_simp
  then obtain t where t: "claim_result sample_sha [] ?e = Inr (True, t)"
    by (cases "claim_result sample_sha [] ?e") auto
  moreover have "envelopes_conflict sample_sha ?e ?e'"
    by (simp add: envelopes_conflict_def sample_relay_envelope_def)
  ultimately show ?thesis
    using relay_claimed_once [OF relay_wf_empty t] by blast
qed

text \<open>
  The receipt of a delivery is permanent. Once an operation is marked delivered with a time
  stamp, after any calls it is reported with that time stamp again when it is marked with the
  same one, and marking it with any other raises.
\<close>

theorem delivery_receipt_permanent:
  assumes "relay_wf s" and "mark_delivered s op digest ts = (Inr c, t)"
  shows "mark_delivered (fold (relay_exec sha) cs t) op digest ts' =
    (if ts' = ts then Inr c
     else Inl (RelayError (if ts_pattern ts' then ''DELIVERY_RECEIPT_CONFLICT'' else ''INVALID_SLACK_MESSAGE_TS'')),
     fold (relay_exec sha) cs t)"
proof -
  let ?u = "fold (relay_exec sha) cs t"
  obtain row where row: "dict_get t op = Some row" "row_sha256 row = digest" "row_ts row = Some ts" "ts_pattern ts"
      "c = claim_from_row op row False"
    using assms(2) by (auto simp: mark_delivered_def Let_def requireE_def split: if_splits option.splits)
  have "t = relay_exec sha (Deliver op digest ts) s"
    using assms(2) by (simp add: relay_exec_def)
  then have "relay_before t ?u"
    using delivery.run_before relay_exec_progress [OF assms(1)] by blast
  then have u: "dict_get ?u op = Some row"
    using row by (auto simp: relay_before_def row_binds_def)
  have "row\<lparr>row_ts := Some ts\<rparr> = row"
    using row(3) by (cases row) simp
  then show ?thesis
    using u row by (auto simp: mark_delivered_def update_delivery_def update_triv Let_def)
qed

theorem delivery_receipt_permanent_witness:
  "let d = sample_sha []; s = relay_exec sample_sha (Claim (sample_relay_envelope ''o'' ''m'')) [] in
   \<exists>c. fst (mark_delivered s ''o'' d ''1.5'') = Inr c \<and>
     mark_delivered (snd (mark_delivered s ''o'' d ''1.5'')) ''o'' d ''1.6'' =
       (Inl (RelayError ''DELIVERY_RECEIPT_CONFLICT''), snd (mark_delivered s ''o'' d ''1.5''))"
proof -
  let ?d = "sample_sha []" and ?s = "relay_exec sample_sha (Claim (sample_relay_envelope ''o'' ''m'')) []"
  have "relay_wf ?s"
    using relay_exec_progress relay_wf_empty by blast
  moreover have "\<not> isl (fst (mark_delivered ?s ''o'' ?d ''1.5''))"
    by code_simp
  then obtain c t where c: "mark_delivered ?s ''o'' ?d ''1.5'' = (Inr c, t)"
    by (cases "mark_delivered ?s ''o'' ?d ''1.5''"; cases "fst (mark_delivered ?s ''o'' ?d ''1.5'')") auto
  moreover have "ts_pattern ''1.6''"
    by code_simp
  ultimately show ?thesis
    using delivery_receipt_permanent [of ?s "''o''" ?d "''1.5''" c t sample_sha "[]" "''1.6''"] by (simp add: Let_def)
qed

text \<open>
  What the two documented forms address is parsed back. After nothing or a mention of the
  relay's own bot, \<open>@name body\<close> and \<open>name: body\<close> yield the endpoint the name resolves to and exactly
  the body, for every registered name of the target form and every stripped body.
\<close>

theorem addressed_text_roundtrip:
  assumes "target_pattern t" and "resolve reg (PStr t) = Inr e" and "clean s"
    and "case who of None \<Rightarrow> True | Some u \<Rightarrow> coded_id ''UW'' u \<and> relay_bot = Some u"
  shows "parse_addressed_text (PStr (mention who @ ''@'' @ t @ '' '' @ s)) reg relay_bot =
      Inr \<lparr>addressed_recipient = Endpoints.endpoint_id e, addressed_body = s\<rparr> \<and>
    parse_addressed_text (PStr (mention who @ t @ '': '' @ s)) reg relay_bot =
      Inr \<lparr>addressed_recipient = Endpoints.endpoint_id e, addressed_body = s\<rparr>"
proof
  have who: "coded_id ''UW'' u \<and> relay_bot = Some u" if "who = Some u" for u
    using assms(4) that by simp
  have s: "s \<noteq> []" "\<not> is_space (hd s)" "\<not> is_space (last s)"
    using assms(3) by (auto simp: clean_def trimmed_def)
  have at: "\<not> is_space (CHR ''@'')"
    by code_simp
  obtain a as where a: "t = a # as" "\<not> is_space a" "a \<noteq> CHR ''<''"
    using target_name [OF assms(1)] target_head [OF assms(1)] by (cases t) auto
  show "parse_addressed_text (PStr (mention who @ ''@'' @ t @ '' '' @ s)) reg relay_bot =
      Inr \<lparr>addressed_recipient = Endpoints.endpoint_id e, addressed_body = s\<rparr>"
    using s at by (intro parse_candidate [OF _ _ who _ assms(2,3)])
      (simp_all add: at_address_exact [OF assms(1) s(1,2), simplified] clean_def trimmed_def)
  show "parse_addressed_text (PStr (mention who @ t @ '': '' @ s)) reg relay_bot =
      Inr \<lparr>addressed_recipient = Endpoints.endpoint_id e, addressed_body = s\<rparr>"
    using s a(2,3) colon_address_exact [OF assms(1) s(1,2)] by (intro parse_candidate [OF _ _ who _ assms(2,3)])
      (simp_all add: a(1) clean_def trimmed_def)
qed

theorem addressed_text_roundtrip_witness:
  "\<exists>r. new_endpoint_registry [sample_endpoint ''delta'' []] = Inr r \<and>
    parse_addressed_text (PStr ''<@U1> delta: review this'') r (Some ''U1'') =
      Inr \<lparr>addressed_recipient = ''delta'', addressed_body = ''review this''\<rparr>"
proof -
  have "\<not> isl (new_endpoint_registry [sample_endpoint ''delta'' []])"
    by code_simp
  then obtain r where r: "new_endpoint_registry [sample_endpoint ''delta'' []] = Inr r"
    by (cases "new_endpoint_registry [sample_endpoint ''delta'' []]") auto
  have "map_sum id (\<lambda>r. resolve r (PStr ''delta'')) (new_endpoint_registry [sample_endpoint ''delta'' []]) =
      Inr (Inr (sample_endpoint ''delta'' []))"
    by code_simp
  then have e: "resolve r (PStr ''delta'') = Inr (sample_endpoint ''delta'' [])"
    by (simp add: r)
  have "target_pattern ''delta''" "clean ''review this''" "coded_id ''UW'' ''U1''"
    by code_simp+
  then show ?thesis
    using addressed_text_roundtrip [of "''delta''" r _ "''review this''" "Some ''U1''" "Some ''U1''", OF _ e] r
    by (simp add: mention_def sample_endpoint_def)
qed

end
