(* ===== verification/WorkstationStore.thy ===== *)
theory WorkstationStore
  imports Patterns Json ClaimStore
begin

text \<open>
  The target contract and the durable attempt state of the workstation relay
  (\<open>src/src/radar/workstation_target.py\<close>, \<open>src/src/radar/workstation_relay_state.py\<close>): descriptors
  and snapshots of a target window, evidence receipts and their dictionary form, and the store of
  one row per message. The receipt column holds the value its JSON text denotes
  (\<^const>\<open>json_reload\<close>). SHA-256 is the parameter \<open>sha\<close>; \<open>rp\<close> is Python's \<open>repr\<close> of
  containers and \<open>ic\<close> its \<open>int\<close> of text and floats, which no receipt the code writes needs.
\<close>

section \<open>Targets\<close>

record target_descriptor =
  td_recipient :: string
  td_path :: string
  td_identity :: string

definition make_target_descriptor :: "string \<Rightarrow> string \<Rightarrow> string \<Rightarrow> exn + target_descriptor" where
  "make_target_descriptor recipient path identity =
    requireE (id_pattern recipient) (TargetError ''INVALID_TARGET_RECIPIENT'')
    (requireE (starts_with ''/'' path) (TargetError ''INVALID_TARGET_URL_PATH'')
    (requireE (\<not> blank identity) (TargetError ''INVALID_TARGET_VISIBLE_IDENTITY'')
    (Inr \<lparr>td_recipient = recipient, td_path = path, td_identity = identity\<rparr>)))"

record target_snapshot =
  window_handle :: int
  snap_path :: string
  snap_identity :: string
  snap_token :: "string option"

definition make_target_snapshot :: "pyval \<Rightarrow> string \<Rightarrow> string \<Rightarrow> string option \<Rightarrow> exn + target_snapshot" where
  "make_target_snapshot handle path identity token =
    (case handle of
       PInt h \<Rightarrow>
         requireE (0 < h) (TargetError ''INVALID_TARGET_WINDOW_HANDLE'')
         (requireE (starts_with ''/'' path) (TargetError ''INVALID_TARGET_URL_PATH'')
         (requireE (\<not> blank identity) (TargetError ''INVALID_TARGET_VISIBLE_IDENTITY'')
         (requireE (case token of None \<Rightarrow> True | Some t \<Rightarrow> \<not> blank t) (TargetError ''INVALID_TARGET_TOKEN'')
         (Inr \<lparr>window_handle = h, snap_path = path, snap_identity = identity, snap_token = token\<rparr>))))
     | _ \<Rightarrow> Inl (TargetError ''INVALID_TARGET_WINDOW_HANDLE''))"

definition opt_str :: "string option \<Rightarrow> pyval" where
  "opt_str t = (case t of None \<Rightarrow> PNone | Some s \<Rightarrow> PStr s)"

definition selector_digest :: "(string \<Rightarrow> string) \<Rightarrow> target_snapshot \<Rightarrow> string" where
  "selector_digest sha s = sha (utf8 (projr (json_dumps False '','' '':'' (PDict
     [(''normalized_url_path'', PStr (snap_path s)), (''visible_identity'', PStr (snap_identity s)),
      (''target_token'', opt_str (snap_token s))]))))"

definition matches :: "target_snapshot \<Rightarrow> target_descriptor \<Rightarrow> bool" where
  "matches s d \<longleftrightarrow> snap_path s = td_path d \<and> snap_identity s = td_identity d"

section \<open>Receipts\<close>

record ws_receipt =
  rc_protocol :: string
  rc_sender :: string
  rc_recipient :: string
  rc_message_id :: string
  rc_nonce :: string
  rc_source_bus_message_id :: string
  rc_source_bus_commit :: string
  rc_body_sha256 :: string
  rc_final_state :: string
  rc_transitions :: "string list"
  rc_transition_times :: "(string, string) dict"
  rc_target_window_handle :: "int option"
  rc_target_token :: "string option"
  rc_prewrite_normalized_url_path :: "string option"
  rc_prewrite_visible_identity :: "string option"
  rc_prewrite_selector_digest :: "string option"
  rc_presubmit_normalized_url_path :: "string option"
  rc_presubmit_visible_identity :: "string option"
  rc_presubmit_selector_digest :: "string option"
  rc_rendered_message_verified :: bool
  rc_rendered_message_sha256 :: "string option"
  rc_ack_body :: "string option"
  rc_ack_status :: "string option"
  rc_ack_sha256 :: "string option"
  rc_side_effect_beyond_visible_text :: bool

definition receipt_to_dict :: "ws_receipt \<Rightarrow> pymap" where
  "receipt_to_dict r = [
     (''protocol'', PStr (rc_protocol r)),
     (''sender'', PStr (rc_sender r)),
     (''recipient'', PStr (rc_recipient r)),
     (''message_id'', PStr (rc_message_id r)),
     (''nonce'', PStr (rc_nonce r)),
     (''source_bus_message_id'', PStr (rc_source_bus_message_id r)),
     (''source_bus_commit'', PStr (rc_source_bus_commit r)),
     (''body_sha256'', PStr (rc_body_sha256 r)),
     (''final_state'', PStr (rc_final_state r)),
     (''transitions'', PList (map PStr (rc_transitions r))),
     (''transition_times'', PDict (map (\<lambda>(k, t). (k, PStr t)) (rc_transition_times r))),
     (''target_window_handle'', (case rc_target_window_handle r of None \<Rightarrow> PNone | Some h \<Rightarrow> PInt h)),
     (''target_token'', opt_str (rc_target_token r)),
     (''prewrite_normalized_url_path'', opt_str (rc_prewrite_normalized_url_path r)),
     (''prewrite_visible_identity'', opt_str (rc_prewrite_visible_identity r)),
     (''prewrite_selector_digest'', opt_str (rc_prewrite_selector_digest r)),
     (''presubmit_normalized_url_path'', opt_str (rc_presubmit_normalized_url_path r)),
     (''presubmit_visible_identity'', opt_str (rc_presubmit_visible_identity r)),
     (''presubmit_selector_digest'', opt_str (rc_presubmit_selector_digest r)),
     (''rendered_message_verified'', PBool (rc_rendered_message_verified r)),
     (''rendered_message_sha256'', opt_str (rc_rendered_message_sha256 r)),
     (''ack_body'', opt_str (rc_ack_body r)),
     (''ack_status'', opt_str (rc_ack_status r)),
     (''ack_sha256'', opt_str (rc_ack_sha256 r)),
     (''side_effect_beyond_visible_text'', PBool (rc_side_effect_beyond_visible_text r))]"

text \<open>\<open>str(value)\<close>, \<open>int(value)\<close> and \<open>bool(value)\<close>\<close>

definition py_str :: "(pyval \<Rightarrow> string) \<Rightarrow> pyval \<Rightarrow> string" where
  "py_str rp v = (case v of
      PStr s \<Rightarrow> s | PNone \<Rightarrow> ''None'' | PBool b \<Rightarrow> (if b then ''True'' else ''False'')
    | PInt n \<Rightarrow> int_text n | PFloat r \<Rightarrow> r | _ \<Rightarrow> rp v)"

definition py_int :: "(pyval \<Rightarrow> exn + int) \<Rightarrow> pyval \<Rightarrow> exn + int" where
  "py_int ic v = (case v of
      PInt n \<Rightarrow> Inr n | PBool b \<Rightarrow> Inr (if b then 1 else 0) | PStr s \<Rightarrow> ic v | PFloat r \<Rightarrow> ic v | _ \<Rightarrow> Inl TypeError)"

definition py_truth :: "pyval \<Rightarrow> bool" where
  "py_truth v = (case v of
      PNone \<Rightarrow> False | PBool b \<Rightarrow> b | PInt n \<Rightarrow> n \<noteq> 0 | PFloat r \<Rightarrow> r \<noteq> ''0.0'' \<and> r \<noteq> ''-0.0''
    | PStr s \<Rightarrow> s \<noteq> [] | PBytes s \<Rightarrow> s \<noteq> [] | PList vs \<Rightarrow> vs \<noteq> [] | PTuple vs \<Rightarrow> vs \<noteq> []
    | PDict ms \<Rightarrow> ms \<noteq> [] | PObj t \<Rightarrow> True)"

text \<open>\<open>value[key]\<close>, and \<open>str(value[key]) if value.get(key) is not None else None\<close>\<close>

definition item_of :: "pymap \<Rightarrow> string \<Rightarrow> exn + pyval" where
  "item_of value key = (case dict_get value key of None \<Rightarrow> Inl (KeyError key) | Some v \<Rightarrow> Inr v)"

definition str_item :: "(pyval \<Rightarrow> string) \<Rightarrow> pymap \<Rightarrow> string \<Rightarrow> exn + string" where
  "str_item rp value key = bindE (item_of value key) (\<lambda>v. Inr (py_str rp v))"

definition opt_item :: "(pyval \<Rightarrow> string) \<Rightarrow> pymap \<Rightarrow> string \<Rightarrow> string option" where
  "opt_item rp value key = (case dict_get value key of None \<Rightarrow> None | Some v \<Rightarrow> if v = PNone then None else Some (py_str rp v))"

definition handle_item :: "(pyval \<Rightarrow> exn + int) \<Rightarrow> pymap \<Rightarrow> string \<Rightarrow> exn + int option" where
  "handle_item ic value key = (case dict_get value key of
      None \<Rightarrow> Inr None
    | Some v \<Rightarrow> if v = PNone then Inr None else bindE (py_int ic v) (\<lambda>n. Inr (Some n)))"

definition receipt_from_dict :: "(pyval \<Rightarrow> string) \<Rightarrow> (pyval \<Rightarrow> exn + int) \<Rightarrow> pymap \<Rightarrow> exn + ws_receipt" where
  "receipt_from_dict rp ic value =
    (case (dict_get value ''transitions'', dict_get value ''transition_times'') of
       (Some (PList ts), Some (PDict tms)) \<Rightarrow>
         bindE (str_item rp value ''protocol'') (\<lambda>protocol.
         bindE (str_item rp value ''sender'') (\<lambda>sender.
         bindE (str_item rp value ''recipient'') (\<lambda>recipient.
         bindE (str_item rp value ''message_id'') (\<lambda>message_id.
         bindE (str_item rp value ''nonce'') (\<lambda>nonce.
         bindE (str_item rp value ''source_bus_message_id'') (\<lambda>source_bus_message_id.
         bindE (str_item rp value ''source_bus_commit'') (\<lambda>source_bus_commit.
         bindE (str_item rp value ''body_sha256'') (\<lambda>body_sha256.
         bindE (str_item rp value ''final_state'') (\<lambda>final_state.
         bindE (handle_item ic value ''target_window_handle'') (\<lambda>handle.
         bindE (item_of value ''rendered_message_verified'') (\<lambda>verified.
         Inr \<lparr>rc_protocol = protocol,
           rc_sender = sender,
           rc_recipient = recipient,
           rc_message_id = message_id,
           rc_nonce = nonce,
           rc_source_bus_message_id = source_bus_message_id,
           rc_source_bus_commit = source_bus_commit,
           rc_body_sha256 = body_sha256,
           rc_final_state = final_state,
           rc_transitions = map (py_str rp) ts,
           rc_transition_times = map (\<lambda>(k, v). (k, py_str rp v)) tms,
           rc_target_window_handle = handle,
           rc_target_token = opt_item rp value ''target_token'',
           rc_prewrite_normalized_url_path = opt_item rp value ''prewrite_normalized_url_path'',
           rc_prewrite_visible_identity = opt_item rp value ''prewrite_visible_identity'',
           rc_prewrite_selector_digest = opt_item rp value ''prewrite_selector_digest'',
           rc_presubmit_normalized_url_path = opt_item rp value ''presubmit_normalized_url_path'',
           rc_presubmit_visible_identity = opt_item rp value ''presubmit_visible_identity'',
           rc_presubmit_selector_digest = opt_item rp value ''presubmit_selector_digest'',
           rc_rendered_message_verified = py_truth verified,
           rc_rendered_message_sha256 = opt_item rp value ''rendered_message_sha256'',
           rc_ack_body = opt_item rp value ''ack_body'',
           rc_ack_status = opt_item rp value ''ack_status'',
           rc_ack_sha256 = opt_item rp value ''ack_sha256'',
           rc_side_effect_beyond_visible_text = py_truth (get_default value ''side_effect_beyond_visible_text'' (PBool False))\<rparr>)))))))))))
     | _ \<Rightarrow> Inl (RelayStateError ''INVALID_RELAY_RECEIPT''))"

section \<open>The store\<close>

record ws_row =
  ws_nonce :: string
  ws_sha256 :: string
  ws_state :: string
  ws_receipt_json :: "pyval option"
  ws_updated_at :: string

type_synonym ws_store = "(string, ws_row) dict"

text \<open>The row of a message, a nonce and a digest, which every update must match.\<close>

record ws_binding =
  b_message_id :: string
  b_nonce :: string
  b_sha256 :: string

definition load_receipt :: "(pyval \<Rightarrow> string) \<Rightarrow> (pyval \<Rightarrow> exn + int) \<Rightarrow> pyval option \<Rightarrow> exn + ws_receipt option" where
  "load_receipt rp ic column = (case column of
      None \<Rightarrow> Inr None
    | Some (PDict value) \<Rightarrow> bindE (receipt_from_dict rp ic value) (\<lambda>r. Inr (Some r))
    | Some _ \<Rightarrow> Inl TypeError)"

definition claim_message ::
  "(pyval \<Rightarrow> string) \<Rightarrow> (pyval \<Rightarrow> exn + int) \<Rightarrow> ws_store \<Rightarrow> ws_binding \<Rightarrow> string \<Rightarrow>
   exn + (bool \<times> string \<times> ws_receipt option) \<times> ws_store" where
  "claim_message rp ic s b at =
    (case dict_get s (b_message_id b) of
       Some row \<Rightarrow>
         requireE (ws_nonce row = b_nonce b \<and> ws_sha256 row = b_sha256 b) (RelayStateError ''MESSAGE_ID_CONFLICT'')
         (bindE (load_receipt rp ic (ws_receipt_json row)) (\<lambda>receipt. Inr ((False, ws_state row, receipt), s)))
     | None \<Rightarrow> Inr ((True, ''CREATED'', None), dict_set s (b_message_id b)
         \<lparr>ws_nonce = b_nonce b, ws_sha256 = b_sha256 b, ws_state = ''CREATED'', ws_receipt_json = None, ws_updated_at = at\<rparr>))"

definition update_row :: "ws_store \<Rightarrow> ws_binding \<Rightarrow> string \<Rightarrow> (ws_row \<Rightarrow> ws_row) \<Rightarrow> (exn + unit) \<times> ws_store" where
  "update_row s b lost f = (case dict_get s (b_message_id b) of
      Some row \<Rightarrow>
        if ws_nonce row = b_nonce b \<and> ws_sha256 row = b_sha256 b
        then (Inr (), dict_set s (b_message_id b) (f row)) else (Inl (RelayStateError lost), s)
    | None \<Rightarrow> (Inl (RelayStateError lost), s))"

definition set_state :: "ws_store \<Rightarrow> ws_binding \<Rightarrow> string \<Rightarrow> string \<Rightarrow> (exn + unit) \<times> ws_store" where
  "set_state s b state at = update_row s b ''RELAY_STATE_BINDING_LOST''
     (\<lambda>row. row\<lparr>ws_state := state, ws_updated_at := at\<rparr>)"

definition finalize_message :: "ws_store \<Rightarrow> ws_binding \<Rightarrow> ws_receipt \<Rightarrow> string \<Rightarrow> (exn + unit) \<times> ws_store" where
  "finalize_message s b receipt at = update_row s b ''RELAY_RECEIPT_BINDING_LOST''
     (\<lambda>row. row\<lparr>ws_state := rc_final_state receipt,
       ws_receipt_json := Some (json_reload (PDict (receipt_to_dict receipt))), ws_updated_at := at\<rparr>)"

section \<open>Receipts read back\<close>

lemma map_of_sorted: "distinct (map fst ms) \<Longrightarrow> map_of (sort_key fst ms) = map_of ms"
proof -
  assume d: "distinct (map fst ms)"
  then have "distinct (map fst (sort_key fst ms))"
    by (simp add: distinct_map_sort_key)
  with d show ?thesis
    by (intro ext) (metis dict_get_in not_None_eq set_sort)
qed

lemma map_of_reload: "map_of (map (\<lambda>(k, v). (k, f v)) ms) k = map_option f (map_of ms k)"
  by (induction ms) auto

lemma reload_dict_get:
  assumes "distinct (map fst ms)"
  shows "dict_get (sort_key fst (map (\<lambda>(k, v). (k, json_reload v)) ms)) k = map_option json_reload (dict_get ms k)"
proof -
  have "map fst (map (\<lambda>(k, v). (k, json_reload v)) ms) = map fst ms"
    by (induction ms) auto
  then have "distinct (map fst (map (\<lambda>(k, v). (k, json_reload v)) ms))"
    using assms by (simp only:)
  then show ?thesis
    by (simp only: map_of_sorted map_of_reload)
qed

text \<open>Each member of a stored receipt, as it is read back.\<close>

lemma receipt_str:
  "dict_get (receipt_to_dict r) ''protocol'' = Some (PStr (rc_protocol r))"
  "dict_get (receipt_to_dict r) ''sender'' = Some (PStr (rc_sender r))"
  "dict_get (receipt_to_dict r) ''recipient'' = Some (PStr (rc_recipient r))"
  "dict_get (receipt_to_dict r) ''message_id'' = Some (PStr (rc_message_id r))"
  "dict_get (receipt_to_dict r) ''nonce'' = Some (PStr (rc_nonce r))"
  "dict_get (receipt_to_dict r) ''source_bus_message_id'' = Some (PStr (rc_source_bus_message_id r))"
  "dict_get (receipt_to_dict r) ''source_bus_commit'' = Some (PStr (rc_source_bus_commit r))"
  "dict_get (receipt_to_dict r) ''body_sha256'' = Some (PStr (rc_body_sha256 r))"
  "dict_get (receipt_to_dict r) ''final_state'' = Some (PStr (rc_final_state r))"
  by (simp_all add: receipt_to_dict_def)

lemma receipt_opt:
  "dict_get (receipt_to_dict r) ''target_token'' = Some (opt_str (rc_target_token r))"
  "dict_get (receipt_to_dict r) ''prewrite_normalized_url_path'' = Some (opt_str (rc_prewrite_normalized_url_path r))"
  "dict_get (receipt_to_dict r) ''prewrite_visible_identity'' = Some (opt_str (rc_prewrite_visible_identity r))"
  "dict_get (receipt_to_dict r) ''prewrite_selector_digest'' = Some (opt_str (rc_prewrite_selector_digest r))"
  "dict_get (receipt_to_dict r) ''presubmit_normalized_url_path'' = Some (opt_str (rc_presubmit_normalized_url_path r))"
  "dict_get (receipt_to_dict r) ''presubmit_visible_identity'' = Some (opt_str (rc_presubmit_visible_identity r))"
  "dict_get (receipt_to_dict r) ''presubmit_selector_digest'' = Some (opt_str (rc_presubmit_selector_digest r))"
  "dict_get (receipt_to_dict r) ''rendered_message_sha256'' = Some (opt_str (rc_rendered_message_sha256 r))"
  "dict_get (receipt_to_dict r) ''ack_body'' = Some (opt_str (rc_ack_body r))"
  "dict_get (receipt_to_dict r) ''ack_status'' = Some (opt_str (rc_ack_status r))"
  "dict_get (receipt_to_dict r) ''ack_sha256'' = Some (opt_str (rc_ack_sha256 r))"
  by (simp_all add: receipt_to_dict_def)

lemma receipt_other:
  "dict_get (receipt_to_dict r) ''transitions'' = Some (PList (map PStr (rc_transitions r)))"
  "dict_get (receipt_to_dict r) ''transition_times'' = Some (PDict (map (\<lambda>(k, t). (k, PStr t)) (rc_transition_times r)))"
  "dict_get (receipt_to_dict r) ''target_window_handle'' = Some ((case rc_target_window_handle r of None \<Rightarrow> PNone | Some h \<Rightarrow> PInt h))"
  "dict_get (receipt_to_dict r) ''rendered_message_verified'' = Some (PBool (rc_rendered_message_verified r))"
  "dict_get (receipt_to_dict r) ''side_effect_beyond_visible_text'' = Some (PBool (rc_side_effect_beyond_visible_text r))"
  by (simp_all add: receipt_to_dict_def)

lemma sort_fst_map: "(\<And>x. fst (f x) = fst x) \<Longrightarrow> sort_key fst (map f ms) = map f (sort_key fst ms)"
proof (induction ms)
  case (Cons m ms)
  have "insort_key fst (f m) (map f xs) = map f (insort_key fst m xs)" for xs
    using Cons.prems by (induction xs) simp_all
  with Cons show ?case
    by simp
qed simp

text \<open>The times of the transitions come back ordered by state, the rest as it was.\<close>

definition reloaded_members :: "ws_receipt \<Rightarrow> pymap" where
  "reloaded_members r = sort_key fst (map (\<lambda>(k, v). (k, json_reload v)) (receipt_to_dict r))"

lemma reload_receipt: "json_reload (PDict (receipt_to_dict r)) = PDict (reloaded_members r)"
  by (simp add: reloaded_members_def)

lemma reloaded_get: "dict_get (reloaded_members r) k = map_option json_reload (dict_get (receipt_to_dict r) k)"
proof -
  have "distinct (map fst (receipt_to_dict r))"
    by (simp add: receipt_to_dict_def)
  then show ?thesis
    unfolding reloaded_members_def by (rule reload_dict_get)
qed

lemma reload_opt_str [simp]: "json_reload (opt_str t) = opt_str t"
  by (cases t) (simp_all add: opt_str_def)

lemma str_item_reloaded:
  "dict_get (receipt_to_dict r) k = Some (PStr s) \<Longrightarrow> str_item rp (reloaded_members r) k = Inr s"
  by (simp add: str_item_def item_of_def reloaded_get py_str_def)

lemma opt_item_reloaded:
  "dict_get (receipt_to_dict r) k = Some (opt_str t) \<Longrightarrow> opt_item rp (reloaded_members r) k = t"
  by (cases t) (simp_all add: opt_item_def reloaded_get py_str_def opt_str_def)

lemmas receipt_items = receipt_str [THEN str_item_reloaded] receipt_opt [THEN opt_item_reloaded]

lemma receipt_reads_back:
  "receipt_from_dict rp ic (reloaded_members r) = Inr (r\<lparr>rc_transition_times := sort_key fst (rc_transition_times r)\<rparr>)"
proof -
  have ts: "dict_get (reloaded_members r) ''transitions'' = Some (PList (map PStr (rc_transitions r)))"
    by (simp add: reloaded_get receipt_other comp_def)
  have texts_reload: "map (\<lambda>(k, v). (k, json_reload v)) (map (\<lambda>(k, t). (k, PStr t)) ms) = map (\<lambda>(k, t). (k, PStr t)) ms"
    for ms :: "(string \<times> string) list"
    by (induction ms) auto
  have tms: "dict_get (reloaded_members r) ''transition_times'' =
      Some (PDict (sort_key fst (map (\<lambda>(k, t). (k, PStr t)) (rc_transition_times r))))"
    by (simp only: reloaded_get receipt_other option.map json_reload.simps texts_reload)
  have times_again: "map (\<lambda>(k, v). (k, py_str rp v)) (sort_key fst (map (\<lambda>(k, t). (k, PStr t)) ms)) = sort_key fst ms"
    for ms :: "(string \<times> string) list"
    by (subst sort_fst_map) (auto simp: py_str_def comp_def case_prod_beta)
  have handle: "handle_item ic (reloaded_members r) ''target_window_handle'' = Inr (rc_target_window_handle r)"
    by (cases "rc_target_window_handle r") (simp_all add: handle_item_def reloaded_get receipt_other py_int_def)
  have flags: "item_of (reloaded_members r) ''rendered_message_verified'' = Inr (PBool (rc_rendered_message_verified r))"
    "get_default (reloaded_members r) ''side_effect_beyond_visible_text'' (PBool False) = PBool (rc_side_effect_beyond_visible_text r)"
    by (simp_all add: item_of_def get_default_def reloaded_get receipt_other)
  have texts: "map (py_str rp) (map PStr ts) = ts" for ts
    by (simp add: py_str_def comp_def)
  show ?thesis
    unfolding receipt_from_dict_def ts tms receipt_items handle flags
    by (cases r) (simp add: py_truth_def texts [simplified] times_again)
qed

section \<open>Calls on the store\<close>

datatype ws_call = ClaimMessage ws_binding string | SetState ws_binding string string | Finalize ws_binding ws_receipt string

definition ws_exec :: "(pyval \<Rightarrow> string) \<Rightarrow> (pyval \<Rightarrow> exn + int) \<Rightarrow> ws_call \<Rightarrow> ws_store \<Rightarrow> ws_store" where
  "ws_exec rp ic c s = (case c of
      ClaimMessage b at \<Rightarrow> after s (claim_message rp ic s b at)
    | SetState b state at \<Rightarrow> snd (set_state s b state at)
    | Finalize b receipt at \<Rightarrow> snd (finalize_message s b receipt at))"

text \<open>A receipt column is empty or was written from a receipt.\<close>

definition ws_wf :: "ws_store \<Rightarrow> bool" where
  "ws_wf s \<longleftrightarrow> dict_wf s \<and> dict_all (\<lambda>_ row. case ws_receipt_json row of
      None \<Rightarrow> True | Some v \<Rightarrow> \<exists>r. v = PDict (reloaded_members r)) s"

lemma ws_wf_empty: "ws_wf []"
  by (simp add: ws_wf_def)

definition holds :: "ws_store \<Rightarrow> ws_binding \<Rightarrow> bool" where
  "holds s b = (case dict_get s (b_message_id b) of
      None \<Rightarrow> False | Some row \<Rightarrow> ws_nonce row = b_nonce b \<and> ws_sha256 row = b_sha256 b)"

lemma holdsE:
  assumes "holds s b"
  obtains row where "dict_get s (b_message_id b) = Some row" "ws_nonce row = b_nonce b" "ws_sha256 row = b_sha256 b"
  using assms by (auto simp: holds_def split: option.splits)

lemma load_receipt_written:
  "load_receipt rp ic (Some (PDict (reloaded_members r))) = Inr (Some (r\<lparr>rc_transition_times := sort_key fst (rc_transition_times r)\<rparr>))"
  by (simp add: load_receipt_def receipt_reads_back)

text \<open>A claim finds the row of the same binding, makes a new one, or is refused.\<close>

lemma claim_message_cases [consumes 1, case_names replayed created refused]:
  assumes "ws_wf s"
  obtains row receipt where "dict_get s (b_message_id b) = Some row" "holds s b"
      "load_receipt rp ic (ws_receipt_json row) = Inr receipt"
      "claim_message rp ic s b at = Inr ((False, ws_state row, receipt), s)"
  | "dict_get s (b_message_id b) = None"
      "claim_message rp ic s b at = Inr ((True, ''CREATED'', None), dict_set s (b_message_id b)
         \<lparr>ws_nonce = b_nonce b, ws_sha256 = b_sha256 b, ws_state = ''CREATED'', ws_receipt_json = None, ws_updated_at = at\<rparr>)"
  | "\<not> holds s b" "dict_has s (b_message_id b)"
      "claim_message rp ic s b at = Inl (RelayStateError ''MESSAGE_ID_CONFLICT'')"
proof (cases "dict_get s (b_message_id b)")
  case None
  then show ?thesis
    using that(2) by (simp add: claim_message_def)
next
  case (Some row)
  show ?thesis
  proof (cases "holds s b")
    case True
    have "\<exists>receipt. load_receipt rp ic (ws_receipt_json row) = Inr receipt"
    proof (cases "ws_receipt_json row")
      case (Some v)
      then obtain r where "v = PDict (reloaded_members r)"
        using assms dict_allD \<open>dict_get s (b_message_id b) = Some row\<close> by (fastforce simp: ws_wf_def)
      with Some show ?thesis
        by (simp add: load_receipt_written)
    qed (simp add: load_receipt_def)
    then show ?thesis
      using True Some that(1) by (auto simp: claim_message_def holds_def)
  next
    case False
    then show ?thesis
      using Some that(3) by (auto simp: claim_message_def holds_def requireE_def)
  qed
qed

lemma update_row_cases [case_names lost updated]:
  obtains "\<not> holds s b" "update_row s b lost f = (Inl (RelayStateError lost), s)"
  | row where "dict_get s (b_message_id b) = Some row" "holds s b"
      "update_row s b lost f = (Inr (), dict_set s (b_message_id b) (f row))"
proof (cases "holds s b")
  case True
  then obtain row where "dict_get s (b_message_id b) = Some row" "ws_nonce row = b_nonce b" "ws_sha256 row = b_sha256 b"
    by (rule holdsE)
  with True show ?thesis
    by (intro that(2) [of row]) (simp_all add: update_row_def)
next
  case False
  then show ?thesis
    using that(1) by (cases "dict_get s (b_message_id b)") (auto simp: update_row_def holds_def)
qed

lemma update_row_wf:
  assumes "ws_wf s" and "\<And>row. ws_receipt_json (f row) = ws_receipt_json row \<or>
      (\<exists>r. ws_receipt_json (f row) = Some (PDict (reloaded_members r)))"
  shows "ws_wf (snd (update_row s b lost f))"
proof (cases rule: update_row_cases [where s = s and b = b and lost = lost and f = f])
  case (updated row)
  have "case ws_receipt_json row of None \<Rightarrow> True | Some v \<Rightarrow> \<exists>r. v = PDict (reloaded_members r)"
    using assms(1) updated(1) dict_allD by (fastforce simp: ws_wf_def)
  then have "case ws_receipt_json (f row) of None \<Rightarrow> True | Some v \<Rightarrow> \<exists>r. v = PDict (reloaded_members r)"
    using assms(2) [of row] by auto
  then show ?thesis
    using assms(1) updated(3) by (auto simp: ws_wf_def)
qed (use assms(1) in simp)

lemma update_row_holds:
  assumes "\<And>row. ws_nonce (f row) = ws_nonce row \<and> ws_sha256 (f row) = ws_sha256 row" and "holds s c"
  shows "holds (snd (update_row s b lost f)) c"
  using assms by (cases rule: update_row_cases [where s = s and b = b and lost = lost and f = f]) (auto simp: holds_def)

lemma ws_exec_wf: "ws_wf s \<Longrightarrow> ws_wf (ws_exec rp ic c s)"
proof (cases c)
  case (ClaimMessage b at)
  assume "ws_wf s"
  then show ?thesis
  proof (cases rule: claim_message_cases [where s = s and b = b and rp = rp and ic = ic and at = at])
    case created
    then show ?thesis
      using \<open>ws_wf s\<close> ClaimMessage by (auto simp: ws_exec_def ws_wf_def)
  qed (use ClaimMessage \<open>ws_wf s\<close> in \<open>simp_all add: ws_exec_def\<close>)
qed (auto simp: ws_exec_def set_state_def finalize_message_def reload_receipt simp del: json_reload.simps intro!: update_row_wf)

lemma ws_exec_holds: "ws_wf s \<Longrightarrow> holds s b \<Longrightarrow> holds (ws_exec rp ic c s) b"
proof (cases c)
  case (ClaimMessage b' at)
  assume "ws_wf s" and held: "holds s b"
  then show ?thesis
  proof (cases rule: claim_message_cases [where s = s and b = b' and rp = rp and ic = ic and at = at])
    case created
    then show ?thesis
      using held ClaimMessage by (auto simp: ws_exec_def holds_def)
  qed (use ClaimMessage held in \<open>simp_all add: ws_exec_def\<close>)
qed (auto simp: ws_exec_def set_state_def finalize_message_def intro!: update_row_holds)

section \<open>The store as a claim store\<close>

definition claim_created_message ::
  "(pyval \<Rightarrow> string) \<Rightarrow> (pyval \<Rightarrow> exn + int) \<Rightarrow> ws_store \<Rightarrow> ws_binding \<times> string \<Rightarrow> exn + bool \<times> ws_store" where
  "claim_created_message rp ic s r = map_sum id (map_prod fst id) (claim_message rp ic s (fst r) (snd r))"

definition bindings_conflict :: "ws_binding \<Rightarrow> ws_binding \<Rightarrow> bool" where
  "bindings_conflict b b' \<longleftrightarrow> b_message_id b = b_message_id b' \<and> b \<noteq> b'"

interpretation attempts: claim_store "ws_exec rp ic" ws_wf "claim_created_message rp ic" "\<lambda>s (r :: ws_binding \<times> string). holds s (fst r)"
  "\<lambda>r r'. bindings_conflict (fst r) (fst r')" for rp ic
proof unfold_locales
  fix s c
  assume "ws_wf s"
  then show "ws_wf (ws_exec rp ic c s)"
    by (rule ws_exec_wf)
next
  fix s :: ws_store and r :: "ws_binding \<times> string" and created t
  assume wf: "ws_wf s" and res: "claim_created_message rp ic s r = Inr (created, t)"
  show "holds t (fst r) \<and> ws_wf t \<and> created = (\<not> holds s (fst r))"
    using wf
  proof (cases rule: claim_message_cases [where s = s and b = "fst r" and rp = rp and ic = ic and at = "snd r"])
    case created
    have "ws_wf (ws_exec rp ic (ClaimMessage (fst r) (snd r)) s)"
      using wf by (rule ws_exec_wf)
    with created res show ?thesis
      by (auto simp: claim_created_message_def ws_exec_def holds_def)
  qed (use res wf in \<open>auto simp: claim_created_message_def\<close>)
next
  fix s :: ws_store and r :: "ws_binding \<times> string"
  assume "ws_wf s" and held: "holds s (fst r)"
  then show "claim_created_message rp ic s r = Inr (False, s)"
    by (cases rule: claim_message_cases [where s = s and b = "fst r" and rp = rp and ic = ic and at = "snd r"])
      (auto simp: claim_created_message_def holds_def)
next
  fix s :: ws_store and r r' :: "ws_binding \<times> string"
  assume "ws_wf s" and held: "holds s (fst r)" and conflict: "bindings_conflict (fst r) (fst r')"
  have "\<not> holds s (fst r') \<and> dict_has s (b_message_id (fst r'))"
    using held conflict by (auto simp: holds_def bindings_conflict_def split: option.splits)
  with \<open>ws_wf s\<close> show "isl (claim_created_message rp ic s r')"
    by (cases rule: claim_message_cases [where s = s and b = "fst r'" and rp = rp and ic = ic and at = "snd r'"])
      (auto simp: claim_created_message_def)
next
  fix s :: ws_store and r :: "ws_binding \<times> string" and c
  assume "ws_wf s" "holds s (fst r)"
  then show "holds (ws_exec rp ic c s) (fst r)"
    by (rule ws_exec_holds)
qed

end
