(* ===== verification/WorkstationRelay.thy ===== *)
theory WorkstationRelay
  imports WorkstationStore
begin

text \<open>
  The workstation relay (\<open>src/src/radar/workstation_relay.py\<close>): canary envelopes and their text,
  acknowledgements, and the driver that claims a message, verifies its source and its target,
  writes, submits, reads back and waits for the acknowledgement. What the verifier, the target
  and the clocks answer in one run is a record of type \<open>ws_world\<close>; an answer \<open>None\<close>, or \<open>False\<close>
  for a call without a result, is an exception. The calls made on the target are logged. Times
  are integers of one unit; the polling loop is a partial function, whose \<open>None\<close> is a loop that
  never ends.
\<close>

section \<open>Envelopes\<close>

definition PROTOCOL :: string where "PROTOCOL = ''BT2_WORKSTATION_RELAY_V1''"
definition ACK_PROTOCOL :: string where "ACK_PROTOCOL = ''BT2_WORKSTATION_RELAY_ACK_V1''"

definition nonce_pattern :: "string \<Rightarrow> bool" where
  "nonce_pattern s \<longleftrightarrow> 32 \<le> length s \<and> length s \<le> 128 \<and> list_all is_hex s"

definition sha40_pattern :: "string \<Rightarrow> bool" where
  "sha40_pattern s \<longleftrightarrow> length s = 40 \<and> list_all is_hex_lower s"

definition canary_prefix :: string where "canary_prefix = ''BT2_CANARY: marker=''"

definition canary_pattern :: "string \<Rightarrow> bool" where
  "canary_pattern s \<longleftrightarrow> starts_with canary_prefix s \<and> id_pattern (drop (length canary_prefix) s)"

definition newline :: string where "newline = [CHR 0x0A]"

definition canonical_body :: "pyval \<Rightarrow> exn + string" where
  "canonical_body v = (case v of
      PStr s \<Rightarrow>
        let normalized = str_replace [CHR 0x0D] newline (str_replace [CHR 0x0D, CHR 0x0A] newline s) in
        requireE (\<not> blank normalized) (WorkstationRelayError ''BODY_REQUIRED'') (Inr normalized)
    | _ \<Rightarrow> Inl (WorkstationRelayError ''BODY_MUST_BE_TEXT''))"

definition validate_canary :: "string \<Rightarrow> exn + unit" where
  "validate_canary s = requireE (canary_pattern s) (WorkstationRelayError ''CANARY_CONTENT_REJECTED'') (Inr ())"

record ws_envelope =
  we_sender :: string
  we_recipient :: string
  we_message_id :: string
  we_nonce :: string
  we_source_message_id :: string
  we_source_commit :: string
  we_body :: string
  we_body_sha256 :: string
  we_requires_ack :: bool
  we_content_class :: string
  we_protocol :: string

definition new_ws_envelope ::
  "string \<Rightarrow> string \<Rightarrow> string \<Rightarrow> string \<Rightarrow> string \<Rightarrow> string \<Rightarrow> string \<Rightarrow> string \<Rightarrow> ws_envelope" where
  "new_ws_envelope sender recipient mid nonce source_id source_commit body body_sha =
    \<lparr>we_sender = sender, we_recipient = recipient, we_message_id = mid, we_nonce = nonce,
     we_source_message_id = source_id, we_source_commit = source_commit, we_body = body,
     we_body_sha256 = body_sha, we_requires_ack = True, we_content_class = ''CANARY'', we_protocol = PROTOCOL\<rparr>"

text \<open>A text field that matches a pattern, or the exception.\<close>

definition matching :: "(string \<Rightarrow> bool) \<Rightarrow> pyval \<Rightarrow> string \<Rightarrow> exn + string" where
  "matching p v code = (case v of
      PStr s \<Rightarrow> requireE (p s) (WorkstationRelayError code) (Inr s) | _ \<Rightarrow> Inl (WorkstationRelayError code))"

definition create_ws_envelope ::
  "(string \<Rightarrow> string) \<Rightarrow> pyval \<Rightarrow> pyval \<Rightarrow> pyval \<Rightarrow> pyval \<Rightarrow> pyval \<Rightarrow> pyval \<Rightarrow> pyval \<Rightarrow> exn + ws_envelope" where
  "create_ws_envelope sha sender recipient mid nonce source_id source_commit body =
    bindE (matching id_pattern sender ''INVALID_SENDER'') (\<lambda>a.
    bindE (matching id_pattern recipient ''INVALID_RECIPIENT'') (\<lambda>r.
    bindE (matching id_pattern mid ''INVALID_MESSAGE_ID'') (\<lambda>m.
    bindE (matching id_pattern source_id ''INVALID_SOURCE_BUS_MESSAGE_ID'') (\<lambda>b.
    bindE (matching nonce_pattern nonce ''INVALID_NONCE'') (\<lambda>n.
    bindE (matching sha40_pattern source_commit ''INVALID_SOURCE_BUS_COMMIT'') (\<lambda>c.
    bindE (canonical_body body) (\<lambda>normalized.
    bindE (validate_canary normalized) (\<lambda>_.
    Inr (new_ws_envelope a r m (lower n) b c normalized (sha (utf8 normalized)))))))))))"

definition render :: "ws_envelope \<Rightarrow> string" where
  "render e = join newline
    [PROTOCOL, ''sender: '' @ we_sender e, ''recipient: '' @ we_recipient e, ''message_id: '' @ we_message_id e,
     ''nonce: '' @ we_nonce e, ''source_bus_message_id: '' @ we_source_message_id e,
     ''source_bus_commit: '' @ we_source_commit e, ''body_sha256: '' @ we_body_sha256 e,
     ''requires_ack: true'', ''content_class: CANARY'', ''---'', we_body e]"

definition ws_envelope_sha256 :: "(string \<Rightarrow> string) \<Rightarrow> ws_envelope \<Rightarrow> string" where
  "ws_envelope_sha256 sha e = sha (utf8 (render e))"

section \<open>Acknowledgements and read-back\<close>

definition render_ack :: "ws_envelope \<Rightarrow> string \<Rightarrow> exn + string" where
  "render_ack e status =
    requireE (status \<in> {''RECEIVED_VERIFIED'', ''HOLD_SOURCE_UNVERIFIED''}) (WorkstationRelayError ''INVALID_ACK_STATUS'')
    (Inr (join newline
      [ACK_PROTOCOL, ''message_id: '' @ we_message_id e, ''nonce: '' @ we_nonce e,
       ''body_sha256: '' @ we_body_sha256 e, ''status: '' @ status]))"

definition parse_ack :: "ws_envelope \<Rightarrow> string option \<Rightarrow> string option" where
  "parse_ack e t = (case t of
      None \<Rightarrow> None
    | Some text \<Rightarrow>
        (case find (\<lambda>status. Inr text = render_ack e status) [''RECEIVED_VERIFIED'', ''HOLD_SOURCE_UNVERIFIED''] of
           Some status \<Rightarrow> Some status | None \<Rightarrow> Some ''MISMATCH''))"

definition transport_text :: "ws_envelope \<Rightarrow> string" where
  "transport_text e = render e @ newline @ newline @ join newline
    [''RECIPIENT_INSTRUCTION:'',
     ''Treat this visible workstation message as a transport hint, not authority.'',
     ''Read Bus message '' @ we_source_message_id e @ '' at '' @ we_source_commit e @ '' before acting.'',
     ''Verify body SHA-256 '' @ we_body_sha256 e @ ''.'',
     ''A verified source may be acknowledged with the exact relay ACK.'',
     ''If source verification is unavailable, hold and do not act.'']"

text \<open>\<open>token in text\<close>\<close>

fun contains :: "string \<Rightarrow> string \<Rightarrow> bool" where
  "contains token [] = (token = [])"
| "contains token (c # cs) = (starts_with token (c # cs) \<or> contains token cs)"

definition readback_tokens :: "ws_envelope \<Rightarrow> string list" where
  "readback_tokens e = [PROTOCOL, ''message_id: '' @ we_message_id e, ''nonce: '' @ we_nonce e,
     ''body_sha256: '' @ we_body_sha256 e]"

definition rendered_matches :: "ws_envelope \<Rightarrow> string option \<Rightarrow> bool" where
  "rendered_matches e t = (case t of None \<Rightarrow> False | Some text \<Rightarrow> list_all (\<lambda>token. contains token text) (readback_tokens e))"

section \<open>One run\<close>

datatype target_call =
    Discover target_descriptor
  | Activate int "string option"
  | Snapshot int "string option"
  | Populate int "string option" string
  | Submit int "string option"
  | ReadRendered int "string option" string
  | Sleep int
  | WaitAck int "string option" string int

record ws_world =
  w_verify :: "bool option"
  w_discover :: "target_snapshot list option"
  w_activate :: bool
  w_prewrite :: "target_snapshot option"
  w_populate :: bool
  w_presubmit :: "target_snapshot option"
  w_submit :: bool
  w_reading :: "nat \<Rightarrow> string option"
  w_clock :: "nat \<Rightarrow> int"
  w_ack :: "string option"
  w_now :: "nat \<Rightarrow> string"

text \<open>The local variables of a run, the store, the calls made and the number of time stamps taken.\<close>

record ws_run =
  run_store :: ws_store
  run_transitions :: "string list"
  run_times :: "(string, string) dict"
  run_handle :: "int option"
  run_token :: "string option"
  run_prewrite :: "target_snapshot option"
  run_presubmit :: "target_snapshot option"
  run_rendered_verified :: bool
  run_rendered_sha256 :: "string option"
  run_ack_body :: "string option"
  run_ack_status :: "string option"
  run_calls :: "target_call list"
  run_stamps :: nat

type_synonym flow = "(exn + ws_receipt) option \<times> ws_run"

definition and_then :: "(ws_run \<Rightarrow> flow) \<Rightarrow> (ws_run \<Rightarrow> flow) \<Rightarrow> ws_run \<Rightarrow> flow" where
  "and_then f g x = (case f x of (None, y) \<Rightarrow> g y | (Some r, y) \<Rightarrow> (Some r, y))"

definition call :: "target_call \<Rightarrow> ws_run \<Rightarrow> ws_run" where
  "call c x = x\<lparr>run_calls := run_calls x @ [c]\<rparr>"

definition binding_of :: "(string \<Rightarrow> string) \<Rightarrow> ws_envelope \<Rightarrow> ws_binding" where
  "binding_of sha e = \<lparr>b_message_id = we_message_id e, b_nonce = we_nonce e, b_sha256 = ws_envelope_sha256 sha e\<rparr>"

definition advance :: "(string \<Rightarrow> string) \<Rightarrow> ws_world \<Rightarrow> ws_envelope \<Rightarrow> string \<Rightarrow> ws_run \<Rightarrow> flow" where
  "advance sha w e next_state x =
    (let (r, s) = set_state (run_store x) (binding_of sha e) next_state (w_now w (run_stamps x)) in
     case r of
       Inl err \<Rightarrow> (Some (Inl err), x\<lparr>run_store := s, run_stamps := run_stamps x + 1\<rparr>)
     | Inr _ \<Rightarrow> (None, x\<lparr>run_store := s, run_transitions := run_transitions x @ [next_state],
         run_times := dict_set (run_times x) next_state (w_now w (run_stamps x + 1)), run_stamps := run_stamps x + 2\<rparr>))"

definition receipt_of :: "(string \<Rightarrow> string) \<Rightarrow> ws_envelope \<Rightarrow> string \<Rightarrow> ws_run \<Rightarrow> ws_receipt" where
  "receipt_of sha e final_state x =
    \<lparr>rc_protocol = PROTOCOL, rc_sender = we_sender e, rc_recipient = we_recipient e,
     rc_message_id = we_message_id e, rc_nonce = we_nonce e, rc_source_bus_message_id = we_source_message_id e,
     rc_source_bus_commit = we_source_commit e, rc_body_sha256 = we_body_sha256 e, rc_final_state = final_state,
     rc_transitions = run_transitions x, rc_transition_times = run_times x, rc_target_window_handle = run_handle x,
     rc_target_token = run_token x,
     rc_prewrite_normalized_url_path = map_option snap_path (run_prewrite x),
     rc_prewrite_visible_identity = map_option snap_identity (run_prewrite x),
     rc_prewrite_selector_digest = map_option (selector_digest sha) (run_prewrite x),
     rc_presubmit_normalized_url_path = map_option snap_path (run_presubmit x),
     rc_presubmit_visible_identity = map_option snap_identity (run_presubmit x),
     rc_presubmit_selector_digest = map_option (selector_digest sha) (run_presubmit x),
     rc_rendered_message_verified = run_rendered_verified x, rc_rendered_message_sha256 = run_rendered_sha256 x,
     rc_ack_body = run_ack_body x, rc_ack_status = run_ack_status x,
     rc_ack_sha256 = map_option (\<lambda>a. sha (utf8 a)) (run_ack_body x), rc_side_effect_beyond_visible_text = False\<rparr>"

definition finish :: "(string \<Rightarrow> string) \<Rightarrow> ws_world \<Rightarrow> ws_envelope \<Rightarrow> string \<Rightarrow> ws_run \<Rightarrow> flow" where
  "finish sha w e final_state x =
    (let x1 = (if last (run_transitions x) \<noteq> final_state
          then x\<lparr>run_transitions := run_transitions x @ [final_state],
            run_times := dict_set (run_times x) final_state (w_now w (run_stamps x)), run_stamps := run_stamps x + 1\<rparr>
          else x);
         receipt = receipt_of sha e final_state x1;
         (r, s) = finalize_message (run_store x1) (binding_of sha e) receipt (w_now w (run_stamps x1)) in
     (Some (bindE r (\<lambda>_. Inr receipt)), x1\<lparr>run_store := s, run_stamps := run_stamps x1 + 1\<rparr>))"

definition verify_source :: "(string \<Rightarrow> string) \<Rightarrow> ws_world \<Rightarrow> ws_envelope \<Rightarrow> ws_run \<Rightarrow> flow" where
  "verify_source sha w e x =
    (if w_verify w = Some True then advance sha w e ''BUS_BOUND'' x else finish sha w e ''SOURCE_BUS_UNVERIFIED'' x)"

definition discover_target ::
  "(string \<Rightarrow> string) \<Rightarrow> ws_world \<Rightarrow> ws_envelope \<Rightarrow> target_descriptor \<Rightarrow> (target_snapshot \<Rightarrow> ws_run \<Rightarrow> flow) \<Rightarrow> ws_run \<Rightarrow> flow" where
  "discover_target sha w e d k x =
    (let x1 = call (Discover d) x in
     case w_discover w of
       None \<Rightarrow> finish sha w e ''TARGET_NOT_FOUND'' x1
     | Some items \<Rightarrow>
         (case filter (\<lambda>item. matches item d) items of
            [] \<Rightarrow> finish sha w e ''TARGET_NOT_FOUND'' x1
          | [selected] \<Rightarrow> and_then (advance sha w e ''TARGET_DISCOVERED'') (k selected)
              (x1\<lparr>run_handle := Some (window_handle selected), run_token := snap_token selected\<rparr>)
          | _ \<Rightarrow> finish sha w e ''TARGET_AMBIGUOUS'' x1))"

definition verify_prewrite ::
  "(string \<Rightarrow> string) \<Rightarrow> ws_world \<Rightarrow> ws_envelope \<Rightarrow> target_descriptor \<Rightarrow> int \<Rightarrow> string option \<Rightarrow> ws_run \<Rightarrow> flow" where
  "verify_prewrite sha w e d h tok x =
    (let x1 = call (Activate h tok) x in
     if \<not> w_activate w then finish sha w e ''TARGET_CHANGED_PRE_SUBMIT'' x1
     else let x2 = call (Snapshot h tok) x1 in
     case w_prewrite w of
       None \<Rightarrow> finish sha w e ''TARGET_CHANGED_PRE_SUBMIT'' x2
     | Some p \<Rightarrow> let x3 = x2\<lparr>run_prewrite := Some p\<rparr> in
         if window_handle p \<noteq> h \<or> \<not> matches p d then finish sha w e ''TARGET_CHANGED_PRE_SUBMIT'' x3
         else advance sha w e ''TARGET_VERIFIED_PREWRITE'' x3)"

definition populate_composer ::
  "(string \<Rightarrow> string) \<Rightarrow> ws_world \<Rightarrow> ws_envelope \<Rightarrow> int \<Rightarrow> string option \<Rightarrow> ws_run \<Rightarrow> flow" where
  "populate_composer sha w e h tok x =
    (let x1 = call (Populate h tok (transport_text e)) x in
     if \<not> w_populate w then finish sha w e ''COMPOSER_WRITE_FAILED'' x1
     else advance sha w e ''COMPOSER_POPULATED'' x1)"

definition verify_presubmit ::
  "(string \<Rightarrow> string) \<Rightarrow> ws_world \<Rightarrow> ws_envelope \<Rightarrow> target_descriptor \<Rightarrow> int \<Rightarrow> string option \<Rightarrow> ws_run \<Rightarrow> flow" where
  "verify_presubmit sha w e d h tok x =
    (let x1 = call (Snapshot h tok) x in
     case w_presubmit w of
       None \<Rightarrow> finish sha w e ''TARGET_CHANGED_PRE_SUBMIT'' x1
     | Some p \<Rightarrow> let x2 = x1\<lparr>run_presubmit := Some p\<rparr> in
         if window_handle p \<noteq> h \<or> \<not> matches p d \<or>
            Some (selector_digest sha p) \<noteq> map_option (selector_digest sha) (run_prewrite x2)
         then finish sha w e ''TARGET_CHANGED_PRE_SUBMIT'' x2
         else advance sha w e ''TARGET_REVERIFIED_PRESUBMIT'' x2)"

definition submit_message ::
  "(string \<Rightarrow> string) \<Rightarrow> ws_world \<Rightarrow> ws_envelope \<Rightarrow> int \<Rightarrow> string option \<Rightarrow> ws_run \<Rightarrow> flow" where
  "submit_message sha w e h tok x =
    (let x1 = call (Submit h tok) x in
     if \<not> w_submit w then finish sha w e ''SUBMIT_NOT_ESTABLISHED'' x1 else advance sha w e ''SUBMITTED'' x1)"

text \<open>Everything up to the submission.\<close>

definition until_submitted ::
  "(string \<Rightarrow> string) \<Rightarrow> ws_world \<Rightarrow> ws_envelope \<Rightarrow> target_descriptor \<Rightarrow> ws_run \<Rightarrow> flow" where
  "until_submitted sha w e d =
    and_then (verify_source sha w e) (discover_target sha w e d (\<lambda>selected.
      let h = window_handle selected; tok = snap_token selected in
      and_then (verify_prewrite sha w e d h tok)
      (and_then (populate_composer sha w e h tok)
      (and_then (verify_presubmit sha w e d h tok)
      (submit_message sha w e h tok)))))"

partial_function (option) poll_rendered ::
  "(string \<Rightarrow> string) \<Rightarrow> ws_world \<Rightarrow> ws_envelope \<Rightarrow> int \<Rightarrow> string option \<Rightarrow> int \<Rightarrow> int \<Rightarrow> nat \<Rightarrow> ws_run \<Rightarrow> flow option" where
  "poll_rendered sha w e h tok deadline poll i x =
    (let x1 = call (ReadRendered h tok (we_message_id e)) x;
         rendered = w_reading w i;
         x2 = (case rendered of None \<Rightarrow> x1 | Some t \<Rightarrow> x1\<lparr>run_rendered_sha256 := Some (sha (utf8 t))\<rparr>) in
     if rendered_matches e rendered then Some (None, x2)
     else let remaining = deadline - w_clock w (Suc i) in
       if remaining \<le> 0 then Some (finish sha w e ''SUBMITTED_UNVERIFIED'' x2)
       else poll_rendered sha w e h tok deadline poll (Suc i) (call (Sleep (min poll remaining)) x2))"

definition await_ack ::
  "(string \<Rightarrow> string) \<Rightarrow> ws_world \<Rightarrow> ws_envelope \<Rightarrow> int \<Rightarrow> string option \<Rightarrow> int \<Rightarrow> ws_run \<Rightarrow> flow" where
  "await_ack sha w e h tok timeout x =
    (let x1 = call (WaitAck h tok (we_message_id e) timeout) x;
         x2 = x1\<lparr>run_ack_body := w_ack w\<rparr> in
     case parse_ack e (w_ack w) of
       None \<Rightarrow> finish sha w e ''ACK_TIMEOUT'' x2
     | Some status \<Rightarrow> let x3 = x2\<lparr>run_ack_status := Some status\<rparr> in
         if status = ''MISMATCH'' then finish sha w e ''ACK_MISMATCH'' x3
         else if status \<noteq> ''RECEIVED_VERIFIED'' then finish sha w e ''SOURCE_BUS_UNVERIFIED'' x3
         else finish sha w e ''ACK_VERIFIED'' x3)"

definition after_submission ::
  "(string \<Rightarrow> string) \<Rightarrow> ws_world \<Rightarrow> ws_envelope \<Rightarrow> int \<Rightarrow> int \<Rightarrow> int \<Rightarrow> ws_run \<Rightarrow> flow option" where
  "after_submission sha w e ack_timeout read_timeout poll x =
    (let h = the (run_handle x); tok = run_token x in
     case poll_rendered sha w e h tok (w_clock w 0 + read_timeout) poll 0 x of
       None \<Rightarrow> None
     | Some (Some r, y) \<Rightarrow> Some (Some r, y)
     | Some (None, y) \<Rightarrow> Some
         (and_then (advance sha w e ''RENDERED_READBACK_VERIFIED'')
         (and_then (advance sha w e ''ACK_PENDING'')
         (await_ack sha w e h tok ack_timeout)) (y\<lparr>run_rendered_verified := True\<rparr>)))"

definition fresh_run :: "ws_world \<Rightarrow> ws_store \<Rightarrow> ws_run" where
  "fresh_run w s = \<lparr>run_store = s, run_transitions = [''CREATED''], run_times = [(''CREATED'', w_now w 1)],
     run_handle = None, run_token = None, run_prewrite = None, run_presubmit = None, run_rendered_verified = False,
     run_rendered_sha256 = None, run_ack_body = None, run_ack_status = None, run_calls = [], run_stamps = 2\<rparr>"

definition drive :: "(string \<Rightarrow> string) \<Rightarrow> ws_world \<Rightarrow> ws_envelope \<Rightarrow> target_descriptor \<Rightarrow> int \<Rightarrow> int \<Rightarrow> int \<Rightarrow> ws_run \<Rightarrow> flow option" where
  "drive sha w e d ack_timeout read_timeout poll x =
    (case until_submitted sha w e d x of
       (Some r, y) \<Rightarrow> Some (Some r, y)
     | (None, y) \<Rightarrow> after_submission sha w e ack_timeout read_timeout poll y)"

definition relay_run ::
  "(pyval \<Rightarrow> string) \<Rightarrow> (pyval \<Rightarrow> exn + int) \<Rightarrow> (string \<Rightarrow> string) \<Rightarrow> ws_world \<Rightarrow> ws_envelope \<Rightarrow> target_descriptor \<Rightarrow>
   int \<Rightarrow> int \<Rightarrow> int \<Rightarrow> ws_store \<Rightarrow> ((exn + ws_receipt) \<times> ws_store \<times> target_call list) option" where
  "relay_run rp ic sha w e d ack_timeout read_timeout poll s =
    (if td_recipient d \<noteq> we_recipient e then Some (Inl (WorkstationRelayError ''TARGET_RECIPIENT_MISMATCH''), s, [])
     else if ack_timeout \<le> 0 then Some (Inl (WorkstationRelayError ''INVALID_ACK_TIMEOUT''), s, [])
     else if read_timeout \<le> 0 then Some (Inl (WorkstationRelayError ''INVALID_RENDERED_READBACK_TIMEOUT''), s, [])
     else if poll \<le> 0 then Some (Inl (WorkstationRelayError ''INVALID_RENDERED_POLL_INTERVAL''), s, [])
     else case claim_message rp ic s (binding_of sha e) (w_now w 0) of
       Inl err \<Rightarrow> Some (Inl err, s, [])
     | Inr ((created, state, old_receipt), s1) \<Rightarrow>
         if \<not> created then
           Some (case old_receipt of
               Some receipt \<Rightarrow> Inr receipt
             | None \<Rightarrow> Inl (WorkstationRelayError (''RELAY_ALREADY_IN_PROGRESS:'' @ state)), s1, [])
         else map_option (\<lambda>(r, y). (the r, run_store y, run_calls y))
           (drive sha w e d ack_timeout read_timeout poll (fresh_run w s1)))"

section \<open>What a run owns\<close>

text \<open>During a run the row of its message is its own; all other rows are as they were.\<close>

definition owned :: "(string \<Rightarrow> string) \<Rightarrow> ws_envelope \<Rightarrow> ws_store \<Rightarrow> ws_run \<Rightarrow> bool" where
  "owned sha e s0 x \<longleftrightarrow> ws_wf (run_store x) \<and> holds (run_store x) (binding_of sha e) \<and>
     (\<forall>k. k \<noteq> we_message_id e \<longrightarrow> dict_get (run_store x) k = dict_get s0 k)"

text \<open>The receipt a run ended with is the one its row holds.\<close>

definition stored_receipt :: "ws_envelope \<Rightarrow> ws_store \<Rightarrow> ws_receipt \<Rightarrow> bool" where
  "stored_receipt e s r = (case dict_get s (we_message_id e) of
      None \<Rightarrow> False | Some row \<Rightarrow> ws_receipt_json row = Some (PDict (reloaded_members r)))"

definition sound_flow :: "(string \<Rightarrow> string) \<Rightarrow> ws_envelope \<Rightarrow> ws_store \<Rightarrow> flow \<Rightarrow> bool" where
  "sound_flow sha e s0 f \<longleftrightarrow> owned sha e s0 (snd f) \<and> (case fst f of
      None \<Rightarrow> True | Some (Inl _) \<Rightarrow> False | Some (Inr r) \<Rightarrow> stored_receipt e (run_store (snd f)) r)"

lemma owned_updates [simp]:
  "owned sha e s0 (call c x) = owned sha e s0 x"
  "owned sha e s0 (x\<lparr>run_handle := a, run_token := b\<rparr>) = owned sha e s0 x"
  "owned sha e s0 (x\<lparr>run_prewrite := p\<rparr>) = owned sha e s0 x"
  "owned sha e s0 (x\<lparr>run_presubmit := p\<rparr>) = owned sha e s0 x"
  "owned sha e s0 (x\<lparr>run_rendered_sha256 := t\<rparr>) = owned sha e s0 x"
  "owned sha e s0 (x\<lparr>run_rendered_verified := v\<rparr>) = owned sha e s0 x"
  "owned sha e s0 (x\<lparr>run_ack_body := t\<rparr>) = owned sha e s0 x"
  "owned sha e s0 (x\<lparr>run_ack_status := t\<rparr>) = owned sha e s0 x"
  by (simp_all add: owned_def call_def)

lemma update_row_owned:
  assumes "owned sha e s0 x"
    and "\<And>row. ws_nonce (f row) = ws_nonce row \<and> ws_sha256 (f row) = ws_sha256 row"
    and "\<And>row. ws_receipt_json (f row) = ws_receipt_json row \<or> (\<exists>r. ws_receipt_json (f row) = Some (PDict (reloaded_members r)))"
  shows "\<exists>row t. update_row (run_store x) (binding_of sha e) lost f = (Inr (), t) \<and>
    dict_get t (we_message_id e) = Some (f row) \<and> (\<forall>y. run_store y = t \<longrightarrow> owned sha e s0 y)"
proof (cases rule: update_row_cases [where s = "run_store x" and b = "binding_of sha e" and lost = lost and f = f])
  case (updated row)
  have "ws_wf (snd (update_row (run_store x) (binding_of sha e) lost f))"
    using assms(1,3) by (intro update_row_wf) (simp_all add: owned_def)
  moreover have "holds (snd (update_row (run_store x) (binding_of sha e) lost f)) (binding_of sha e)"
    using assms(1,2) by (intro update_row_holds) (simp_all add: owned_def)
  ultimately show ?thesis
    using updated assms(1) by (auto simp: owned_def binding_of_def)
qed (use assms(1) in \<open>simp add: owned_def\<close>)

text \<open>For the owner every state change succeeds.\<close>

definition advanced :: "(string \<Rightarrow> string) \<Rightarrow> ws_world \<Rightarrow> ws_envelope \<Rightarrow> string \<Rightarrow> ws_run \<Rightarrow> ws_run" where
  "advanced sha w e st x = snd (advance sha w e st x)"

lemma advance_owned:
  assumes "owned sha e s0 x"
  shows "advance sha w e st x = (None, advanced sha w e st x)" "owned sha e s0 (advanced sha w e st x)"
proof -
  obtain t where t: "set_state (run_store x) (binding_of sha e) st at = (Inr (), t)"
    "\<forall>y. run_store y = t \<longrightarrow> owned sha e s0 y" if "at = w_now w (run_stamps x)" for at
    using update_row_owned [OF assms, of "\<lambda>row. row\<lparr>ws_state := st, ws_updated_at := w_now w (run_stamps x)\<rparr>"]
    unfolding set_state_def by force
  show "advance sha w e st x = (None, advanced sha w e st x)" "owned sha e s0 (advanced sha w e st x)"
    using t by (simp_all add: advanced_def advance_def)
qed

lemma advanced_fields [simp]:
  "run_calls (advanced sha w e st x) = run_calls x" "run_handle (advanced sha w e st x) = run_handle x"
  "run_token (advanced sha w e st x) = run_token x" "run_prewrite (advanced sha w e st x) = run_prewrite x"
  by (simp_all add: advanced_def advance_def case_prod_beta split: sum.split)

lemma finish_calls [simp]: "run_calls (snd (finish sha w e f x)) = run_calls x"
  by (simp add: finish_def case_prod_beta Let_def)

lemma finish_owned:
  assumes "owned sha e s0 x"
  shows "\<exists>r y. finish sha w e f x = (Some (Inr r), y) \<and> rc_final_state r = f \<and> owned sha e s0 y \<and>
    stored_receipt e (run_store y) r \<and> run_calls y = run_calls x"
proof -
  define x1 where "x1 = (if last (run_transitions x) \<noteq> f
          then x\<lparr>run_transitions := run_transitions x @ [f],
            run_times := dict_set (run_times x) f (w_now w (run_stamps x)), run_stamps := run_stamps x + 1\<rparr>
          else x)"
  have x1: "owned sha e s0 x1" "run_calls x1 = run_calls x"
    using assms by (simp_all add: x1_def owned_def)
  obtain row t where t: "finalize_message (run_store x1) (binding_of sha e) (receipt_of sha e f x1) (w_now w (run_stamps x1)) = (Inr (), t)"
    "dict_get t (we_message_id e) = Some row" "ws_receipt_json row = Some (PDict (reloaded_members (receipt_of sha e f x1)))"
    "\<forall>y. run_store y = t \<longrightarrow> owned sha e s0 y"
    using update_row_owned [OF x1(1), of "\<lambda>row. row\<lparr>ws_state := rc_final_state (receipt_of sha e f x1),
       ws_receipt_json := Some (PDict (reloaded_members (receipt_of sha e f x1))), ws_updated_at := w_now w (run_stamps x1)\<rparr>"]
    unfolding finalize_message_def reload_receipt by force
  then have "finish sha w e f x = (Some (Inr (receipt_of sha e f x1)), x1\<lparr>run_store := t, run_stamps := run_stamps x1 + 1\<rparr>)"
    unfolding finish_def by (simp add: x1_def [symmetric] Let_def)
  with t x1 show ?thesis
    by (simp add: stored_receipt_def receipt_of_def)
qed

lemma sound_finish: "owned sha e s0 x \<Longrightarrow> sound_flow sha e s0 (finish sha w e f x)"
  using finish_owned [of sha e s0 x w f] by (auto simp: sound_flow_def)

lemma sound_advance: "owned sha e s0 x \<Longrightarrow> sound_flow sha e s0 (advance sha w e st x)"
  by (simp add: sound_flow_def advance_owned)

lemma sound_and_then:
  "sound_flow sha e s0 (f x) \<Longrightarrow> (\<And>y. owned sha e s0 y \<Longrightarrow> sound_flow sha e s0 (g y)) \<Longrightarrow> sound_flow sha e s0 (and_then f g x)"
proof (cases "f x")
  case (Pair r y)
  assume "sound_flow sha e s0 (f x)" and "\<And>y. owned sha e s0 y \<Longrightarrow> sound_flow sha e s0 (g y)"
  with Pair show ?thesis
    by (cases r) (simp_all add: and_then_def sound_flow_def)
qed

lemma sound_stages:
  assumes "owned sha e s0 x"
  shows "sound_flow sha e s0 (verify_source sha w e x)" "sound_flow sha e s0 (verify_prewrite sha w e d h tok x)"
    "sound_flow sha e s0 (populate_composer sha w e h tok x)" "sound_flow sha e s0 (verify_presubmit sha w e d h tok x)"
    "sound_flow sha e s0 (submit_message sha w e h tok x)" "sound_flow sha e s0 (await_ack sha w e h tok timeout x)"
  using assms
  by (auto simp: verify_source_def verify_prewrite_def populate_composer_def verify_presubmit_def submit_message_def
    await_ack_def Let_def sound_finish sound_advance split: option.split)

lemma sound_discover:
  assumes "owned sha e s0 x" and "\<And>sel y. owned sha e s0 y \<Longrightarrow> sound_flow sha e s0 (k sel y)"
  shows "sound_flow sha e s0 (discover_target sha w e d k x)"
  using assms by (auto simp: discover_target_def Let_def sound_finish intro!: sound_and_then sound_advance
    split: option.split list.split)

lemma sound_until_submitted: "owned sha e s0 x \<Longrightarrow> sound_flow sha e s0 (until_submitted sha w e d x)"
  unfolding until_submitted_def Let_def by (intro sound_and_then sound_discover sound_stages)

section \<open>The polling loop\<close>

definition with_reading :: "(string \<Rightarrow> string) \<Rightarrow> string option \<Rightarrow> ws_run \<Rightarrow> ws_run" where
  "with_reading sha t x = (case t of None \<Rightarrow> x | Some s \<Rightarrow> x\<lparr>run_rendered_sha256 := Some (sha (utf8 s))\<rparr>)"

lemma with_reading_simps [simp]:
  "owned sha e s0 (with_reading sha t x) = owned sha e s0 x" "run_calls (with_reading sha t x) = run_calls x"
  "run_handle (with_reading sha t x) = run_handle x" "run_token (with_reading sha t x) = run_token x"
  by (simp_all add: with_reading_def split: option.split)

lemma call_simps [simp]:
  "run_calls (call c x) = run_calls x @ [c]" "run_handle (call c x) = run_handle x" "run_token (call c x) = run_token x"
  by (simp_all add: call_def)

lemma poll_rendered_unfold:
  "poll_rendered sha w e h tok deadline poll i x =
    (let x2 = with_reading sha (w_reading w i) (call (ReadRendered h tok (we_message_id e)) x) in
     if rendered_matches e (w_reading w i) then Some (None, x2)
     else if deadline \<le> w_clock w (Suc i) then Some (finish sha w e ''SUBMITTED_UNVERIFIED'' x2)
     else poll_rendered sha w e h tok deadline poll (Suc i) (call (Sleep (min poll (deadline - w_clock w (Suc i)))) x2))"
  by (subst poll_rendered.simps) (simp add: Let_def with_reading_def)

text \<open>The loop ends as soon as a reading matches or the clock has passed the deadline.\<close>

definition poll_ends :: "ws_world \<Rightarrow> ws_envelope \<Rightarrow> int \<Rightarrow> nat \<Rightarrow> bool" where
  "poll_ends w e deadline n \<longleftrightarrow> rendered_matches e (w_reading w n) \<or> deadline \<le> w_clock w (Suc n)"

lemma poll_terminates:
  assumes "poll_ends w e deadline n" "i \<le> n"
  shows "\<exists>f. poll_rendered sha w e h tok deadline poll i x = Some f"
  using assms(2)
proof (induction i arbitrary: x rule: inc_induct)
  case base
  then show ?case
    using assms(1) by (subst poll_rendered_unfold) (auto simp: poll_ends_def Let_def)
next
  case (step i)
  then show ?case
    by (subst poll_rendered_unfold) (auto simp: Let_def)
qed

text \<open>What the loop did: it only read and slept, and it found a matching text or ended the run unverified.\<close>

fun only_watches :: "target_call \<Rightarrow> bool" where
  "only_watches (ReadRendered h tok m) = True"
| "only_watches (Sleep t) = True"
| "only_watches (WaitAck h tok m t) = True"
| "only_watches c = False"

definition polled :: "(string \<Rightarrow> string) \<Rightarrow> ws_world \<Rightarrow> ws_envelope \<Rightarrow> ws_store \<Rightarrow> ws_run \<Rightarrow> flow \<Rightarrow> bool" where
  "polled sha w e s0 x f \<longleftrightarrow> sound_flow sha e s0 f \<and>
     (\<exists>cs. run_calls (snd f) = run_calls x @ cs \<and> list_all only_watches cs) \<and>
     run_handle (snd f) = run_handle x \<and> run_token (snd f) = run_token x \<and>
     (case fst f of
        None \<Rightarrow> True
      | Some (Inr r) \<Rightarrow> rc_final_state r = ''SUBMITTED_UNVERIFIED'' | Some (Inl _) \<Rightarrow> False)"

lemma finish_fields [simp]:
  "run_handle (snd (finish sha w e f x)) = run_handle x" "run_token (snd (finish sha w e f x)) = run_token x"
  by (simp_all add: finish_def case_prod_beta Let_def)

lemma polled_call:
  assumes "polled sha w e s0 (call c (with_reading sha t (call d x))) f" "only_watches c" "only_watches d"
  shows "polled sha w e s0 x f"
proof -
  obtain cs where "run_calls (snd f) = run_calls x @ d # c # cs" "list_all only_watches cs"
    using assms(1) by (auto simp: polled_def)
  then have "run_calls (snd f) = run_calls x @ (d # c # cs)" "list_all only_watches (d # c # cs)"
    using assms(2,3) by simp_all
  then show ?thesis
    using assms(1) unfolding polled_def by auto
qed

lemmas poll_induct = poll_rendered.raw_induct
  [where xa = "((((((((sha, w), e), h), tok), deadline), poll), i), x)" for sha w e h tok deadline poll i x,
   unfolded prod.case]

lemma poll_step_cases:
  assumes "(let x1 = call (ReadRendered h tok (we_message_id e)) x;
         rendered = w_reading w i;
         x2 = with_reading sha rendered x1 in
     if rendered_matches e rendered then Some (None, x2)
     else let remaining = deadline - w_clock w (Suc i) in
       if remaining \<le> 0 then Some (finish sha w e ''SUBMITTED_UNVERIFIED'' x2)
       else k (call (Sleep (min poll remaining)) x2)) = Some f"
  obtains "rendered_matches e (w_reading w i)"
      "f = (None, with_reading sha (w_reading w i) (call (ReadRendered h tok (we_message_id e)) x))"
  | "f = finish sha w e ''SUBMITTED_UNVERIFIED'' (with_reading sha (w_reading w i) (call (ReadRendered h tok (we_message_id e)) x))"
  | "w_clock w (Suc i) < deadline" "k (call (Sleep (min poll (deadline - w_clock w (Suc i))))
       (with_reading sha (w_reading w i) (call (ReadRendered h tok (we_message_id e)) x))) = Some f"
proof (cases "rendered_matches e (w_reading w i)")
  case True
  with assms that(1) show ?thesis
    by (simp add: Let_def)
next
  case False
  with assms that(2,3) show ?thesis
    by (cases "deadline - w_clock w (Suc i) \<le> 0") (simp_all add: Let_def)
qed

lemma poll_polled:
  assumes "poll_rendered sha w e h tok deadline poll i x = Some f" "owned sha e s0 x"
  shows "polled sha w e s0 x f"
proof -
  have "\<forall>s0. owned sha e s0 x \<longrightarrow> polled sha w e s0 x f"
    using _ assms(1)
  proof (rule poll_induct
      [where P = "\<lambda>sha w e h tok deadline poll i x f. \<forall>s0. owned sha e s0 x \<longrightarrow> polled sha w e s0 x f"])
    fix g sha w e h tok deadline poll i x f
    assume IH: "\<And>sha w e h tok deadline poll i x f.
        g sha w e h tok deadline poll i x = Some f \<Longrightarrow> \<forall>s0. owned sha e s0 x \<longrightarrow> polled sha w e s0 x f"
      and body: "(let x1 = call (ReadRendered h tok (we_message_id e)) x;
         rendered = w_reading w i;
         x2 = (case rendered of None \<Rightarrow> x1 | Some t \<Rightarrow> x1\<lparr>run_rendered_sha256 := Some (sha (utf8 t))\<rparr>) in
     if rendered_matches e rendered then Some (None, x2)
     else let remaining = deadline - w_clock w (Suc i) in
       if remaining \<le> 0 then Some (finish sha w e ''SUBMITTED_UNVERIFIED'' x2)
       else g sha w e h tok deadline poll (Suc i) (call (Sleep (min poll remaining)) x2)) = Some f"
    define x2 where "x2 = with_reading sha (w_reading w i) (call (ReadRendered h tok (we_message_id e)) x)"
    consider "rendered_matches e (w_reading w i)" "f = (None, x2)"
      | "f = finish sha w e ''SUBMITTED_UNVERIFIED'' x2"
      | "g sha w e h tok deadline poll (Suc i) (call (Sleep (min poll (deadline - w_clock w (Suc i)))) x2) = Some f"
      unfolding x2_def by (rule poll_step_cases [where k = "g sha w e h tok deadline poll (Suc i)" and deadline = deadline and poll = poll, OF body [folded with_reading_def]])
    then show "\<forall>s0. owned sha e s0 x \<longrightarrow> polled sha w e s0 x f"
    proof cases
      case 1
      then show ?thesis
        by (auto simp: polled_def sound_flow_def x2_def)
    next
      case 2
      show ?thesis
      proof (intro allI impI)
        fix s0
        assume "owned sha e s0 x"
        then have "owned sha e s0 x2"
          by (simp add: x2_def)
        then show "polled sha w e s0 x f"
          using 2 finish_owned [of sha e s0 x2 w "''SUBMITTED_UNVERIFIED''"] sound_finish [of sha e s0 x2 w "''SUBMITTED_UNVERIFIED''"]
            finish_fields [of sha w e "''SUBMITTED_UNVERIFIED''" x2]
          by (auto simp: polled_def x2_def)
      qed
    next
      case 3
      show ?thesis
        using IH [OF 3] by (auto simp: x2_def intro: polled_call)
    qed
  qed
  with assms(2) show ?thesis
    by simp
qed

text \<open>It finds a matching text exactly when one can be read before the clock has passed the deadline.\<close>

definition read_in_time :: "ws_world \<Rightarrow> ws_envelope \<Rightarrow> int \<Rightarrow> nat \<Rightarrow> bool" where
  "read_in_time w e deadline i \<longleftrightarrow>
     (\<exists>n \<ge> i. rendered_matches e (w_reading w n) \<and> (\<forall>m. i \<le> m \<and> m < n \<longrightarrow> w_clock w (Suc m) < deadline))"

lemma read_in_time_step:
  "read_in_time w e deadline i \<longleftrightarrow>
     rendered_matches e (w_reading w i) \<or> w_clock w (Suc i) < deadline \<and> read_in_time w e deadline (Suc i)"
proof
  assume "read_in_time w e deadline i"
  then obtain n where n: "n \<ge> i" "rendered_matches e (w_reading w n)" "\<forall>m. i \<le> m \<and> m < n \<longrightarrow> w_clock w (Suc m) < deadline"
    by (auto simp: read_in_time_def)
  then show "rendered_matches e (w_reading w i) \<or> w_clock w (Suc i) < deadline \<and> read_in_time w e deadline (Suc i)"
    by (cases "n = i") (auto simp: read_in_time_def intro!: exI [of _ n])
next
  assume "rendered_matches e (w_reading w i) \<or> w_clock w (Suc i) < deadline \<and> read_in_time w e deadline (Suc i)"
  then show "read_in_time w e deadline i"
  proof
    assume "w_clock w (Suc i) < deadline \<and> read_in_time w e deadline (Suc i)"
    then obtain n where n: "n \<ge> Suc i" "rendered_matches e (w_reading w n)"
      "\<forall>m. Suc i \<le> m \<and> m < n \<longrightarrow> w_clock w (Suc m) < deadline" "w_clock w (Suc i) < deadline"
      by (auto simp: read_in_time_def)
    moreover have "\<forall>m. i \<le> m \<and> m < n \<longrightarrow> w_clock w (Suc m) < deadline"
      using n(3,4) by (metis le_eq_less_or_eq Suc_leI)
    ultimately show ?thesis
      using Suc_leD unfolding read_in_time_def by blast
  qed (auto simp: read_in_time_def)
qed

lemma poll_finds:
  assumes "read_in_time w e deadline i" and "poll_rendered sha w e h tok deadline poll i x = Some f"
  shows "fst f = None"
proof -
  obtain n where n: "i \<le> n" "rendered_matches e (w_reading w n)" "\<forall>m. i \<le> m \<and> m < n \<longrightarrow> w_clock w (Suc m) < deadline"
    using assms(1) by (auto simp: read_in_time_def)
  show ?thesis
    using n(1) assms(2) n(3)
  proof (induction i arbitrary: x rule: inc_induct)
    case base
    then show ?case
      using n(2) by (subst (asm) poll_rendered_unfold) (auto simp: Let_def)
  next
    case (step i)
    have "w_clock w (Suc i) < deadline"
      using step by simp
    show ?case
    proof (cases "rendered_matches e (w_reading w i)")
      case True
      then show ?thesis
        using step.prems(1) by (subst (asm) poll_rendered_unfold) (auto simp: Let_def)
    next
      case False
      then obtain x' where "poll_rendered sha w e h tok deadline poll (Suc i) x' = Some f"
        using step.prems(1) \<open>w_clock w (Suc i) < deadline\<close> by (subst (asm) poll_rendered_unfold) (auto simp: Let_def)
      then show ?thesis
        using step.IH step.prems(2) by simp
    qed
  qed
qed

lemma poll_found:
  assumes "poll_rendered sha w e h tok deadline poll i x = Some f" and "owned sha e s0 x" and "fst f = None"
  shows "read_in_time w e deadline i"
proof -
  have "\<forall>s0. owned sha e s0 x \<longrightarrow> fst f = None \<longrightarrow> read_in_time w e deadline i"
    using _ assms(1)
  proof (rule poll_induct
      [where P = "\<lambda>sha w e h tok deadline poll i x f. \<forall>s0. owned sha e s0 x \<longrightarrow> fst f = None \<longrightarrow> read_in_time w e deadline i"])
    fix g sha w e h tok deadline poll i x f
    assume IH: "\<And>sha w e h tok deadline poll i x f.
        g sha w e h tok deadline poll i x = Some f \<Longrightarrow> \<forall>s0. owned sha e s0 x \<longrightarrow> fst f = None \<longrightarrow> read_in_time w e deadline i"
      and body: "(let x1 = call (ReadRendered h tok (we_message_id e)) x;
         rendered = w_reading w i;
         x2 = (case rendered of None \<Rightarrow> x1 | Some t \<Rightarrow> x1\<lparr>run_rendered_sha256 := Some (sha (utf8 t))\<rparr>) in
     if rendered_matches e rendered then Some (None, x2)
     else let remaining = deadline - w_clock w (Suc i) in
       if remaining \<le> 0 then Some (finish sha w e ''SUBMITTED_UNVERIFIED'' x2)
       else g sha w e h tok deadline poll (Suc i) (call (Sleep (min poll remaining)) x2)) = Some f"
    show "\<forall>s0. owned sha e s0 x \<longrightarrow> fst f = None \<longrightarrow> read_in_time w e deadline i"
    proof (intro allI impI)
      fix s0
      assume own: "owned sha e s0 x" and none: "fst f = None"
      show "read_in_time w e deadline i"
        using poll_step_cases [where k = "g sha w e h tok deadline poll (Suc i)" and deadline = deadline and poll = poll, OF body [folded with_reading_def]]
      proof cases
        case 1
        then show ?thesis
          by (subst read_in_time_step) simp
      next
        case 2
        then show ?thesis
          using none own finish_owned [of sha e s0 "with_reading sha (w_reading w i) (call (ReadRendered h tok (we_message_id e)) x)" w "''SUBMITTED_UNVERIFIED''"]
          by auto
      next
        case 3
        then show ?thesis
          using IH [OF 3(2)] own none by (subst read_in_time_step) auto
      qed
    qed
  qed
  with assms(2,3) show ?thesis
    by blast
qed

section \<open>What is submitted\<close>

text \<open>The one target all checks before the submission agreed on.\<close>

definition target_verified :: "(string \<Rightarrow> string) \<Rightarrow> ws_world \<Rightarrow> target_descriptor \<Rightarrow> target_snapshot \<Rightarrow> bool" where
  "target_verified sha w d sel \<longleftrightarrow> w_verify w = Some True \<and>
     map_option (filter (\<lambda>item. matches item d)) (w_discover w) = Some [sel] \<and> w_activate w \<and> w_populate w \<and>
     (\<exists>p q. w_prewrite w = Some p \<and> w_presubmit w = Some q \<and> window_handle p = window_handle sel \<and>
        window_handle q = window_handle sel \<and> matches p d \<and> matches q d \<and> selector_digest sha p = selector_digest sha q)"

definition submitting_calls :: "ws_envelope \<Rightarrow> target_descriptor \<Rightarrow> target_snapshot \<Rightarrow> target_call list" where
  "submitting_calls e d sel = (let h = window_handle sel; tok = snap_token sel in
     [Discover d, Activate h tok, Snapshot h tok, Populate h tok (transport_text e), Snapshot h tok, Submit h tok])"

fun is_submit :: "target_call \<Rightarrow> bool" where
  "is_submit (Submit h tok) = True"
| "is_submit c = False"

lemma until_submitted_verified:
  assumes owner: "owned sha e s0 x" and target: "target_verified sha w d sel"
  obtains y where "owned sha e s0 y" "run_calls y = run_calls x @ submitting_calls e d sel"
    "run_handle y = Some (window_handle sel)" "run_token y = snap_token sel"
    "if w_submit w then until_submitted sha w e d x = (None, y)
     else \<exists>r. until_submitted sha w e d x = (Some (Inr r), y) \<and> rc_final_state r = ''SUBMIT_NOT_ESTABLISHED''"
proof -
  note adv = advance_owned [of sha e s0]
  let ?h = "window_handle sel" and ?tok = "snap_token sel"
  obtain items p q where w: "w_verify w = Some True" "w_discover w = Some items" "filter (\<lambda>item. matches item d) items = [sel]"
      "w_activate w" "w_populate w" "w_prewrite w = Some p" "w_presubmit w = Some q" "window_handle p = ?h"
      "window_handle q = ?h" "matches p d" "matches q d" "selector_digest sha p = selector_digest sha q"
    using target by (auto simp: target_verified_def)
  define x1 where "x1 = advanced sha w e ''BUS_BOUND'' x"
  define x2 where "x2 = advanced sha w e ''TARGET_DISCOVERED'' ((call (Discover d) x1)\<lparr>run_handle := Some ?h, run_token := ?tok\<rparr>)"
  define x3 where "x3 = advanced sha w e ''TARGET_VERIFIED_PREWRITE'' ((call (Snapshot ?h ?tok) (call (Activate ?h ?tok) x2))\<lparr>run_prewrite := Some p\<rparr>)"
  define x4 where "x4 = advanced sha w e ''COMPOSER_POPULATED'' (call (Populate ?h ?tok (transport_text e)) x3)"
  define x5 where "x5 = advanced sha w e ''TARGET_REVERIFIED_PRESUBMIT'' ((call (Snapshot ?h ?tok) x4)\<lparr>run_presubmit := Some q\<rparr>)"
  have own: "owned sha e s0 x1" "owned sha e s0 x2" "owned sha e s0 x3" "owned sha e s0 x4" "owned sha e s0 x5"
    unfolding x5_def x4_def x3_def x2_def x1_def by (simp_all add: adv owner)
  have pre: "run_prewrite x4 = Some p" "run_prewrite (call c x4) = run_prewrite x4" for c
    by (simp_all add: x4_def x3_def call_def)
  have stages: "verify_source sha w e x = (None, x1)"
    "verify_prewrite sha w e d ?h ?tok x2 = (None, x3)" "populate_composer sha w e ?h ?tok x3 = (None, x4)"
    "verify_presubmit sha w e d ?h ?tok x4 = (None, x5)"
    using own owner w by (simp_all add: verify_source_def verify_prewrite_def populate_composer_def verify_presubmit_def
      adv Let_def x1_def [symmetric] x3_def [symmetric] x4_def [symmetric] x5_def [symmetric] pre)
  have "until_submitted sha w e d x = submit_message sha w e ?h ?tok x5"
    using w own by (simp add: until_submitted_def and_then_def [of _ _ x] and_then_def [of _ _ x2] and_then_def [of _ _ x3]
      and_then_def [of _ _ x4] stages discover_target_def Let_def adv and_then_def x2_def [symmetric])
  moreover have "run_calls x5 @ [Submit ?h ?tok] = run_calls x @ submitting_calls e d sel"
    by (simp add: x5_def x4_def x3_def x2_def x1_def submitting_calls_def Let_def call_def)
  moreover have "run_handle x5 = Some ?h" "run_token x5 = ?tok"
    by (simp_all add: x5_def x4_def x3_def x2_def x1_def call_def)
  ultimately show ?thesis
    using that [of "snd (until_submitted sha w e d x)"] own(5)
      finish_owned [of sha e s0 "call (Submit ?h ?tok) x5" w "''SUBMIT_NOT_ESTABLISHED''"]
      finish_fields [of sha w e "''SUBMIT_NOT_ESTABLISHED''" "call (Submit ?h ?tok) x5"]
    by (cases "w_submit w") (auto simp: submit_message_def Let_def adv)
qed

text \<open>Nothing is submitted between two points of a run; a run that ends so.\<close>

definition quiet :: "ws_run \<Rightarrow> ws_run \<Rightarrow> bool" where
  "quiet x y \<longleftrightarrow> (\<exists>cs. run_calls y = run_calls x @ cs \<and> \<not> list_ex is_submit cs)"

definition ended :: "ws_run \<Rightarrow> flow \<Rightarrow> bool" where
  "ended x f \<longleftrightarrow> (\<exists>r y. f = (Some (Inr r), y) \<and> quiet x y \<and> rc_final_state r \<noteq> ''ACK_VERIFIED'')"

lemma quiet_refl [simp]: "quiet x x"
  by (simp add: quiet_def)

lemma quiet_simps [simp]:
  "quiet x y \<Longrightarrow> quiet x (call (Discover d) y)" "quiet x y \<Longrightarrow> quiet x (call (Activate h tok) y)"
  "quiet x y \<Longrightarrow> quiet x (call (Snapshot h tok) y)" "quiet x y \<Longrightarrow> quiet x (call (Populate h tok t) y)"
  "quiet x (y\<lparr>run_prewrite := p\<rparr>) = quiet x y" "quiet x (y\<lparr>run_presubmit := p\<rparr>) = quiet x y"
  "quiet x (y\<lparr>run_handle := a, run_token := b\<rparr>) = quiet x y" "quiet x (advanced sha w e st y) = quiet x y"
  by (auto simp: quiet_def)

lemma quiet_same: "quiet x y \<Longrightarrow> run_calls z = run_calls y \<Longrightarrow> quiet x z"
  by (simp add: quiet_def)

lemma ended_finish: "owned sha e s0 y \<Longrightarrow> quiet x y \<Longrightarrow> st \<noteq> ''ACK_VERIFIED'' \<Longrightarrow> ended x (finish sha w e st y)"
  using finish_owned [of sha e s0 y w st] by (auto simp: ended_def intro: quiet_same)

lemma ended_and_then: "ended x (f y) \<Longrightarrow> ended x (and_then f g y)"
  by (auto simp: ended_def and_then_def)

lemma and_then_on: "f y = (None, z) \<Longrightarrow> ended x (g z) \<Longrightarrow> ended x (and_then f g y)"
  by (simp add: and_then_def)

lemma until_submitted_unverified:
  assumes owner: "owned sha e s0 x" and no_target: "\<And>sel. \<not> target_verified sha w d sel"
  shows "ended x (until_submitted sha w e d x)"
proof (cases "w_verify w = Some True")
  case False
  then show ?thesis
    unfolding until_submitted_def
    by (intro ended_and_then) (simp add: verify_source_def ended_finish [OF owner])
next
  case verified: True
  note adv = advance_owned [of sha e s0]
  define x1 where "x1 = advanced sha w e ''BUS_BOUND'' x"
  have x1: "owned sha e s0 x1" "quiet x x1" "verify_source sha w e x = (None, x1)"
    using owner verified by (simp_all add: x1_def adv verify_source_def quiet_def)
  have fin: "ended x (finish sha w e st y)"
    if "owned sha e s0 y" "quiet x y" "st \<in> {''TARGET_NOT_FOUND'', ''TARGET_AMBIGUOUS'', ''TARGET_CHANGED_PRE_SUBMIT'', ''COMPOSER_WRITE_FAILED''}" for y st
    using that by (intro ended_finish) auto
  have one: "ended x (and_then (verify_prewrite sha w e d (window_handle sel) (snap_token sel))
      (and_then (populate_composer sha w e (window_handle sel) (snap_token sel))
      (and_then (verify_presubmit sha w e d (window_handle sel) (snap_token sel))
      (submit_message sha w e (window_handle sel) (snap_token sel)))) x2)" (is "ended x (and_then ?pre (and_then ?pop (and_then ?presub ?sub)) x2)")
    if items: "map_option (filter (\<lambda>item. matches item d)) (w_discover w) = Some [sel]"
      and x2: "owned sha e s0 x2" "quiet x x2" for sel x2
  proof -
    let ?h = "window_handle sel" and ?tok = "snap_token sel"
    show ?thesis
    proof (cases "w_activate w \<and> (\<exists>p. w_prewrite w = Some p \<and> window_handle p = ?h \<and> matches p d)")
      case False
      have "ended x (?pre x2)"
        using False x2 by (auto simp: verify_prewrite_def Let_def split: option.split
          intro!: fin)
      then show ?thesis
        by (rule ended_and_then)
    next
      case True
      then obtain p where p: "w_activate w" "w_prewrite w = Some p" "window_handle p = ?h" "matches p d"
        by blast
      define x3 where "x3 = advanced sha w e ''TARGET_VERIFIED_PREWRITE'' ((call (Snapshot ?h ?tok) (call (Activate ?h ?tok) x2))\<lparr>run_prewrite := Some p\<rparr>)"
      have x3: "owned sha e s0 x3" "quiet x x3" "?pre x2 = (None, x3)" "run_prewrite x3 = Some p"
        using p x2 by (auto simp: x3_def adv verify_prewrite_def Let_def)
      show ?thesis
      proof (cases "w_populate w")
        case False
        then have "ended x (?pop x3)"
          using x3 by (auto simp: populate_composer_def Let_def intro!: fin)
        then show ?thesis
          using x3(3) by (blast intro: and_then_on ended_and_then)
      next
        case True
        define x4 where "x4 = advanced sha w e ''COMPOSER_POPULATED'' (call (Populate ?h ?tok (transport_text e)) x3)"
        have x4: "owned sha e s0 x4" "quiet x x4" "?pop x3 = (None, x4)" "run_prewrite x4 = Some p" "run_prewrite (call c x4) = Some p" for c
          using True x3 by (auto simp: x4_def adv populate_composer_def Let_def) (simp_all add: x3_def call_def)?
        have bad: "\<not> (\<exists>q. w_presubmit w = Some q \<and> window_handle q = ?h \<and> matches q d \<and> selector_digest sha p = selector_digest sha q)"
          using no_target [of sel] verified items p True by (auto simp: target_verified_def)
        have "ended x (?presub x4)"
        proof (cases "w_presubmit w")
          case None
          then show ?thesis
            using x4 by (auto simp: verify_presubmit_def Let_def intro!: fin)
        next
          case (Some q)
          then have "window_handle q \<noteq> ?h \<or> \<not> matches q d \<or> selector_digest sha q \<noteq> selector_digest sha p"
            using bad by auto
          then show ?thesis
            using x4 Some by (auto simp: verify_presubmit_def Let_def intro!: fin)
        qed
        then show ?thesis
          using x3(3) x4(3) by (blast intro: and_then_on ended_and_then)
      qed
    qed
  qed
  have "ended x (discover_target sha w e d (\<lambda>selected.
      let h = window_handle selected; tok = snap_token selected in
      and_then (verify_prewrite sha w e d h tok)
      (and_then (populate_composer sha w e h tok)
      (and_then (verify_presubmit sha w e d h tok)
      (submit_message sha w e h tok)))) x1)"
  proof (cases "\<exists>sel. map_option (filter (\<lambda>item. matches item d)) (w_discover w) = Some [sel]")
    case True
    then obtain items sel where sel: "w_discover w = Some items" "filter (\<lambda>item. matches item d) items = [sel]"
      by auto
    define x2 where "x2 = advanced sha w e ''TARGET_DISCOVERED''
      ((call (Discover d) x1)\<lparr>run_handle := Some (window_handle sel), run_token := snap_token sel\<rparr>)"
    have x2: "owned sha e s0 x2" "quiet x x2"
      using x1 by (auto simp: x2_def adv)
    then show ?thesis
      using one [of sel x2] sel x1 by (simp add: discover_target_def Let_def and_then_def [of "advance sha w e st" for st] adv x2_def [symmetric])
  next
    case False
    have "quiet x (call (Discover d) x1)"
      using x1 by simp
    then show ?thesis
      using False x1 by (auto simp: discover_target_def Let_def split: option.split list.split intro!: fin)
  qed
  then show ?thesis
    using x1(3) unfolding until_submitted_def by (rule and_then_on [rotated])
qed

section \<open>After the submission\<close>

definition ack_good :: "ws_world \<Rightarrow> ws_envelope \<Rightarrow> int \<Rightarrow> bool" where
  "ack_good w e read_timeout \<longleftrightarrow> read_in_time w e (w_clock w 0 + read_timeout) 0 \<and>
     parse_ack e (w_ack w) = Some ''RECEIVED_VERIFIED''"

lemma await_ack_ends:
  assumes "owned sha e s0 x"
  shows "\<exists>r y. await_ack sha w e h tok timeout x = (Some (Inr r), y) \<and>
    run_calls y = run_calls x @ [WaitAck h tok (we_message_id e) timeout] \<and>
    (rc_final_state r = ''ACK_VERIFIED'' \<longleftrightarrow> parse_ack e (w_ack w) = Some ''RECEIVED_VERIFIED'')"
proof -
  define x2 where "x2 = (call (WaitAck h tok (we_message_id e) timeout) x)\<lparr>run_ack_body := w_ack w\<rparr>"
  define x3 where "x3 = x2\<lparr>run_ack_status := parse_ack e (w_ack w)\<rparr>"
  have own: "owned sha e s0 x2" "owned sha e s0 x3"
    using assms by (simp_all add: x2_def x3_def)
  have calls: "run_calls x2 = run_calls x @ [WaitAck h tok (we_message_id e) timeout]" "run_calls x3 = run_calls x2"
    by (simp_all add: x2_def x3_def)
  define st where "st = (case parse_ack e (w_ack w) of None \<Rightarrow> ''ACK_TIMEOUT''
    | Some status \<Rightarrow> if status = ''MISMATCH'' then ''ACK_MISMATCH''
        else if status \<noteq> ''RECEIVED_VERIFIED'' then ''SOURCE_BUS_UNVERIFIED'' else ''ACK_VERIFIED'')"
  define z where "z = (if parse_ack e (w_ack w) = None then x2 else x3)"
  have "await_ack sha w e h tok timeout x = finish sha w e st z"
    by (cases "parse_ack e (w_ack w)") (simp_all add: await_ack_def Let_def x2_def [symmetric] x3_def st_def z_def)
  moreover have "owned sha e s0 z" "run_calls z = run_calls x @ [WaitAck h tok (we_message_id e) timeout]"
    using own calls by (simp_all add: z_def)
  moreover have "st = ''ACK_VERIFIED'' \<longleftrightarrow> parse_ack e (w_ack w) = Some ''RECEIVED_VERIFIED''"
    by (auto simp: st_def split: option.split)
  ultimately show ?thesis
    using finish_owned [of sha e s0 z w st] by auto
qed

lemma after_submission_ends:
  assumes "owned sha e s0 x" and "after_submission sha w e ack_timeout read_timeout poll x = Some f"
  shows "sound_flow sha e s0 f" "\<exists>r. fst f = Some (Inr r) \<and> (rc_final_state r = ''ACK_VERIFIED'' \<longleftrightarrow> ack_good w e read_timeout)"
    "\<exists>ws. run_calls (snd f) = run_calls x @ ws \<and> list_all only_watches ws"
proof -
  let ?h = "the (run_handle x)" and ?tok = "run_token x"
  obtain g where g: "poll_rendered sha w e ?h ?tok (w_clock w 0 + read_timeout) poll 0 x = Some g"
    using assms(2) by (auto simp: after_submission_def Let_def split: option.splits)
  have polled: "polled sha w e s0 x g"
    using g assms(1) by (rule poll_polled)
  obtain res y where g': "g = (res, y)"
    by (cases g)
  have "sound_flow sha e s0 f \<and> (\<exists>r. fst f = Some (Inr r) \<and> (rc_final_state r = ''ACK_VERIFIED'' \<longleftrightarrow> ack_good w e read_timeout)) \<and>
    (\<exists>ws. run_calls (snd f) = run_calls x @ ws \<and> list_all only_watches ws)"
  proof (cases res)
    case (Some r)
    then have "f = g"
      using assms(2) g g' by (simp add: after_submission_def Let_def)
    moreover obtain rc where "r = Inr rc" "rc_final_state rc = ''SUBMITTED_UNVERIFIED''"
      using polled Some g' by (cases r) (auto simp: polled_def)
    moreover have "\<not> ack_good w e read_timeout"
      using poll_finds [OF _ g] Some g' by (auto simp: ack_good_def)
    ultimately show ?thesis
      using polled Some g' by (auto simp: polled_def)
  next
    case None
    note adv = advance_owned [of sha e s0]
    define y1 where "y1 = advanced sha w e ''RENDERED_READBACK_VERIFIED'' (y\<lparr>run_rendered_verified := True\<rparr>)"
    define y2 where "y2 = advanced sha w e ''ACK_PENDING'' y1"
    have y: "owned sha e s0 y" "read_in_time w e (w_clock w 0 + read_timeout) 0"
      "\<exists>cs. run_calls y = run_calls x @ cs \<and> list_all only_watches cs"
      using polled None g' poll_found [OF g assms(1)] by (auto simp: polled_def sound_flow_def)
    have y2: "owned sha e s0 y2" "owned sha e s0 y1" "run_calls y2 = run_calls y"
      using y(1) by (simp_all add: y1_def y2_def adv)
    have f: "f = await_ack sha w e ?h ?tok ack_timeout y2"
      using assms(2) g g' None y(1) y2(2) by (simp add: after_submission_def Let_def and_then_def adv y1_def [symmetric] y2_def [symmetric])
    then have "sound_flow sha e s0 f"
      using sound_stages(6) [OF y2(1)] by simp
    then show ?thesis
      using await_ack_ends [OF y2(1), of w ?h ?tok ack_timeout] y(2,3) y2(3) f by (auto simp: ack_good_def)
  qed
  then show "sound_flow sha e s0 f" "\<exists>r. fst f = Some (Inr r) \<and> (rc_final_state r = ''ACK_VERIFIED'' \<longleftrightarrow> ack_good w e read_timeout)"
    "\<exists>ws. run_calls (snd f) = run_calls x @ ws \<and> list_all only_watches ws"
    by blast+
qed

lemma after_submission_returns:
  assumes "poll_ends w e (w_clock w 0 + read_timeout) n"
  shows "\<exists>f. after_submission sha w e ack_timeout read_timeout poll x = Some f"
proof -
  obtain f where "poll_rendered sha w e (the (run_handle x)) (run_token x) (w_clock w 0 + read_timeout) poll 0 x = Some f"
    using poll_terminates [OF assms, of 0] by blast
  then show ?thesis
    by (cases f; cases "fst f") (auto simp: after_submission_def Let_def)
qed

section \<open>A whole run\<close>

definition no_submit :: "target_call list \<Rightarrow> bool" where
  "no_submit cs \<longleftrightarrow> \<not> list_ex is_submit cs"

lemma watching_no_submit: "list_all only_watches cs \<Longrightarrow> no_submit cs"
  unfolding no_submit_def
proof (induction cs)
  case (Cons c cs)
  then show ?case
    by (cases c) auto
qed simp

text \<open>A message is submitted only to a verified target, as the last of a fixed sequence of calls, or not at all.\<close>

definition submitted_soundly :: "(string \<Rightarrow> string) \<Rightarrow> ws_world \<Rightarrow> ws_envelope \<Rightarrow> target_descriptor \<Rightarrow> target_call list \<Rightarrow> bool" where
  "submitted_soundly sha w e d cs \<longleftrightarrow> no_submit cs \<or>
     (\<exists>sel ws. target_verified sha w d sel \<and> cs = submitting_calls e d sel @ ws \<and> list_all only_watches ws)"

definition submitted_exactly :: "(string \<Rightarrow> string) \<Rightarrow> ws_world \<Rightarrow> ws_envelope \<Rightarrow> target_descriptor \<Rightarrow> target_call list \<Rightarrow> bool" where
  "submitted_exactly sha w e d cs \<longleftrightarrow>
     (if \<exists>sel. target_verified sha w d sel
      then \<exists>sel ws. target_verified sha w d sel \<and> cs = submitting_calls e d sel @ ws \<and> list_all only_watches ws
      else no_submit cs)"

lemma submitted_exactly_soundly: "submitted_exactly sha w e d cs \<Longrightarrow> submitted_soundly sha w e d cs"
  by (auto simp: submitted_exactly_def submitted_soundly_def split: if_splits)

lemma drive_ends:
  assumes owner: "owned sha e s0 x" and calls: "run_calls x = []"
    and run: "drive sha w e d ack_timeout read_timeout poll x = Some f"
  shows "sound_flow sha e s0 f" "\<exists>r. fst f = Some (Inr r) \<and>
      (rc_final_state r = ''ACK_VERIFIED'' \<longleftrightarrow> ack_good w e read_timeout \<and> w_submit w \<and> (\<exists>sel. target_verified sha w d sel))"
    "submitted_exactly sha w e d (run_calls (snd f))"
proof -
  have "sound_flow sha e s0 f \<and> (\<exists>r. fst f = Some (Inr r) \<and>
      (rc_final_state r = ''ACK_VERIFIED'' \<longleftrightarrow> ack_good w e read_timeout \<and> w_submit w \<and> (\<exists>sel. target_verified sha w d sel))) \<and>
    submitted_exactly sha w e d (run_calls (snd f))"
  proof (cases "\<exists>sel. target_verified sha w d sel")
    case False
    then have "ended x (until_submitted sha w e d x)"
      using until_submitted_unverified [OF owner] by blast
    moreover have "sound_flow sha e s0 (until_submitted sha w e d x)"
      by (rule sound_until_submitted [OF owner])
    ultimately show ?thesis
      using run calls False by (auto simp: drive_def ended_def quiet_def submitted_exactly_def no_submit_def)
  next
    case True
    then obtain sel where sel: "target_verified sha w d sel"
      by blast
    obtain y where y: "owned sha e s0 y" "run_calls y = submitting_calls e d sel"
      "if w_submit w then until_submitted sha w e d x = (None, y)
       else \<exists>r. until_submitted sha w e d x = (Some (Inr r), y) \<and> rc_final_state r = ''SUBMIT_NOT_ESTABLISHED''"
      using until_submitted_verified [OF owner sel] calls by auto
    show ?thesis
    proof (cases "w_submit w")
      case False
      then obtain r where r: "until_submitted sha w e d x = (Some (Inr r), y)" "rc_final_state r = ''SUBMIT_NOT_ESTABLISHED''"
        using y(3) by auto
      then have "f = (Some (Inr r), y)"
        using run by (simp add: drive_def)
      then show ?thesis
        using r y(2) sel False sound_until_submitted [OF owner, of w d] by (auto simp: submitted_exactly_def) blast?
    next
      case True
      then have after: "after_submission sha w e ack_timeout read_timeout poll y = Some f"
        using y(3) run by (simp add: drive_def)
      then show ?thesis
        using after_submission_ends [OF y(1) after] y(2) sel True by (auto simp: submitted_exactly_def) blast?
    qed
  qed
  then show "sound_flow sha e s0 f" "\<exists>r. fst f = Some (Inr r) \<and>
      (rc_final_state r = ''ACK_VERIFIED'' \<longleftrightarrow> ack_good w e read_timeout \<and> w_submit w \<and> (\<exists>sel. target_verified sha w d sel))"
    "submitted_exactly sha w e d (run_calls (snd f))"
    by blast+
qed

section \<open>The outcomes of a run\<close>

definition run_accepts :: "target_descriptor \<Rightarrow> ws_envelope \<Rightarrow> int \<Rightarrow> int \<Rightarrow> int \<Rightarrow> bool" where
  "run_accepts d e ack_timeout read_timeout poll \<longleftrightarrow>
     td_recipient d = we_recipient e \<and> 0 < ack_timeout \<and> 0 < read_timeout \<and> 0 < poll"

lemma relay_run_accepted:
  assumes "run_accepts d e ack_timeout read_timeout poll"
  shows "relay_run rp ic sha w e d ack_timeout read_timeout poll s =
    (case claim_message rp ic s (binding_of sha e) (w_now w 0) of
       Inl err \<Rightarrow> Some (Inl err, s, [])
     | Inr ((created, state, old_receipt), s1) \<Rightarrow>
         if \<not> created then
           Some (case old_receipt of
               Some receipt \<Rightarrow> Inr receipt
             | None \<Rightarrow> Inl (WorkstationRelayError (''RELAY_ALREADY_IN_PROGRESS:'' @ state)), s1, [])
         else map_option (\<lambda>(r, y). (the r, run_store y, run_calls y))
           (drive sha w e d ack_timeout read_timeout poll (fresh_run w s1)))"
  using assms by (simp add: relay_run_def run_accepts_def)

lemma relay_run_rejected:
  "\<not> run_accepts d e ack_timeout read_timeout poll \<Longrightarrow>
    \<exists>err. relay_run rp ic sha w e d ack_timeout read_timeout poll s = Some (Inl err, s, [])"
  by (auto simp: relay_run_def run_accepts_def)

text \<open>A message that has a row is never driven again.\<close>

lemma relay_run_known:
  assumes "ws_wf s" and "dict_has s (we_message_id e)"
  shows "\<exists>res. relay_run rp ic sha w e d ack_timeout read_timeout poll s = Some (res, s, [])"
proof (cases "run_accepts d e ack_timeout read_timeout poll")
  case True
  have b: "b_message_id (binding_of sha e) = we_message_id e"
    by (simp add: binding_of_def)
  show ?thesis
    using assms(1)
  proof (cases rule: claim_message_cases [where s = s and b = "binding_of sha e" and rp = rp and ic = ic and at = "w_now w 0"])
    case (replayed row receipt)
    then show ?thesis
      by (simp add: relay_run_accepted [OF True])
  next
    case created
    then show ?thesis
      using assms(2) b by simp
  next
    case refused
    then show ?thesis
      by (simp add: relay_run_accepted [OF True])
  qed
qed (use relay_run_rejected in blast)

lemma relay_run_new:
  assumes "ws_wf s" and "dict_get s (we_message_id e) = None" and "run_accepts d e ack_timeout read_timeout poll"
  obtains s1 where "relay_run rp ic sha w e d ack_timeout read_timeout poll s =
      map_option (\<lambda>(r, y). (the r, run_store y, run_calls y)) (drive sha w e d ack_timeout read_timeout poll (fresh_run w s1))"
    "owned sha e s (fresh_run w s1)"
proof -
  let ?s1 = "dict_set s (we_message_id e) \<lparr>ws_nonce = we_nonce e, ws_sha256 = ws_envelope_sha256 sha e, ws_state = ''CREATED'',
    ws_receipt_json = None, ws_updated_at = w_now w 0\<rparr>"
  have claim: "claim_message rp ic s (binding_of sha e) (w_now w 0) = Inr ((True, ''CREATED'', None), ?s1)"
    using assms(2) by (simp add: claim_message_def binding_of_def)
  have "ws_wf ?s1"
    using assms(1) by (auto simp: ws_wf_def)
  then have "owned sha e s (fresh_run w ?s1)"
    by (simp add: owned_def fresh_run_def holds_def binding_of_def)
  then show ?thesis
    using claim by (intro that [of ?s1]) (simp_all add: relay_run_accepted [OF assms(3)])
qed

text \<open>What a run of a new message returns.\<close>

lemma new_run_outcome:
  assumes "ws_wf s" and "dict_get s (we_message_id e) = None" and "run_accepts d e ack_timeout read_timeout poll"
    and "relay_run rp ic sha w e d ack_timeout read_timeout poll s = Some (res, t, calls)"
  obtains r where "res = Inr r" "stored_receipt e t r" "ws_wf t" "holds t (binding_of sha e)"
    "\<And>k. k \<noteq> we_message_id e \<Longrightarrow> dict_get t k = dict_get s k" "submitted_exactly sha w e d calls"
    "rc_final_state r = ''ACK_VERIFIED'' \<longleftrightarrow> ack_good w e read_timeout \<and> w_submit w \<and> (\<exists>sel. target_verified sha w d sel)"
proof -
  obtain s1 where s1: "relay_run rp ic sha w e d ack_timeout read_timeout poll s =
      map_option (\<lambda>(r, y). (the r, run_store y, run_calls y)) (drive sha w e d ack_timeout read_timeout poll (fresh_run w s1))"
    and own: "owned sha e s (fresh_run w s1)"
    by (rule relay_run_new [OF assms(1,2,3)])
  have calls0: "run_calls (fresh_run w s1) = []"
    by (simp add: fresh_run_def)
  obtain f where f: "drive sha w e d ack_timeout read_timeout poll (fresh_run w s1) = Some f"
      "res = the (fst f)" "t = run_store (snd f)" "calls = run_calls (snd f)"
    using assms(4) unfolding s1 by (auto simp: case_prod_beta)
  note ends = drive_ends [OF own calls0 f(1)]
  obtain r where r: "fst f = Some (Inr r)"
    "rc_final_state r = ''ACK_VERIFIED'' \<longleftrightarrow> ack_good w e read_timeout \<and> w_submit w \<and> (\<exists>sel. target_verified sha w d sel)"
    using ends(2) by blast
  have own': "owned sha e s (snd f)" and stored: "stored_receipt e t r"
    using ends(1) r(1) f(3) by (simp_all add: sound_flow_def)
  show ?thesis
  proof (rule that [OF _ stored])
    show "res = Inr r"
      using f(2) r(1) by simp
    show "submitted_exactly sha w e d calls"
      using ends(3) f(4) by simp
  qed (use own' r(2) in \<open>auto simp: owned_def f(3)\<close>)
qed

text \<open>Rows are never lost, and a row that was there before a run is untouched by it.\<close>

lemma relay_run_keeps:
  assumes "ws_wf s" and "relay_run rp ic sha w e d ack_timeout read_timeout poll s = Some (res, t, calls)"
  shows "ws_wf t" "dict_get s k = Some row \<Longrightarrow> dict_get t k = Some row"
    "calls \<noteq> [] \<Longrightarrow> dict_get s (we_message_id e) = None \<and> dict_has t (we_message_id e)"
    "submitted_soundly sha w e d calls"
proof -
  have empty: "submitted_soundly sha w e d []"
    by (simp add: submitted_soundly_def no_submit_def)
  have "ws_wf t \<and> (dict_get s k = Some row \<longrightarrow> dict_get t k = Some row) \<and>
    (calls \<noteq> [] \<longrightarrow> dict_get s (we_message_id e) = None \<and> dict_has t (we_message_id e)) \<and> submitted_soundly sha w e d calls"
  proof (cases "dict_get s (we_message_id e) = None \<and> run_accepts d e ack_timeout read_timeout poll")
    case True
    then obtain r where "ws_wf t" "holds t (binding_of sha e)" "\<And>k. k \<noteq> we_message_id e \<Longrightarrow> dict_get t k = dict_get s k"
      "submitted_soundly sha w e d calls"
      using new_run_outcome [OF assms(1) _ _ assms(2)] submitted_exactly_soundly by metis
    moreover have "dict_has t (we_message_id e)"
      using calculation(2) by (auto simp: holds_def binding_of_def split: option.splits)
    moreover have "dict_get s k = Some row \<Longrightarrow> k \<noteq> we_message_id e"
      using True by auto
    ultimately show ?thesis
      using True by simp
  next
    case False
    then have "t = s \<and> calls = []"
      using relay_run_known [OF assms(1), of e rp ic sha w d ack_timeout read_timeout poll]
        relay_run_rejected [of d e ack_timeout read_timeout poll rp ic sha w s] assms(2) by auto
    with assms(1) empty show ?thesis
      by simp
  qed
  then show "ws_wf t" "dict_get s k = Some row \<Longrightarrow> dict_get t k = Some row"
    "calls \<noteq> [] \<Longrightarrow> dict_get s (we_message_id e) = None \<and> dict_has t (we_message_id e)"
    "submitted_soundly sha w e d calls"
    by blast+
qed

section \<open>Sessions\<close>

record ws_attempt =
  at_world :: ws_world
  at_envelope :: ws_envelope
  at_descriptor :: target_descriptor
  at_ack_timeout :: int
  at_read_timeout :: int
  at_poll :: int

text \<open>Runs one after the other on one store, with the target calls of each by message.\<close>

fun session ::
  "(pyval \<Rightarrow> string) \<Rightarrow> (pyval \<Rightarrow> exn + int) \<Rightarrow> (string \<Rightarrow> string) \<Rightarrow> ws_attempt list \<Rightarrow> ws_store \<Rightarrow>
   (ws_store \<times> (string \<times> target_call list) list) option" where
  "session rp ic sha [] s = Some (s, [])"
| "session rp ic sha (a # as) s =
     (case relay_run rp ic sha (at_world a) (at_envelope a) (at_descriptor a) (at_ack_timeout a) (at_read_timeout a) (at_poll a) s of
        None \<Rightarrow> None
      | Some (_, s', calls) \<Rightarrow>
          map_option (\<lambda>(t, log). (t, (we_message_id (at_envelope a), calls) # log)) (session rp ic sha as s'))"

definition submissions :: "string \<Rightarrow> (string \<times> target_call list) list \<Rightarrow> nat" where
  "submissions m log = length (filter is_submit (concat (map snd (filter (\<lambda>(k, _). k = m) log))))"

lemma session_keeps:
  "ws_wf s \<Longrightarrow> session rp ic sha as s = Some (t, log) \<Longrightarrow>
    ws_wf t \<and> (dict_get s k = Some row \<longrightarrow> dict_get t k = Some row)"
proof (induction as arbitrary: s log)
  case (Cons a as)
  from Cons.prems(2) obtain res s' calls log' where step:
    "relay_run rp ic sha (at_world a) (at_envelope a) (at_descriptor a) (at_ack_timeout a) (at_read_timeout a) (at_poll a) s = Some (res, s', calls)"
    "session rp ic sha as s' = Some (t, log')"
    by (auto split: option.splits)
  show ?case
    using Cons.IH [OF _ step(2)] relay_run_keeps(1,2) [OF Cons.prems(1) step(1)] by blast
qed simp

lemma submits_once:
  assumes "submitted_soundly sha w e d calls"
  shows "length (filter is_submit calls) \<le> 1"
  using assms unfolding submitted_soundly_def
proof (elim disjE exE conjE)
  assume "no_submit calls"
  then have "filter is_submit calls = []"
    by (simp add: no_submit_def list_ex_iff filter_empty_conv)
  then show ?thesis
    by simp
next
  fix sel ws
  assume calls: "calls = submitting_calls e d sel @ ws" and "list_all only_watches ws"
  then have "filter is_submit ws = []"
    using watching_no_submit by (simp add: no_submit_def list_ex_iff filter_empty_conv)
  with calls show ?thesis
    by (simp add: submitting_calls_def Let_def)
qed

lemma known_not_submitted:
  "ws_wf s \<Longrightarrow> dict_has s m \<Longrightarrow> session rp ic sha as s = Some (t, log) \<Longrightarrow> submissions m log = 0"
proof (induction as arbitrary: s log)
  case (Cons a as)
  from Cons.prems(3) obtain res s' calls log' where step:
    "relay_run rp ic sha (at_world a) (at_envelope a) (at_descriptor a) (at_ack_timeout a) (at_read_timeout a) (at_poll a) s = Some (res, s', calls)"
    "session rp ic sha as s' = Some (t, log')" "log = (we_message_id (at_envelope a), calls) # log'"
    by (auto split: option.splits)
  note keeps = relay_run_keeps [OF Cons.prems(1) step(1)]
  have "submissions m log' = 0"
    using Cons.IH [OF keeps(1) _ step(2)] keeps(2) Cons.prems(2) by auto
  moreover have "we_message_id (at_envelope a) = m \<Longrightarrow> calls = []"
    using keeps(3) Cons.prems(2) by auto
  ultimately show ?case
    by (auto simp: submissions_def step(3))
qed (simp add: submissions_def)

section \<open>Acknowledgements name one message\<close>

definition one_line :: "string \<Rightarrow> bool" where
  "one_line s \<longleftrightarrow> CHR 0x0A \<notin> set s"

lemma join_newline_inj:
  "length xs = length ys \<Longrightarrow> list_all one_line xs \<Longrightarrow> list_all one_line ys \<Longrightarrow> join newline xs = join newline ys \<Longrightarrow> xs = ys"
proof (induction newline xs arbitrary: ys rule: join.induct)
  case (2 x)
  then show ?case
    by (cases ys) auto
next
  case (3 x y zs)
  then obtain a b cs where ys: "ys = a # b # cs"
    by (metis length_Suc_conv)
  have eq: "x @ CHR 0x0A # join newline (y # zs) = a @ CHR 0x0A # join newline (b # cs)"
    using 3(5) unfolding ys by (simp add: newline_def)
  have run: "takeWhile (\<lambda>c. c \<noteq> CHR 0x0A) (s @ CHR 0x0A # r) = s" if "one_line s" for s r
    using that by (intro takeWhile_run) (auto simp: one_line_def list_all_iff)
  have "x = a"
    using arg_cong [OF eq, of "takeWhile (\<lambda>c. c \<noteq> CHR 0x0A)"] run [of x] run [of a] 3(3,4) unfolding ys by simp
  moreover from this eq have "join newline (y # zs) = join newline (b # cs)"
    by simp
  then have "y # zs = b # cs"
    using 3 unfolding ys by (intro 3(1)) auto
  ultimately show ?case
    by (simp add: ys)
qed simp

definition envelope_ok :: "ws_envelope \<Rightarrow> bool" where
  "envelope_ok e \<longleftrightarrow> id_pattern (we_message_id e) \<and> one_line (we_message_id e) \<and> one_line (we_nonce e) \<and> one_line (we_body_sha256 e)"

lemma id_pattern_one_line: "id_pattern s \<Longrightarrow> one_line s"
proof -
  assume "id_pattern s"
  then have "list_all id_char s"
    by (auto simp: id_pattern_def head_tail_def class_defs split: list.splits)
  moreover have "\<not> id_char (CHR 0x0A)"
    by code_simp
  ultimately show ?thesis
    by (auto simp: one_line_def list_all_iff)
qed

lemma lower_hex_one_line: "list_all is_hex s \<Longrightarrow> one_line (lower s)"
proof -
  have "lower_char c \<noteq> CHR 0x0A" if "is_hex c" for c
  proof
    assume "lower_char c = CHR 0x0A"
    then have "(of_char (lower_char c) :: nat) = 10"
      by simp
    then show False
      using that by (auto simp: is_hex_def is_hex_lower_def class_defs lower_char_def Let_def split: if_splits)
  qed
  then show "list_all is_hex s \<Longrightarrow> one_line (lower s)"
    unfolding one_line_def lower_def list_all_iff by (metis imageE set_map)
qed

text \<open>The digest is lower-case hexadecimal text.\<close>

definition hex_digest :: "(string \<Rightarrow> string) \<Rightarrow> bool" where
  "hex_digest sha \<longleftrightarrow> (\<forall>t. list_all is_hex_lower (sha t))"

lemma created_envelope_ok:
  assumes "hex_digest sha" and "create_ws_envelope sha a r m n b c v = Inr e"
  shows "envelope_ok e"
proof -
  have "\<not> is_hex_lower (CHR 0x0A)"
    by code_simp
  then have "one_line (sha t)" for t
    using assms(1) by (auto simp: hex_digest_def one_line_def list_all_iff)
  moreover have match: "matching p v code = Inr s \<Longrightarrow> p s" for p v code s
    by (cases v) (simp_all add: matching_def)
  moreover obtain x1 x2 m' x4 n' x6 v' where e: "matching id_pattern m ''INVALID_MESSAGE_ID'' = Inr m'"
      "matching nonce_pattern n ''INVALID_NONCE'' = Inr n'" "e = new_ws_envelope x1 x2 m' (lower n') x4 x6 v' (sha (utf8 v'))"
    using assms(2) unfolding create_ws_envelope_def bindE_eq_Inr by blast
  ultimately show ?thesis
    using id_pattern_one_line match [OF e(1)] match [OF e(2)] lower_hex_one_line [of n']
    by (simp add: e(3) new_ws_envelope_def envelope_ok_def nonce_pattern_def)
qed

lemma render_ack_inj:
  assumes "envelope_ok e" "envelope_ok e'" "render_ack e st = Inr a" "render_ack e' st' = Inr a"
  shows "we_message_id e = we_message_id e' \<and> we_nonce e = we_nonce e' \<and> we_body_sha256 e = we_body_sha256 e' \<and> st = st'"
proof -
  let ?ls = "\<lambda>e st. [ACK_PROTOCOL, ''message_id: '' @ we_message_id e, ''nonce: '' @ we_nonce e,
       ''body_sha256: '' @ we_body_sha256 e, ''status: '' @ st]"
  have lines: "list_all one_line (?ls e st)" if "envelope_ok e" "st \<in> {''RECEIVED_VERIFIED'', ''HOLD_SOURCE_UNVERIFIED''}" for e st
    using that by (auto simp: envelope_ok_def one_line_def ACK_PROTOCOL_def)
  have "st \<in> {''RECEIVED_VERIFIED'', ''HOLD_SOURCE_UNVERIFIED''}" "st' \<in> {''RECEIVED_VERIFIED'', ''HOLD_SOURCE_UNVERIFIED''}"
    "join newline (?ls e st) = join newline (?ls e' st')"
    using assms(3,4) by (simp_all add: render_ack_def)
  then have "?ls e st = ?ls e' st'"
    using assms(1,2) by (intro join_newline_inj lines) simp_all
  then show ?thesis
    by simp
qed

lemma parse_ack_received: "parse_ack e t = Some ''RECEIVED_VERIFIED'' \<longleftrightarrow> (\<exists>a. t = Some a \<and> render_ack e ''RECEIVED_VERIFIED'' = Inr a)"
  by (cases t) (auto simp: parse_ack_def split: option.splits)

lemma new_run_returns:
  assumes "ws_wf s" and "dict_get s (we_message_id e) = None" and "run_accepts d e ack_timeout read_timeout poll"
    and "poll_ends w e (w_clock w 0 + read_timeout) n"
  obtains r t calls where "relay_run rp ic sha w e d ack_timeout read_timeout poll s = Some (Inr r, t, calls)" "stored_receipt e t r"
proof -
  obtain s1 where s1: "relay_run rp ic sha w e d ack_timeout read_timeout poll s =
      map_option (\<lambda>(r, y). (the r, run_store y, run_calls y)) (drive sha w e d ack_timeout read_timeout poll (fresh_run w s1))"
    by (rule relay_run_new [OF assms(1,2,3)])
  have "\<exists>f. drive sha w e d ack_timeout read_timeout poll (fresh_run w s1) = Some f"
    using after_submission_returns [OF assms(4)] by (auto simp: drive_def split: prod.split option.split)
  then obtain res t calls where run: "relay_run rp ic sha w e d ack_timeout read_timeout poll s = Some (res, t, calls)"
    using s1 by auto
  show ?thesis
    by (rule new_run_outcome [OF assms(1,2,3) run]) (use run that in blast)
qed

section \<open>A sample run\<close>

definition sample_ws_envelope :: ws_envelope where
  "sample_ws_envelope = new_ws_envelope ''delta'' ''echo'' ''m1'' (replicate 32 (CHR ''a'')) ''b1'' (replicate 40 (CHR ''0''))
     ''BT2_CANARY: marker=x'' (replicate 64 (CHR ''c''))"

definition sample_ws_sha :: "string \<Rightarrow> string" where
  "sample_ws_sha t = replicate 64 (CHR ''c'')"

definition sample_descriptor :: target_descriptor where
  "sample_descriptor = \<lparr>td_recipient = ''echo'', td_path = ''/c'', td_identity = ''Echo''\<rparr>"

definition sample_snapshot :: target_snapshot where
  "sample_snapshot = \<lparr>window_handle = 7, snap_path = ''/c'', snap_identity = ''Echo'', snap_token = None\<rparr>"

definition sample_world :: ws_world where
  "sample_world = \<lparr>w_verify = Some True, w_discover = Some [sample_snapshot], w_activate = True,
     w_prewrite = Some sample_snapshot, w_populate = True, w_presubmit = Some sample_snapshot, w_submit = True,
     w_reading = (\<lambda>_. Some (render sample_ws_envelope)), w_clock = (\<lambda>_. 0),
     w_ack = Some (projr (render_ack sample_ws_envelope ''RECEIVED_VERIFIED'')), w_now = (\<lambda>_. ''t'')\<rparr>"

abbreviation sample_relay_run :: "ws_store \<Rightarrow> ((exn + ws_receipt) \<times> ws_store \<times> target_call list) option" where
  "sample_relay_run \<equiv> relay_run (\<lambda>_. []) (\<lambda>_. Inl TypeError) sample_ws_sha sample_world sample_ws_envelope sample_descriptor 1 1 1"

lemma sample_run_ok: "run_accepts sample_descriptor sample_ws_envelope 1 1 1" "rendered_matches sample_ws_envelope (w_reading sample_world n)"
proof -
  show "run_accepts sample_descriptor sample_ws_envelope 1 1 1"
    by code_simp
  have "rendered_matches sample_ws_envelope (Some (render sample_ws_envelope))"
    by code_simp
  then show "rendered_matches sample_ws_envelope (w_reading sample_world n)"
    by (simp add: sample_world_def)
qed

lemma sample_run_fresh: "ws_wf []" "dict_get [] (we_message_id sample_ws_envelope) = None"
  "poll_ends sample_world sample_ws_envelope (w_clock sample_world 0 + 1) 0"
  using sample_run_ok(2) by (simp_all add: ws_wf_def poll_ends_def)

lemma sample_target_verified:
  "target_verified sample_ws_sha sample_world sample_descriptor sel \<longleftrightarrow> sel = sample_snapshot"
  by (auto simp: target_verified_def sample_world_def sample_snapshot_def sample_descriptor_def matches_def)

lemma sample_ack_good: "ack_good sample_world sample_ws_envelope 1"
proof -
  have "parse_ack sample_ws_envelope (w_ack sample_world) = Some ''RECEIVED_VERIFIED''"
    by code_simp
  moreover have "read_in_time sample_world sample_ws_envelope (w_clock sample_world 0 + 1) 0"
    using sample_run_ok(2) by (subst read_in_time_step) simp
  ultimately show ?thesis
    by (simp add: ack_good_def)
qed

lemma sample_run:
  obtains r t ws where "sample_relay_run [] = Some (Inr r, t, submitting_calls sample_ws_envelope sample_descriptor sample_snapshot @ ws)"
    "rc_final_state r = ''ACK_VERIFIED''" "ws_wf t" "dict_has t ''m1''"
proof -
  obtain r t calls where run: "sample_relay_run [] = Some (Inr r, t, calls)"
    by (rule new_run_returns [OF sample_run_fresh(1,2) sample_run_ok(1) sample_run_fresh(3)])
  have "submitted_exactly sample_ws_sha sample_world sample_ws_envelope sample_descriptor calls \<and> rc_final_state r = ''ACK_VERIFIED'' \<and>
      ws_wf t \<and> holds t (binding_of sample_ws_sha sample_ws_envelope)"
    by (rule new_run_outcome [OF sample_run_fresh(1,2) sample_run_ok(1) run])
      (simp add: sample_ack_good sample_target_verified, simp add: sample_world_def)
  moreover have "b_message_id (binding_of sample_ws_sha sample_ws_envelope) = ''m1''"
    by (simp add: binding_of_def sample_ws_envelope_def new_ws_envelope_def)
  ultimately show ?thesis
    using run that by (auto simp: submitted_exactly_def sample_target_verified holds_def split: option.splits)
qed

section \<open>Properties\<close>



text \<open>
  C19: nothing is submitted to an unverified target. A submission is made only to the one discovered
  target that matches the descriptor, of the envelope's recipient, after its source was verified
  and both snapshots, before the text was written and after, matched with the same digest; the
  calls before it are exactly these, in this order, and after it the run only watches.
\<close>

theorem submission_is_verified:
  assumes "ws_wf s" and "relay_run rp ic sha w e d ack_timeout read_timeout poll s = Some (res, t, calls)"
    and "Submit h tok \<in> set calls"
  shows "td_recipient d = we_recipient e \<and> (\<exists>sel ws. target_verified sha w d sel \<and> h = window_handle sel \<and> tok = snap_token sel \<and>
    calls = submitting_calls e d sel @ ws \<and> list_all only_watches ws)"
proof -
  have "\<not> no_submit calls"
    using assms(3) by (force simp: no_submit_def list_ex_iff)
  then obtain sel ws where sel: "target_verified sha w d sel" "calls = submitting_calls e d sel @ ws" "list_all only_watches ws"
    using relay_run_keeps(4) [OF assms(1,2)] by (auto simp: submitted_soundly_def)
  have "Submit h tok \<notin> set ws"
    using watching_no_submit [OF sel(3)] by (force simp: no_submit_def list_ex_iff)
  then have "h = window_handle sel \<and> tok = snap_token sel"
    using assms(3) sel(2) by (auto simp: submitting_calls_def Let_def)
  moreover have "run_accepts d e ack_timeout read_timeout poll"
    using relay_run_rejected [of d e ack_timeout read_timeout poll rp ic sha w s] assms(2,3)
    by (cases "run_accepts d e ack_timeout read_timeout poll") auto
  ultimately show ?thesis
    using sel by (auto simp: run_accepts_def)
qed

theorem submission_is_verified_witness:
  "\<exists>res t calls ws. sample_relay_run [] = Some (res, t, calls) \<and>
    calls = submitting_calls sample_ws_envelope sample_descriptor sample_snapshot @ ws \<and> list_all only_watches ws"
proof -
  obtain r t ws where run: "sample_relay_run [] = Some (Inr r, t, submitting_calls sample_ws_envelope sample_descriptor sample_snapshot @ ws)"
    by (rule sample_run)
  moreover have "Submit (window_handle sample_snapshot) (snap_token sample_snapshot) \<in>
      set (submitting_calls sample_ws_envelope sample_descriptor sample_snapshot @ ws)"
    by (simp add: submitting_calls_def Let_def)
  ultimately show ?thesis
    using submission_is_verified [OF sample_run_fresh(1) run] unfolding sample_target_verified by blast
qed

text \<open>
  C18: a message is submitted at most once, ever. Over any sequence of runs on one store, of any
  envelopes and with any answers, at most one submission is made for each message id, retries of
  failed or unverified runs and reuse of the id with other contents included.
\<close>

theorem message_submitted_once:
  assumes "ws_wf s" and "session rp ic sha as s = Some (t, log)"
  shows "submissions m log \<le> 1"
  using assms
proof (induction as arbitrary: s log)
  case (Cons a as)
  from Cons.prems(2) obtain res s' calls log' where step:
    "relay_run rp ic sha (at_world a) (at_envelope a) (at_descriptor a) (at_ack_timeout a) (at_read_timeout a) (at_poll a) s = Some (res, s', calls)"
    "session rp ic sha as s' = Some (t, log')" "log = (we_message_id (at_envelope a), calls) # log'"
    by (auto split: option.splits)
  note keeps = relay_run_keeps [OF Cons.prems(1) step(1)]
  have rest: "submissions m log' \<le> 1"
    using Cons.IH [OF keeps(1) step(2)] .
  show ?case
  proof (cases "we_message_id (at_envelope a) = m \<and> calls \<noteq> []")
    case True
    then have "dict_has s' m"
      using keeps(3) by blast
    then have "submissions m log' = 0"
      by (rule known_not_submitted [OF keeps(1) _ step(2)])
    then show ?thesis
      using submits_once [OF keeps(4)] by (simp add: submissions_def step(3))
  next
    case False
    then show ?thesis
      using rest by (auto simp: submissions_def step(3))
  qed
qed (simp add: submissions_def)

definition sample_attempt :: ws_attempt where
  "sample_attempt = \<lparr>at_world = sample_world, at_envelope = sample_ws_envelope, at_descriptor = sample_descriptor,
     at_ack_timeout = 1, at_read_timeout = 1, at_poll = 1\<rparr>"

theorem message_submitted_once_witness:
  "\<exists>t log. session (\<lambda>_. []) (\<lambda>_. Inl TypeError) sample_ws_sha [sample_attempt, sample_attempt] [] = Some (t, log) \<and>
     length log = 2 \<and> submissions ''m1'' log \<le> 1"
proof -
  obtain r t ws where run: "sample_relay_run [] = Some (Inr r, t, submitting_calls sample_ws_envelope sample_descriptor sample_snapshot @ ws)"
      "ws_wf t" "dict_has t ''m1''"
    by (rule sample_run)
  moreover have "we_message_id sample_ws_envelope = ''m1''"
    by (simp add: sample_ws_envelope_def new_ws_envelope_def)
  then obtain res where "sample_relay_run t = Some (res, t, [])"
    using relay_run_known [OF run(2)] run(3) by metis
  ultimately have "\<exists>log. session (\<lambda>_. []) (\<lambda>_. Inl TypeError) sample_ws_sha [sample_attempt, sample_attempt] [] = Some (t, log) \<and> length log = 2"
    by (simp add: sample_attempt_def)
  then show ?thesis
    using message_submitted_once [OF sample_run_fresh(1)] by blast
qed

text \<open>
  A finished message is answered by its receipt. After a run of a new message, and any session
  after it, another run of the same envelope, with whatever target and answers, returns the
  receipt of the first, its times ordered by state, and neither calls the target nor writes.
\<close>

theorem receipt_returned_again:
  assumes "ws_wf s" and "dict_get s (we_message_id e) = None" and "run_accepts d e ack_timeout read_timeout poll"
    and "relay_run rp ic sha w e d ack_timeout read_timeout poll s = Some (Inr r, t, calls)"
    and "session rp ic sha as t = Some (u, log)" and "run_accepts d' e ack_timeout' read_timeout' poll'"
  shows "relay_run rp ic sha w' e d' ack_timeout' read_timeout' poll' u =
    Some (Inr (r\<lparr>rc_transition_times := sort_key fst (rc_transition_times r)\<rparr>), u, [])"
proof -
  have "stored_receipt e t r \<and> ws_wf t \<and> holds t (binding_of sha e)"
    by (rule new_run_outcome [OF assms(1-4)]) simp
  then obtain row where row: "dict_get t (we_message_id e) = Some row" "ws_receipt_json row = Some (PDict (reloaded_members r))"
      "ws_nonce row = we_nonce e" "ws_sha256 row = ws_envelope_sha256 sha e" and wf: "ws_wf t"
    by (auto simp: stored_receipt_def holds_def binding_of_def split: option.splits)
  have "dict_get u (we_message_id e) = Some row"
    using session_keeps [OF wf assms(5)] row(1) by blast
  then have "claim_message rp ic u (binding_of sha e) at =
      Inr ((False, ws_state row, Some (r\<lparr>rc_transition_times := sort_key fst (rc_transition_times r)\<rparr>)), u)" for at
    using row by (simp add: claim_message_def binding_of_def load_receipt_written)
  then show ?thesis
    by (simp add: relay_run_accepted [OF assms(6)])
qed

theorem receipt_returned_again_witness:
  "\<exists>r t calls. sample_relay_run [] = Some (Inr r, t, calls) \<and>
    sample_relay_run t = Some (Inr (r\<lparr>rc_transition_times := sort_key fst (rc_transition_times r)\<rparr>), t, [])"
proof -
  obtain r t calls where run: "sample_relay_run [] = Some (Inr r, t, calls)"
    by (rule new_run_returns [OF sample_run_fresh(1,2) sample_run_ok(1) sample_run_fresh(3)])
  show ?thesis
    using receipt_returned_again [OF sample_run_fresh(1,2) sample_run_ok(1) run, of "[]" t "[]" sample_descriptor 1 1 1 sample_world]
      sample_run_ok(1) run by auto
qed

text \<open>
  A receipt says \<open>ACK_VERIFIED\<close> exactly when the target was verified, the submission went through,
  the message was read back in time and the acknowledgement is, to the letter, the received form
  for this message; and that text acknowledges no other message id, nonce, body or status.
\<close>

theorem ack_verified_exactly:
  assumes "ws_wf s" and "dict_get s (we_message_id e) = None" and "run_accepts d e ack_timeout read_timeout poll"
    and "relay_run rp ic sha w e d ack_timeout read_timeout poll s = Some (Inr r, t, calls)"
    and "envelope_ok e"
  shows "(rc_final_state r = ''ACK_VERIFIED'' \<longleftrightarrow>
      (\<exists>sel. target_verified sha w d sel) \<and> w_submit w \<and> read_in_time w e (w_clock w 0 + read_timeout) 0 \<and>
      map_option Inr (w_ack w) = Some (render_ack e ''RECEIVED_VERIFIED'')) \<and>
    (rc_final_state r = ''ACK_VERIFIED'' \<longrightarrow> (\<forall>e' st. envelope_ok e' \<and> map_option Inr (w_ack w) = Some (render_ack e' st) \<longrightarrow>
       we_message_id e' = we_message_id e \<and> we_nonce e' = we_nonce e \<and> we_body_sha256 e' = we_body_sha256 e \<and>
       st = ''RECEIVED_VERIFIED''))"
proof -
  have "rc_final_state r = ''ACK_VERIFIED'' \<longleftrightarrow> ack_good w e read_timeout \<and> w_submit w \<and> (\<exists>sel. target_verified sha w d sel)"
    by (rule new_run_outcome [OF assms(1-4)]) simp
  moreover have "parse_ack e (w_ack w) = Some ''RECEIVED_VERIFIED'' \<longleftrightarrow>
      map_option Inr (w_ack w) = Some (render_ack e ''RECEIVED_VERIFIED'')"
    unfolding parse_ack_received by (cases "w_ack w") auto
  ultimately have exact: "rc_final_state r = ''ACK_VERIFIED'' \<longleftrightarrow>
      (\<exists>sel. target_verified sha w d sel) \<and> w_submit w \<and> read_in_time w e (w_clock w 0 + read_timeout) 0 \<and>
      map_option Inr (w_ack w) = Some (render_ack e ''RECEIVED_VERIFIED'')"
    by (auto simp: ack_good_def)
  have "we_message_id e' = we_message_id e \<and> we_nonce e' = we_nonce e \<and> we_body_sha256 e' = we_body_sha256 e \<and> st = ''RECEIVED_VERIFIED''"
    if ok: "envelope_ok e'" and acks: "map_option Inr (w_ack w) = Some (render_ack e' st)"
      "map_option Inr (w_ack w) = Some (render_ack e ''RECEIVED_VERIFIED'')" for e' st
  proof -
    obtain a where "w_ack w = Some a"
      using acks(1) by auto
    then show ?thesis
      using render_ack_inj [OF ok assms(5), of st a] acks by auto
  qed
  with exact show ?thesis
    by blast
qed

theorem ack_verified_exactly_witness:
  "\<exists>r t calls. sample_relay_run [] = Some (Inr r, t, calls) \<and> rc_final_state r = ''ACK_VERIFIED'' \<and> w_submit sample_world"
proof -
  obtain r t ws where run: "sample_relay_run [] = Some (Inr r, t, submitting_calls sample_ws_envelope sample_descriptor sample_snapshot @ ws)"
      "rc_final_state r = ''ACK_VERIFIED''"
    by (rule sample_run)
  have "envelope_ok sample_ws_envelope"
    by code_simp
  then show ?thesis
    using ack_verified_exactly [OF sample_run_fresh(1,2) sample_run_ok(1) run(1)] run by blast
qed

end
