(* ===== verification/MessageGrammar.thy ===== *)
theory MessageGrammar
  imports Patterns Json
begin

text \<open>
  The grammar of bus messages (\<open>src/src/radar/message_grammar.py\<close>): UTF-8 content, its lines, the
  header block as YAML front matter or as the block after an optional Markdown title, and the
  fields of a parsed document. \<open>datetime.fromisoformat\<close> is the parameter \<open>fromiso\<close>: \<open>None\<close> where it
  raises, otherwise whether the result has a time zone. SHA-256 is the parameter \<open>sha\<close>.
\<close>

section \<open>UTF-8\<close>

text \<open>
  \<open>content.decode("utf-8")\<close> for content whose text has code points below 256: one byte below 128, or
  one of two lead bytes with a continuation byte.
\<close>

fun utf8_decode :: "string \<Rightarrow> string option" where
  "utf8_decode [] = Some []"
| "utf8_decode (b # bs) =
     (let n = (of_char b :: nat) in
      if n < 128 then map_option (Cons b) (utf8_decode bs)
      else if n = 194 \<or> n = 195 then
        (case bs of
           [] \<Rightarrow> None
         | c # cs \<Rightarrow> let m = (of_char c :: nat) in
             if 128 \<le> m \<and> m < 192 then map_option (Cons (char_of ((n - 192) * 64 + (m - 128)))) (utf8_decode cs) else None)
      else None)"

lemma utf8_Cons: "utf8 (c # s) = utf8_char c @ utf8 s"
  by (simp add: utf8_def)

lemma utf8_Nil [simp]: "utf8 [] = []"
  by (simp add: utf8_def)

lemma utf8_append [simp]: "utf8 (s @ t) = utf8 s @ utf8 t"
  by (simp add: utf8_def)

lemma of_char_less: "(of_char c :: nat) < 256"
  by (metis of_char_mod_256 mod_less_divisor zero_less_numeral)

lemma utf8_decode_encode: "utf8_decode (utf8 s) = Some s"
proof (induction s)
  case (Cons c s)
  let ?n = "of_char c :: nat"
  show ?case
  proof (cases "?n < 128")
    case True
    with Cons show ?thesis
      by (simp add: utf8_Cons utf8_char_def Let_def)
  next
    case False
    have n: "?n < 256"
      by (rule of_char_less)
    have "?n div 64 < 4"
      using n by (simp add: less_mult_imp_div_less)
    then have lead: "(of_char (char_of (192 + ?n div 64) :: char) :: nat) = 192 + ?n div 64"
      and cont: "(of_char (char_of (128 + ?n mod 64) :: char) :: nat) = 128 + ?n mod 64"
      by simp_all
    have "2 \<le> ?n div 64"
      using False div_le_mono [of 128 ?n 64] by simp
    then have "?n div 64 = 2 \<or> ?n div 64 = 3"
      using \<open>?n div 64 < 4\<close> by linarith
    moreover have "?n div 64 * 64 + ?n mod 64 = ?n"
      by simp
    ultimately show ?thesis
      using Cons False lead cont by (auto simp: utf8_Cons utf8_char_def Let_def)
  qed
qed simp

section \<open>Lines\<close>

text \<open>\<open>str.splitlines(keepends=True)\<close>: the boundaries below 256, and a carriage return with its line feed.\<close>

definition is_line_end :: "char \<Rightarrow> bool" where
  "is_line_end c \<longleftrightarrow> (let n = (of_char c :: nat) in 10 \<le> n \<and> n \<le> 13 \<or> 28 \<le> n \<and> n \<le> 30 \<or> n = 133)"

definition CR :: char where "CR = CHR 0x0D"
definition LF :: char where "LF = CHR 0x0A"

fun split_line :: "string \<Rightarrow> string \<times> string" where
  "split_line [] = ([], [])"
| "split_line (c # cs) =
     (if c = CR \<and> cs \<noteq> [] \<and> hd cs = LF then ([CR, LF], tl cs)
      else if is_line_end c then ([c], cs)
      else let (l, r) = split_line cs in (c # l, r))"

lemma split_line_append: "split_line s = (l, r) \<Longrightarrow> l @ r = s \<and> (s \<noteq> [] \<longrightarrow> l \<noteq> [])"
  by (induction s arbitrary: l r) (auto simp: neq_Nil_conv CR_def LF_def split: if_splits prod.splits)

function splitlines_keep :: "string \<Rightarrow> string list" where
  "splitlines_keep [] = []"
| "splitlines_keep (c # cs) = (let (l, r) = split_line (c # cs) in l # splitlines_keep r)"
  by pat_completeness auto
termination
proof (relation "measure length")
  fix c :: char and cs l r x
  assume "x = split_line (c # cs)" "(l, r) = x"
  then have "l @ r = c # cs \<and> l \<noteq> []"
    using split_line_append [of "c # cs" l r] by (cases x) auto
  then have "length l + length r = Suc (length cs)" "l \<noteq> []"
    by (metis length_append length_Cons, simp)
  then show "(r, c # cs) \<in> measure length"
    by (cases l) simp_all
qed simp

declare splitlines_keep.simps(2) [simp del]

lemma splitlines_step: "s \<noteq> [] \<Longrightarrow> split_line s = (l, r) \<Longrightarrow> splitlines_keep s = l # splitlines_keep r"
  by (cases s) (simp_all add: splitlines_keep.simps(2))

lemma splitlines_concat [simp]: "concat (splitlines_keep s) = s"
proof (induction "length s" arbitrary: s rule: less_induct)
  case less
  show ?case
  proof (cases "s = []")
    case False
    obtain l r where split: "split_line s = (l, r)"
      by fastforce
    then have "l @ r = s" "l \<noteq> []"
      using split_line_append False by blast+
    then have "length r < length s"
      by (cases l) auto
    then show ?thesis
      using less splitlines_step [OF False split] \<open>l @ r = s\<close> by simp
  qed simp
qed

text \<open>A line without an ending, and \<open>str.splitlines()\<close>.\<close>

definition chomp :: "string \<Rightarrow> string" where
  "chomp l = takeWhile (\<lambda>c. \<not> is_line_end c) l"

definition splitlines :: "string \<Rightarrow> string list" where
  "splitlines s = map chomp (splitlines_keep s)"

section \<open>Scalars\<close>

definition quote_pairs :: "(char \<times> char) list" where
  "quote_pairs = [(CHR 0x60, CHR 0x60), (CHR 0x22, CHR 0x22), (CHR 0x27, CHR 0x27)]"

definition unwrap_scalar :: "string \<Rightarrow> string" where
  "unwrap_scalar value =
    (let text = strip value in
     case find (\<lambda>(left, right). 2 \<le> length text \<and> starts_with [left] text \<and> starts_with [right] (rev text)) quote_pairs of
       None \<Rightarrow> text
     | Some _ \<Rightarrow> strip (butlast (tl text)))"

definition parse_bus_bool :: "string option \<Rightarrow> string \<Rightarrow> exn + bool" where
  "parse_bus_bool value field = (case value of
      None \<Rightarrow> Inr False
    | Some v \<Rightarrow>
        if strip v = [] then Inr False
        else let normalized = casefold (unwrap_scalar v) in
          if normalized \<in> {''true'', ''yes'', ''1''} then Inr True
          else if normalized \<in> {''false'', ''no'', ''0''} then Inr False
          else Inl (MessageGrammarError (''INVALID_'' @ upper field)))"

definition date_only :: "string \<Rightarrow> bool" where
  "date_only s \<longleftrightarrow> length s = 10 \<and> list_all is_digit (take 4 s) \<and> s ! 4 = CHR ''-'' \<and>
     list_all is_digit (take 2 (drop 5 s)) \<and> s ! 7 = CHR ''-'' \<and> list_all is_digit (drop 8 s)"

definition normalize_bus_timestamp :: "(string \<Rightarrow> bool option) \<Rightarrow> string \<Rightarrow> string \<Rightarrow> exn + string" where
  "normalize_bus_timestamp fromiso value field =
    (let text = unwrap_scalar value; bad = MessageGrammarError (''INVALID_'' @ upper field) in
     if text = [] then Inl bad
     else if date_only text then
       (let candidate = text @ ''T00:00:00Z'' in
        case fromiso (butlast candidate @ ''+00:00'') of None \<Rightarrow> Inl bad | Some _ \<Rightarrow> Inr candidate)
     else
       (let iso_candidate = (if starts_with ''Z'' (rev text) then butlast text @ ''+00:00'' else text) in
        case fromiso iso_candidate of
          None \<Rightarrow> Inl bad
        | Some has_zone \<Rightarrow> requireE has_zone bad (Inr text)))"

section \<open>Headers\<close>

type_synonym headers = "(string, string) dict"

text \<open>\<open>^(key)\s*:\s*(.*)$\<close> on one line, whose line feed and carriage return are stripped first.\<close>

definition strip_crlf :: "string \<Rightarrow> string" where
  "strip_crlf s = rev (dropWhile (\<lambda>c. c = CR \<or> c = LF) (rev s))"

definition header_match :: "string \<Rightarrow> (string \<times> string) option" where
  "header_match s =
    (let key = takeWhile name_char s; r = lstrip (dropWhile name_char s) in
     if key \<noteq> [] \<and> starts_with '':'' r then Some (key, lstrip (tl r)) else None)"

definition header_key :: "string \<Rightarrow> string" where
  "header_key key = map (\<lambda>c. if c = CHR ''-'' then CHR ''_'' else c) (casefold (strip key))"

definition put_header :: "headers \<Rightarrow> string \<Rightarrow> exn + headers option" where
  "put_header headers raw = (case header_match (strip_crlf raw) of
      None \<Rightarrow> Inr None
    | Some (key, value) \<Rightarrow>
        let k = header_key key in
        requireE (\<not> dict_has headers k) (MessageGrammarError (''DUPLICATE_HEADER_'' @ upper k))
        (Inr (Some (dict_set headers k (unwrap_scalar value)))))"

definition blank_line :: "string \<Rightarrow> bool" where
  "blank_line l \<longleftrightarrow> strip l = []"

text \<open>The loop between the two rules of the front matter.\<close>

fun frontmatter_lines :: "headers \<Rightarrow> string list \<Rightarrow> exn + headers \<times> string list" where
  "frontmatter_lines headers [] = Inl (MessageGrammarError ''UNTERMINATED_FRONTMATTER'')"
| "frontmatter_lines headers (raw # lines) =
     (let stripped = strip raw in
      if stripped = ''---'' then
        requireE (headers \<noteq> []) (MessageGrammarError ''HEADER_BLOCK_REQUIRED'') (Inr (headers, dropWhile blank_line lines))
      else if (raw \<noteq> [] \<and> is_space (hd raw)) \<or> starts_with ''-'' stripped then frontmatter_lines headers lines
      else if stripped = [] then frontmatter_lines headers lines
      else bindE (put_header headers raw) (\<lambda>r. case r of
          None \<Rightarrow> Inl (MessageGrammarError ''INVALID_FRONTMATTER_HEADER'')
        | Some headers' \<Rightarrow> frontmatter_lines headers' lines))"

definition split_frontmatter :: "string list \<Rightarrow> exn + (headers \<times> string list) option" where
  "split_frontmatter lines = (case dropWhile blank_line lines of
      [] \<Rightarrow> Inr None
    | first # rest \<Rightarrow>
        if strip first \<noteq> ''---'' then Inr None
        else bindE (frontmatter_lines [] rest) (\<lambda>r. Inr (Some r)))"

text \<open>The loop over the lines of the plain header block: the headers and the lines of the body.\<close>

fun header_lines :: "headers \<Rightarrow> bool \<Rightarrow> string list \<Rightarrow> exn + headers \<times> string list" where
  "header_lines headers started [] =
     requireE started (MessageGrammarError ''HEADER_BLOCK_REQUIRED'') (Inr (headers, []))"
| "header_lines headers started (line # lines) =
     (if blank_line line then (if started then Inr (headers, lines) else header_lines headers started lines)
      else bindE (put_header headers line) (\<lambda>r. case r of
          None \<Rightarrow> requireE started (MessageGrammarError ''HEADER_BLOCK_REQUIRED'') (Inr (headers, line # lines))
        | Some headers' \<Rightarrow> header_lines headers' True lines))"

text \<open>Leading blank lines, and a Markdown title with the blank lines after it.\<close>

definition skip_title :: "string list \<Rightarrow> string list" where
  "skip_title lines = (case dropWhile blank_line lines of
      [] \<Rightarrow> []
    | first # rest \<Rightarrow> if starts_with ''#'' (lstrip first) then dropWhile blank_line rest else first # rest)"

definition split_document :: "string \<Rightarrow> exn + headers \<times> string" where
  "split_document text =
    (let lines = splitlines_keep text in
     bindE (split_frontmatter lines) (\<lambda>frontmatter. case frontmatter of
         Some (headers, body) \<Rightarrow> Inr (headers, concat body)
       | None \<Rightarrow> bindE (header_lines [] False (skip_title lines)) (\<lambda>(headers, body). Inr (headers, concat body))))"

section \<open>Documents\<close>

record bus_document =
  doc_headers :: headers
  doc_body :: string
  doc_message_id :: string
  doc_writer :: string
  doc_created_at :: "string option"
  doc_created_at_invalid :: bool
  doc_requires_reply :: bool
  doc_requires_ack :: bool
  doc_intended_recipient :: string
  doc_subject :: "string option"
  doc_full_sha256 :: string
  doc_body_sha256 :: string
  doc_body_length :: int
  doc_closed_by_sender :: bool

definition closed_by_sender :: "string \<Rightarrow> bool" where
  "closed_by_sender body = (let trimmed = rstrip body in trimmed \<noteq> [] \<and> last (splitlines trimmed) = ''#ENDTHREAD'')"

definition header_or_empty :: "headers \<Rightarrow> string \<Rightarrow> string" where
  "header_or_empty headers k = (case dict_get headers k of None \<Rightarrow> [] | Some v \<Rightarrow> v)"

definition intended_recipient :: "headers \<Rightarrow> exn + string" where
  "intended_recipient headers = (case (dict_get headers ''intended_recipient'', dict_get headers ''intended_recipients'') of
      (Some _, Some _) \<Rightarrow> Inl (MessageGrammarError ''CONFLICTING_INTENDED_RECIPIENT_HEADERS'')
    | (Some singular, None) \<Rightarrow> Inr singular
    | (None, Some plural) \<Rightarrow> Inr plural
    | (None, None) \<Rightarrow> Inr [])"

datatype timestamp_policy = Strict | SourceFallback

definition document_time :: "(string \<Rightarrow> bool option) \<Rightarrow> timestamp_policy \<Rightarrow> headers \<Rightarrow> exn + string option \<times> bool" where
  "document_time fromiso policy headers = (case dict_get headers ''created_at'' of
      None \<Rightarrow> Inr (None, False)
    | Some raw \<Rightarrow>
        if raw = [] then Inr (None, False)
        else (case normalize_bus_timestamp fromiso raw ''created_at'' of
            Inr t \<Rightarrow> Inr (Some t, False)
          | Inl err \<Rightarrow> if policy = SourceFallback then Inr (None, True) else Inl err))"

definition parse_bus_document ::
  "(string \<Rightarrow> string) \<Rightarrow> (string \<Rightarrow> bool option) \<Rightarrow> timestamp_policy \<Rightarrow> string \<Rightarrow> string \<Rightarrow> exn + bus_document" where
  "parse_bus_document sha fromiso policy path content =
    (case utf8_decode content of
       None \<Rightarrow> Inl (MessageGrammarError (''MESSAGE_NOT_UTF8:'' @ path))
     | Some text \<Rightarrow>
         bindE (split_document text) (\<lambda>(headers, body).
         requireE (header_or_empty headers ''message_id'' \<noteq> []) (MessageGrammarError ''MESSAGE_ID_REQUIRED'')
         (requireE (header_or_empty headers ''writer'' \<noteq> []) (MessageGrammarError ''WRITER_REQUIRED'')
         (bindE (document_time fromiso policy headers) (\<lambda>(created, invalid).
          bindE (parse_bus_bool (dict_get headers ''requires_reply'') ''requires_reply'') (\<lambda>reply.
          bindE (parse_bus_bool (dict_get headers ''requires_ack'') ''requires_ack'') (\<lambda>ack.
          bindE (intended_recipient headers) (\<lambda>recipient.
          Inr \<lparr>doc_headers = headers, doc_body = body, doc_message_id = header_or_empty headers ''message_id'',
               doc_writer = header_or_empty headers ''writer'', doc_created_at = created, doc_created_at_invalid = invalid,
               doc_requires_reply = reply, doc_requires_ack = ack, doc_intended_recipient = recipient,
               doc_subject = (let subject = header_or_empty headers ''subject'' in if subject = [] then None else Some subject),
               doc_full_sha256 = sha content, doc_body_sha256 = sha (utf8 body),
               doc_body_length = int (length (utf8 body)), doc_closed_by_sender = closed_by_sender body\<rparr>))))))))"

section \<open>What the splitters return\<close>

text \<open>A rest of the lines: what loops over lines hand back.\<close>

definition tail_of :: "'a list \<Rightarrow> 'a list \<Rightarrow> bool" where
  "tail_of r s \<longleftrightarrow> (\<exists>p. s = p @ r)"

lemma tail_of_refl [simp]: "tail_of s s"
  by (simp add: tail_of_def)

lemma tail_of_Nil [simp]: "tail_of [] s"
  by (simp add: tail_of_def)

lemma tail_of_Cons: "tail_of r s \<Longrightarrow> tail_of r (a # s)"
  by (metis tail_of_def append_Cons)

lemma tail_of_trans: "tail_of r s \<Longrightarrow> tail_of s t \<Longrightarrow> tail_of r t"
  by (metis tail_of_def append_assoc)

lemma tail_of_dropWhile [simp]: "tail_of (dropWhile P s) s"
  by (metis tail_of_def takeWhile_dropWhile_id)

lemma tail_of_concat: "tail_of r s \<Longrightarrow> tail_of (concat r) (concat s)"
  by (auto simp: tail_of_def)

text \<open>Headers as the code stores them: distinct canonical keys, stripped values.\<close>

definition headers_wf :: "headers \<Rightarrow> bool" where
  "headers_wf h \<longleftrightarrow> dict_wf h \<and> (\<forall>(k, v) \<in> set h. header_key k = k \<and> k \<noteq> [] \<and> trimmed v)"

lemma headers_wf_Nil [simp]: "headers_wf []"
  by (simp add: headers_wf_def)

lemma unwrap_scalar_trimmed [simp]: "trimmed (unwrap_scalar v)"
  by (simp add: unwrap_scalar_def Let_def split: option.split)

lemma name_chars_key: "list_all name_char s \<Longrightarrow> casefold (strip s) = concat (map fold_char s)"
proof -
  assume s: "list_all name_char s"
  then have "trimmed s"
    by (auto simp: trimmed_def list_all_iff)
  then show ?thesis
    by (simp add: strip_trimmed casefold_def)
qed

lemma fold_name_char: "name_char c \<Longrightarrow> \<exists>d. fold_char c = [d] \<and> name_char d \<and> \<not> is_upper d"
  by (auto simp: fold_char_def class_defs Let_def)

definition key_char :: "char \<Rightarrow> bool" where
  "key_char c \<longleftrightarrow> name_char c \<and> \<not> is_upper c \<and> c \<noteq> CHR ''-''"

lemma key_char_fold: "key_char c \<Longrightarrow> fold_char c = [c]"
  by (auto simp: key_char_def fold_char_def class_defs Let_def)

lemma header_key_id: "list_all key_char k \<Longrightarrow> header_key k = k"
proof -
  assume k: "list_all key_char k"
  then have "list_all name_char k"
    by (auto simp: key_char_def list_all_iff)
  then have "casefold (strip k) = concat (map fold_char k)"
    by (rule name_chars_key)
  also have "\<dots> = k"
    using k by (induction k) (simp_all add: key_char_fold)
  finally have folded: "casefold (strip k) = k" .
  have "map (\<lambda>c. if c = CHR ''-'' then CHR ''_'' else c) k = k"
    by (rule map_idI) (use k in \<open>auto simp: key_char_def list_all_iff\<close>)
  then show ?thesis
    by (simp add: header_key_def folded)
qed

lemma header_key_chars:
  assumes "list_all name_char k" shows "list_all key_char (header_key k) \<and> length (header_key k) = length k"
proof -
  have one: "key_char (if d = CHR ''-'' then CHR ''_'' else d)" if "name_char d" "\<not> is_upper d" for d
    using that by (auto simp: key_char_def class_defs)
  have "list_all key_char (map (\<lambda>c. if c = CHR ''-'' then CHR ''_'' else c) (concat (map fold_char k))) \<and>
      length (concat (map fold_char k)) = length k"
    using assms
  proof (induction k)
    case (Cons c k)
    then obtain d where "fold_char c = [d]" "name_char d" "\<not> is_upper d"
      using fold_name_char [of c] by auto
    with Cons one [of d] show ?case
      by simp
  qed simp
  then show ?thesis
    by (simp add: header_key_def name_chars_key [OF assms])
qed

lemma put_header_wf:
  assumes "put_header h raw = Inr (Some h')" and "headers_wf h"
  shows "headers_wf h'" "h' \<noteq> []"
proof -
  obtain key val where m: "header_match (strip_crlf raw) = Some (key, val)" "dict_get h (header_key key) = None"
      "h' = dict_set h (header_key key) (unwrap_scalar val)"
    using assms(1) by (auto simp: put_header_def Let_def split: option.splits)
  have key: "list_all name_char key" "key \<noteq> []"
    using m(1) by (auto simp: header_match_def Let_def list_all_iff dest: set_takeWhileD split: if_splits)
  have new: "h' = h @ [(header_key key, unwrap_scalar val)]"
    using m(2,3) by (simp add: dict_set_new)
  have "header_key key \<noteq> []" "header_key (header_key key) = header_key key"
    using header_key_chars [OF key(1)] key(2) header_key_id by auto
  then show "headers_wf h'" "h' \<noteq> []"
    using assms(2) m(2) by (auto simp: new headers_wf_def map_of_eq_None_iff)
qed

lemma header_lines_result:
  "header_lines h started ls = Inr (h', r) \<Longrightarrow> headers_wf h \<Longrightarrow> (started \<longrightarrow> h \<noteq> []) \<Longrightarrow>
    headers_wf h' \<and> tail_of r ls \<and> h' \<noteq> []"
proof (induction h started ls rule: header_lines.induct)
  case (2 h started line ls)
  show ?case
  proof (cases "blank_line line")
    case True
    then show ?thesis
      using 2 by (cases started) (auto intro: tail_of_Cons)
  next
    case False
    then obtain res where res: "put_header h line = Inr res"
      using 2(3) by auto
    show ?thesis
    proof (cases res)
      case None
      then show ?thesis
        using 2(3-5) False res by auto
    next
      case (Some h1)
      then have "header_lines h1 True ls = Inr (h', r)"
        using 2(3) False res by simp
      moreover have "headers_wf h1" "h1 \<noteq> []"
        using put_header_wf 2(4) res Some by blast+
      ultimately show ?thesis
        using 2(2) [OF False res Some] by (simp add: tail_of_Cons)
    qed
  qed
qed auto

lemma frontmatter_lines_result:
  "frontmatter_lines h ls = Inr (h', r) \<Longrightarrow> headers_wf h \<Longrightarrow> headers_wf h' \<and> tail_of r ls \<and> h' \<noteq> []"
proof (induction h ls rule: frontmatter_lines.induct)
  case (2 h raw ls)
  consider "strip raw = ''---''" | "strip raw \<noteq> ''---''" "(raw \<noteq> [] \<and> is_space (hd raw)) \<or> starts_with ''-'' (strip raw) \<or> strip raw = []"
    | "strip raw \<noteq> ''---''" "\<not> ((raw \<noteq> [] \<and> is_space (hd raw)) \<or> starts_with ''-'' (strip raw))" "strip raw \<noteq> []"
    by blast
  then show ?case
  proof cases
    case 1
    then show ?thesis
      using 2(4,5) by (auto intro: tail_of_Cons)
  next
    case skipped: 2
    then have "frontmatter_lines h ls = Inr (h', r)"
      using 2(4) by (auto split: if_splits)
    then have "headers_wf h' \<and> tail_of r ls \<and> h' \<noteq> []"
      using 2(1,2) [OF refl skipped(1)] 2(5) skipped(2) by auto
    then show ?thesis
      by (simp add: tail_of_Cons)
  next
    case 3
    then obtain h1 where h1: "put_header h raw = Inr (Some h1)" "frontmatter_lines h1 ls = Inr (h', r)"
      using 2(4) by (auto split: option.splits)
    then have "headers_wf h1"
      using put_header_wf(1) 2(5) by blast
    then show ?thesis
      using 2(3) [OF refl 3(1) _ _ h1(1) refl h1(2)] 3 by (simp add: tail_of_Cons)
  qed
qed simp

lemma split_document_result:
  assumes "split_document text = Inr (h, body)"
  shows "headers_wf h \<and> h \<noteq> [] \<and> tail_of body text"
proof -
  let ?ls = "splitlines_keep text"
  have skip: "tail_of (skip_title ls) ls" for ls
  proof -
    have "tail_of (dropWhile blank_line ls) ls"
      by simp
    moreover have "tail_of (skip_title ls) (dropWhile blank_line ls)"
      unfolding skip_title_def by (auto split: list.split intro: tail_of_Cons)
    ultimately show ?thesis
      by (rule tail_of_trans [rotated])
  qed
  have "\<exists>r. headers_wf h \<and> h \<noteq> [] \<and> tail_of r ?ls \<and> body = concat r"
  proof (cases "split_frontmatter ?ls")
    case (Inr fm)
    show ?thesis
    proof (cases fm)
      case None
      then obtain r where "header_lines [] False (skip_title ?ls) = Inr (h, r)" "body = concat r"
        using assms Inr by (auto simp: split_document_def Let_def)
      then show ?thesis
        using header_lines_result [of "[]" False _ h r] tail_of_trans [OF _ skip] by auto
    next
      case (Some p)
      then obtain r where p: "p = (h, r)" "body = concat r"
        using assms Inr by (cases p) (auto simp: split_document_def Let_def)
      then obtain first rest where d: "dropWhile blank_line ?ls = first # rest" "frontmatter_lines [] rest = Inr (h, r)"
        using Inr Some by (auto simp: split_frontmatter_def split: list.splits if_splits)
      have "tail_of (first # rest) ?ls"
        using d(1) by (metis tail_of_dropWhile)
      then have "tail_of r ?ls"
        using frontmatter_lines_result [OF d(2)] tail_of_trans tail_of_Cons by (metis headers_wf_Nil)
      then show ?thesis
        using frontmatter_lines_result [OF d(2)] p by auto
    qed
  qed (use assms in \<open>simp add: split_document_def Let_def\<close>)
  then show ?thesis
    using tail_of_concat [of _ ?ls] by auto
qed

section \<open>Writing documents\<close>

text \<open>Headers that can be written: canonical keys once each, and values of one line without quotes around them.\<close>

definition plain :: "string \<Rightarrow> bool" where
  "plain s \<longleftrightarrow> (\<forall>c \<in> set s. \<not> is_line_end c)"

definition header_ok :: "string \<times> string \<Rightarrow> bool" where
  "header_ok h \<longleftrightarrow> fst h \<noteq> [] \<and> list_all key_char (fst h) \<and> plain (snd h) \<and> unwrap_scalar (snd h) = snd h"

definition headers_ok :: "headers \<Rightarrow> bool" where
  "headers_ok h \<longleftrightarrow> h \<noteq> [] \<and> dict_wf h \<and> list_all header_ok h"

definition render_header :: "string \<times> string \<Rightarrow> string" where
  "render_header h = fst h @ '': '' @ snd h @ [LF]"

definition render_document :: "headers \<Rightarrow> string \<Rightarrow> string" where
  "render_document h body = concat (map render_header h) @ [LF] @ body"

definition frontmatter_rule :: string where "frontmatter_rule = ''---'' @ [LF]"

definition render_frontmatter :: "headers \<Rightarrow> string \<Rightarrow> string" where
  "render_frontmatter h body = frontmatter_rule @ concat (map render_header h) @ frontmatter_rule @ body"

lemma CR_LF_line_end [simp]: "is_line_end CR" "is_line_end LF" "CR \<noteq> LF" "is_space CR" "is_space LF"
  by code_simp+

lemma split_line_plain: "plain l \<Longrightarrow> split_line (l @ LF # s) = (l @ [LF], s)"
proof (induction l)
  case Nil
  have "LF \<noteq> CR"
    by code_simp
  then show ?case
    by simp
next
  case (Cons c l)
  then have "\<not> is_line_end c" "plain l"
    by (simp_all add: plain_def)
  then have "c \<noteq> CR"
    using CR_LF_line_end(1) by blast
  with Cons \<open>plain l\<close> \<open>\<not> is_line_end c\<close> show ?case
    by simp
qed

lemma splitlines_plain: "plain l \<Longrightarrow> splitlines_keep (l @ LF # s) = (l @ [LF]) # splitlines_keep s"
  by (rule splitlines_step) (simp_all add: split_line_plain)

lemma key_char_plain: "key_char c \<Longrightarrow> \<not> is_line_end c \<and> c \<noteq> CHR '':'' \<and> c \<noteq> CHR ''#'' \<and> \<not> is_space c"
  by (auto simp: key_char_def class_defs is_line_end_def is_space_def Let_def)

lemma header_line_plain: "header_ok h \<Longrightarrow> plain (fst h @ '': '' @ snd h)"
proof -
  assume h: "header_ok h"
  have "\<not> is_line_end (CHR '':'')" "\<not> is_line_end (CHR '' '')"
    by code_simp+
  then show ?thesis
    using h key_char_plain by (auto simp: plain_def header_ok_def list_all_iff)
qed

lemma splitlines_headers:
  "list_all header_ok h \<Longrightarrow> splitlines_keep (concat (map render_header h) @ s) = map render_header h @ splitlines_keep s"
proof (induction h)
  case (Cons a h)
  then show ?case
    using splitlines_plain [OF header_line_plain, of a] by (simp add: render_header_def)
qed simp

lemma strip_crlf_line: "plain l \<Longrightarrow> strip_crlf (l @ [LF]) = l"
proof -
  assume "plain l"
  then have "\<forall>c \<in> set (rev l). \<not> (c = CR \<or> c = LF)"
    using CR_LF_line_end(1,2) by (auto simp: plain_def)
  then have "dropWhile (\<lambda>c. c = CR \<or> c = LF) (rev l) = rev l"
    by (cases "rev l") simp_all
  then show ?thesis
    by (simp add: strip_crlf_def)
qed

lemma header_match_line:
  assumes k: "k \<noteq> []" "list_all key_char k" and v: "trimmed v"
  shows "header_match (k @ '': '' @ v) = Some (k, v)"
proof -
  have c: "\<not> name_char (CHR '':'')" "\<not> is_space (CHR '':'')" "is_space (CHR '' '')"
    by code_simp+
  have "list_all name_char k"
    using k(2) by (auto simp: key_char_def list_all_iff)
  then have "takeWhile name_char (k @ '': '' @ v) = k" "dropWhile name_char (k @ '': '' @ v) = '': '' @ v"
    using c(1) by (auto intro: takeWhile_run dropWhile_run)
  moreover have "lstrip (CHR '' '' # v) = v"
    using v c(3) by (cases v) (auto simp: lstrip_def trimmed_def)
  ultimately show ?thesis
    using k(1) c(2) by (simp add: header_match_def Let_def lstrip_def)
qed

lemma put_header_line:
  assumes "header_ok h" and "fst h \<notin> fst ` set hs"
  shows "put_header hs (render_header h) = Inr (Some (hs @ [h]))"
proof -
  have ok: "fst h \<noteq> []" "list_all key_char (fst h)" "unwrap_scalar (snd h) = snd h" "trimmed (snd h)"
    using assms(1) unwrap_scalar_trimmed [of "snd h"] by (simp_all add: header_ok_def)
  have "strip_crlf (render_header h) = fst h @ '': '' @ snd h"
    using strip_crlf_line [OF header_line_plain [OF assms(1)]] by (simp add: render_header_def)
  moreover have "dict_get hs (fst h) = None"
    using assms(2) by (simp add: map_of_eq_None_iff)
  ultimately show ?thesis
    using ok header_match_line [OF ok(1,2,4)] header_key_id [OF ok(2)]
    by (cases h) (simp add: put_header_def dict_set_new)
qed

text \<open>A header line is neither blank nor a rule, a title, a list item or a continuation.\<close>

lemma header_line_shape:
  assumes "header_ok h"
  shows "\<not> blank_line (render_header h)" "strip (render_header h) \<noteq> ''---''" "\<not> starts_with ''#'' (lstrip (render_header h))"
    "\<not> is_space (hd (render_header h))" "\<not> starts_with ''-'' (strip (render_header h))" "render_header h \<noteq> []"
proof -
  obtain c k where k: "fst h = c # k" "key_char c"
    using assms by (cases "fst h") (auto simp: header_ok_def)
  have c: "\<not> is_space c" "c \<noteq> CHR ''#''" "c \<noteq> CHR ''-''"
    using key_char_plain [OF k(2)] k(2) by (auto simp: key_char_def)
  have l: "lstrip (render_header h) = render_header h" "render_header h = c # k @ '': '' @ snd h @ [LF]"
    using c by (simp_all add: render_header_def k(1) lstrip_def)
  have "rstrip (c # s) \<noteq> [] \<and> hd (rstrip (c # s)) = c" for s
  proof -
    obtain zs where "c # s = rstrip (c # s) @ zs"
      unfolding rstrip_def by (metis rev_append rev_rev_ident takeWhile_dropWhile_id)
    moreover have "rstrip (c # s) \<noteq> []"
      using c(1) by (simp add: rstrip_eq_Nil)
    ultimately show ?thesis
      by (metis hd_append2 list.sel(1))
  qed
  then have s: "strip (render_header h) \<noteq> []" "hd (strip (render_header h)) = c"
    unfolding strip_def l(1) by (simp_all add: l(2))
  then show "\<not> blank_line (render_header h)" "strip (render_header h) \<noteq> ''---''" "\<not> starts_with ''-'' (strip (render_header h))"
    using c by (auto simp: blank_line_def neq_Nil_conv)
  show "\<not> starts_with ''#'' (lstrip (render_header h))" "\<not> is_space (hd (render_header h))" "render_header h \<noteq> []"
    unfolding l(1) using c by (simp_all add: l(2))
qed

lemma blank_LF [simp]: "blank_line [LF]"
  by code_simp

lemma header_lines_rendered:
  "list_all header_ok h \<Longrightarrow> dict_wf (hs @ h) \<Longrightarrow> (started \<or> h \<noteq> []) \<Longrightarrow>
    header_lines hs started (map render_header h @ [LF] # ls) = Inr (hs @ h, ls)"
proof (induction h arbitrary: hs started)
  case (Cons a h)
  then have "header_ok a" "fst a \<notin> fst ` set hs" "dict_wf ((hs @ [a]) @ h)"
    by auto
  then show ?case
    using Cons.IH [of "hs @ [a]" True] Cons.prems(1) put_header_line [of a hs] header_line_shape(1) [of a] by simp
qed simp

lemma frontmatter_lines_rendered:
  "list_all header_ok h \<Longrightarrow> dict_wf (hs @ h) \<Longrightarrow> hs @ h \<noteq> [] \<Longrightarrow>
    frontmatter_lines hs (map render_header h @ frontmatter_rule # ls) = Inr (hs @ h, dropWhile blank_line ls)"
proof (induction h arbitrary: hs)
  case Nil
  have "strip frontmatter_rule = ''---''"
    by code_simp
  with Nil show ?case
    by simp
next
  case (Cons a h)
  then have a: "header_ok a" "fst a \<notin> fst ` set hs" "dict_wf ((hs @ [a]) @ h)"
    by auto
  then show ?case
    using Cons.IH [of "hs @ [a]"] Cons.prems(1) put_header_line [of a hs] header_line_shape [of a]
    by (simp add: blank_line_def)
qed

lemma header_block_start:
  assumes "headers_ok h"
  shows "split_frontmatter (map render_header h @ r) = Inr None" "skip_title (map render_header h @ r) = map render_header h @ r"
proof -
  obtain a t where h: "h = a # t" "header_ok a"
    using assms by (cases h) (auto simp: headers_ok_def)
  show "split_frontmatter (map render_header h @ r) = Inr None" "skip_title (map render_header h @ r) = map render_header h @ r"
    using header_line_shape [OF h(2)] by (simp_all add: h(1) split_frontmatter_def skip_title_def)
qed

text \<open>
  C23: A document written from canonical headers and a body reads back as exactly those headers and
  that body, whatever the body holds: no line of a body is taken for a header.
\<close>

theorem document_roundtrip:
  assumes "headers_ok h"
  shows "split_document (render_document h body) = Inr (h, body)"
proof -
  have ok: "list_all header_ok h" "dict_wf h" "h \<noteq> []"
    using assms by (simp_all add: headers_ok_def)
  have "splitlines_keep (render_document h body) = map render_header h @ [LF] # splitlines_keep body"
    using splitlines_headers [OF ok(1)] splitlines_plain [of "[]" body] by (simp add: render_document_def plain_def)
  then show ?thesis
    using header_block_start [OF assms] header_lines_rendered [of h "[]" False] ok by (simp add: split_document_def)
qed

theorem document_roundtrip_witness:
  "split_document (render_document [(''message_id'', ''m1''), (''writer'', ''a b'')] ''writer: c'') =
     Inr ([(''message_id'', ''m1''), (''writer'', ''a b'')], ''writer: c'')"
proof (rule document_roundtrip)
  show "headers_ok [(''message_id'', ''m1''), (''writer'', ''a b'')]"
    by code_simp
qed

lemma header_or_empty_get: "header_or_empty h k \<noteq> [] \<Longrightarrow> dict_get h k = Some (header_or_empty h k)"
  by (simp add: header_or_empty_def split: option.splits)

text \<open>The parts of a parsed document, and that the lenient time policy reads whatever the strict one reads.\<close>

lemma parsed_document_parts:
  assumes "parse_bus_document sha fromiso policy path content = Inr d"
  obtains (split) t where "utf8_decode content = Some t" "split_document t = Inr (doc_headers d, doc_body d)"
    and "dict_get (doc_headers d) ''message_id'' = Some (doc_message_id d) \<and> doc_message_id d \<noteq> []"
    and "dict_get (doc_headers d) ''writer'' = Some (doc_writer d) \<and> doc_writer d \<noteq> []"
    and "doc_full_sha256 d = sha content \<and> doc_body_sha256 d = sha (utf8 (doc_body d)) \<and>
      doc_body_length d = int (length (utf8 (doc_body d)))"
    and "\<exists>r. intended_recipient (doc_headers d) = Inr r"
    and "\<exists>c. document_time fromiso policy (doc_headers d) = Inr c"
  using assms header_or_empty_get unfolding parse_bus_document_def by (auto split: option.splits prod.splits)

text \<open>The same for front matter; blank lines before the body are the separator's.\<close>

lemma frontmatter_roundtrip:
  assumes "headers_ok h"
  shows "split_document (render_frontmatter h body) = Inr (h, concat (dropWhile blank_line (splitlines_keep body)))"
proof -
  have ok: "list_all header_ok h" "dict_wf h" "h \<noteq> []"
    using assms by (simp_all add: headers_ok_def)
  have rule: "splitlines_keep (frontmatter_rule @ s) = frontmatter_rule # splitlines_keep s" for s
  proof -
    have "plain ''---''"
      by code_simp
    then show ?thesis
      using splitlines_plain [of "''---''" s] by (simp add: frontmatter_rule_def)
  qed
  have "strip frontmatter_rule = ''---''"
    by code_simp
  then have "split_frontmatter (frontmatter_rule # map render_header h @ frontmatter_rule # splitlines_keep body) =
      Inr (Some (h, dropWhile blank_line (splitlines_keep body)))"
    using frontmatter_lines_rendered [of h "[]" "splitlines_keep body"] ok by (simp add: split_frontmatter_def blank_line_def)
  then show ?thesis
    using splitlines_headers [OF ok(1)] by (simp add: split_document_def render_frontmatter_def rule)
qed

text \<open>
  A parsed document has canonical, distinct header keys, a message id and a writer taken from
  them, at most one recipient header, and a body that is the end of the decoded content, with its
  length and digest.
\<close>

theorem parsed_document_typed:
  assumes "parse_bus_document sha fromiso policy path content = Inr d"
  shows "headers_wf (doc_headers d) \<and>
    dict_get (doc_headers d) ''message_id'' = Some (doc_message_id d) \<and> doc_message_id d \<noteq> [] \<and>
    dict_get (doc_headers d) ''writer'' = Some (doc_writer d) \<and> doc_writer d \<noteq> [] \<and>
    \<not> (dict_has (doc_headers d) ''intended_recipient'' \<and> dict_has (doc_headers d) ''intended_recipients'') \<and>
    (\<exists>text pre. utf8_decode content = Some text \<and> text = pre @ doc_body d) \<and>
    doc_full_sha256 d = sha content \<and> doc_body_sha256 d = sha (utf8 (doc_body d)) \<and>
    doc_body_length d = int (length (utf8 (doc_body d)))"
  using assms
proof (cases rule: parsed_document_parts)
  case (split t)
  then have "\<not> (dict_has (doc_headers d) ''intended_recipient'' \<and> dict_has (doc_headers d) ''intended_recipients'')"
    by (auto simp: intended_recipient_def split: option.splits)
  then show ?thesis
    using split_document_result [OF split(2)] split by (auto simp: tail_of_def)
qed

theorem parsed_document_typed_witness:
  "\<exists>d. parse_bus_document (\<lambda>s. ''h'') (\<lambda>s. None) Strict ''p'' (render_document [(''message_id'', ''m1''), (''writer'', ''a'')] ''b'') = Inr d \<and>
     headers_wf (doc_headers d) \<and> doc_message_id d \<noteq> [] \<and> doc_body_length d = int (length (utf8 (doc_body d)))"
proof -
  let ?d = "projr (parse_bus_document (\<lambda>s. ''h'') (\<lambda>s. None) Strict ''p'' (render_document [(''message_id'', ''m1''), (''writer'', ''a'')] ''b''))"
  have "parse_bus_document (\<lambda>s. ''h'') (\<lambda>s. None) Strict ''p'' (render_document [(''message_id'', ''m1''), (''writer'', ''a'')] ''b'') = Inr ?d"
    by code_simp
  then show ?thesis
    using parsed_document_typed by blast
qed

lemma strict_document_time: "document_time fromiso Strict h = Inr c \<Longrightarrow> document_time fromiso SourceFallback h = Inr c"
  by (auto simp: document_time_def split: option.splits sum.splits if_splits)

lemma strict_parse_lenient:
  "parse_bus_document sha fromiso Strict path content = Inr d \<Longrightarrow> parse_bus_document sha fromiso SourceFallback path content = Inr d"
  unfolding parse_bus_document_def using strict_document_time by (auto split: option.splits prod.splits)

end
