(* ===== verification/WriterLanes.thy ===== *)
theory WriterLanes
  imports MessageGrammar
begin

text \<open>
  Writer lanes (\<open>src/src/radar/writer_lanes.py\<close>): the registry of lanes in the topology file, the planned
  successors in the cutover file, and the guard that validates the commits pushed to a lane's branch.
  A JSON file is what reading and parsing it gives: an exception or a value. Git answers the argument
  lists the code passes to it; commits do not change under the guard.
\<close>

section \<open>Registry\<close>

definition zero_sha :: string where "zero_sha = replicate 40 (CHR ''0'')"

definition sha40_any_case :: "string \<Rightarrow> bool" where
  "sha40_any_case s \<longleftrightarrow> length s = 40 \<and> list_all is_hex s"

definition allowed_lifecycles :: "string set" where
  "allowed_lifecycles = {''REGISTERED_INERT'', ''ACTIVE'', ''HISTORICAL'', ''RETIRED''}"

record writer_lane =
  lane_identity :: string
  lane_writer :: string
  lane_branch :: string
  lane_lifecycle :: string

type_synonym lanes = "(string, writer_lane) dict"

text \<open>A JSON file as \<open>json.loads(Path(p).read_text())\<close> gives it.\<close>

type_synonym json_file = "exn + pyval"

definition nonempty_str :: "pyval \<Rightarrow> string option" where
  "nonempty_str v = (case v of PStr s \<Rightarrow> if s = [] then None else Some s | _ \<Rightarrow> None)"

definition registered_lane :: "string \<Rightarrow> pymap \<Rightarrow> exn + writer_lane" where
  "registered_lane identity record =
    (case (nonempty_str (get_default record ''writer'' PNone), nonempty_str (get_default record ''branch'' PNone)) of
       (Some writer, Some branch) \<Rightarrow>
         (case get_default record ''lifecycle'' (PStr ''ACTIVE'') of
            PStr lifecycle \<Rightarrow> requireE (lifecycle \<in> allowed_lifecycles) (WriterLaneError ''WRITER_LANE_LIFECYCLE_INVALID'')
              (Inr \<lparr>lane_identity = identity, lane_writer = writer, lane_branch = branch, lane_lifecycle = lifecycle\<rparr>)
          | _ \<Rightarrow> Inl (WriterLaneError ''WRITER_LANE_LIFECYCLE_INVALID''))
     | _ \<Rightarrow> Inl (WriterLaneError ''WRITER_LANE_REGISTRY_INVALID''))"

text \<open>The loop over the registered records, with the branches seen.\<close>

fun register_lanes :: "lanes \<Rightarrow> string list \<Rightarrow> (string \<times> pyval) list \<Rightarrow> exn + lanes" where
  "register_lanes lanes seen [] = Inr lanes"
| "register_lanes lanes seen ((identity, v) # rest) =
     (case v of
        PDict record \<Rightarrow>
          requireE (identity \<noteq> []) (WriterLaneError ''WRITER_LANE_REGISTRY_INVALID'')
          (bindE (registered_lane identity record) (\<lambda>lane.
           requireE (lane_branch lane \<notin> set seen) (WriterLaneError ''DUPLICATE_WRITER_LANE_BRANCH'')
           (register_lanes (dict_set lanes identity lane) (lane_branch lane # seen) rest)))
      | _ \<Rightarrow> Inl (WriterLaneError ''WRITER_LANE_REGISTRY_INVALID''))"

definition load_registered_writer_lanes :: "json_file \<Rightarrow> exn + lanes" where
  "load_registered_writer_lanes topology =
    bindE topology (\<lambda>raw. case raw of
      PDict m \<Rightarrow>
        (case get_default m ''required_writer_lanes'' PNone of
           PDict required \<Rightarrow> requireE (required \<noteq> []) (WriterLaneError ''WRITER_LANE_REGISTRY_MISSING'')
             (register_lanes [] [] required)
         | _ \<Rightarrow> Inl (WriterLaneError ''WRITER_LANE_REGISTRY_MISSING''))
    | _ \<Rightarrow> Inl AttributeError)"

definition load_writer_lanes :: "json_file \<Rightarrow> exn + lanes" where
  "load_writer_lanes topology =
    bindE (load_registered_writer_lanes topology) (\<lambda>lanes. Inr (filter (\<lambda>(identity, lane). lane_lifecycle lane = ''ACTIVE'') lanes))"

definition remove_prefix :: "string \<Rightarrow> string \<Rightarrow> string" where
  "remove_prefix p s = (if starts_with p s then drop (length p) s else s)"

definition ends_with :: "string \<Rightarrow> string \<Rightarrow> bool" where
  "ends_with p s = starts_with (rev p) (rev s)"

definition branch_of_ref :: "string \<Rightarrow> string" where
  "branch_of_ref ref = remove_prefix ''refs/heads/'' ref"

definition identity_in_lanes :: "string \<Rightarrow> lanes \<Rightarrow> exn + string" where
  "identity_in_lanes ref lanes =
    (case filter (\<lambda>lane. lane_branch lane = branch_of_ref ref) (map snd lanes) of
       [lane] \<Rightarrow> Inr (lane_identity lane)
     | _ \<Rightarrow> Inl (WriterLaneError ''UNREGISTERED_WRITER_LANE''))"

definition identity_for_ref :: "string \<Rightarrow> json_file \<Rightarrow> exn + string" where
  "identity_for_ref ref topology = bindE (load_writer_lanes topology) (identity_in_lanes ref)"

definition registered_identity_for_ref :: "string \<Rightarrow> json_file \<Rightarrow> exn + string" where
  "registered_identity_for_ref ref topology = bindE (load_registered_writer_lanes topology) (identity_in_lanes ref)"

section \<open>Cutover\<close>

definition load_cutover :: "json_file \<Rightarrow> exn + pymap" where
  "load_cutover cutover = (case cutover of
      Inl OSError \<Rightarrow> Inl (WriterLaneError ''WRITER_LANE_CUTOVER_INVALID'')
    | Inl JSONDecodeError \<Rightarrow> Inl (WriterLaneError ''WRITER_LANE_CUTOVER_INVALID'')
    | Inl e \<Rightarrow> Inl e
    | Inr (PDict raw) \<Rightarrow> Inr raw
    | Inr _ \<Rightarrow> Inl (WriterLaneError ''WRITER_LANE_CUTOVER_INVALID''))"

fun planned_branches :: "(string, string) dict \<Rightarrow> string list \<Rightarrow> (string \<times> pyval) list \<Rightarrow> exn + (string, string) dict" where
  "planned_branches result seen [] = Inr result"
| "planned_branches result seen ((identity, v) # rest) =
     (case nonempty_str v of
        Some branch \<Rightarrow>
          requireE (identity \<noteq> []) (WriterLaneError ''WRITER_LANE_CUTOVER_PLANNED_INVALID'')
          (requireE (branch \<notin> set seen) (WriterLaneError ''DUPLICATE_PLANNED_WRITER_LANE_BRANCH'')
          (planned_branches (dict_set result identity branch) (branch # seen) rest))
      | None \<Rightarrow> Inl (WriterLaneError ''WRITER_LANE_CUTOVER_PLANNED_INVALID''))"

definition planned_successor_map :: "json_file \<Rightarrow> exn + (string, string) dict" where
  "planned_successor_map cutover =
    bindE (load_cutover cutover) (\<lambda>raw. case get_default raw ''planned_current_writer_lanes'' PNone of
      PDict planned \<Rightarrow> requireE (planned \<noteq> []) (WriterLaneError ''WRITER_LANE_CUTOVER_PLANNED_MISSING'')
        (planned_branches [] [] planned)
    | _ \<Rightarrow> Inl (WriterLaneError ''WRITER_LANE_CUTOVER_PLANNED_MISSING''))"

definition planned_successor_bootstrap_identity ::
  "string \<Rightarrow> string \<Rightarrow> json_file \<Rightarrow> string option \<Rightarrow> json_file option \<Rightarrow> string option \<Rightarrow> exn + string option" where
  "planned_successor_bootstrap_identity ref head topology base cutover_path bootstrap_main =
    (case cutover_path of
       None \<Rightarrow> Inr None
     | Some cutover \<Rightarrow>
         if base \<noteq> Some zero_sha then Inr None
         else bindE (planned_successor_map cutover) (\<lambda>planned.
           case map fst (filter (\<lambda>(identity, candidate). candidate = branch_of_ref ref) planned) of
             [] \<Rightarrow> Inr None
           | [identity] \<Rightarrow>
               bindE (load_registered_writer_lanes topology) (\<lambda>lanes. case dict_get lanes identity of
                 None \<Rightarrow> Inl (WriterLaneError ''WRITER_LANE_CUTOVER_IDENTITY_UNKNOWN'')
               | Some lane \<Rightarrow>
                   if lane_branch lane = branch_of_ref ref then Inr None
                   else (case bootstrap_main of
                       None \<Rightarrow> Inl (WriterLaneError ''WRITER_LANE_BOOTSTRAP_MAIN_REQUIRED'')
                     | Some main_head \<Rightarrow>
                         requireE (main_head \<noteq> []) (WriterLaneError ''WRITER_LANE_BOOTSTRAP_MAIN_REQUIRED'')
                         (requireE (head = main_head) (WriterLaneError ''WRITER_LANE_BOOTSTRAP_MAIN_MISMATCH'')
                         (Inr (Some identity)))))
           | _ \<Rightarrow> Inl (WriterLaneError ''DUPLICATE_PLANNED_WRITER_LANE_BRANCH'')))"

section \<open>Git\<close>

text \<open>
  What the library and Git answer: the standard output of a command in text mode and as bytes, or the
  text of its error output with the text of the exception, and whether a command exits with zero.
\<close>

record lane_env =
  git_text :: "string list \<Rightarrow> (string \<times> string) + string"
  git_data :: "string list \<Rightarrow> (string \<times> string) + string"
  git_succeeds :: "string list \<Rightarrow> bool"
  lib_sha :: "string \<Rightarrow> string"
  lib_fromiso :: "string \<Rightarrow> bool option"

definition git_failed :: "string \<times> string \<Rightarrow> exn" where
  "git_failed r = WriterLaneError (''GIT_COMMAND_FAILED:'' @ (if fst r \<noteq> [] then strip (fst r) else snd r))"

definition git_out :: "lane_env \<Rightarrow> string list \<Rightarrow> exn + string" where
  "git_out env args = (case git_text env args of Inl r \<Rightarrow> Inl (git_failed r) | Inr out \<Rightarrow> Inr (strip out))"

definition git_bytes :: "lane_env \<Rightarrow> string list \<Rightarrow> exn + string" where
  "git_bytes env args = (case git_data env args of Inl r \<Rightarrow> Inl (git_failed r) | Inr out \<Rightarrow> Inr out)"

text \<open>The nonempty pieces of a text between separators: \<open>s.split()\<close>, and \<open>[v for v in s.split(sep) if v]\<close>.\<close>

fun pieces_from :: "(char \<Rightarrow> bool) \<Rightarrow> string \<Rightarrow> string \<Rightarrow> string list" where
  "pieces_from sep w [] = (if w = [] then [] else [rev w])"
| "pieces_from sep w (c # cs) =
     (if sep c then (if w = [] then [] else [rev w]) @ pieces_from sep [] cs else pieces_from sep (c # w) cs)"

definition pieces :: "(char \<Rightarrow> bool) \<Rightarrow> string \<Rightarrow> string list" where
  "pieces sep s = pieces_from sep [] s"

section \<open>Messages of a commit\<close>

definition message_headers :: "lane_env \<Rightarrow> string \<Rightarrow> string \<Rightarrow> bool \<Rightarrow> exn + headers" where
  "message_headers env content path historical =
    (case parse_bus_document (lib_sha env) (lib_fromiso env) (if historical then SourceFallback else Strict) path content of
       Inr d \<Rightarrow> Inr (doc_headers d)
     | Inl (MessageGrammarError code) \<Rightarrow>
         if code = ''WRITER_REQUIRED'' then Inl (WriterLaneError (''WRITER_LANE_WRITER_REQUIRED:'' @ path))
         else if code = ''MESSAGE_ID_REQUIRED'' then Inl (WriterLaneError (''WRITER_LANE_MESSAGE_ID_REQUIRED:'' @ path))
         else Inl (WriterLaneError (''WRITER_LANE_MESSAGE_GRAMMAR:'' @ path @ '':'' @ code))
     | Inl e \<Rightarrow> Inl e)"

definition message_path :: "string \<Rightarrow> bool" where
  "message_path path \<longleftrightarrow> starts_with ''messages/'' path \<and> ends_with ''.md'' path"

fun collect_ids :: "lane_env \<Rightarrow> string \<Rightarrow> string list \<Rightarrow> string list \<Rightarrow> exn + string list" where
  "collect_ids env commit ids [] = Inr ids"
| "collect_ids env commit ids (path # paths) =
     bindE (git_bytes env [''show'', commit @ '':'' @ path]) (\<lambda>content.
     bindE (message_headers env content path True) (\<lambda>h.
     let message_id = header_or_empty h ''message_id'' in
     requireE (message_id \<noteq> []) (WriterLaneError (''WRITER_LANE_MESSAGE_ID_REQUIRED:'' @ path))
     (collect_ids env commit (casefold message_id # ids) paths)))"

definition message_ids_at_commit :: "lane_env \<Rightarrow> string \<Rightarrow> exn + string list" where
  "message_ids_at_commit env commit =
    bindE (git_out env [''ls-tree'', ''-r'', ''--name-only'', commit, ''--'', ''messages'']) (\<lambda>out.
    collect_ids env commit [] (filter message_path (splitlines out)))"

definition historical_message_ids :: "lane_env \<Rightarrow> json_file option \<Rightarrow> string \<Rightarrow> exn + string list" where
  "historical_message_ids env cutover_path identity = (case cutover_path of
      None \<Rightarrow> Inr []
    | Some cutover \<Rightarrow> bindE (load_cutover cutover) (\<lambda>raw.
        case get_default raw ''historical_writer_lanes'' PNone of
          PNone \<Rightarrow> Inr []
        | PDict historical \<Rightarrow>
            (case get_default historical identity PNone of
               PNone \<Rightarrow> Inr []
             | PDict record \<Rightarrow>
                 (case (nonempty_str (get_default record ''branch'' PNone), get_default record ''head_sha'' PNone) of
                    (Some branch, PStr head_sha) \<Rightarrow>
                      requireE (sha40_any_case head_sha) (WriterLaneError ''WRITER_LANE_CUTOVER_HISTORICAL_INVALID'')
                      (message_ids_at_commit env (lower head_sha))
                  | _ \<Rightarrow> Inl (WriterLaneError ''WRITER_LANE_CUTOVER_HISTORICAL_INVALID''))
             | _ \<Rightarrow> Inl (WriterLaneError ''WRITER_LANE_CUTOVER_HISTORICAL_INVALID''))
        | _ \<Rightarrow> Inl (WriterLaneError ''WRITER_LANE_CUTOVER_HISTORICAL_INVALID'')))"

section \<open>The guard\<close>

definition commits_to_validate :: "lane_env \<Rightarrow> string \<Rightarrow> string option \<Rightarrow> exn + string list" where
  "commits_to_validate env head base =
    bindE (if base = None \<or> base = Some [] \<or> base = Some zero_sha
      then (case git_out env [''rev-parse'', head @ ''^''] of
          Inl _ \<Rightarrow> Inl (WriterLaneError ''WRITER_LANE_PARENT_REQUIRED'')
        | Inr parent \<Rightarrow> Inr parent)
      else Inr (the base)) (\<lambda>base.
    requireE (git_succeeds env [''merge-base'', ''--is-ancestor'', base, head]) (WriterLaneError ''WRITER_LANE_BASE_NOT_ANCESTOR'')
    (bindE (git_out env [''rev-list'', ''--reverse'', base @ ''..'' @ head]) (\<lambda>out.
     let commits = filter (\<lambda>line. line \<noteq> []) (splitlines out) in
     requireE (commits \<noteq> []) (WriterLaneError ''WRITER_LANE_NO_NEW_COMMITS'') (Inr commits))))"

text \<open>One added message: what the loop body demands of it. The result is its folded message id.\<close>

definition validate_addition :: "lane_env \<Rightarrow> string \<Rightarrow> writer_lane \<Rightarrow> string list \<Rightarrow> string \<Rightarrow> string \<Rightarrow> exn + string" where
  "validate_addition env commit lane seen status path =
    requireE (message_path path) (WriterLaneError (''WRITER_LANE_PATH_FORBIDDEN:'' @ path))
    (requireE (status = ''A'') (WriterLaneError (''WRITER_LANE_MESSAGE_NOT_APPEND_ONLY:'' @ path))
    (bindE (git_bytes env [''show'', commit @ '':'' @ path]) (\<lambda>content.
     bindE (message_headers env content path False) (\<lambda>h.
     let declared_writer = header_or_empty h ''writer''; message_id = header_or_empty h ''message_id'' in
     requireE (declared_writer \<noteq> []) (WriterLaneError (''WRITER_LANE_WRITER_REQUIRED:'' @ path))
     (requireE (casefold declared_writer = casefold (lane_writer lane))
       (WriterLaneError (''WRITER_LANE_WRITER_MISMATCH:'' @ path @ '':'' @ declared_writer @ '':'' @ lane_writer lane))
     (requireE (message_id \<noteq> []) (WriterLaneError (''WRITER_LANE_MESSAGE_ID_REQUIRED:'' @ path))
     (requireE (starts_with (casefold (lane_identity lane) @ ''-'') (casefold message_id))
       (WriterLaneError (''WRITER_LANE_MESSAGE_ID_NAMESPACE:'' @ path @ '':'' @ message_id @ '':'' @ lane_identity lane))
     (requireE (casefold message_id \<notin> set seen) (WriterLaneError (''DUPLICATE_NEW_MESSAGE_ID:'' @ message_id @ '':'' @ path))
     (Inr (casefold message_id))))))))))"

fun validate_additions :: "lane_env \<Rightarrow> string \<Rightarrow> writer_lane \<Rightarrow> string list \<Rightarrow> string list \<Rightarrow> exn + unit" where
  "validate_additions env commit lane seen (status # path # rest) =
     bindE (validate_addition env commit lane seen status path) (\<lambda>folded_message_id.
     validate_additions env commit lane (folded_message_id # seen) rest)"
| "validate_additions env commit lane seen [] = Inr ()"
| "validate_additions env commit lane seen [_] = Inr ()"

definition decode_field :: "string \<Rightarrow> exn + string" where
  "decode_field v = (case utf8_decode v of None \<Rightarrow> Inl UnicodeDecodeError | Some s \<Rightarrow> Inr s)"

definition validate_commit_paths :: "lane_env \<Rightarrow> string \<Rightarrow> writer_lane \<Rightarrow> string list \<Rightarrow> exn + unit" where
  "validate_commit_paths env commit lane reserved_message_ids =
    bindE (git_out env [''rev-list'', ''--parents'', ''-n'', ''1'', commit]) (\<lambda>out.
    case pieces is_space out of
      [_, parent] \<Rightarrow>
        bindE (message_ids_at_commit env parent) (\<lambda>ids.
        bindE (git_bytes env [''diff-tree'', ''--no-commit-id'', ''--name-status'', ''-r'', ''-z'', parent, commit]) (\<lambda>raw.
        bindE (mapE decode_field (pieces (\<lambda>c. c = CHR 0x00) raw)) (\<lambda>fields.
        requireE (even (length fields)) (WriterLaneError ''WRITER_LANE_DIFF_INVALID'')
        (validate_additions env commit lane (reserved_message_ids @ ids) fields))))
    | _ \<Rightarrow> Inl (WriterLaneError ''WRITER_LANE_MERGE_COMMIT_FORBIDDEN''))"

fun validate_commits :: "lane_env \<Rightarrow> writer_lane \<Rightarrow> string list \<Rightarrow> string list \<Rightarrow> exn + unit" where
  "validate_commits env lane reserved [] = Inr ()"
| "validate_commits env lane reserved (commit # commits) =
     bindE (validate_commit_paths env commit lane reserved) (\<lambda>_. validate_commits env lane reserved commits)"

definition validate_writer_lane_commit ::
  "lane_env \<Rightarrow> string \<Rightarrow> string \<Rightarrow> json_file \<Rightarrow> string option \<Rightarrow> json_file option \<Rightarrow> string option \<Rightarrow> exn + string" where
  "validate_writer_lane_commit env ref head topology base cutover_path bootstrap_main =
    bindE (load_registered_writer_lanes topology) (\<lambda>registered_lanes.
    bindE (git_out env [''rev-parse'', ''HEAD'']) (\<lambda>current.
    requireE (current = head) (WriterLaneError ''BRANCH_HEAD_MISMATCH'')
    (bindE (planned_successor_bootstrap_identity ref head topology base cutover_path bootstrap_main) (\<lambda>bootstrap.
     case bootstrap of
       Some identity \<Rightarrow> Inr identity
     | None \<Rightarrow>
         bindE (registered_identity_for_ref ref topology) (\<lambda>identity.
         case dict_get registered_lanes identity of
           None \<Rightarrow> Inl (KeyError identity)
         | Some lane \<Rightarrow>
             requireE (lane_lifecycle lane \<in> {''ACTIVE'', ''REGISTERED_INERT''}) (WriterLaneError ''WRITER_LANE_NOT_WRITABLE'')
             (bindE (historical_message_ids env cutover_path identity) (\<lambda>historical_ids.
              bindE (commits_to_validate env head base) (\<lambda>commits.
              bindE (validate_commits env lane historical_ids commits) (\<lambda>_. Inr identity)))))))))"

section \<open>The registry is unambiguous\<close>

definition lanes_wf :: "lanes \<Rightarrow> bool" where
  "lanes_wf lanes \<longleftrightarrow> dict_wf lanes \<and> distinct (map (\<lambda>e. lane_branch (snd e)) lanes) \<and>
     dict_all (\<lambda>k l. lane_identity l = k \<and> k \<noteq> [] \<and> lane_writer l \<noteq> [] \<and> lane_branch l \<noteq> [] \<and>
       lane_lifecycle l \<in> allowed_lifecycles) lanes"

lemma nonempty_str_Some [simp]: "nonempty_str v = Some s \<longleftrightarrow> v = PStr s \<and> s \<noteq> []"
  by (cases v) (auto simp: nonempty_str_def)

lemma registered_lane_Inr:
  "registered_lane identity record = Inr l \<Longrightarrow>
     lane_identity l = identity \<and> lane_writer l \<noteq> [] \<and> lane_branch l \<noteq> [] \<and> lane_lifecycle l \<in> allowed_lifecycles"
  by (auto simp: registered_lane_def split: option.splits pyval.splits)

text \<open>A value that is new under \<open>f\<close> keeps \<open>f\<close> injective on the values of a dictionary.\<close>

lemma dict_set_distinct_values:
  "distinct (map (\<lambda>e. f (snd e)) d) \<Longrightarrow> f v \<notin> (\<lambda>e. f (snd e)) ` set d \<Longrightarrow> distinct (map (\<lambda>e. f (snd e)) (dict_set d k v))"
proof (induction d)
  case (Cons a d)
  then show ?case
    using dict_set_entries [of k v d] by (cases a) auto
qed simp

lemma dict_set_values_subset: "(\<lambda>e. f (snd e)) ` set (dict_set d k v) \<subseteq> insert (f v) ((\<lambda>e. f (snd e)) ` set d)"
  using dict_set_entries [of k v d] by auto

lemma register_lanes_wf:
  "register_lanes lanes seen rest = Inr r \<Longrightarrow> lanes_wf lanes \<Longrightarrow> (\<lambda>e. lane_branch (snd e)) ` set lanes \<subseteq> set seen \<Longrightarrow> lanes_wf r"
proof (induction lanes seen rest rule: register_lanes.induct)
  case (2 lanes seen identity v rest)
  then obtain m lane where m: "v = PDict m" "identity \<noteq> []" "registered_lane identity m = Inr lane" "lane_branch lane \<notin> set seen"
      "register_lanes (dict_set lanes identity lane) (lane_branch lane # seen) rest = Inr r"
    by (auto split: pyval.splits)
  have "lanes_wf (dict_set lanes identity lane)"
    unfolding lanes_wf_def using 2(3,4) m(2,4) registered_lane_Inr [OF m(3)]
    by (auto simp: lanes_wf_def intro!: dict_set_distinct_values dict_all_set)
  moreover have "(\<lambda>e. lane_branch (snd e)) ` set (dict_set lanes identity lane) \<subseteq> set (lane_branch lane # seen)"
    using 2(4) dict_set_values_subset [of lane_branch identity lane lanes] by simp (blast intro: order_trans)
  ultimately show ?case
    using 2(1) [OF m(1,3,5)] by blast
qed simp

lemma loaded_lanes_wf:
  assumes "load_registered_writer_lanes topology = Inr lanes"
  shows "lanes_wf lanes"
proof -
  obtain raw where raw: "topology = Inr raw"
    using assms by (cases topology) (simp_all add: load_registered_writer_lanes_def)
  obtain m where m: "raw = PDict m"
    using assms raw by (cases raw) (simp_all add: load_registered_writer_lanes_def)
  obtain required where "register_lanes [] [] required = Inr lanes"
    using assms raw m
    by (cases "get_default m ''required_writer_lanes'' PNone") (auto simp: load_registered_writer_lanes_def)
  then show ?thesis
    by (rule register_lanes_wf) (simp_all add: lanes_wf_def)
qed

lemma singleton_filter_iff:
  assumes "distinct (map f xs)"
  shows "filter (\<lambda>x. f x = b) xs = [x] \<longleftrightarrow> x \<in> set xs \<and> f x = b"
proof
  assume "filter (\<lambda>x. f x = b) xs = [x]"
  then have "x \<in> set (filter (\<lambda>x. f x = b) xs)"
    by simp
  then show "x \<in> set xs \<and> f x = b"
    by simp
next
  assume "x \<in> set xs \<and> f x = b"
  then show "filter (\<lambda>x. f x = b) xs = [x]"
    using filter_key_singleton [OF assms, of x] by (auto simp: eq_commute)
qed

lemma identity_in_lanes_iff:
  assumes "lanes_wf lanes"
  shows "identity_in_lanes ref lanes = Inr i \<longleftrightarrow> (\<exists>lane. dict_get lanes i = Some lane \<and> lane_branch lane = branch_of_ref ref)"
proof -
  have wf: "dict_wf lanes" and branches: "distinct (map lane_branch (map snd lanes))"
      and ids: "dict_all (\<lambda>k l. lane_identity l = k) lanes"
    using assms by (auto simp: lanes_wf_def comp_def elim: dict_all_mono)
  have ids: "\<forall>lane. dict_get lanes i = Some lane \<longrightarrow> lane_identity lane = i" "\<forall>k lane. dict_get lanes k = Some lane \<longrightarrow> lane_identity lane = k"
    using dict_allD [OF ids] by blast+
  have "identity_in_lanes ref lanes = Inr i \<longleftrightarrow>
      (\<exists>lane. filter (\<lambda>lane. lane_branch lane = branch_of_ref ref) (map snd lanes) = [lane] \<and> lane_identity lane = i)"
    by (auto simp: identity_in_lanes_def split: list.splits)
  also have "\<dots> \<longleftrightarrow> (\<exists>lane. lane \<in> set (map snd lanes) \<and> lane_branch lane = branch_of_ref ref \<and> lane_identity lane = i)"
    unfolding singleton_filter_iff [OF branches] by auto
  also have "\<dots> \<longleftrightarrow> (\<exists>lane. dict_get lanes i = Some lane \<and> lane_branch lane = branch_of_ref ref)"
    unfolding dict_values_iff [OF wf] using ids by blast
  finally show ?thesis .
qed

lemma dict_get_filter: "dict_wf d \<Longrightarrow> dict_get (filter (\<lambda>(k, v). P v) d) k = Some v \<longleftrightarrow> dict_get d k = Some v \<and> P v"
  by (subst (1 2) dict_get_in [symmetric]) (auto simp: distinct_map_filter)

lemma active_lanes_wf: "lanes_wf lanes \<Longrightarrow> lanes_wf (filter (\<lambda>(k, l). P l) lanes)"
  by (auto simp: lanes_wf_def distinct_map_filter dict_all_def)

text \<open>
  A topology that loads registers each branch for one identity under its own name, with a writer
  and a known lifecycle; a ref resolves exactly to the identity whose branch it names, and for
  routing only while that lane is active.
\<close>

theorem registered_lanes_unambiguous:
  assumes "load_registered_writer_lanes topology = Inr lanes"
  shows "lanes_wf lanes \<and>
    (\<forall>ref i. registered_identity_for_ref ref topology = Inr i \<longleftrightarrow>
       (\<exists>lane. dict_get lanes i = Some lane \<and> lane_branch lane = branch_of_ref ref)) \<and>
    (\<forall>ref i. identity_for_ref ref topology = Inr i \<longleftrightarrow>
       (\<exists>lane. dict_get lanes i = Some lane \<and> lane_branch lane = branch_of_ref ref \<and> lane_lifecycle lane = ''ACTIVE''))"
proof -
  have wf: "lanes_wf lanes"
    by (rule loaded_lanes_wf [OF assms])
  then have "dict_wf lanes"
    by (simp add: lanes_wf_def)
  then show ?thesis
    using assms wf identity_in_lanes_iff [OF wf] identity_in_lanes_iff [OF active_lanes_wf [OF wf]]
    by (auto simp: registered_identity_for_ref_def identity_for_ref_def load_writer_lanes_def dict_get_filter)
qed

definition sample_topology :: json_file where
  "sample_topology = Inr (PDict [(''required_writer_lanes'',
     PDict [(''A'', PDict [(''writer'', PStr ''Alice''), (''branch'', PStr ''lane/a'')]),
            (''B'', PDict [(''writer'', PStr ''Bob''), (''branch'', PStr ''lane/b''), (''lifecycle'', PStr ''RETIRED'')])])])"

theorem registered_lanes_unambiguous_witness:
  "registered_identity_for_ref ''refs/heads/lane/b'' sample_topology = Inr ''B'' \<and>
   identity_for_ref ''refs/heads/lane/b'' sample_topology \<noteq> Inr ''B''"
proof -
  have load: "load_registered_writer_lanes sample_topology = Inr (projr (load_registered_writer_lanes sample_topology))"
    by code_simp
  have get: "dict_get (projr (load_registered_writer_lanes sample_topology)) ''B'' =
      Some \<lparr>lane_identity = ''B'', lane_writer = ''Bob'', lane_branch = ''lane/b'', lane_lifecycle = ''RETIRED''\<rparr>"
    "branch_of_ref ''refs/heads/lane/b'' = ''lane/b''"
    by code_simp+
  show ?thesis
    using registered_lanes_unambiguous [OF load] get by simp
qed

section \<open>Bootstrapping a planned successor\<close>

lemma planned_branches_wf:
  "planned_branches result seen rest = Inr r \<Longrightarrow> dict_wf result \<and> distinct (map snd result) \<Longrightarrow> snd ` set result \<subseteq> set seen \<Longrightarrow>
     dict_wf r \<and> distinct (map snd r)"
proof (induction result seen rest rule: planned_branches.induct)
  case (2 result seen identity v rest)
  then obtain b where b: "nonempty_str v = Some b" "b \<notin> set seen"
      "planned_branches (dict_set result identity b) (b # seen) rest = Inr r"
    by (auto split: option.splits)
  have "dict_wf (dict_set result identity b) \<and> distinct (map snd (dict_set result identity b))"
    using 2(3,4) b(2) dict_set_distinct_values [of "\<lambda>x. x" result b identity] by auto
  moreover have "snd ` set (dict_set result identity b) \<subseteq> set (b # seen)"
    using 2(4) dict_set_values_subset [of "\<lambda>x. x" identity b result] by simp (blast intro: order_trans)
  ultimately show ?case
    using 2(1) [OF b(1,3)] by blast
qed simp

lemma planned_successor_map_wf:
  assumes "planned_successor_map cutover = Inr planned"
  shows "dict_wf planned \<and> distinct (map snd planned)"
proof -
  obtain raw where raw: "load_cutover cutover = Inr raw"
    using assms by (auto simp: planned_successor_map_def)
  obtain entries where "planned_branches [] [] entries = Inr planned"
    using assms raw
    by (cases "get_default raw ''planned_current_writer_lanes'' PNone") (auto simp: planned_successor_map_def)
  then show ?thesis
    by (rule planned_branches_wf) simp_all
qed

lemma planned_matches:
  assumes "planned_successor_map cutover = Inr planned"
  shows "map fst (filter (\<lambda>(identity, candidate). candidate = b) planned) = [i] \<longleftrightarrow> dict_get planned i = Some b"
proof -
  have wf: "dict_wf planned" "distinct (map snd planned)"
    using planned_successor_map_wf [OF assms] by auto
  have fn: "(\<lambda>(identity, candidate). candidate = b) = (\<lambda>e :: string \<times> string. snd e = b)"
    by auto
  have "map fst (filter (\<lambda>(identity, candidate). candidate = b) planned) = [i] \<longleftrightarrow>
      (\<exists>e. filter (\<lambda>e. snd e = b) planned = [e] \<and> fst e = i)"
    unfolding fn by (auto simp: map_eq_Cons_conv)
  also have "\<dots> \<longleftrightarrow> (i, b) \<in> set planned"
    unfolding singleton_filter_iff [OF wf(2)] by force
  finally show ?thesis
    using dict_get_in [OF wf(1)] by simp
qed

text \<open>
  The guard lets a branch be created at the main head without any message exactly when it is
  the planned successor of a registered identity that still has another branch.
\<close>

theorem bootstrap_exactly_planned:
  "planned_successor_bootstrap_identity ref head topology base cutover_path bootstrap_main = Inr (Some i) \<longleftrightarrow>
    base = Some zero_sha \<and> bootstrap_main = Some head \<and> head \<noteq> [] \<and>
    (\<exists>cutover planned lanes lane. cutover_path = Some cutover \<and> planned_successor_map cutover = Inr planned \<and>
       dict_get planned i = Some (branch_of_ref ref) \<and> load_registered_writer_lanes topology = Inr lanes \<and>
       dict_get lanes i = Some lane \<and> lane_branch lane \<noteq> branch_of_ref ref)" (is "?lhs \<longleftrightarrow> ?rhs")
proof
  assume l: ?lhs
  obtain cutover where c: "cutover_path = Some cutover" "base = Some zero_sha"
    using l by (cases cutover_path; cases "base = Some zero_sha") (simp_all add: planned_successor_bootstrap_identity_def)
  obtain planned where p: "planned_successor_map cutover = Inr planned"
    using l c by (cases "planned_successor_map cutover") (simp_all add: planned_successor_bootstrap_identity_def)
  let ?ms = "map fst (filter (\<lambda>(identity, candidate). candidate = branch_of_ref ref) planned)"
  obtain j where j: "?ms = [j]"
    using l c p by (cases ?ms rule: remdups_adj.cases) (simp_all add: planned_successor_bootstrap_identity_def)
  obtain lanes where lanes: "load_registered_writer_lanes topology = Inr lanes"
    using l c p j by (cases "load_registered_writer_lanes topology") (simp_all add: planned_successor_bootstrap_identity_def)
  obtain lane where lane: "dict_get lanes j = Some lane"
    using l c p j lanes by (cases "dict_get lanes j") (simp_all add: planned_successor_bootstrap_identity_def)
  have "lane_branch lane \<noteq> branch_of_ref ref \<and> bootstrap_main = Some head \<and> head \<noteq> [] \<and> j = i"
    using l c p j lanes lane
    by (cases bootstrap_main; cases "lane_branch lane = branch_of_ref ref") (simp_all add: planned_successor_bootstrap_identity_def)
  moreover have "dict_get planned j = Some (branch_of_ref ref)"
    using j unfolding planned_matches [OF p] .
  ultimately show ?rhs
    using c p lanes lane by simp
next
  assume ?rhs
  then obtain cutover planned lanes lane where r: "base = Some zero_sha" "bootstrap_main = Some head" "head \<noteq> []"
      "cutover_path = Some cutover" "planned_successor_map cutover = Inr planned" "dict_get planned i = Some (branch_of_ref ref)"
      "load_registered_writer_lanes topology = Inr lanes" "dict_get lanes i = Some lane" "lane_branch lane \<noteq> branch_of_ref ref"
    by blast
  then have "map fst (filter (\<lambda>(identity, candidate). candidate = branch_of_ref ref) planned) = [i]"
    using planned_matches by blast
  then show ?lhs
    using r by (simp add: planned_successor_bootstrap_identity_def)
qed

section \<open>What an accepted commit adds\<close>

definition addition_ok :: "lane_env \<Rightarrow> string \<Rightarrow> writer_lane \<Rightarrow> string \<Rightarrow> string \<Rightarrow> bool" where
  "addition_ok env commit lane path mid \<longleftrightarrow> message_path path \<and>
     (\<exists>content h. git_bytes env [''show'', commit @ '':'' @ path] = Inr content \<and> message_headers env content path False = Inr h \<and>
        casefold (header_or_empty h ''writer'') = casefold (lane_writer lane) \<and>
        casefold (header_or_empty h ''message_id'') = mid \<and> starts_with (casefold (lane_identity lane) @ ''-'') mid)"

text \<open>The fields of a diff that adds these paths (each with the id of its message).\<close>

definition diff_fields :: "(string \<times> string) list \<Rightarrow> string list" where
  "diff_fields adds = concat (map (\<lambda>(path, mid). [''A'', path]) adds)"

lemma diff_fields_simps [simp]:
  "diff_fields [] = []" "diff_fields ((path, mid) # adds) = ''A'' # path # diff_fields adds"
  by (simp_all add: diff_fields_def)

lemma diff_fields_Cons:
  "status # path # rest = diff_fields adds \<longleftrightarrow> status = ''A'' \<and> (\<exists>mid adds'. adds = (path, mid) # adds' \<and> rest = diff_fields adds')"
  by (cases adds) auto

text \<open>The reference: the diff against the one parent adds messages with these ids, and nothing else.\<close>

definition commit_ok :: "lane_env \<Rightarrow> writer_lane \<Rightarrow> string list \<Rightarrow> string \<Rightarrow> (string \<times> string) list \<Rightarrow> bool" where
  "commit_ok env lane reserved commit adds \<longleftrightarrow>
    (\<exists>out c parent ids raw. git_out env [''rev-list'', ''--parents'', ''-n'', ''1'', commit] = Inr out \<and>
       pieces is_space out = [c, parent] \<and> message_ids_at_commit env parent = Inr ids \<and>
       git_bytes env [''diff-tree'', ''--no-commit-id'', ''--name-status'', ''-r'', ''-z'', parent, commit] = Inr raw \<and>
       mapE decode_field (pieces (\<lambda>c. c = CHR 0x00) raw) = Inr (diff_fields adds) \<and>
       list_all (\<lambda>(path, mid). addition_ok env commit lane path mid) adds \<and>
       distinct (map snd adds) \<and> snd ` set adds \<inter> (set reserved \<union> set ids) = {})"

lemma two_words: "(case xs of [a, b] \<Rightarrow> f a b | _ \<Rightarrow> Inl e) = Inr x \<longleftrightarrow> (\<exists>a b. xs = [a, b] \<and> f a b = Inr x)"
  by (auto split: list.splits)

lemma message_headers_Inr:
  "message_headers env content path historical = Inr h \<longleftrightarrow>
     (\<exists>d. parse_bus_document (lib_sha env) (lib_fromiso env) (if historical then SourceFallback else Strict) path content = Inr d \<and>
       h = doc_headers d)"
  by (auto simp: message_headers_def split: sum.splits exn.splits)

lemma message_headers_ids:
  assumes "message_headers env content path historical = Inr h"
  shows "header_or_empty h ''message_id'' \<noteq> [] \<and> header_or_empty h ''writer'' \<noteq> []"
proof -
  obtain d where d: "parse_bus_document (lib_sha env) (lib_fromiso env) (if historical then SourceFallback else Strict) path content = Inr d"
      and h: "h = doc_headers d"
    using assms unfolding message_headers_Inr by blast
  from d show ?thesis
    by (cases rule: parsed_document_parts) (simp add: h header_or_empty_def)
qed

lemma validate_addition_iff:
  "validate_addition env commit lane seen status path = Inr mid \<longleftrightarrow>
     status = ''A'' \<and> addition_ok env commit lane path mid \<and> mid \<notin> set seen"
  using message_headers_ids by (simp add: validate_addition_def addition_ok_def Let_def) blast

lemma validate_additions_iff:
  "validate_additions env commit lane seen fs = Inr () \<and> even (length fs) \<longleftrightarrow>
     (\<exists>adds. fs = diff_fields adds \<and> list_all (\<lambda>(path, mid). addition_ok env commit lane path mid) adds \<and>
        distinct (map snd adds) \<and> snd ` set adds \<inter> set seen = {})"
proof (induction env commit lane seen fs rule: validate_additions.induct)
  case (1 env commit lane seen status path rest)
  have "validate_additions env commit lane seen (status # path # rest) = Inr () \<and> even (length (status # path # rest)) \<longleftrightarrow>
      (\<exists>mid. validate_addition env commit lane seen status path = Inr mid \<and>
         validate_additions env commit lane (mid # seen) rest = Inr () \<and> even (length rest))"
    by auto
  also have "\<dots> \<longleftrightarrow> (\<exists>mid. validate_addition env commit lane seen status path = Inr mid \<and>
      (\<exists>adds. rest = diff_fields adds \<and> list_all (\<lambda>(path, mid). addition_ok env commit lane path mid) adds \<and>
        distinct (map snd adds) \<and> snd ` set adds \<inter> set (mid # seen) = {}))"
    using 1 by blast
  also have "\<dots> \<longleftrightarrow> (\<exists>mid adds'. status = ''A'' \<and> addition_ok env commit lane path mid \<and> mid \<notin> set seen \<and> rest = diff_fields adds' \<and>
      list_all (\<lambda>(path, mid). addition_ok env commit lane path mid) adds' \<and>
      distinct (map snd adds') \<and> snd ` set adds' \<inter> set (mid # seen) = {})"
    unfolding validate_addition_iff by blast
  also have "\<dots> \<longleftrightarrow> (\<exists>mid adds'. status = ''A'' \<and> rest = diff_fields adds' \<and>
      list_all (\<lambda>(path, mid). addition_ok env commit lane path mid) ((path, mid) # adds') \<and>
      distinct (map snd ((path, mid) # adds')) \<and> snd ` set ((path, mid) # adds') \<inter> set seen = {})"
    by (intro ex_cong1) auto
  also have "\<dots> \<longleftrightarrow> (\<exists>adds. status # path # rest = diff_fields adds \<and>
      list_all (\<lambda>(path, mid). addition_ok env commit lane path mid) adds \<and>
      distinct (map snd adds) \<and> snd ` set adds \<inter> set seen = {})"
    unfolding diff_fields_Cons by blast
  finally show ?case .
next
  case (2 env commit lane seen)
  have "[] = diff_fields adds \<longleftrightarrow> adds = []" for adds
    by (cases adds) auto
  then show ?case
    by simp
next
  case (3 env commit lane seen v)
  have "[v] \<noteq> diff_fields adds" for adds
    by (cases adds) auto
  then show ?case
    by simp
qed

lemma commit_accepted:
  "validate_commit_paths env commit lane reserved = Inr () \<longleftrightarrow> (\<exists>adds. commit_ok env lane reserved commit adds)"
proof
  assume "validate_commit_paths env commit lane reserved = Inr ()"
  then obtain out c parent ids raw fs where v: "git_out env [''rev-list'', ''--parents'', ''-n'', ''1'', commit] = Inr out"
      "pieces is_space out = [c, parent]" "message_ids_at_commit env parent = Inr ids"
      "git_bytes env [''diff-tree'', ''--no-commit-id'', ''--name-status'', ''-r'', ''-z'', parent, commit] = Inr raw"
      "mapE decode_field (pieces (\<lambda>c. c = CHR 0x00) raw) = Inr fs"
      "validate_additions env commit lane (reserved @ ids) fs = Inr () \<and> even (length fs)"
    unfolding validate_commit_paths_def bindE_eq_Inr two_words requireE_eq_Inr by blast
  obtain adds where adds: "fs = diff_fields adds" "list_all (\<lambda>(path, mid). addition_ok env commit lane path mid) adds"
      "distinct (map snd adds)" "snd ` set adds \<inter> set (reserved @ ids) = {}"
    using v(6) unfolding validate_additions_iff by blast
  have "commit_ok env lane reserved commit adds"
    unfolding commit_ok_def using v(1-5) adds
    by (intro exI [of _ out] exI [of _ c] exI [of _ parent] exI [of _ ids] exI [of _ raw]) simp
  then show "\<exists>adds. commit_ok env lane reserved commit adds" ..
next
  assume "\<exists>adds. commit_ok env lane reserved commit adds"
  then obtain adds out c parent ids raw where v: "git_out env [''rev-list'', ''--parents'', ''-n'', ''1'', commit] = Inr out"
      "pieces is_space out = [c, parent]" "message_ids_at_commit env parent = Inr ids"
      "git_bytes env [''diff-tree'', ''--no-commit-id'', ''--name-status'', ''-r'', ''-z'', parent, commit] = Inr raw"
      "mapE decode_field (pieces (\<lambda>c. c = CHR 0x00) raw) = Inr (diff_fields adds)"
      "list_all (\<lambda>(path, mid). addition_ok env commit lane path mid) adds"
      "distinct (map snd adds)" "snd ` set adds \<inter> set (reserved @ ids) = {}"
    unfolding commit_ok_def set_append by blast
  have "validate_additions env commit lane (reserved @ ids) (diff_fields adds) = Inr () \<and> even (length (diff_fields adds))"
    unfolding validate_additions_iff using v(6-8) by blast
  then show "validate_commit_paths env commit lane reserved = Inr ()"
    using v(1-5) by (simp add: validate_commit_paths_def)
qed

text \<open>
  C22: The guard accepts a commit exactly when it has one parent and its diff is a list of additions
  of messages under \<open>messages/\<close>, each readable, by the lane's writer, with an id in the identity's
  namespace, the ids distinct from each other, from the parent's and from the reserved ones, all
  compared without case.
\<close>

theorem commit_accepted_exactly:
  "validate_commit_paths env commit lane reserved = Inr () \<longleftrightarrow> (\<exists>adds. commit_ok env lane reserved commit adds)"
  by (rule commit_accepted)

lemma validate_commits_iff:
  "validate_commits env lane reserved commits = Inr () \<longleftrightarrow> (\<forall>c \<in> set commits. validate_commit_paths env c lane reserved = Inr ())"
  by (induction commits) auto

section \<open>Accepted pushes\<close>

lemma push_accepted:
  "validate_writer_lane_commit env ref head topology base cutover_path bootstrap_main = Inr identity \<longleftrightarrow>
    git_out env [''rev-parse'', ''HEAD''] = Inr head \<and>
    (\<exists>lanes. load_registered_writer_lanes topology = Inr lanes \<and>
      (planned_successor_bootstrap_identity ref head topology base cutover_path bootstrap_main = Inr (Some identity) \<or>
       planned_successor_bootstrap_identity ref head topology base cutover_path bootstrap_main = Inr None \<and>
       (\<exists>lane reserved commits. dict_get lanes identity = Some lane \<and> lane_branch lane = branch_of_ref ref \<and>
          lane_lifecycle lane \<in> {''ACTIVE'', ''REGISTERED_INERT''} \<and>
          historical_message_ids env cutover_path identity = Inr reserved \<and>
          commits_to_validate env head base = Inr commits \<and>
          (\<forall>c \<in> set commits. \<exists>adds. commit_ok env lane reserved c adds))))" (is "?accepted \<longleftrightarrow> ?conditions")
proof (cases "load_registered_writer_lanes topology")
  case (Inr lanes)
  have resolve: "registered_identity_for_ref ref topology = Inr i \<longleftrightarrow>
      (\<exists>lane. dict_get lanes i = Some lane \<and> lane_branch lane = branch_of_ref ref)" for i
    using identity_in_lanes_iff [OF loaded_lanes_wf [OF Inr]] by (simp add: registered_identity_for_ref_def Inr)
  have lane_step: "(case dict_get lanes i of None \<Rightarrow> Inl e | Some lane \<Rightarrow> f lane) = Inr x \<longleftrightarrow>
      (\<exists>lane. dict_get lanes i = Some lane \<and> f lane = Inr x)" for i e x and f :: "writer_lane \<Rightarrow> exn + string"
    by (cases "dict_get lanes i") simp_all
  have unit_step: "(\<exists>x :: unit. m = Inr x \<and> P) \<longleftrightarrow> m = Inr () \<and> P" for m :: "exn + unit" and P
    by auto
  show ?thesis
  proof (cases "planned_successor_bootstrap_identity ref head topology base cutover_path bootstrap_main")
    case boot: (Inr b)
    show ?thesis
    proof (cases b)
      case None
      have "?accepted \<longleftrightarrow> git_out env [''rev-parse'', ''HEAD''] = Inr head \<and>
          (\<exists>i. (\<exists>lane. dict_get lanes i = Some lane \<and> lane_branch lane = branch_of_ref ref) \<and>
            (\<exists>lane. dict_get lanes i = Some lane \<and> lane_lifecycle lane \<in> {''ACTIVE'', ''REGISTERED_INERT''} \<and>
              (\<exists>reserved. historical_message_ids env cutover_path i = Inr reserved \<and>
                (\<exists>commits. commits_to_validate env head base = Inr commits \<and>
                  validate_commits env lane reserved commits = Inr () \<and> i = identity))))"
        unfolding validate_writer_lane_commit_def Inr boot None bindE_eq_Inr requireE_eq_Inr option.case lane_step resolve unit_step
        by (simp add: resolve lane_step unit_step)
      also have "\<dots> \<longleftrightarrow> ?conditions"
        unfolding Inr boot None validate_commits_iff commit_accepted by auto
      finally show ?thesis .
    next
      case (Some i)
      then show ?thesis
        by (auto simp: validate_writer_lane_commit_def Inr boot)
    qed
  qed (simp add: validate_writer_lane_commit_def Inr)
qed (simp add: validate_writer_lane_commit_def)

text \<open>
  A push is accepted exactly when it is the bootstrap of a planned successor, or when the branch
  belongs to a writable lane and every new commit only appends messages of that lane with new ids.
\<close>

theorem push_accepted_exactly:
  "validate_writer_lane_commit env ref head topology base cutover_path bootstrap_main = Inr identity \<longleftrightarrow>
    git_out env [''rev-parse'', ''HEAD''] = Inr head \<and>
    (\<exists>lanes. load_registered_writer_lanes topology = Inr lanes \<and>
      (planned_successor_bootstrap_identity ref head topology base cutover_path bootstrap_main = Inr (Some identity) \<or>
       planned_successor_bootstrap_identity ref head topology base cutover_path bootstrap_main = Inr None \<and>
       (\<exists>lane reserved commits. dict_get lanes identity = Some lane \<and> lane_branch lane = branch_of_ref ref \<and>
          lane_lifecycle lane \<in> {''ACTIVE'', ''REGISTERED_INERT''} \<and>
          historical_message_ids env cutover_path identity = Inr reserved \<and>
          commits_to_validate env head base = Inr commits \<and>
          (\<forall>c \<in> set commits. \<exists>adds. commit_ok env lane reserved c adds))))"
  by (rule push_accepted)

section \<open>Ids over a whole push\<close>






definition id_at :: "lane_env \<Rightarrow> string \<Rightarrow> string \<Rightarrow> string \<Rightarrow> bool" where
  "id_at env commit path mid \<longleftrightarrow> (\<exists>content h. git_bytes env [''show'', commit @ '':'' @ path] = Inr content \<and>
     message_headers env content path True = Inr h \<and> casefold (header_or_empty h ''message_id'') = mid)"








definition sample_answer :: "(string list \<times> string) list \<Rightarrow> string list \<Rightarrow> (string \<times> string) + string" where
  "sample_answer table args = (case map_of table args of None \<Rightarrow> Inl (''fatal'', ''exit 128'') | Some out \<Rightarrow> Inr out)"

definition sample_message :: "string \<Rightarrow> string" where
  "sample_message mid = render_document [(''message_id'', mid), (''writer'', ''alice'')] ''hello''"

definition sample_env :: lane_env where
  "sample_env = \<lparr>
     git_text = sample_answer
       [([''rev-parse'', ''HEAD''], ''c2''),
        ([''rev-list'', ''--reverse'', ''c0..c2''], ''c1'' @ [LF] @ ''c2''),
        ([''rev-list'', ''--parents'', ''-n'', ''1'', ''c1''], ''c1 c0''),
        ([''rev-list'', ''--parents'', ''-n'', ''1'', ''c2''], ''c2 c1''),
        ([''ls-tree'', ''-r'', ''--name-only'', ''c0'', ''--'', ''messages''], ''messages/a.md''),
        ([''ls-tree'', ''-r'', ''--name-only'', ''c1'', ''--'', ''messages''], ''messages/a.md'' @ [LF] @ ''messages/b.md''),
        ([''ls-tree'', ''-r'', ''--name-only'', ''c2'', ''--'', ''messages''], ''messages/a.md'' @ [LF] @ ''messages/b.md'' @ [LF] @ ''messages/c.md'')],
     git_data = sample_answer
       [([''diff-tree'', ''--no-commit-id'', ''--name-status'', ''-r'', ''-z'', ''c0'', ''c1''], ''A'' @ [CHR 0x00] @ ''messages/b.md'' @ [CHR 0x00]),
        ([''diff-tree'', ''--no-commit-id'', ''--name-status'', ''-r'', ''-z'', ''c1'', ''c2''], ''A'' @ [CHR 0x00] @ ''messages/c.md'' @ [CHR 0x00]),
        ([''show'', ''c0:messages/a.md''], sample_message ''a-1''),
        ([''show'', ''c1:messages/a.md''], sample_message ''a-1''),
        ([''show'', ''c1:messages/b.md''], sample_message ''a-2''),
        ([''show'', ''c2:messages/a.md''], sample_message ''a-1''),
        ([''show'', ''c2:messages/b.md''], sample_message ''a-2''),
        ([''show'', ''c2:messages/c.md''], sample_message ''A-3'')],
     git_succeeds = (\<lambda>args. args = [''merge-base'', ''--is-ancestor'', ''c0'', ''c2'']),
     lib_sha = (\<lambda>s. []), lib_fromiso = (\<lambda>s. None)\<rparr>"

lemma sample_push_accepted:
  "validate_writer_lane_commit sample_env ''refs/heads/lane/a'' ''c2'' sample_topology (Some ''c0'') None None = Inr ''A''"
  by code_simp

theorem push_accepted_exactly_witness:
  "git_out sample_env [''rev-parse'', ''HEAD''] = Inr ''c2'' \<and> (\<exists>lanes. load_registered_writer_lanes sample_topology = Inr lanes)"
  using push_accepted_exactly [THEN iffD1, OF sample_push_accepted] by (elim conjE exE) simp




section \<open>Paths that Git quotes\<close>

text \<open>
  \<open>ls-tree\<close> without \<open>-z\<close> puts paths with bytes above 127 between double quotes with octal escapes, so the
  list of the parent's messages misses them, while \<open>diff-tree -z\<close> prints such a path as it is. The
  guard therefore accepts a second message with the id of a message whose path is quoted.
\<close>

definition accented_path :: string where "accented_path = ''messages/'' @ [CHR 0xE9] @ ''.md''"

definition quoting_env :: lane_env where
  "quoting_env = sample_env
     \<lparr>git_text := sample_answer
        [([''rev-list'', ''--parents'', ''-n'', ''1'', ''c1''], ''c1 c0''),
         ([''ls-tree'', ''-r'', ''--name-only'', ''c0'', ''--'', ''messages''],
           [CHR 0x22] @ ''messages/'' @ [CHR 0x5C] @ ''303'' @ [CHR 0x5C] @ ''251.md'' @ [CHR 0x22])],
      git_data := sample_answer
        [([''diff-tree'', ''--no-commit-id'', ''--name-status'', ''-r'', ''-z'', ''c0'', ''c1''], ''A'' @ [CHR 0x00] @ ''messages/b.md'' @ [CHR 0x00]),
         ([''show'', ''c0:'' @ accented_path], sample_message ''a-1''),
         ([''show'', ''c1:messages/b.md''], sample_message ''a-1'')]\<rparr>"

lemma quoted_path_hides_id:
  "validate_commit_paths quoting_env ''c1'' \<lparr>lane_identity = ''A'', lane_writer = ''Alice'', lane_branch = ''lane/a'', lane_lifecycle = ''ACTIVE''\<rparr> [] = Inr ()"
  "id_at quoting_env ''c0'' accented_path ''a-1''" "id_at quoting_env ''c1'' ''messages/b.md'' ''a-1''"
proof -
  have h: "git_bytes quoting_env [''show'', ''c0'' @ '':'' @ accented_path] = Inr (sample_message ''a-1'')"
      "git_bytes quoting_env [''show'', ''c1'' @ '':'' @ ''messages/b.md''] = Inr (sample_message ''a-1'')"
      "message_headers quoting_env (sample_message ''a-1'') accented_path True = Inr [(''message_id'', ''a-1''), (''writer'', ''alice'')]"
      "message_headers quoting_env (sample_message ''a-1'') ''messages/b.md'' True = Inr [(''message_id'', ''a-1''), (''writer'', ''alice'')]"
      "casefold (header_or_empty [(''message_id'', ''a-1''), (''writer'', ''alice'')] ''message_id'') = ''a-1''"
    by code_simp+
  then show "id_at quoting_env ''c0'' accented_path ''a-1''" "id_at quoting_env ''c1'' ''messages/b.md'' ''a-1''"
    unfolding id_at_def by blast+
  show "validate_commit_paths quoting_env ''c1'' \<lparr>lane_identity = ''A'', lane_writer = ''Alice'', lane_branch = ''lane/a'', lane_lifecycle = ''ACTIVE''\<rparr> [] = Inr ()"
    by code_simp
qed

end
