(* ===== verification/Actions.thy ===== *)
theory Actions
  imports Prelude
begin

text \<open>
  Code that calls its environment. The environment has a state of its own, so its answers may change
  between two calls; every call is recorded with its answer. An action runs on a state and a record and
  ends with an exception or a value. \<open>traces\<close> says what an action records and how it ends, \<open>only\<close> what
  holds of each call it makes, both for every environment; their rules follow the structure of actions.
\<close>

section \<open>Actions\<close>

type_synonym ('c, 'g) run = "'g \<times> 'c list"
type_synonym ('e, 'c, 'g, 'a) io = "('c, 'g) run \<Rightarrow> ('e + 'a) \<times> ('c, 'g) run"

definition give :: "'a \<Rightarrow> ('e, 'c, 'g, 'a) io" where
  "give a s = (Inr a, s)"

definition throw :: "'e \<Rightarrow> ('e, 'c, 'g, 'a) io" where
  "throw e s = (Inl e, s)"

definition lift_result :: "'e + 'a \<Rightarrow> ('e, 'c, 'g, 'a) io" where
  "lift_result r s = (r, s)"

definition and_then :: "('e, 'c, 'g, 'a) io \<Rightarrow> ('a \<Rightarrow> ('e, 'c, 'g, 'b) io) \<Rightarrow> ('e, 'c, 'g, 'b) io" where
  "and_then m f s = (case m s of (Inl e, t) \<Rightarrow> (Inl e, t) | (Inr a, t) \<Rightarrow> f a t)"

definition require :: "bool \<Rightarrow> 'e \<Rightarrow> ('e, 'c, 'g, 'a) io \<Rightarrow> ('e, 'c, 'g, 'a) io" where
  "require ok e m = (if ok then m else throw e)"

text \<open>\<open>try: m except Exception as exc: raise h(exc)\<close>\<close>

definition raising :: "('e \<Rightarrow> 'e) \<Rightarrow> ('e, 'c, 'g, 'a) io \<Rightarrow> ('e, 'c, 'g, 'a) io" where
  "raising h m s = (case m s of (Inl e, t) \<Rightarrow> (Inl (h e), t) | r \<Rightarrow> r)"

text \<open>The outcome as a value: a \<open>try\<close> that handles the exception itself.\<close>

definition observed :: "('e, 'c, 'g, 'a) io \<Rightarrow> ('e, 'c, 'g, 'e + 'a) io" where
  "observed m s = (case m s of (r, t) \<Rightarrow> (Inr r, t))"

definition ask :: "('e + 'a \<Rightarrow> 'c) \<Rightarrow> ('g \<Rightarrow> ('e + 'a) \<times> 'g) \<Rightarrow> ('e, 'c, 'g, 'a) io" where
  "ask c f s = (let (r, g) = f (fst s) in (r, (g, snd s @ [c r])))"

section \<open>Traces\<close>

text \<open>
  \<open>traces m Q\<close>: from every state, \<open>m\<close> extends the record of calls by some \<open>cs\<close> and ends with an outcome
  \<open>r\<close> such that \<open>Q cs r\<close>, whatever the environment answers. The rules follow the structure of actions.
\<close>

definition traces :: "('e, 'c, 'g, 'a) io \<Rightarrow> ('c list \<Rightarrow> 'e + 'a \<Rightarrow> bool) \<Rightarrow> bool" where
  "traces m Q \<longleftrightarrow> (\<forall>s r t. m s = (r, t) \<longrightarrow> (\<exists>cs. snd t = snd s @ cs \<and> Q cs r))"

named_theorems trace_rules \<open>rules for the traces of actions\<close>

lemma tracesD: "traces m Q \<Longrightarrow> m (g, l) = (r, (g', l')) \<Longrightarrow> \<exists>cs. l' = l @ cs \<and> Q cs r"
  unfolding traces_def by fastforce

lemma tr_weaken: "traces m P \<Longrightarrow> (\<And>cs r. P cs r \<Longrightarrow> Q cs r) \<Longrightarrow> traces m Q"
  unfolding traces_def by blast

lemma tr_give [trace_rules]: "Q [] (Inr a) \<Longrightarrow> traces (give a) Q"
  by (simp add: traces_def give_def)

lemma tr_throw [trace_rules]: "Q [] (Inl e) \<Longrightarrow> traces (throw e) Q"
  by (simp add: traces_def throw_def)

lemma tr_require [trace_rules]:
  "(ok \<Longrightarrow> traces m Q) \<Longrightarrow> (\<not> ok \<Longrightarrow> Q [] (Inl e)) \<Longrightarrow> traces (require ok e m) Q"
  by (simp add: require_def tr_throw)

lemma tr_then:
  assumes m: "traces m P" and e: "\<And>cs e. P cs (Inl e) \<Longrightarrow> Q cs (Inl e)"
    and k: "\<And>cs a. P cs (Inr a) \<Longrightarrow> traces (k a) (\<lambda>cs' r. Q (cs @ cs') r)"
  shows "traces (and_then m k) Q"
  unfolding traces_def
proof (intro allI impI)
  fix s r t
  assume run: "and_then m k s = (r, t)"
  obtain x u where x: "m s = (x, u)"
    by (cases "m s")
  then obtain cs where cs: "snd u = snd s @ cs" "P cs x"
    using m unfolding traces_def by blast
  show "\<exists>cs. snd t = snd s @ cs \<and> Q cs r"
  proof (cases x)
    case (Inl err)
    then show ?thesis
      using run x cs e by (auto simp: and_then_def)
  next
    case (Inr a)
    then have "k a u = (r, t)"
      using run x by (simp add: and_then_def)
    then obtain cs' where "snd t = snd u @ cs'" "Q (cs @ cs') r"
      using k cs(2) Inr unfolding traces_def by blast
    then show ?thesis
      using cs(1) by auto
  qed
qed

lemma tr_ask: "(\<And>r. Q [c r] r) \<Longrightarrow> traces (ask c f) Q"
  by (auto simp: traces_def ask_def split: prod.splits)

lemma tr_raising: "traces m (\<lambda>cs r. Q cs (case r of Inl e \<Rightarrow> Inl (h e) | Inr a \<Rightarrow> Inr a)) \<Longrightarrow> traces (raising h m) Q"
  unfolding traces_def raising_def by (fastforce split: prod.splits sum.splits)

lemma tr_observed: "traces m (\<lambda>cs r. Q cs (Inr r)) \<Longrightarrow> traces (observed m) Q"
  unfolding traces_def observed_def by (fastforce split: prod.splits)

lemma tr_lift: "Q [] r \<Longrightarrow> traces (lift_result r) Q"
  by (simp add: traces_def lift_result_def)

text \<open>The forms the steps have: a call, its outcome, and what follows.\<close>

lemma tr_ask_then [trace_rules]:
  "(\<And>e. Q [c (Inl e)] (Inl e)) \<Longrightarrow> (\<And>a. traces (k a) (\<lambda>cs r. Q (c (Inr a) # cs) r)) \<Longrightarrow> traces (and_then (ask c f) k) Q"
  by (rule tr_then [OF tr_ask [of "\<lambda>cs r. cs = [c r]"]]) simp_all

lemma tr_raising_ask_then [trace_rules]:
  assumes "\<And>e. Q [c (Inl e)] (Inl (h e))" and "\<And>a. traces (k a) (\<lambda>cs r. Q (c (Inr a) # cs) r)"
  shows "traces (and_then (raising h (ask c f)) k) Q"
  by (rule tr_then [OF tr_raising [OF tr_ask],
        of "\<lambda>cs r. (\<forall>e. r = Inl e \<longrightarrow> (\<exists>e'. cs = [c (Inl e')] \<and> e = h e')) \<and> (\<forall>a. r = Inr a \<longrightarrow> cs = [c (Inr a)])"])
    (use assms in \<open>auto split: sum.splits\<close>)

lemma tr_observed_ask_then [trace_rules]:
  "(\<And>x. traces (k x) (\<lambda>cs r. Q (c x # cs) r)) \<Longrightarrow> traces (and_then (observed (ask c f)) k) Q"
  by (rule tr_then [OF tr_observed [OF tr_ask], of "\<lambda>cs r. \<exists>x. r = Inr x \<and> cs = [c x]"]) auto

lemma tr_lift_then [trace_rules]:
  "(\<And>e. x = Inl e \<Longrightarrow> Q [] (Inl e)) \<Longrightarrow> (\<And>a. x = Inr a \<Longrightarrow> traces (k a) Q) \<Longrightarrow> traces (and_then (lift_result x) k) Q"
  by (rule tr_then [OF tr_lift [of "\<lambda>cs r. cs = [] \<and> r = x"]]) simp_all

lemma tr_raising_lift_then [trace_rules]:
  assumes "\<And>e. x = Inl e \<Longrightarrow> Q [] (Inl (h e))" and "\<And>a. x = Inr a \<Longrightarrow> traces (k a) Q"
  shows "traces (and_then (raising h (lift_result x)) k) Q"
  by (rule tr_then [OF tr_raising [OF tr_lift],
        of "\<lambda>cs r. cs = [] \<and> (\<forall>e. r = Inl e \<longrightarrow> (\<exists>e'. x = Inl e' \<and> e = h e')) \<and> (\<forall>a. r = Inr a \<longrightarrow> x = Inr a)"])
    (use assms in \<open>auto split: sum.splits\<close>)

lemma tr_option [trace_rules]:
  "(x = None \<Longrightarrow> traces m Q) \<Longrightarrow> (\<And>a. x = Some a \<Longrightarrow> traces (f a) Q) \<Longrightarrow> traces (case x of None \<Rightarrow> m | Some a \<Rightarrow> f a) Q"
  by (cases x) simp_all

lemma tr_if [trace_rules]: "(b \<Longrightarrow> traces m Q) \<Longrightarrow> (\<not> b \<Longrightarrow> traces n Q) \<Longrightarrow> traces (if b then m else n) Q"
  by simp

lemma tr_sum [trace_rules]:
  "(\<And>e. x = Inl e \<Longrightarrow> traces (f e) Q) \<Longrightarrow> (\<And>a. x = Inr a \<Longrightarrow> traces (k a) Q) \<Longrightarrow> traces (case x of Inl e \<Rightarrow> f e | Inr a \<Rightarrow> k a) Q"
  by (cases x) simp_all

section \<open>The calls of an action\<close>

text \<open>Every call of an action satisfies \<open>P\<close>.\<close>

definition only :: "('c \<Rightarrow> bool) \<Rightarrow> ('e, 'c, 'g, 'a) io \<Rightarrow> bool" where
  "only P m \<longleftrightarrow> traces m (\<lambda>cs r. list_all P cs)"

lemma only_log: "only P m \<Longrightarrow> m (g, []) = (r, (g', log)) \<Longrightarrow> list_all P log"
  unfolding only_def using tracesD [of m "\<lambda>cs r. list_all P cs" g "[]" r g' log] by simp

named_theorems only_rules \<open>rules for the calls of actions\<close>

lemma only_ask [only_rules]: "(\<And>g r t. f g = (r, t) \<Longrightarrow> P (c r)) \<Longrightarrow> only P (ask c f)"
  by (auto simp: only_def traces_def ask_def split: prod.splits)

lemma only_then [only_rules]: "only P m \<Longrightarrow> (\<And>a. only P (k a)) \<Longrightarrow> only P (and_then m k)"
  unfolding only_def
proof (rule tr_then [where P = "\<lambda>cs r. list_all P cs"])
  fix cs a
  assume "list_all P cs" and k: "\<And>a. traces (k a) (\<lambda>cs r. list_all P cs)"
  then show "traces (k a) (\<lambda>cs' r. list_all P (cs @ cs'))"
    by (intro tr_weaken [OF k]) simp
qed simp_all

lemma only_give [only_rules]: "only P (give a)"
  and only_throw [only_rules]: "only P (throw e)"
  and only_lift [only_rules]: "only P (lift_result x)"
  unfolding only_def by (simp_all add: tr_give tr_throw tr_lift)

lemma only_require [only_rules]: "only P m \<Longrightarrow> only P (require ok e m)"
  unfolding only_def by (simp add: tr_require)

lemma only_raising [only_rules]: "only P m \<Longrightarrow> only P (raising h m)"
  and only_observed [only_rules]: "only P m \<Longrightarrow> only P (observed m)"
  unfolding only_def by (simp_all add: tr_raising tr_observed)

lemma only_option [only_rules]: "only P m \<Longrightarrow> (\<And>a. only P (f a)) \<Longrightarrow> only P (case x of None \<Rightarrow> m | Some a \<Rightarrow> f a)"
  and only_sum [only_rules]: "(\<And>e. only P (f' e)) \<Longrightarrow> (\<And>a. only P (k a)) \<Longrightarrow> only P (case y of Inl e \<Rightarrow> f' e | Inr a \<Rightarrow> k a)"
  and only_if [only_rules]: "only P m \<Longrightarrow> only P n \<Longrightarrow> only P (if b then m else n)"
  and only_list [only_rules]: "only P m \<Longrightarrow> (\<And>z zs. only P (l z zs)) \<Longrightarrow> only P (case w of [] \<Rightarrow> m | z # zs \<Rightarrow> l z zs)"
  by (simp_all split: option.split sum.split list.split)

end
