(* ===== verification/SafeAppend.thy ===== *)
theory SafeAppend
  imports MessageGrammar Actions
begin

text \<open>
  The safe append (\<open>src/src/radar/safe_lane_append.py\<close>, \<open>branch_bound_append.py\<close>): one message is
  committed on top of the exact expected head of its writer's branch. Control source, history source and
  Git backend are an environment whose operations take and return its state, so they may fail or be
  changed by others between any two calls. Every call is recorded with its outcome.
\<close>

section \<open>Errors and data\<close>

datatype append_phase = PREFLIGHT | OBJECT_CONSTRUCTION | REF_TRANSITION | READBACK

text \<open>The values of \<open>RetryClass\<close>; \<open>REF\<close> and \<open>READBACK\<close> have the same value.\<close>

datatype append_retry = REFRESH_OR_CORRECT_INPUT | RECONCILE_THEN_RETRY | RECONCILE_EFFECT_FIRST

datatype append_effect = NONE_ESTABLISHED | UNKNOWN | PRESENT_VERIFIED | PRESENT_UNVERIFIED

text \<open>
  A raised exception: the append's own with its cause, the branch binding's, or any other, given by
  its text.
\<close>

datatype raised =
    SafeAppendError string append_phase append_retry append_effect "string option" "raised option"
  | BranchBindingError string "string option"
  | OtherError string

definition with_detail :: "string \<Rightarrow> string option \<Rightarrow> string" where
  "with_detail code detail = code @ (case detail of None \<Rightarrow> [] | Some d \<Rightarrow> if d = [] then [] else '': '' @ d)"

text \<open>\<open>str(exc)\<close>\<close>

fun shown :: "raised \<Rightarrow> string" where
  "shown (SafeAppendError code phase retry effect detail cause) = with_detail code detail"
| "shown (BranchBindingError code detail) = with_detail code detail"
| "shown (OtherError s) = s"

text \<open>\<open>_error(code)\<close> with its defaults, and with a detail.\<close>

definition refused :: "string \<Rightarrow> raised" where
  "refused code = SafeAppendError code PREFLIGHT REFRESH_OR_CORRECT_INPUT NONE_ESTABLISHED None None"

definition refused_for :: "string \<Rightarrow> string \<Rightarrow> raised" where
  "refused_for code detail = SafeAppendError code PREFLIGHT REFRESH_OR_CORRECT_INPUT NONE_ESTABLISHED (Some detail) None"

definition refused_from :: "string \<Rightarrow> raised \<Rightarrow> raised" where
  "refused_from code cause =
     SafeAppendError code PREFLIGHT REFRESH_OR_CORRECT_INPUT NONE_ESTABLISHED (Some (shown cause)) (Some cause)"

record lane_binding =
  bind_identity :: string
  bind_writer :: string
  bind_branch :: string

record control_snapshot =
  snap_repository :: string
  snap_commit_sha :: string
  snap_topology_digest :: string
  snap_lanes :: "(string, lane_binding) dict"

record committed_message =
  cm_message_id :: string
  cm_message_sha256 :: string
  cm_commit_sha :: string
  cm_path :: string
  cm_blob_sha :: string
  cm_prev_message_id :: "string option"
  cm_branch :: "string option"

record identity_history =
  hist_complete :: bool
  hist_tip_message_ids :: "string list"
  hist_messages :: "committed_message list"

record commit_readback =
  rb_parent_shas :: "string list"
  rb_tree_sha :: string
  rb_changed_paths :: "string list"

record file_readback =
  file_blob_sha :: string
  file_content :: string

record append_receipt =
  rcpt_schema :: string
  rcpt_result :: string
  rcpt_operation_key :: string
  rcpt_identity :: string
  rcpt_derived_writer :: string
  rcpt_asserted_writer :: string
  rcpt_lane_ref :: string
  rcpt_control_commit_sha :: string
  rcpt_topology_blob_sha :: string
  rcpt_expected_lane_head :: string
  rcpt_prewrite_observed_head :: string
  rcpt_commit_sha :: string
  rcpt_commit_parent_sha :: string
  rcpt_postwrite_observed_head :: string
  rcpt_tree_sha :: string
  rcpt_path :: string
  rcpt_message_id :: string
  rcpt_prev_message_id :: "string option"
  rcpt_message_blob_sha :: string
  rcpt_message_sha256 :: string
  rcpt_readback_verified :: bool
  rcpt_current_lane_after_readback :: bool
  rcpt_projection_state :: string
  rcpt_delivery_state :: string
  rcpt_incorporation_state :: string

record parsed_message =
  pm_message_id :: string
  pm_writer :: string
  pm_prev_message_id :: "string option"

section \<open>The leading metadata block\<close>

text \<open>\<open>^([A-Za-z0-9_-]+)\s*:\s*(.*?)\s*$\<close> on a line without its ending.\<close>

definition scalar_match :: "string \<Rightarrow> (string \<times> string) option" where
  "scalar_match line =
    (let key = takeWhile name_char line; r = lstrip (dropWhile name_char line) in
     if key \<noteq> [] \<and> starts_with '':'' r then Some (key, strip (tl r)) else None)"

definition put_message_header :: "headers \<Rightarrow> string \<Rightarrow> raised + headers option" where
  "put_message_header headers line = (case scalar_match line of
      None \<Rightarrow> Inr None
    | Some (k, value) \<Rightarrow>
        let key = map (\<lambda>c. if c = CHR ''-'' then CHR ''_'' else c) (casefold k) in
        requireE (\<not> dict_has headers key) (refused_for ''MESSAGE_ENVELOPE_INVALID'' (''duplicate '' @ key @ '' header''))
        (Inr (Some (dict_set headers key (unwrap_scalar value)))))"

fun metadata_frontmatter :: "headers \<Rightarrow> string list \<Rightarrow> raised + headers" where
  "metadata_frontmatter headers [] = Inl (refused_for ''MESSAGE_ENVELOPE_INVALID'' ''frontmatter unterminated'')"
| "metadata_frontmatter headers (line # lines) =
     (let stripped = strip line in
      if stripped = ''---'' then
        requireE (headers \<noteq> []) (refused_for ''MESSAGE_ENVELOPE_INVALID'' ''header block missing'') (Inr headers)
      else if stripped \<noteq> [] \<and> \<not> (starts_with '' '' line \<or> starts_with [CHR 0x09] line) then
        bindE (put_message_header headers line) (\<lambda>r. case r of
          None \<Rightarrow> Inl (refused_for ''MESSAGE_ENVELOPE_INVALID'' ''invalid frontmatter header'')
        | Some headers' \<Rightarrow> metadata_frontmatter headers' lines)
      else metadata_frontmatter headers lines)"

fun metadata_block :: "headers \<Rightarrow> bool \<Rightarrow> string list \<Rightarrow> raised + headers" where
  "metadata_block headers started [] =
     requireE started (refused_for ''MESSAGE_ENVELOPE_INVALID'' ''header block missing'') (Inr headers)"
| "metadata_block headers started (line # lines) =
     (if blank_line line then (if started then Inr headers else metadata_block headers started lines)
      else bindE (put_message_header headers line) (\<lambda>r. case r of
          None \<Rightarrow> requireE started (refused_for ''MESSAGE_ENVELOPE_INVALID'' ''header block missing'') (Inr headers)
        | Some headers' \<Rightarrow> metadata_block headers' True lines))"

definition metadata_headers :: "string \<Rightarrow> raised + headers" where
  "metadata_headers text =
    (let lines = dropWhile blank_line (splitlines text) in
     if lines \<noteq> [] \<and> strip (hd lines) = ''---'' then metadata_frontmatter [] (tl lines)
     else metadata_block [] False (skip_title lines))"

definition parse_message :: "string \<Rightarrow> raised + parsed_message" where
  "parse_message text =
    bindE (metadata_headers text) (\<lambda>headers.
    requireE (header_or_empty headers ''message_id'' \<noteq> [])
      (refused_for ''MESSAGE_ENVELOPE_INVALID'' ''message_id header missing'')
    (requireE (header_or_empty headers ''writer'' \<noteq> []) (refused ''WRITER_MISSING'')
    (Inr \<lparr>pm_message_id = header_or_empty headers ''message_id'', pm_writer = header_or_empty headers ''writer'',
          pm_prev_message_id = (let prev = header_or_empty headers ''prev_message_id'' in if prev = [] then None else Some prev)\<rparr>)))"

section \<open>Arguments\<close>

definition low_or_digit :: "char \<Rightarrow> bool" where
  "low_or_digit c \<longleftrightarrow> is_lower c \<or> is_digit c"

text \<open>\<open>[a-z0-9][a-z0-9_-]*\<close>, and an identity, a hyphen and \<open>[A-Za-z0-9][A-Za-z0-9._-]*\<close>\<close>

definition identity_pattern :: "string \<Rightarrow> bool" where
  "identity_pattern s = (case s of [] \<Rightarrow> False | c # cs \<Rightarrow> low_or_digit c \<and> list_all (\<lambda>c. low_or_digit c \<or> c \<in> set ''_-'') cs)"

definition id_suffix :: "string \<Rightarrow> bool" where
  "id_suffix s = (case s of [] \<Rightarrow> False | c # cs \<Rightarrow> is_alnum c \<and> list_all (\<lambda>c. is_alnum c \<or> c \<in> set ''._-'') cs)"

definition message_id_pattern :: "string \<Rightarrow> bool" where
  "message_id_pattern s \<longleftrightarrow>
     list_ex (\<lambda>i. s ! i = CHR ''-'' \<and> identity_pattern (take i s) \<and> id_suffix (drop (Suc i) s)) [0..<length s]"

definition commit_sha_pattern :: "string \<Rightarrow> bool" where
  "commit_sha_pattern s \<longleftrightarrow> length s = 40 \<and> list_all is_hex s"

definition validate_identity :: "pyval \<Rightarrow> raised + string" where
  "validate_identity v = (case v of
      PStr s \<Rightarrow> requireE (identity_pattern s) (refused ''IDENTITY_UNKNOWN'') (Inr s)
    | _ \<Rightarrow> Inl (refused ''IDENTITY_UNKNOWN''))"

definition validate_expected_head :: "pyval \<Rightarrow> raised + string" where
  "validate_expected_head v = (case v of
      PStr s \<Rightarrow> requireE (commit_sha_pattern s) (refused ''EXPECTED_HEAD_INVALID'') (Inr (lower s))
    | _ \<Rightarrow> Inl (refused ''EXPECTED_HEAD_INVALID''))"

definition validate_message_id :: "string \<Rightarrow> string \<Rightarrow> raised + unit" where
  "validate_message_id identity message_id =
    requireE (message_id_pattern message_id) (refused ''MESSAGE_ID_INVALID'')
    (requireE (starts_with (identity @ ''-'') message_id)
      (refused_for ''MESSAGE_ID_INVALID'' ''message id is not writer-local to logical identity'')
    (Inr ()))"

definition same_binding :: "control_snapshot \<Rightarrow> control_snapshot \<Rightarrow> string \<Rightarrow> bool" where
  "same_binding first second identity \<longleftrightarrow>
     snap_repository first = snap_repository second \<and> snap_topology_digest first = snap_topology_digest second \<and>
     dict_get (snap_lanes first) identity = dict_get (snap_lanes second) identity"

section \<open>The environment and the record of calls\<close>

type_synonym 'a outcome = "raised + 'a"

record 'g append_env =
  read_control :: "'g \<Rightarrow> control_snapshot outcome \<times> 'g"
  read_identity :: "string \<Rightarrow> 'g \<Rightarrow> identity_history outcome \<times> 'g"
  read_branch_head :: "string \<Rightarrow> 'g \<Rightarrow> string option outcome \<times> 'g"
  read_file_at_commit :: "string \<Rightarrow> string \<Rightarrow> 'g \<Rightarrow> file_readback option outcome \<times> 'g"
  read_commit :: "string \<Rightarrow> 'g \<Rightarrow> commit_readback option outcome \<times> 'g"
  create_blob :: "string \<Rightarrow> 'g \<Rightarrow> string outcome \<times> 'g"
  create_tree :: "string \<Rightarrow> string \<Rightarrow> string \<Rightarrow> 'g \<Rightarrow> string outcome \<times> 'g"
  create_commit :: "string \<Rightarrow> string \<Rightarrow> string \<Rightarrow> 'g \<Rightarrow> string outcome \<times> 'g"
  update_ref_non_force :: "string \<Rightarrow> string \<Rightarrow> 'g \<Rightarrow> bool outcome \<times> 'g"
  is_ancestor :: "(string \<Rightarrow> string \<Rightarrow> 'g \<Rightarrow> bool option outcome \<times> 'g) option"
  env_sha256 :: "string \<Rightarrow> string"
  env_decode_error :: "string \<Rightarrow> string"

text \<open>\<open>is_ancestor\<close> is an optional method; its answer \<open>None\<close> is one that is not a \<open>bool\<close>.\<close>

datatype call =
    ReadControl "control_snapshot outcome"
  | ReadIdentity string "identity_history outcome"
  | ReadBranchHead string "string option outcome"
  | ReadFile string string "file_readback option outcome"
  | ReadCommit string "commit_readback option outcome"
  | CreateBlob string "string outcome"
  | CreateTree string string string "string outcome"
  | CreateCommit string string string "string outcome"
  | UpdateRef string string "bool outcome"
  | IsAncestor string string "bool option outcome"

type_synonym ('g, 'a) action = "(raised, call, 'g, 'a) io"

section \<open>Exact text and metadata\<close>

datatype message_input = TextMessage string | BytesMessage string | OtherMessage

definition decode_text :: "'g append_env \<Rightarrow> string \<Rightarrow> raised + string" where
  "decode_text env content =
    (case utf8_decode content of None \<Rightarrow> Inl (OtherError (env_decode_error env content)) | Some t \<Rightarrow> Inr t)"

definition as_exact_utf8 :: "'g append_env \<Rightarrow> message_input \<Rightarrow> raised + string \<times> string" where
  "as_exact_utf8 env message = (case message of
      TextMessage t \<Rightarrow> Inr (t, utf8 t)
    | BytesMessage content \<Rightarrow>
        (case decode_text env content of
           Inl e \<Rightarrow> Inl (refused_from ''MESSAGE_NOT_UTF8'' e)
         | Inr t \<Rightarrow> Inr (t, content))
    | OtherMessage \<Rightarrow> Inl (refused_for ''MESSAGE_NOT_UTF8'' ''message must be str or bytes''))"

section \<open>Steps of an append\<close>

text \<open>The values the steps share.\<close>

record append_request =
  req_control :: control_snapshot
  req_binding :: lane_binding
  req_expected_head :: string
  req_observed_head :: string
  req_parsed :: parsed_message
  req_bytes :: string
  req_digest :: string
  req_operation_key :: string

text \<open>A failed read-back: the message is present but not verified.\<close>

definition unverified :: "string \<Rightarrow> string option \<Rightarrow> raised option \<Rightarrow> raised" where
  "unverified code detail cause = SafeAppendError code READBACK RECONCILE_EFFECT_FIRST PRESENT_UNVERIFIED detail cause"

definition ref_failed :: "string \<Rightarrow> append_effect \<Rightarrow> string option \<Rightarrow> raised option \<Rightarrow> raised" where
  "ref_failed code effect detail cause = SafeAppendError code REF_TRANSITION RECONCILE_EFFECT_FIRST effect detail cause"

definition not_constructed :: "string \<Rightarrow> raised \<Rightarrow> raised" where
  "not_constructed code cause =
     SafeAppendError code OBJECT_CONSTRUCTION RECONCILE_THEN_RETRY NONE_ESTABLISHED (Some (shown cause)) (Some cause)"

definition is_append_error :: "raised \<Rightarrow> bool" where
  "is_append_error e = (case e of SafeAppendError _ _ _ _ _ _ \<Rightarrow> True | _ \<Rightarrow> False)"

definition read_control_preflight :: "'g append_env \<Rightarrow> ('g, control_snapshot) action" where
  "read_control_preflight env =
    raising (\<lambda>e. if is_append_error e then e else refused_from ''TOPOLOGY_UNAVAILABLE'' e) (ask ReadControl (read_control env))"

definition read_control_before_ref :: "'g append_env \<Rightarrow> ('g, control_snapshot) action" where
  "read_control_before_ref env = raising (refused_from ''TOPOLOGY_CHANGED_DURING_APPEND'') (ask ReadControl (read_control env))"

definition read_control_after_verified_effect :: "'g append_env \<Rightarrow> ('g, control_snapshot) action" where
  "read_control_after_verified_effect env =
    raising (\<lambda>e. SafeAppendError ''RECEIPT_INCOMPLETE'' READBACK RECONCILE_EFFECT_FIRST PRESENT_VERIFIED
        (Some (''current topology readback unavailable: '' @ shown e)) (Some e))
      (ask ReadControl (read_control env))"

definition read_history :: "'g append_env \<Rightarrow> string \<Rightarrow> ('g, identity_history) action" where
  "read_history env identity =
    and_then (raising (\<lambda>e. if is_append_error e then e else refused_from ''MESSAGE_ID_HISTORY_UNRESOLVED'' e)
        (ask (ReadIdentity identity) (read_identity env identity))) (\<lambda>history.
    require (hist_complete history) (refused ''MESSAGE_ID_HISTORY_UNRESOLVED'') (give history))"

definition validate_predecessor :: "identity_history \<Rightarrow> parsed_message \<Rightarrow> raised + unit" where
  "validate_predecessor history parsed =
    (let tips = hist_tip_message_ids history in
     requireE (length tips \<le> 1) (refused ''PREDECESSOR_UNRESOLVED'')
     (requireE (hist_messages history = [] \<or> length tips = 1) (refused ''PREDECESSOR_UNRESOLVED'')
     (case tips of
        expected_prev # _ \<Rightarrow>
          (case pm_prev_message_id parsed of
             None \<Rightarrow> Inl (refused ''PREDECESSOR_MISSING'')
           | Some prev \<Rightarrow> requireE (prev = expected_prev) (refused ''PREDECESSOR_MISMATCH'') (Inr ()))
      | [] \<Rightarrow> requireE (pm_prev_message_id parsed = None) (refused ''PREDECESSOR_MISMATCH'') (Inr ()))))"

definition new_blob :: "'g append_env \<Rightarrow> string \<Rightarrow> ('g, string) action" where
  "new_blob env content = raising (not_constructed ''BLOB_CREATE_FAILED'') (ask (CreateBlob content) (create_blob env content))"

definition new_tree :: "'g append_env \<Rightarrow> string \<Rightarrow> string \<Rightarrow> string \<Rightarrow> ('g, string) action" where
  "new_tree env expected_head path blob_sha =
    raising (not_constructed ''TREE_CREATE_FAILED'')
      (ask (CreateTree expected_head path blob_sha) (create_tree env expected_head path blob_sha))"

definition new_commit :: "'g append_env \<Rightarrow> string \<Rightarrow> string \<Rightarrow> string \<Rightarrow> ('g, string) action" where
  "new_commit env message_id tree_sha expected_head =
    (let message = ''bus: append '' @ message_id in
     raising (not_constructed ''COMMIT_CREATE_FAILED'')
      (ask (CreateCommit message tree_sha expected_head) (create_commit env message tree_sha expected_head)))"

definition candidate_reachability :: "'g append_env \<Rightarrow> string \<Rightarrow> string option \<Rightarrow> ('g, bool option) action" where
  "candidate_reachability env candidate_sha head_sha = (case (head_sha, is_ancestor env) of
      (Some head, Some is_anc) \<Rightarrow>
        and_then (observed (ask (IsAncestor candidate_sha head) (is_anc candidate_sha head))) (\<lambda>r.
        give (case r of Inl _ \<Rightarrow> None | Inr answer \<Rightarrow> answer))
    | _ \<Rightarrow> give None)"

definition move_ref_or_reconcile :: "'g append_env \<Rightarrow> string \<Rightarrow> string \<Rightarrow> string \<Rightarrow> ('g, unit) action" where
  "move_ref_or_reconcile env branch candidate_sha expected_head =
    and_then (observed (ask (UpdateRef branch candidate_sha) (update_ref_non_force env branch candidate_sha))) (\<lambda>update.
    and_then (raising (\<lambda>e. ref_failed ''WRITE_OUTCOME_UNKNOWN'' UNKNOWN (Some (shown e)) (Some e))
        (ask (ReadBranchHead branch) (read_branch_head env branch))) (\<lambda>after_update_head.
    case update of
      Inl update_error \<Rightarrow>
        if after_update_head = Some candidate_sha then give ()
        else and_then (candidate_reachability env candidate_sha after_update_head) (\<lambda>reachability.
          if reachability = Some True then
            throw (unverified ''POSTWRITE_HEAD_MISMATCH'' (Some ''candidate became reachable but is no longer lane head'') (Some update_error))
          else if reachability = Some False \<and> after_update_head \<noteq> Some expected_head then
            throw (ref_failed ''REF_UPDATE_STALE'' NONE_ESTABLISHED None (Some update_error))
          else throw (ref_failed ''WRITE_OUTCOME_UNKNOWN'' UNKNOWN (Some (shown update_error)) (Some update_error)))
    | Inr moved \<Rightarrow>
        if moved \<or> after_update_head = Some candidate_sha then give ()
        else if after_update_head \<noteq> Some expected_head then throw (ref_failed ''REF_UPDATE_STALE'' NONE_ESTABLISHED None None)
        else throw (ref_failed ''REF_UPDATE_REJECTED'' NONE_ESTABLISHED None None)))"

text \<open>The metadata of the file read back is parsed again and must be the same.\<close>

definition readback_metadata :: "'g append_env \<Rightarrow> string \<Rightarrow> parsed_message \<Rightarrow> ('g, unit) action" where
  "readback_metadata env content parsed =
    and_then (raising (\<lambda>e. unverified ''POSTWRITE_METADATA_MISMATCH'' (Some (shown e)) (Some e))
        (lift_result (bindE (decode_text env content) parse_message))) (\<lambda>readback_parsed.
    require (readback_parsed = parsed) (unverified ''POSTWRITE_METADATA_MISMATCH'' None None) (give ()))"

definition receipt_schema :: string where "receipt_schema = ''RADAR_SAFE_LANE_APPEND_RECEIPT_V1''"
definition not_established :: string where "not_established = ''NOT_ESTABLISHED''"

definition reconstruct_existing :: "'g append_env \<Rightarrow> append_request \<Rightarrow> committed_message \<Rightarrow> ('g, append_receipt) action" where
  "reconstruct_existing env req existing =
    and_then (ask (ReadCommit (cm_commit_sha existing)) (read_commit env (cm_commit_sha existing))) (\<lambda>commit.
    and_then (ask (ReadFile (cm_commit_sha existing) (cm_path existing)) (read_file_at_commit env (cm_commit_sha existing) (cm_path existing))) (\<lambda>record.
    case (commit, record) of
      (Some c, Some f) \<Rightarrow>
        require (length (rb_parent_shas c) = 1 \<and> cm_path existing \<in> set (rb_changed_paths c)) (unverified ''RECEIPT_INCOMPLETE'' None None)
        (require (file_content f = req_bytes req \<and> env_sha256 env (file_content f) = req_digest req) (unverified ''POSTWRITE_CONTENT_MISMATCH'' None None)
        (require (cm_blob_sha existing = [] \<or> cm_blob_sha existing = file_blob_sha f)
          (unverified ''RECEIPT_INCOMPLETE'' (Some ''history blob differs from Git readback'') None)
        (and_then (readback_metadata env (file_content f) (req_parsed req)) (\<lambda>_.
         and_then (read_control_after_verified_effect env) (\<lambda>final_control.
         let binding = req_binding req;
             lane_used = (case cm_branch existing of None \<Rightarrow> bind_branch binding | Some b \<Rightarrow> if b = [] then bind_branch binding else b);
             current_lane = (case dict_get (snap_lanes final_control) (bind_identity binding) of None \<Rightarrow> False | Some final \<Rightarrow> bind_branch final = lane_used) in
         give \<lparr>rcpt_schema = receipt_schema, rcpt_result = ''ALREADY_COMMITTED'', rcpt_operation_key = req_operation_key req,
               rcpt_identity = bind_identity binding, rcpt_derived_writer = bind_writer binding, rcpt_asserted_writer = pm_writer (req_parsed req),
               rcpt_lane_ref = lane_used, rcpt_control_commit_sha = snap_commit_sha (req_control req),
               rcpt_topology_blob_sha = snap_topology_digest (req_control req), rcpt_expected_lane_head = req_expected_head req,
               rcpt_prewrite_observed_head = req_observed_head req, rcpt_commit_sha = cm_commit_sha existing,
               rcpt_commit_parent_sha = hd (rb_parent_shas c), rcpt_postwrite_observed_head = req_observed_head req,
               rcpt_tree_sha = rb_tree_sha c, rcpt_path = cm_path existing, rcpt_message_id = pm_message_id (req_parsed req),
               rcpt_prev_message_id = pm_prev_message_id (req_parsed req), rcpt_message_blob_sha = file_blob_sha f,
               rcpt_message_sha256 = req_digest req, rcpt_readback_verified = True, rcpt_current_lane_after_readback = current_lane,
               rcpt_projection_state = not_established, rcpt_delivery_state = not_established, rcpt_incorporation_state = not_established\<rparr>)))))
    | _ \<Rightarrow> throw (unverified ''RECEIPT_INCOMPLETE'' None None)))"

definition verify_new_append :: "'g append_env \<Rightarrow> append_request \<Rightarrow> string \<Rightarrow> string \<Rightarrow> string \<Rightarrow> string \<Rightarrow> ('g, append_receipt) action" where
  "verify_new_append env req candidate_sha tree_sha path blob_sha =
    (let branch = bind_branch (req_binding req) in
     and_then (raising (\<lambda>e. unverified ''POSTWRITE_HEAD_MISMATCH'' (Some (shown e)) (Some e))
        (ask (ReadBranchHead branch) (read_branch_head env branch))) (\<lambda>head.
     require (head = Some candidate_sha) (unverified ''POSTWRITE_HEAD_MISMATCH'' None None)
     (and_then (ask (ReadCommit candidate_sha) (read_commit env candidate_sha)) (\<lambda>commit. case commit of
        None \<Rightarrow> throw (unverified ''POSTWRITE_COMMIT_SHAPE_MISMATCH'' None None)
      | Some c \<Rightarrow>
        require (rb_parent_shas c = [req_expected_head req] \<and> rb_tree_sha c = tree_sha) (unverified ''POSTWRITE_COMMIT_SHAPE_MISMATCH'' None None)
        (require (rb_changed_paths c = [path]) (unverified ''POSTWRITE_PATH_MISMATCH'' None None)
        (and_then (ask (ReadFile candidate_sha path) (read_file_at_commit env candidate_sha path)) (\<lambda>record. case record of
           None \<Rightarrow> throw (unverified ''POSTWRITE_PATH_MISMATCH'' None None)
         | Some f \<Rightarrow>
           require (file_content f = req_bytes req \<and> file_blob_sha f = blob_sha \<and> env_sha256 env (file_content f) = req_digest req)
             (unverified ''POSTWRITE_CONTENT_MISMATCH'' None None)
           (and_then (readback_metadata env (file_content f) (req_parsed req)) (\<lambda>_.
            and_then (read_control_after_verified_effect env) (\<lambda>final_control.
            let binding = req_binding req;
                current_lane = (case dict_get (snap_lanes final_control) (bind_identity binding) of None \<Rightarrow> False | Some final \<Rightarrow> bind_branch final = branch) in
            give \<lparr>rcpt_schema = receipt_schema, rcpt_result = ''APPENDED'', rcpt_operation_key = req_operation_key req,
                  rcpt_identity = bind_identity binding, rcpt_derived_writer = bind_writer binding, rcpt_asserted_writer = pm_writer (req_parsed req),
                  rcpt_lane_ref = branch, rcpt_control_commit_sha = snap_commit_sha (req_control req),
                  rcpt_topology_blob_sha = snap_topology_digest (req_control req), rcpt_expected_lane_head = req_expected_head req,
                  rcpt_prewrite_observed_head = req_observed_head req, rcpt_commit_sha = candidate_sha,
                  rcpt_commit_parent_sha = req_expected_head req, rcpt_postwrite_observed_head = candidate_sha,
                  rcpt_tree_sha = tree_sha, rcpt_path = path, rcpt_message_id = pm_message_id (req_parsed req),
                  rcpt_prev_message_id = pm_prev_message_id (req_parsed req), rcpt_message_blob_sha = file_blob_sha f,
                  rcpt_message_sha256 = req_digest req, rcpt_readback_verified = True, rcpt_current_lane_after_readback = current_lane,
                  rcpt_projection_state = not_established, rcpt_delivery_state = not_established,
                  rcpt_incorporation_state = not_established\<rparr>))))))))))"

section \<open>The append\<close>

definition message_path_of :: "string \<Rightarrow> string" where
  "message_path_of message_id = ''messages/'' @ message_id @ ''.md''"

text \<open>From the head comparison on: a message the history does not hold.\<close>

definition append_new :: "'g append_env \<Rightarrow> string \<Rightarrow> append_request \<Rightarrow> identity_history \<Rightarrow> ('g, append_receipt) action" where
  "append_new env identity req history =
    (let expected_head = req_expected_head req; parsed = req_parsed req; path = message_path_of (pm_message_id parsed) in
     require (lower (req_observed_head req) = expected_head) (refused ''STALE_LANE_HEAD'')
     (and_then (lift_result (validate_predecessor history parsed)) (\<lambda>_.
      and_then (raising (refused_from ''MESSAGE_PATH_COLLISION'') (ask (ReadFile expected_head path) (read_file_at_commit env expected_head path))) (\<lambda>preexisting.
      require (preexisting = None) (refused ''MESSAGE_PATH_COLLISION'')
      (and_then (new_blob env (req_bytes req)) (\<lambda>blob_sha.
       and_then (new_tree env expected_head path blob_sha) (\<lambda>tree_sha.
       and_then (new_commit env (pm_message_id parsed) tree_sha expected_head) (\<lambda>candidate_sha.
       and_then (read_control_before_ref env) (\<lambda>rebound.
       require (same_binding (req_control req) rebound identity) (refused ''TOPOLOGY_CHANGED_DURING_APPEND'')
       (and_then (move_ref_or_reconcile env (bind_branch (req_binding req)) candidate_sha expected_head) (\<lambda>_.
        verify_new_append env req candidate_sha tree_sha path blob_sha)))))))))))"

definition append_to_lane :: "'g append_env \<Rightarrow> string \<Rightarrow> append_request \<Rightarrow> ('g, append_receipt) action" where
  "append_to_lane env identity req =
    and_then (read_history env identity) (\<lambda>history.
    case filter (\<lambda>item. cm_message_id item = pm_message_id (req_parsed req)) (hist_messages history) of
      [] \<Rightarrow> append_new env identity req history
    | [existing] \<Rightarrow> require (cm_message_sha256 existing = req_digest req) (refused ''MESSAGE_ID_COLLISION'')
        (reconstruct_existing env req existing)
    | _ \<Rightarrow> throw (refused ''MESSAGE_ID_COLLISION''))"

definition append_bus_message_v1 :: "'g append_env \<Rightarrow> pyval \<Rightarrow> pyval \<Rightarrow> message_input \<Rightarrow> ('g, append_receipt) action" where
  "append_bus_message_v1 env identity_arg expected_arg message =
    and_then (lift_result (validate_identity identity_arg)) (\<lambda>identity.
    and_then (lift_result (validate_expected_head expected_arg)) (\<lambda>expected_head.
    and_then (lift_result (as_exact_utf8 env message)) (\<lambda>(text, content).
    and_then (lift_result (parse_message text)) (\<lambda>parsed.
    and_then (lift_result (validate_message_id identity (pm_message_id parsed))) (\<lambda>_.
    let digest = env_sha256 env content;
        operation_key = ''radar-safe-append-v1:'' @ identity @ '':'' @ pm_message_id parsed @ '':'' @ digest in
    and_then (read_control_preflight env) (\<lambda>control. case dict_get (snap_lanes control) identity of
      None \<Rightarrow> throw (refused ''IDENTITY_UNKNOWN'')
    | Some binding \<Rightarrow>
        require (bind_identity binding = identity) (refused ''TOPOLOGY_IDENTITY_AMBIGUOUS'')
        (require (casefold (pm_writer parsed) = casefold (bind_writer binding)) (refused ''WRITER_MISMATCH'')
        (and_then (raising (refused_from ''LANE_UNREGISTERED'')
            (ask (ReadBranchHead (bind_branch binding)) (read_branch_head env (bind_branch binding)))) (\<lambda>head. case head of
           None \<Rightarrow> throw (refused ''LANE_MISSING_BOOTSTRAP_REQUIRED'')
         | Some observed_head \<Rightarrow>
             append_to_lane env identity \<lparr>req_control = control, req_binding = binding, req_expected_head = expected_head,
               req_observed_head = observed_head, req_parsed = parsed, req_bytes = content, req_digest = digest,
               req_operation_key = operation_key\<rparr>)))))))))"

section \<open>The branch-bound append\<close>

definition exact_text :: "message_input \<Rightarrow> raised + string" where
  "exact_text message = (case message of
      TextMessage t \<Rightarrow> Inr t
    | BytesMessage content \<Rightarrow>
        (case utf8_decode content of None \<Rightarrow> Inl (BranchBindingError ''MESSAGE_NOT_UTF8'' None) | Some t \<Rightarrow> Inr t)
    | OtherMessage \<Rightarrow> Inl (BranchBindingError ''MESSAGE_NOT_UTF8'' None))"

text \<open>The control source that compares the declared branch on every read; \<open>q\<close> is \<open>repr\<close> of a text.\<close>

definition checked_control :: "(string \<Rightarrow> string) \<Rightarrow> string \<Rightarrow> string \<Rightarrow> ('g \<Rightarrow> control_snapshot outcome \<times> 'g) \<Rightarrow> 'g \<Rightarrow> control_snapshot outcome \<times> 'g" where
  "checked_control q identity declared_branch source g = (case source g of
      (Inl e, t) \<Rightarrow> (Inl e, t)
    | (Inr snapshot, t) \<Rightarrow>
        (case dict_get (snap_lanes snapshot) identity of
           None \<Rightarrow> (Inr snapshot, t)
         | Some binding \<Rightarrow>
             if bind_branch binding \<noteq> declared_branch
             then (Inl (BranchBindingError ''WRITER_BRANCH_MISMATCH''
                    (Some (''declared='' @ q declared_branch @ '', topology='' @ q (bind_branch binding)))), t)
             else (Inr snapshot, t)))"

definition unwrap_branch_binding_cause :: "raised \<Rightarrow> raised" where
  "unwrap_branch_binding_cause e = (case e of
      SafeAppendError code phase retry effect detail (Some (BranchBindingError c d)) \<Rightarrow>
        if code = ''TOPOLOGY_UNAVAILABLE'' \<and> effect = NONE_ESTABLISHED then BranchBindingError c d else e
    | _ \<Rightarrow> e)"

definition branch_bound_append ::
  "(string \<Rightarrow> string) \<Rightarrow> 'g append_env \<Rightarrow> pyval \<Rightarrow> pyval \<Rightarrow> message_input \<Rightarrow> ('g, append_receipt) action" where
  "branch_bound_append q env identity_arg expected_arg message =
    and_then (lift_result (bindE (exact_text message) metadata_headers)) (\<lambda>headers.
    let declared_branch = header_or_empty headers ''writer_branch'' in
    require (declared_branch \<noteq> []) (BranchBindingError ''WRITER_BRANCH_MISSING'' None)
    (raising unwrap_branch_binding_cause
      (append_bus_message_v1 (env\<lparr>read_control := checked_control q (text_of identity_arg) declared_branch (read_control env)\<rparr>)
        identity_arg expected_arg message)))"

section \<open>What each step records\<close>

text \<open>Calls that only read, and calls that move a ref.\<close>

fun is_read :: "call \<Rightarrow> bool" where
  "is_read (CreateBlob _ _) = False"
| "is_read (CreateTree _ _ _ _) = False"
| "is_read (CreateCommit _ _ _ _) = False"
| "is_read (UpdateRef _ _ _) = False"
| "is_read _ = True"

fun moves_ref :: "call \<Rightarrow> bool" where
  "moves_ref (UpdateRef _ _ _) = True"
| "moves_ref _ = False"

definition no_move :: "call list \<Rightarrow> bool" where
  "no_move cs \<longleftrightarrow> list_all (\<lambda>c. \<not> moves_ref c) cs"

lemma no_move_simps [simp]: "no_move []" "no_move (c # cs) \<longleftrightarrow> \<not> moves_ref c \<and> no_move cs" "no_move (cs @ ds) \<longleftrightarrow> no_move cs \<and> no_move ds"
  by (simp_all add: no_move_def)

lemma reads_do_not_move: "list_all is_read cs \<Longrightarrow> no_move cs"
  unfolding no_move_def by (induction cs) (auto elim: is_read.elims)

definition unverified_error :: "raised \<Rightarrow> bool" where
  "unverified_error e \<longleftrightarrow> (\<exists>code effect detail cause. e = SafeAppendError code READBACK RECONCILE_EFFECT_FIRST effect detail cause \<and>
     effect \<in> {PRESENT_VERIFIED, PRESENT_UNVERIFIED})"

lemma unverified_error_simps [simp]:
  "unverified_error (unverified code detail cause)"
  "unverified_error (SafeAppendError code READBACK RECONCILE_EFFECT_FIRST PRESENT_VERIFIED detail cause)"
  by (simp_all add: unverified_error_def unverified_def)

text \<open>An exception of \<open>read_commit\<close> or \<open>read_file_at_commit\<close>, which the read-back passes on as it is.\<close>

definition passed_on :: "call list \<Rightarrow> raised \<Rightarrow> bool" where
  "passed_on cs e \<longleftrightarrow> (\<exists>sha path. cs \<noteq> [] \<and> (last cs = ReadCommit sha (Inl e) \<or> last cs = ReadFile sha path (Inl e)))"

definition read_back :: "append_request \<Rightarrow> string \<Rightarrow> string \<Rightarrow> string \<Rightarrow> string \<Rightarrow> call list \<Rightarrow> append_receipt outcome \<Rightarrow> bool" where
  "read_back req candidate_sha tree_sha path blob_sha cs r \<longleftrightarrow> list_all is_read cs \<and>
    (case r of
       Inl e \<Rightarrow> unverified_error e \<or> passed_on cs e
     | Inr rc \<Rightarrow> (\<exists>c f control. cs = [ReadBranchHead (bind_branch (req_binding req)) (Inr (Some candidate_sha)),
           ReadCommit candidate_sha (Inr (Some c)), ReadFile candidate_sha path (Inr (Some f)), ReadControl (Inr control)] \<and>
         rb_parent_shas c = [req_expected_head req] \<and> rb_tree_sha c = tree_sha \<and> rb_changed_paths c = [path] \<and>
         file_content f = req_bytes req \<and> file_blob_sha f = blob_sha \<and>
         rcpt_result rc = ''APPENDED'' \<and> rcpt_commit_sha rc = candidate_sha \<and> rcpt_commit_parent_sha rc = req_expected_head req \<and>
         rcpt_path rc = path \<and> rcpt_lane_ref rc = bind_branch (req_binding req) \<and> rcpt_identity rc = bind_identity (req_binding req) \<and>
         rcpt_derived_writer rc = bind_writer (req_binding req) \<and> rcpt_message_id rc = pm_message_id (req_parsed req) \<and> rcpt_message_sha256 rc = req_digest req \<and>
         rcpt_current_lane_after_readback rc =
           (\<exists>final. dict_get (snap_lanes control) (bind_identity (req_binding req)) = Some final \<and> bind_branch final = bind_branch (req_binding req))))"

lemma readback_metadata_traces:
  "traces (readback_metadata env content parsed)
     (\<lambda>cs r. cs = [] \<and> (\<forall>e. r = Inl e \<longrightarrow> unverified_error e))"
  unfolding readback_metadata_def by (intro trace_rules) simp_all

lemma verify_new_append_traces:
  "traces (verify_new_append env req candidate_sha tree_sha path blob_sha) (read_back req candidate_sha tree_sha path blob_sha)"
  unfolding verify_new_append_def Let_def read_control_after_verified_effect_def
  by (intro trace_rules tr_then [OF readback_metadata_traces])
    (auto simp: read_back_def passed_on_def split: option.splits)

text \<open>An error of the ref transition: what it says about the effect is what the calls showed.\<close>

definition ref_error :: "string \<Rightarrow> string \<Rightarrow> string \<Rightarrow> bool outcome \<Rightarrow> call list \<Rightarrow> raised \<Rightarrow> bool" where
  "ref_error branch candidate_sha expected_head update rest e \<longleftrightarrow>
    (\<exists>code effect detail cause. e = SafeAppendError code REF_TRANSITION RECONCILE_EFFECT_FIRST effect detail cause \<and>
      (effect = UNKNOWN \<or>
       effect = NONE_ESTABLISHED \<and>
        (\<exists>head. head \<noteq> Some candidate_sha \<and>
          (update = Inr False \<and> rest = [ReadBranchHead branch (Inr head)] \<or>
           isl update \<and> (\<exists>h. head = Some h \<and> h \<noteq> expected_head \<and>
             rest = [ReadBranchHead branch (Inr head), IsAncestor candidate_sha h (Inr (Some False))])))))"

definition ref_moved :: "string \<Rightarrow> string \<Rightarrow> string \<Rightarrow> call list \<Rightarrow> unit outcome \<Rightarrow> bool" where
  "ref_moved branch candidate_sha expected_head cs r \<longleftrightarrow>
    (\<exists>update rest. cs = UpdateRef branch candidate_sha update # rest \<and> list_all is_read rest \<and>
      (case r of
         Inl e \<Rightarrow> unverified_error e \<or> ref_error branch candidate_sha expected_head update rest e
       | Inr _ \<Rightarrow> (\<exists>head. rest = [ReadBranchHead branch (Inr head)] \<and> (update = Inr True \<or> head = Some candidate_sha))))"

lemma candidate_reachability_traces:
  "traces (candidate_reachability env candidate_sha head_sha)
     (\<lambda>cs r. \<exists>x. r = Inr x \<and> list_all is_read cs \<and>
        (x = Some False \<longrightarrow> (\<exists>h. head_sha = Some h \<and> cs = [IsAncestor candidate_sha h (Inr (Some False))])))"
  unfolding candidate_reachability_def prod.case
  by (intro trace_rules) (auto split: sum.splits)

lemma move_ref_traces:
  "traces (move_ref_or_reconcile env branch candidate_sha expected_head) (ref_moved branch candidate_sha expected_head)"
  unfolding move_ref_or_reconcile_def
  by (intro trace_rules tr_then [OF candidate_reachability_traces])
    (auto simp: ref_moved_def ref_error_def ref_failed_def)

lemma reconstruct_existing_traces:
  "traces (reconstruct_existing env req existing)
     (\<lambda>cs r. list_all is_read cs \<and> (case r of
        Inl e \<Rightarrow> unverified_error e \<or> passed_on cs e
      | Inr rc \<Rightarrow> (\<exists>c f control. cs = [ReadCommit (cm_commit_sha existing) (Inr (Some c)),
            ReadFile (cm_commit_sha existing) (cm_path existing) (Inr (Some f)), ReadControl (Inr control)] \<and>
          length (rb_parent_shas c) = 1 \<and> cm_path existing \<in> set (rb_changed_paths c) \<and> file_content f = req_bytes req \<and>
          rcpt_result rc = ''ALREADY_COMMITTED'' \<and> rcpt_commit_sha rc = cm_commit_sha existing \<and>
          rcpt_message_id rc = pm_message_id (req_parsed req) \<and> rcpt_message_sha256 rc = req_digest req)))"
  unfolding reconstruct_existing_def Let_def read_control_after_verified_effect_def prod.case
  by (intro trace_rules tr_then [OF readback_metadata_traces]) (auto simp: passed_on_def)

text \<open>An error before the ref is touched.\<close>

definition nothing_moved :: "raised \<Rightarrow> bool" where
  "nothing_moved e \<longleftrightarrow> (\<exists>code phase retry detail cause. e = SafeAppendError code phase retry NONE_ESTABLISHED detail cause \<and>
     phase \<in> {PREFLIGHT, OBJECT_CONSTRUCTION})"

lemma nothing_moved_simps [simp]:
  "nothing_moved (refused code)" "nothing_moved (refused_for code d)" "nothing_moved (refused_from code e)"
  "nothing_moved (not_constructed code e)"
  by (simp_all add: nothing_moved_def refused_def refused_for_def refused_from_def not_constructed_def)

text \<open>An error raised before any ref: such an error, or one of this kind the control or history source itself raised.\<close>

definition early_error :: "call list \<Rightarrow> raised \<Rightarrow> bool" where
  "early_error cs e \<longleftrightarrow> nothing_moved e \<or>
     is_append_error e \<and> (\<exists>identity. cs \<noteq> [] \<and> (last cs = ReadControl (Inl e) \<or> last cs = ReadIdentity identity (Inl e)))"

lemma early_error_simps [simp]:
  "nothing_moved e \<Longrightarrow> early_error cs e"
  "is_append_error e \<Longrightarrow> early_error (cs @ [ReadControl (Inl e)]) e"
  "is_append_error e \<Longrightarrow> early_error (cs @ [ReadIdentity identity (Inl e)]) e"
  by (auto simp: early_error_def)

lemma early_error_Cons: "early_error cs e \<Longrightarrow> early_error (c # cs) e"
  by (auto simp: early_error_def)

lemma nothing_moved_require: "requireE ok x y = Inl e \<Longrightarrow> nothing_moved x \<Longrightarrow> (y = Inl e \<Longrightarrow> nothing_moved e) \<Longrightarrow> nothing_moved e"
  by (auto simp: requireE_def split: if_splits)

lemma put_message_header_error: "put_message_header headers line = Inl e \<Longrightarrow> nothing_moved e"
  by (auto simp: put_message_header_def Let_def requireE_def split: option.splits prod.splits if_splits)

lemma metadata_headers_error: "metadata_headers text = Inl e \<Longrightarrow> nothing_moved e"
proof -
  have "metadata_frontmatter headers lines = Inl e \<Longrightarrow> nothing_moved e" for headers lines
    by (induction headers lines rule: metadata_frontmatter.induct)
      (auto simp: Let_def requireE_def bindE_def put_message_header_error split: if_splits sum.splits option.splits)
  moreover have "metadata_block headers started lines = Inl e \<Longrightarrow> nothing_moved e" for headers started lines
    by (induction headers started lines rule: metadata_block.induct)
      (auto simp: requireE_def bindE_def put_message_header_error split: if_splits sum.splits option.splits)
  ultimately show "metadata_headers text = Inl e \<Longrightarrow> nothing_moved e"
    by (auto simp: metadata_headers_def Let_def split: if_splits)
qed

lemma argument_errors:
  "validate_identity v = Inl e \<Longrightarrow> nothing_moved e"
  "validate_expected_head v = Inl e \<Longrightarrow> nothing_moved e"
  "as_exact_utf8 env message = Inl e \<Longrightarrow> nothing_moved e"
  "parse_message text = Inl e \<Longrightarrow> nothing_moved e"
  "validate_message_id identity mid = Inl e \<Longrightarrow> nothing_moved e"
  by (auto simp: validate_identity_def validate_expected_head_def as_exact_utf8_def parse_message_def validate_message_id_def
      requireE_def bindE_def metadata_headers_error split: pyval.splits if_splits message_input.splits sum.splits)

definition predecessor_ok :: "identity_history \<Rightarrow> parsed_message \<Rightarrow> bool" where
  "predecessor_ok history parsed \<longleftrightarrow>
     hist_tip_message_ids history = (case pm_prev_message_id parsed of None \<Rightarrow> [] | Some prev \<Rightarrow> [prev]) \<and>
     (hist_messages history \<noteq> [] \<longrightarrow> hist_tip_message_ids history \<noteq> [])"

lemma validate_predecessor_cases:
  obtains "validate_predecessor history parsed = Inr ()" "predecessor_ok history parsed"
  | e where "validate_predecessor history parsed = Inl e" "nothing_moved e" "\<not> predecessor_ok history parsed"
proof (cases "hist_tip_message_ids history")
  case Nil
  then show ?thesis
    using that by (cases "hist_messages history"; cases "pm_prev_message_id parsed")
      (auto simp: validate_predecessor_def predecessor_ok_def)
next
  case (Cons tip tips)
  then show ?thesis
    using that by (cases tips; cases "pm_prev_message_id parsed")
      (auto simp: validate_predecessor_def predecessor_ok_def requireE_def split: if_splits)
qed

text \<open>The calls up to the ref update, and the whole trace of a new append.\<close>

definition construction :: "append_request \<Rightarrow> string \<Rightarrow> string \<Rightarrow> string \<Rightarrow> control_snapshot \<Rightarrow> call list" where
  "construction req blob_sha tree_sha candidate_sha rebound =
    (let head = req_expected_head req; path = message_path_of (pm_message_id (req_parsed req)) in
     [ReadFile head path (Inr None), CreateBlob (req_bytes req) (Inr blob_sha), CreateTree head path blob_sha (Inr tree_sha),
      CreateCommit (''bus: append '' @ pm_message_id (req_parsed req)) tree_sha head (Inr candidate_sha), ReadControl (Inr rebound)])"

definition new_append :: "string \<Rightarrow> append_request \<Rightarrow> identity_history \<Rightarrow> call list \<Rightarrow> append_receipt outcome \<Rightarrow> bool" where
  "new_append identity req history cs r \<longleftrightarrow>
    (\<exists>blob_sha tree_sha candidate_sha rebound update rest.
      cs = construction req blob_sha tree_sha candidate_sha rebound @ UpdateRef (bind_branch (req_binding req)) candidate_sha update # rest \<and>
      lower (req_observed_head req) = req_expected_head req \<and> predecessor_ok history (req_parsed req) \<and>
      same_binding (req_control req) rebound identity \<and> list_all is_read rest \<and>
      (case r of
         Inl e \<Rightarrow> unverified_error e \<or> passed_on cs e \<or>
           ref_error (bind_branch (req_binding req)) candidate_sha (req_expected_head req) update rest e
       | Inr rc \<Rightarrow> (\<exists>head rest'. rest = ReadBranchHead (bind_branch (req_binding req)) (Inr head) # rest' \<and>
           read_back req candidate_sha tree_sha (message_path_of (pm_message_id (req_parsed req))) blob_sha rest' r)))"

lemma new_append_failed:
  assumes "lower (req_observed_head req) = req_expected_head req" "predecessor_ok history (req_parsed req)"
    and "same_binding (req_control req) rebound identity"
    and "ref_moved (bind_branch (req_binding req)) candidate_sha (req_expected_head req) cs (Inl e)"
  shows "new_append identity req history (construction req blob_sha tree_sha candidate_sha rebound @ cs) (Inl e)"
proof -
  obtain update rest where cs: "cs = UpdateRef (bind_branch (req_binding req)) candidate_sha update # rest" "list_all is_read rest"
      "unverified_error e \<or> ref_error (bind_branch (req_binding req)) candidate_sha (req_expected_head req) update rest e"
    using assms(4) by (auto simp: ref_moved_def)
  show ?thesis
    unfolding new_append_def using assms(1-3) cs
    by (intro exI [of _ blob_sha] exI [of _ tree_sha] exI [of _ candidate_sha] exI [of _ rebound] exI [of _ update] exI [of _ rest]) auto
qed

lemma new_append_moved:
  assumes "lower (req_observed_head req) = req_expected_head req" "predecessor_ok history (req_parsed req)"
    and "same_binding (req_control req) rebound identity"
    and moved: "ref_moved (bind_branch (req_binding req)) candidate_sha (req_expected_head req) cs (Inr ())"
    and verified: "read_back req candidate_sha tree_sha (message_path_of (pm_message_id (req_parsed req))) blob_sha cs' r"
  shows "new_append identity req history (construction req blob_sha tree_sha candidate_sha rebound @ cs @ cs') r"
proof -
  obtain update head where cs: "cs = [UpdateRef (bind_branch (req_binding req)) candidate_sha update, ReadBranchHead (bind_branch (req_binding req)) (Inr head)]"
    using moved by (auto simp: ref_moved_def)
  have reads: "list_all is_read cs'"
    using verified by (simp add: read_back_def)
  have "case r of Inl e \<Rightarrow> unverified_error e \<or> passed_on (construction req blob_sha tree_sha candidate_sha rebound @ cs @ cs') e
      | Inr rc \<Rightarrow> True"
    using verified by (auto simp: read_back_def passed_on_def split: sum.splits)
  then show ?thesis
    unfolding new_append_def using assms(1-3) verified reads
    by (intro exI [of _ blob_sha] exI [of _ tree_sha] exI [of _ candidate_sha] exI [of _ rebound] exI [of _ update]
        exI [of _ "ReadBranchHead (bind_branch (req_binding req)) (Inr head) # cs'"])
      (auto simp: cs split: sum.splits)
qed

lemma append_new_traces:
  "traces (append_new env identity req history)
     (\<lambda>cs r. no_move cs \<and> (\<exists>e. r = Inl e \<and> nothing_moved e) \<or> new_append identity req history cs r)"
  unfolding append_new_def Let_def new_blob_def new_tree_def new_commit_def read_control_before_ref_def
proof (intro trace_rules tr_then [OF move_ref_traces] tr_weaken [OF verify_new_append_traces], simp_all, goal_cases)
  case (1 e)
  then show ?case
    by (cases rule: validate_predecessor_cases [of history "req_parsed req"]) auto
next
  case (2 aa ab ac ad ae cs e)
  then have "predecessor_ok history (req_parsed req)"
    by (cases rule: validate_predecessor_cases [of history "req_parsed req"]) auto
  then show ?case
    using 2 new_append_failed [of req history ae identity ad cs e ab ac] by (simp add: construction_def Let_def)
next
  case (3 aa ab ac ad ae cs csa r)
  then have "predecessor_ok history (req_parsed req)"
    by (cases rule: validate_predecessor_cases [of history "req_parsed req"]) auto
  then show ?case
    using 3 new_append_moved [of req history ae identity ad cs ac ab csa r] by (simp add: construction_def Let_def)
qed

section \<open>The whole append\<close>

definition same_id :: "identity_history \<Rightarrow> parsed_message \<Rightarrow> committed_message list" where
  "same_id history parsed = filter (\<lambda>item. cm_message_id item = pm_message_id parsed) (hist_messages history)"

lemma same_id_Nil: "same_id history parsed = [] \<longleftrightarrow> (\<forall>m \<in> set (hist_messages history). cm_message_id m \<noteq> pm_message_id parsed)"
  by (auto simp: same_id_def filter_empty_conv)

lemma tr_single [trace_rules]:
  "(xs = [] \<Longrightarrow> traces m Q) \<Longrightarrow> (\<And>x. xs = [x] \<Longrightarrow> traces (f x) Q) \<Longrightarrow> (\<And>x y zs. xs = x # y # zs \<Longrightarrow> traces n Q) \<Longrightarrow>
     traces (case xs of [] \<Rightarrow> m | [x] \<Rightarrow> f x | x # y # zs \<Rightarrow> n) Q"
  by (cases xs rule: remdups_adj.cases) simp_all

definition replayed :: "append_request \<Rightarrow> committed_message \<Rightarrow> call list \<Rightarrow> append_receipt outcome \<Rightarrow> bool" where
  "replayed req existing cs r \<longleftrightarrow> list_all is_read cs \<and> cm_message_sha256 existing = req_digest req \<and> (case r of
      Inl e \<Rightarrow> unverified_error e \<or> passed_on cs e
    | Inr rc \<Rightarrow> (\<exists>c f control. cs = [ReadCommit (cm_commit_sha existing) (Inr (Some c)),
          ReadFile (cm_commit_sha existing) (cm_path existing) (Inr (Some f)), ReadControl (Inr control)] \<and>
        length (rb_parent_shas c) = 1 \<and> cm_path existing \<in> set (rb_changed_paths c) \<and> file_content f = req_bytes req \<and>
        rcpt_result rc = ''ALREADY_COMMITTED'' \<and> rcpt_commit_sha rc = cm_commit_sha existing \<and>
        rcpt_message_id rc = pm_message_id (req_parsed req) \<and> rcpt_message_sha256 rc = req_digest req))"

definition lane_appended :: "string \<Rightarrow> append_request \<Rightarrow> identity_history \<Rightarrow> call list \<Rightarrow> append_receipt outcome \<Rightarrow> bool" where
  "lane_appended identity req history cs r \<longleftrightarrow> hist_complete history \<and>
    (case same_id history (req_parsed req) of
       [] \<Rightarrow> no_move cs \<and> (\<exists>e. r = Inl e \<and> nothing_moved e) \<or> new_append identity req history cs r
     | [existing] \<Rightarrow> cs = [] \<and> (\<exists>e. r = Inl e \<and> nothing_moved e) \<or> replayed req existing cs r
     | _ \<Rightarrow> cs = [] \<and> (\<exists>e. r = Inl e \<and> nothing_moved e))"

text \<open>A run that ended before the history was known.\<close>

definition stopped_early :: "call list \<Rightarrow> 'a outcome \<Rightarrow> bool" where
  "stopped_early cs r \<longleftrightarrow> list_all is_read cs \<and> (\<exists>e. r = Inl e \<and> early_error cs e)"

lemma stopped_early_Inl [simp]: "stopped_early cs (Inl e) \<longleftrightarrow> list_all is_read cs \<and> early_error cs e"
  by (simp add: stopped_early_def)

lemma stopped_early_Inr [simp]: "\<not> stopped_early cs (Inr a)"
  by (simp add: stopped_early_def)

lemma stopped_early_Cons: "stopped_early cs r \<Longrightarrow> is_read c \<Longrightarrow> stopped_early (c # cs) r"
  by (auto simp: stopped_early_def early_error_Cons)

lemma append_to_lane_traces:
  "traces (append_to_lane env identity req) (\<lambda>cs r.
     stopped_early cs r \<or> (\<exists>history cs'. cs = ReadIdentity identity (Inr history) # cs' \<and> lane_appended identity req history cs' r))"
proof -
  have history: "traces (read_history env identity) (\<lambda>cs r. (isl r \<longrightarrow> stopped_early cs r) \<and>
      (\<forall>history. r = Inr history \<longrightarrow> hist_complete history \<and> cs = [ReadIdentity identity (Inr history)]))"
    unfolding read_history_def by (intro trace_rules) (auto simp: early_error_def)
  show ?thesis
    unfolding append_to_lane_def
    by (rule tr_then [OF history]; (intro trace_rules tr_weaken [OF append_new_traces] tr_weaken [OF reconstruct_existing_traces])?)
      (auto simp: lane_appended_def replayed_def same_id_def)
qed

text \<open>What has been checked when the history is read.\<close>

definition admitted ::
  "'g append_env \<Rightarrow> pyval \<Rightarrow> pyval \<Rightarrow> message_input \<Rightarrow> string \<Rightarrow> append_request \<Rightarrow> bool" where
  "admitted env identity_arg expected_arg message identity req \<longleftrightarrow>
    validate_identity identity_arg = Inr identity \<and> validate_expected_head expected_arg = Inr (req_expected_head req) \<and>
    (\<exists>t. as_exact_utf8 env message = Inr (t, req_bytes req) \<and> parse_message t = Inr (req_parsed req)) \<and>
    validate_message_id identity (pm_message_id (req_parsed req)) = Inr () \<and> req_digest req = env_sha256 env (req_bytes req) \<and>
    dict_get (snap_lanes (req_control req)) identity = Some (req_binding req) \<and> bind_identity (req_binding req) = identity \<and>
    casefold (pm_writer (req_parsed req)) = casefold (bind_writer (req_binding req))"

definition first_reads :: "append_request \<Rightarrow> call list" where
  "first_reads req = [ReadControl (Inr (req_control req)), ReadBranchHead (bind_branch (req_binding req)) (Inr (Some (req_observed_head req)))]"

lemma append_traces:
  "traces (append_bus_message_v1 env identity_arg expected_arg message) (\<lambda>cs r.
     stopped_early cs r \<or>
     (\<exists>identity req history cs'. admitted env identity_arg expected_arg message identity req \<and>
        cs = first_reads req @ ReadIdentity identity (Inr history) # cs' \<and> lane_appended identity req history cs' r))"
  unfolding append_bus_message_v1_def Let_def read_control_preflight_def case_prod_beta
proof (intro trace_rules tr_weaken [OF append_to_lane_traces], simp_all add: early_error_def argument_errors, goal_cases)
  case (1 i x tc parsed control binding head observed_head cs r)
  define req where "req = \<lparr>req_control = control, req_binding = binding, req_expected_head = x, req_observed_head = observed_head,
    req_parsed = parsed, req_bytes = snd tc, req_digest = env_sha256 env (snd tc),
    req_operation_key = ''radar-safe-append-v1:'' @ i @ '':'' @ pm_message_id parsed @ '':'' @ env_sha256 env (snd tc)\<rparr>"
  have "admitted env identity_arg expected_arg message i req"
    using 1(1-8) by (cases tc) (simp add: admitted_def req_def)
  moreover have "first_reads req = [ReadControl (Inr control), ReadBranchHead (bind_branch binding) (Inr (Some observed_head))]"
    by (simp add: first_reads_def req_def)
  moreover have "stopped_early cs r \<or> (\<exists>history cs'. cs = ReadIdentity i (Inr history) # cs' \<and> lane_appended i req history cs' r)"
    using 1(10) by (simp add: req_def)
  ultimately show ?case
    apply -
    apply (erule disjE)
     apply (intro disjI1 stopped_early_Cons; simp)
    apply (elim exE conjE)
    apply (rule disjI2)
    subgoal for history cs'
      by (intro exI [of _ i] exI [of _ req] exI [of _ history] exI [of _ cs']) simp
    done
qed

lemma append_run_cases:
  assumes "append_bus_message_v1 env identity_arg expected_arg message (g, []) = (r, (g', log))"
  obtains (refused) e where "r = Inl e" "list_all is_read log" "early_error log e"
  | (unmoved) identity req history where "admitted env identity_arg expected_arg message identity req" "hist_complete history"
      "same_id history (req_parsed req) = []" "no_move log" "isl r" "\<forall>e. r = Inl e \<longrightarrow> nothing_moved e"
      "\<exists>cs. log = first_reads req @ ReadIdentity identity (Inr history) # cs"
  | (appended) identity req history cs where "admitted env identity_arg expected_arg message identity req" "hist_complete history"
      "same_id history (req_parsed req) = []" "log = first_reads req @ ReadIdentity identity (Inr history) # cs"
      "new_append identity req history cs r"
  | (existing) identity req history cs m where "admitted env identity_arg expected_arg message identity req" "hist_complete history"
      "same_id history (req_parsed req) = [m]" "log = first_reads req @ ReadIdentity identity (Inr history) # cs" "replayed req m cs r"
proof -
  have "stopped_early log r \<or> (\<exists>identity req history cs. admitted env identity_arg expected_arg message identity req \<and>
      log = first_reads req @ ReadIdentity identity (Inr history) # cs \<and> lane_appended identity req history cs r)"
    using tracesD [OF append_traces assms] by simp
  then show thesis
  proof (elim disjE exE conjE)
    fix identity req history cs
    assume a: "admitted env identity_arg expected_arg message identity req"
      and l: "log = first_reads req @ ReadIdentity identity (Inr history) # cs" and "lane_appended identity req history cs r"
    then show thesis
    proof (cases "same_id history (req_parsed req)" rule: remdups_adj.cases)
      case 1
      then show ?thesis
        using \<open>lane_appended identity req history cs r\<close> a l appended unmoved
        by (auto simp: lane_appended_def first_reads_def)
    next
      case (2 m)
      then show ?thesis
        using \<open>lane_appended identity req history cs r\<close> a l existing refused
        by (auto simp: lane_appended_def first_reads_def)
    next
      case (3 m n ms)
      then show ?thesis
        using \<open>lane_appended identity req history cs r\<close> l refused by (auto simp: lane_appended_def first_reads_def)
    qed
  qed (use refused in \<open>auto simp: stopped_early_def\<close>)
qed

lemma construction_no_move [simp]: "no_move (construction req blob_sha tree_sha candidate_sha rebound)"
  by (simp add: construction_def Let_def)

lemma first_reads_simps [simp]: "no_move (first_reads req)" "list_all is_read (first_reads req)"
  by (simp_all add: first_reads_def)

lemma in_no_move: "no_move cs \<Longrightarrow> UpdateRef b c u \<notin> set cs"
  by (auto simp: no_move_def list_all_iff)

lemma ref_moved_guarded:
  assumes run: "append_bus_message_v1 env identity_arg expected_arg message (g, []) = (r, (g', log))"
    and update: "UpdateRef branch candidate_sha outcome \<in> set log"
  shows "\<exists>identity req history blob_sha tree_sha rebound rest. admitted env identity_arg expected_arg message identity req \<and>
    hist_complete history \<and> (\<forall>m \<in> set (hist_messages history). cm_message_id m \<noteq> pm_message_id (req_parsed req)) \<and>
    predecessor_ok history (req_parsed req) \<and> lower (req_observed_head req) = req_expected_head req \<and>
    same_binding (req_control req) rebound identity \<and> branch = bind_branch (req_binding req) \<and>
    log = first_reads req @ ReadIdentity identity (Inr history) # construction req blob_sha tree_sha candidate_sha rebound @
      UpdateRef branch candidate_sha outcome # rest \<and> list_all is_read rest"
  using run
proof (cases rule: append_run_cases)
  case (appended identity req history cs)
  then obtain blob_sha tree_sha candidate rebound u rest where n:
      "cs = construction req blob_sha tree_sha candidate rebound @ UpdateRef (bind_branch (req_binding req)) candidate u # rest"
      "lower (req_observed_head req) = req_expected_head req" "predecessor_ok history (req_parsed req)"
      "same_binding (req_control req) rebound identity" "list_all is_read rest"
    unfolding new_append_def by blast
  have "UpdateRef branch candidate_sha outcome = UpdateRef (bind_branch (req_binding req)) candidate u"
    using update in_no_move [OF first_reads_simps(1)] in_no_move [OF construction_no_move] in_no_move [OF reads_do_not_move [OF n(5)]]
    unfolding appended(4) n(1) by auto
  then show ?thesis
    using appended(1-4) n same_id_Nil [of history "req_parsed req"]
    by (intro exI [of _ identity] exI [of _ req] exI [of _ history] exI [of _ blob_sha] exI [of _ tree_sha] exI [of _ rebound] exI [of _ rest]) simp
next
  case refused
  then show ?thesis
    using update in_no_move reads_do_not_move by blast
next
  case (unmoved identity req history)
  then show ?thesis
    using update in_no_move by blast
next
  case (existing identity req history cs m)
  then have "no_move log"
    using reads_do_not_move by (auto simp: replayed_def)
  then show ?thesis
    using update in_no_move by blast
qed

text \<open>
  C24: A ref is updated at most once, and only after all checks: a complete history without this
  message id and with the message's predecessor as its tip, the observed head equal to the expected
  one, a free path, a commit built on that head and an unchanged binding; the branch moved is the
  one of the identity's lane.
\<close>

theorem ref_moved_only_when_guarded:
  assumes run: "append_bus_message_v1 env identity_arg expected_arg message (g, []) = (r, (g', log))"
    and update: "UpdateRef branch candidate_sha outcome \<in> set log"
  shows "\<exists>identity req history blob_sha tree_sha rebound rest. admitted env identity_arg expected_arg message identity req \<and>
    hist_complete history \<and> (\<forall>m \<in> set (hist_messages history). cm_message_id m \<noteq> pm_message_id (req_parsed req)) \<and>
    predecessor_ok history (req_parsed req) \<and> lower (req_observed_head req) = req_expected_head req \<and>
    same_binding (req_control req) rebound identity \<and> branch = bind_branch (req_binding req) \<and>
    log = first_reads req @ ReadIdentity identity (Inr history) # construction req blob_sha tree_sha candidate_sha rebound @
      UpdateRef branch candidate_sha outcome # rest \<and> list_all is_read rest"
  using assms by (rule ref_moved_guarded)


text \<open>
  C26: A message the complete history already holds is never written again: only read calls are
  made, and a receipt is ALREADY_COMMITTED for the one commit with the same bytes, read back.
\<close>

theorem replay_never_writes:
  assumes run: "append_bus_message_v1 env identity_arg expected_arg message (g, []) = (r, (g', log))"
    and history: "log = c # d # ReadIdentity identity (Inr history) # later"
    and message: "as_exact_utf8 env message = Inr (t, content)" "parse_message t = Inr parsed"
    and known: "m \<in> set (hist_messages history)" "cm_message_id m = pm_message_id parsed"
  shows "list_all is_read log \<and> (\<forall>rc. r = Inr rc \<longrightarrow> rcpt_result rc = ''ALREADY_COMMITTED'' \<and>
    same_id history parsed = [m] \<and> rcpt_commit_sha rc = cm_commit_sha m \<and> cm_message_sha256 m = env_sha256 env content \<and>
    (\<exists>f. ReadFile (cm_commit_sha m) (cm_path m) (Inr (Some f)) \<in> set log \<and> file_content f = content))"
proof -
  have in_same: "m \<in> set (same_id history parsed)"
    using known by (simp add: same_id_def)
  from run show ?thesis
  proof (cases rule: append_run_cases)
    case refused
    then show ?thesis
      by (auto simp: isl_def)
  next
    case (unmoved identity' req history')
    then have "req_parsed req = parsed" "history' = history"
      using message history by (auto simp: admitted_def first_reads_def)
    then show ?thesis
      using unmoved(3) in_same by simp
  next
    case (appended identity' req history' cs)
    then have "req_parsed req = parsed" "history' = history"
      using message history by (auto simp: admitted_def first_reads_def)
    then show ?thesis
      using appended(3) in_same by simp
  next
    case (existing identity' req history' cs m')
    then have req: "req_parsed req = parsed" "req_bytes req = content" "req_digest req = env_sha256 env content" "history' = history"
      using message history by (auto simp: admitted_def first_reads_def)
    then have "m' = m" "same_id history parsed = [m]"
      using existing(3) in_same by auto
    then show ?thesis
      using existing(4,5) req by (auto simp: replayed_def first_reads_def)
  qed
qed

lemma receipt_verified:
  assumes run: "append_bus_message_v1 env identity_arg expected_arg message (g, []) = (Inr rc, (g', log))"
    and result: "rcpt_result rc = ''APPENDED''"
  shows "\<exists>req blob_sha pre outcome head c f control. log = pre @ [UpdateRef (rcpt_lane_ref rc) (rcpt_commit_sha rc) outcome,
      ReadBranchHead (rcpt_lane_ref rc) (Inr head), ReadBranchHead (rcpt_lane_ref rc) (Inr (Some (rcpt_commit_sha rc))),
      ReadCommit (rcpt_commit_sha rc) (Inr (Some c)), ReadFile (rcpt_commit_sha rc) (rcpt_path rc) (Inr (Some f)), ReadControl (Inr control)] \<and>
    admitted env identity_arg expected_arg message (rcpt_identity rc) req \<and> CreateBlob (req_bytes req) (Inr blob_sha) \<in> set pre \<and>
    rb_parent_shas c = [req_expected_head req] \<and> rcpt_commit_parent_sha rc = req_expected_head req \<and>
    rb_changed_paths c = [rcpt_path rc] \<and> rcpt_path rc = message_path_of (rcpt_message_id rc) \<and>
    file_content f = req_bytes req \<and> file_blob_sha f = blob_sha \<and> rcpt_message_id rc = pm_message_id (req_parsed req) \<and>
    rcpt_message_sha256 rc = env_sha256 env (req_bytes req) \<and> rcpt_derived_writer rc = bind_writer (req_binding req) \<and>
    rcpt_current_lane_after_readback rc = (\<exists>final. dict_get (snap_lanes control) (rcpt_identity rc) = Some final \<and> bind_branch final = rcpt_lane_ref rc)"
  using run
proof (cases rule: append_run_cases)
  case (appended identity req history cs)
  obtain blob_sha tree_sha candidate rebound u rest head rest' where n:
      "cs = construction req blob_sha tree_sha candidate rebound @ UpdateRef (bind_branch (req_binding req)) candidate u # rest"
      "rest = ReadBranchHead (bind_branch (req_binding req)) (Inr head) # rest'"
      "read_back req candidate tree_sha (message_path_of (pm_message_id (req_parsed req))) blob_sha rest' (Inr rc)"
    using appended(5) unfolding new_append_def by auto
  obtain c f control where b: "rest' = [ReadBranchHead (bind_branch (req_binding req)) (Inr (Some candidate)), ReadCommit candidate (Inr (Some c)),
        ReadFile candidate (message_path_of (pm_message_id (req_parsed req))) (Inr (Some f)), ReadControl (Inr control)]"
      "rb_parent_shas c = [req_expected_head req]" "rb_changed_paths c = [message_path_of (pm_message_id (req_parsed req))]"
      "file_content f = req_bytes req" "file_blob_sha f = blob_sha"
      "rcpt_commit_sha rc = candidate" "rcpt_commit_parent_sha rc = req_expected_head req"
      "rcpt_path rc = message_path_of (pm_message_id (req_parsed req))" "rcpt_lane_ref rc = bind_branch (req_binding req)"
      "rcpt_identity rc = bind_identity (req_binding req)" "rcpt_message_id rc = pm_message_id (req_parsed req)"
      "rcpt_message_sha256 rc = req_digest req" "rcpt_derived_writer rc = bind_writer (req_binding req)"
      "rcpt_current_lane_after_readback rc =
        (\<exists>final. dict_get (snap_lanes control) (bind_identity (req_binding req)) = Some final \<and> bind_branch final = bind_branch (req_binding req))"
    using n(3) by (auto simp: read_back_def)
  let ?pre = "first_reads req @ ReadIdentity identity (Inr history) # construction req blob_sha tree_sha candidate rebound"
  have "log = ?pre @ UpdateRef (bind_branch (req_binding req)) candidate u # ReadBranchHead (bind_branch (req_binding req)) (Inr head) # rest'"
    by (simp add: appended(4) n(1,2))
  moreover have "CreateBlob (req_bytes req) (Inr blob_sha) \<in> set ?pre"
    by (simp add: construction_def Let_def)
  moreover have "identity = bind_identity (req_binding req)" "req_digest req = env_sha256 env (req_bytes req)"
    using appended(1) by (simp_all add: admitted_def)
  ultimately show ?thesis
    using appended(1) b
    by (intro exI [of _ req] exI [of _ blob_sha] exI [of _ ?pre] exI [of _ u] exI [of _ head] exI [of _ c] exI [of _ f] exI [of _ control]) simp
next
  case (existing identity req history cs m)
  then show ?thesis
    using result by (auto simp: replayed_def)
qed simp_all

text \<open>
  An APPENDED receipt is true of what was read back after the ref update: the lane's head is the
  receipt's commit, whose only parent is the expected head, whose only changed path is the message's
  own, and whose file holds exactly the message.
\<close>

theorem appended_receipt_verified:
  assumes run: "append_bus_message_v1 env identity_arg expected_arg message (g, []) = (Inr rc, (g', log))"
    and result: "rcpt_result rc = ''APPENDED''"
  shows "\<exists>req blob_sha pre outcome head c f control. log = pre @ [UpdateRef (rcpt_lane_ref rc) (rcpt_commit_sha rc) outcome,
      ReadBranchHead (rcpt_lane_ref rc) (Inr head), ReadBranchHead (rcpt_lane_ref rc) (Inr (Some (rcpt_commit_sha rc))),
      ReadCommit (rcpt_commit_sha rc) (Inr (Some c)), ReadFile (rcpt_commit_sha rc) (rcpt_path rc) (Inr (Some f)), ReadControl (Inr control)] \<and>
    admitted env identity_arg expected_arg message (rcpt_identity rc) req \<and> CreateBlob (req_bytes req) (Inr blob_sha) \<in> set pre \<and>
    rb_parent_shas c = [req_expected_head req] \<and> rcpt_commit_parent_sha rc = req_expected_head req \<and>
    rb_changed_paths c = [rcpt_path rc] \<and> rcpt_path rc = message_path_of (rcpt_message_id rc) \<and>
    file_content f = req_bytes req \<and> file_blob_sha f = blob_sha \<and> rcpt_message_id rc = pm_message_id (req_parsed req) \<and>
    rcpt_message_sha256 rc = env_sha256 env (req_bytes req) \<and> rcpt_derived_writer rc = bind_writer (req_binding req) \<and>
    rcpt_current_lane_after_readback rc = (\<exists>final. dict_get (snap_lanes control) (rcpt_identity rc) = Some final \<and> bind_branch final = rcpt_lane_ref rc)"
  using assms by (rule receipt_verified)

section \<open>A repository with one lane\<close>

text \<open>
  A store whose state is the head of the lane and the content written: an instance of the
  environment in which an append goes through.
\<close>

definition sample_head :: string where "sample_head = replicate 40 (CHR ''a'')"

definition sample_control :: control_snapshot where
  "sample_control = \<lparr>snap_repository = ''r'', snap_commit_sha = ''m'', snap_topology_digest = ''t'',
     snap_lanes = [(''a'', \<lparr>bind_identity = ''a'', bind_writer = ''Alice'', bind_branch = ''lane/a''\<rparr>)]\<rparr>"

definition one_lane :: "committed_message list \<Rightarrow> (string \<times> string) append_env" where
  "one_lane messages = \<lparr>
     read_control = Pair (Inr sample_control),
     read_identity = (\<lambda>i. Pair (Inr \<lparr>hist_complete = True, hist_tip_message_ids = map cm_message_id messages, hist_messages = messages\<rparr>)),
     read_branch_head = (\<lambda>b g. (Inr (Some (fst g)), g)),
     read_file_at_commit = (\<lambda>sha path g. (Inr (if sha = ''c1'' then Some \<lparr>file_blob_sha = ''b1'', file_content = snd g\<rparr> else None), g)),
     read_commit = (\<lambda>sha. Pair (Inr (if sha = ''c1'' then
       Some \<lparr>rb_parent_shas = [sample_head], rb_tree_sha = ''t1'', rb_changed_paths = [''messages/a-1.md'']\<rparr> else None))),
     create_blob = (\<lambda>content g. (Inr ''b1'', (fst g, content))),
     create_tree = (\<lambda>head path blob. Pair (Inr ''t1'')),
     create_commit = (\<lambda>message tree head. Pair (Inr ''c1'')),
     update_ref_non_force = (\<lambda>b sha g. (Inr True, (sha, snd g))),
     is_ancestor = None, env_sha256 = (\<lambda>s. ''d''), env_decode_error = (\<lambda>s. [])\<rparr>"

definition one_message :: message_input where
  "one_message = TextMessage (render_document [(''message_id'', ''a-1''), (''writer'', ''alice'')] ''hi'')"

definition one_content :: string where
  "one_content = render_document [(''message_id'', ''a-1''), (''writer'', ''alice'')] ''hi''"

definition one_run :: "committed_message list \<Rightarrow> append_receipt outcome \<times> (string \<times> string) \<times> call list" where
  "one_run messages = append_bus_message_v1 (one_lane messages) (PStr ''a'') (PStr sample_head) one_message ((sample_head, []), [])"

text \<open>The call goes through and moves the head of the lane to the new commit.\<close>

lemma one_run_value:
  "case one_run [] of (r, g, log) \<Rightarrow> g = (''c1'', one_content) \<and> list_ex ((=) (UpdateRef ''lane/a'' ''c1'' (Inr True))) log \<and>
     (case r of Inl e \<Rightarrow> False | Inr rc \<Rightarrow> rcpt_result rc = ''APPENDED'' \<and> rcpt_commit_sha rc = ''c1'' \<and> rcpt_path rc = ''messages/a-1.md'' \<and>
       rcpt_identity rc = ''a'' \<and> rcpt_derived_writer rc = ''Alice'' \<and> rcpt_message_id rc = ''a-1'')"
  by code_simp

lemma one_run_appends:
  "\<exists>rc. fst (one_run []) = Inr rc \<and> rcpt_result rc = ''APPENDED'' \<and> rcpt_commit_sha rc = ''c1'' \<and> rcpt_path rc = ''messages/a-1.md'' \<and>
       rcpt_identity rc = ''a'' \<and> rcpt_derived_writer rc = ''Alice'' \<and> rcpt_message_id rc = ''a-1''"
  "UpdateRef ''lane/a'' ''c1'' (Inr True) \<in> set (snd (snd (one_run [])))"
  using one_run_value by (auto simp: case_prod_beta list_ex_iff split: sum.splits)

lemma one_run_eq: "append_bus_message_v1 (one_lane ms) (PStr ''a'') (PStr sample_head) one_message ((sample_head, []), []) =
   (fst (one_run ms), (fst (snd (one_run ms)), snd (snd (one_run ms))))"
  unfolding prod.collapse by (rule one_run_def [symmetric])

theorem ref_moved_only_when_guarded_witness:
  "UpdateRef ''lane/a'' ''c1'' (Inr True) \<in> set (snd (snd (one_run []))) \<and>
   (\<exists>req. admitted (one_lane []) (PStr ''a'') (PStr sample_head) one_message ''a'' req \<and> bind_branch (req_binding req) = ''lane/a'')"
proof -
  have m: "UpdateRef ''lane/a'' ''c1'' (Inr True) \<in> set (snd (snd (one_run [])))"
    by (rule one_run_appends)
  obtain identity req where a: "admitted (one_lane []) (PStr ''a'') (PStr sample_head) one_message identity req" "''lane/a'' = bind_branch (req_binding req)"
    using ref_moved_only_when_guarded [OF one_run_eq m] by (elim exE conjE)
  have "validate_identity (PStr ''a'') = Inr ''a''"
    by code_simp
  then have "identity = ''a''"
    using a(1) by (simp add: admitted_def)
  then show ?thesis
    using m a by auto
qed





theorem appended_receipt_verified_witness:
  "\<exists>f. ReadFile ''c1'' ''messages/a-1.md'' (Inr (Some f)) \<in> set (snd (snd (one_run []))) \<and> file_content f = one_content"
proof -
  obtain rc where ok: "fst (one_run []) = Inr rc" "rcpt_result rc = ''APPENDED''"
      and rc: "rcpt_commit_sha rc = ''c1''" "rcpt_path rc = ''messages/a-1.md''"
    using one_run_appends(1) by blast
  note run = one_run_eq [of "[]", unfolded ok(1)]
  obtain req pre outcome head c f control where r: "snd (snd (one_run [])) = pre @ [UpdateRef (rcpt_lane_ref rc) ''c1'' outcome,
      ReadBranchHead (rcpt_lane_ref rc) (Inr head), ReadBranchHead (rcpt_lane_ref rc) (Inr (Some ''c1'')),
      ReadCommit ''c1'' (Inr (Some c)), ReadFile ''c1'' ''messages/a-1.md'' (Inr (Some f)), ReadControl (Inr control)]"
      "admitted (one_lane []) (PStr ''a'') (PStr sample_head) one_message (rcpt_identity rc) req" "file_content f = req_bytes req"
    using appended_receipt_verified [OF run ok(2)] unfolding rc by (elim exE conjE)
  have "as_exact_utf8 (one_lane []) one_message = Inr (one_content, one_content)"
    by code_simp
  then have "req_bytes req = one_content"
    using r(2) by (simp add: admitted_def)
  then show ?thesis
    using r(1,3) by auto
qed

definition known_message :: committed_message where
  "known_message = \<lparr>cm_message_id = ''a-1'', cm_message_sha256 = ''d'', cm_commit_sha = ''c1'', cm_path = ''messages/a-1.md'', cm_blob_sha = ''b1'',
     cm_prev_message_id = None, cm_branch = None\<rparr>"

definition replay_run :: "append_receipt outcome \<times> (string \<times> string) \<times> call list" where
  "replay_run = append_bus_message_v1 (one_lane [known_message]) (PStr ''a'') (PStr sample_head) one_message ((''c1'', one_content), [])"

theorem replay_never_writes_witness:
  "list_all is_read (snd (snd replay_run)) \<and> rcpt_result (projr (fst replay_run)) = ''ALREADY_COMMITTED''"
proof -
  let ?history = "\<lparr>hist_complete = True, hist_tip_message_ids = [''a-1''], hist_messages = [known_message]\<rparr>"
  have "case replay_run of (r, g, log) \<Rightarrow> (case r of Inl e \<Rightarrow> False | Inr rc \<Rightarrow> True) \<and> (case log of c # d # ReadIdentity i (Inr h) # later \<Rightarrow> i = ''a'' \<and> h = ?history | _ \<Rightarrow> False)"
    by code_simp
  then obtain rc g c d later where v: "replay_run = (Inr rc, (g, c # d # ReadIdentity ''a'' (Inr ?history) # later))"
    by (cases replay_run rule: prod_cases3) (auto split: sum.splits list.splits call.splits)
  have content: "as_exact_utf8 (one_lane [known_message]) one_message = Inr (one_content, one_content)"
    by code_simp
  have parsed: "parse_message one_content = Inr (projr (parse_message one_content))"
    by code_simp
  have known: "known_message \<in> set (hist_messages ?history)" "cm_message_id known_message = pm_message_id (projr (parse_message one_content))"
    by code_simp+
  show ?thesis
    using replay_never_writes [OF v [unfolded replay_run_def] refl content parsed known] by (simp add: v)
qed

end
