(* ===== verification/AppendGuard.thy ===== *)
theory AppendGuard
  imports SafeAppend WriterLanes
begin

text \<open>
  The safe append and the guard of the writer lanes together: the appender's own reading of the leading
  metadata agrees with the message grammar, an appended message is one the guard accepts, and the
  branch-bound append moves only the branch its message declares.
\<close>

section \<open>Lines with and without their endings\<close>

definition line_like :: "string \<Rightarrow> bool" where
  "line_like l \<longleftrightarrow> (\<exists>p e. l = p @ e \<and> plain p \<and> list_all is_line_end e)"

lemma line_end_space: "is_line_end c \<Longrightarrow> is_space c"
  by (auto simp: is_line_end_def is_space_def Let_def)

lemma line_end_not_name: "is_line_end c \<Longrightarrow> \<not> name_char c"
  using line_end_space name_char_not_space by blast

lemma split_line_like: "split_line s = (l, r) \<Longrightarrow> line_like l"
proof (induction s arbitrary: l r rule: split_line.induct)
  case 1
  then show ?case
    by (simp add: line_like_def plain_def)
next
  case (2 c cs)
  consider "c = CR \<and> cs \<noteq> [] \<and> hd cs = LF" | "\<not> (c = CR \<and> cs \<noteq> [] \<and> hd cs = LF)" "is_line_end c"
    | "\<not> (c = CR \<and> cs \<noteq> [] \<and> hd cs = LF)" "\<not> is_line_end c"
    by blast
  then show ?case
  proof cases
    case 1
    then have "l = [CR, LF]"
      using 2(2) by simp
    then show ?thesis
      unfolding line_like_def by (intro exI [of _ "[]"] exI [of _ l]) (simp add: plain_def)
  next
    case ends: 2
    then have "l = [c]"
      using 2(2) by (auto split: if_splits)
    then show ?thesis
      unfolding line_like_def using ends(2) by (intro exI [of _ "[]"] exI [of _ l]) (simp add: plain_def)
  next
    case inside: 3
    obtain l' r' where s: "split_line cs = (l', r')"
      by (cases "split_line cs")
    then have "l = c # l'"
      using 2(2) inside by (auto split: if_splits)
    moreover have "line_like l'"
      using 2(1) inside s by metis
    then obtain p e where "l' = p @ e" "plain p" "list_all is_line_end e"
      unfolding line_like_def by blast
    ultimately show ?thesis
      unfolding line_like_def using inside(2) by (intro exI [of _ "c # p"] exI [of _ e]) (simp add: plain_def)
  qed
qed

lemma lines_like: "list_all line_like (splitlines_keep s)"
proof (induction "length s" arbitrary: s rule: less_induct)
  case less
  show ?case
  proof (cases "s = []")
    case False
    obtain l r where split: "split_line s = (l, r)"
      by fastforce
    then have "l @ r = s \<and> l \<noteq> []"
      using split_line_append False by blast
    then have "length r < length s"
      by (cases l) auto
    then show ?thesis
      using less splitlines_step [OF False split] split_line_like [OF split] by simp
  qed simp
qed

lemma chomp_line: "plain p \<Longrightarrow> list_all is_line_end e \<Longrightarrow> chomp (p @ e) = p"
  unfolding chomp_def by (rule takeWhile_run) (auto simp: plain_def list_all_iff split: list.split)

lemma rstrip_append_space: "list_all is_space e \<Longrightarrow> rstrip (p @ e) = rstrip p"
  by (induction e arbitrary: p rule: rev_induct) (simp_all add: rstrip_def)

lemma lstrip_append_space: "list_all is_space e \<Longrightarrow> lstrip (p @ e) = (if lstrip p = [] then [] else lstrip p @ e)"
  by (auto simp: lstrip_def list_all_iff dropWhile_append)

lemma strip_append_space: "list_all is_space e \<Longrightarrow> strip (p @ e) = strip p"
  by (simp add: strip_def lstrip_append_space rstrip_append_space)

lemma spaces: "list_all is_line_end e \<Longrightarrow> list_all is_space e"
  by (auto simp: list_all_iff line_end_space)

lemma chomp_facts:
  assumes "line_like l"
  shows "strip (chomp l) = strip l" "blank_line (chomp l) = blank_line l"
    "starts_with ''#'' (lstrip (chomp l)) = starts_with ''#'' (lstrip l)"
proof -
  obtain p e where l: "l = p @ e" "plain p" "list_all is_line_end e"
    using assms unfolding line_like_def by blast
  have c: "chomp l = p" "list_all is_space e"
    using chomp_line [OF l(2,3)] spaces [OF l(3)] l(1) by auto
  show s: "strip (chomp l) = strip l"
    unfolding c(1) unfolding l(1) by (simp add: strip_append_space c(2))
  then show "blank_line (chomp l) = blank_line l"
    by (simp add: blank_line_def)
  show "starts_with ''#'' (lstrip (chomp l)) = starts_with ''#'' (lstrip l)"
    unfolding c(1) unfolding l(1) lstrip_append_space [OF c(2)] by (cases "lstrip p") simp_all
qed

section \<open>One header line\<close>

lemma unwrap_scalar_strip: "unwrap_scalar (strip v) = unwrap_scalar v"
  by (simp add: unwrap_scalar_def)

lemma strip_crlf_append: "plain p \<Longrightarrow> list_all is_line_end e \<Longrightarrow> \<exists>e'. strip_crlf (p @ e) = p @ e' \<and> list_all is_space e'"
proof (induction e rule: rev_induct)
  case Nil
  then have "\<forall>c \<in> set (rev p). \<not> (c = CR \<or> c = LF)"
    using CR_LF_line_end(1,2) by (auto simp: plain_def)
  then have "dropWhile (\<lambda>c. c = CR \<or> c = LF) (rev p) = rev p"
    by (cases "rev p") simp_all
  then show ?case
    by (simp add: strip_crlf_def)
next
  case (snoc c e)
  show ?case
  proof (cases "c = CR \<or> c = LF")
    case True
    then have "strip_crlf (p @ e @ [c]) = strip_crlf (p @ e)"
      by (simp add: strip_crlf_def)
    then show ?thesis
      using snoc by simp
  next
    case False
    then have "strip_crlf (p @ e @ [c]) = p @ e @ [c]"
      by (simp add: strip_crlf_def)
    then show ?thesis
      using snoc(3) spaces by blast
  qed
qed

lemma name_prefix:
  "list_all is_space e \<Longrightarrow> takeWhile name_char (p @ e) = takeWhile name_char p \<and> dropWhile name_char (p @ e) = dropWhile name_char p @ e"
proof (induction p)
  case Nil
  then have "\<not> name_char (hd e)" if "e \<noteq> []"
    using that name_char_not_space by (cases e) auto
  then show ?case
    by (cases e) auto
qed simp

lemma strip_lstrip: "strip (lstrip s) = strip s"
proof -
  have "dropWhile is_space (dropWhile is_space s) = dropWhile is_space s"
    by (induction s) simp_all
  then show ?thesis
    by (simp add: strip_def lstrip_def)
qed

lemma header_match_scalar:
  assumes "list_all is_space e"
  shows "scalar_match p = None \<Longrightarrow> header_match (p @ e) = None"
    and "scalar_match p = Some (k, v) \<Longrightarrow> \<exists>v'. header_match (p @ e) = Some (k, v') \<and> strip v' = strip v"
proof -
  note parts = name_prefix [OF assms, of p, THEN conjunct1] name_prefix [OF assms, of p, THEN conjunct2]
  have same: "strip (lstrip (cs @ e)) = strip (strip cs)" for cs
    by (simp add: strip_lstrip strip_append_space [OF assms])
  show "scalar_match p = None \<Longrightarrow> header_match (p @ e) = None"
    unfolding scalar_match_def header_match_def Let_def parts lstrip_append_space [OF assms]
    by (cases "lstrip (dropWhile name_char p)") (auto split: if_splits)
  show "scalar_match p = Some (k, v) \<Longrightarrow> \<exists>v'. header_match (p @ e) = Some (k, v') \<and> strip v' = strip v"
    unfolding scalar_match_def header_match_def Let_def parts lstrip_append_space [OF assms] using same
    by (cases "lstrip (dropWhile name_char p)") (auto split: if_splits)
qed

lemma scalar_match_key: "scalar_match p = Some (k, v) \<Longrightarrow> list_all name_char k \<and> k \<noteq> []"
  by (auto simp: scalar_match_def Let_def list_all_iff dest: set_takeWhileD split: if_splits)

lemma header_key_scalar:
  assumes "list_all name_char k"
  shows "header_key k = map (\<lambda>c. if c = CHR ''-'' then CHR ''_'' else c) (casefold k)"
proof -
  have "trimmed k"
    using assms by (auto simp: trimmed_def list_all_iff)
  then show ?thesis
    by (simp add: header_key_def strip_trimmed)
qed

text \<open>The guard stores a line's header exactly as the appender does.\<close>

lemma put_header_same:
  assumes "line_like l"
  shows "put_message_header h (chomp l) = Inr r \<Longrightarrow> put_header h l = Inr r"
proof -
  assume r: "put_message_header h (chomp l) = Inr r"
  obtain p e where l: "l = p @ e" "plain p" "list_all is_line_end e"
    using assms unfolding line_like_def by blast
  obtain e' where e': "strip_crlf l = p @ e'" "list_all is_space e'"
    using strip_crlf_append [OF l(2,3)] l(1) by blast
  have c: "chomp l = p"
    using chomp_line [OF l(2,3)] l(1) by simp
  show "put_header h l = Inr r"
  proof (cases "scalar_match p")
    case None
    then show ?thesis
      using r c header_match_scalar(1) [OF e'(2)] by (simp add: put_header_def put_message_header_def e'(1))
  next
    case (Some kv)
    obtain k v where kv: "kv = (k, v)"
      by fastforce
    then obtain v' where v': "header_match (p @ e') = Some (k, v')" "strip v' = strip v"
      using header_match_scalar(2) [OF e'(2)] Some by blast
    have "unwrap_scalar v' = unwrap_scalar v"
      using v'(2) unwrap_scalar_strip by metis
    then show ?thesis
      using r c Some kv v'(1) header_key_scalar scalar_match_key [of p k v]
      by (auto simp: put_header_def put_message_header_def e'(1) Let_def)
  qed
qed

section \<open>The leading block\<close>

lemma drop_blank_chomp: "list_all line_like ls \<Longrightarrow> dropWhile blank_line (map chomp ls) = map chomp (dropWhile blank_line ls)"
  by (induction ls) (simp_all add: chomp_facts)

lemma metadata_block_lines:
  "metadata_block h started (map chomp ls) = Inr h' \<Longrightarrow> list_all line_like ls \<Longrightarrow> \<exists>r. header_lines h started ls = Inr (h', r)"
proof (induction h started ls rule: header_lines.induct)
  case (2 h started l ls)
  show ?case
  proof (cases "blank_line l")
    case True
    then show ?thesis
      using 2 chomp_facts(2) [of l] by (cases started) auto
  next
    case False
    then obtain r where r: "put_message_header h (chomp l) = Inr r"
      using 2(3,4) chomp_facts(2) [of l] by auto
    then have p: "put_header h l = Inr r"
      using put_header_same 2(4) by simp
    show ?thesis
    proof (cases r)
      case None
      then show ?thesis
        using 2(3,4) False r p chomp_facts(2) [of l] by auto
    next
      case (Some h1)
      then have "metadata_block h1 True (map chomp ls) = Inr h'"
        using 2(3,4) False r chomp_facts(2) [of l] by simp
      then show ?thesis
        using 2(2) [OF False p Some] 2(4) False p Some by simp
    qed
  qed
qed auto

lemma skip_title_chomp: "list_all line_like ls \<Longrightarrow> skip_title (map chomp ls) = map chomp (skip_title ls)"
proof -
  assume ls: "list_all line_like ls"
  have "list_all line_like (dropWhile blank_line ls)"
    using ls by (auto simp: list_all_iff dest: set_dropWhileD)
  moreover define d where "d = dropWhile blank_line ls"
  ultimately show ?thesis
    unfolding skip_title_def drop_blank_chomp [OF ls] d_def [symmetric]
    by (cases d) (simp_all add: chomp_facts drop_blank_chomp)
qed

text \<open>
  In front matter the guard leaves out lines that begin with a hyphen; the appender stores one that has
  the form of a header, under a key that begins with an underscore.
\<close>

definition agree :: "headers \<Rightarrow> headers \<Rightarrow> bool" where
  "agree g h \<longleftrightarrow> (\<forall>k v. dict_get g k = Some v \<longrightarrow> dict_get h k = Some v) \<and>
     (\<forall>k v. dict_get h k = Some v \<longrightarrow> \<not> starts_with ''_'' k \<longrightarrow> dict_get g k = Some v)"

lemma agree_refl [simp]: "agree h h"
  by (simp add: agree_def)

lemma agreeD: "agree g h \<Longrightarrow> dict_get h k = Some v \<Longrightarrow> \<not> starts_with ''_'' k \<Longrightarrow> dict_get g k = Some v"
  unfolding agree_def by blast

lemma agree_entry: "agree g h \<Longrightarrow> dict_get g k = Some v \<Longrightarrow> dict_get h k = Some v"
  unfolding agree_def by blast

lemma agree_new:
  assumes "agree g h" "dict_get h k = None" shows "dict_get g k = None"
proof (cases "dict_get g k")
  case (Some v)
  then have "dict_get h k = Some v"
    by (rule agree_entry [OF assms(1)])
  with assms(2) show ?thesis
    by simp
qed

lemma agreeI:
  "(\<And>x w. dict_get g x = Some w \<Longrightarrow> dict_get h x = Some w) \<Longrightarrow>
   (\<And>x w. dict_get h x = Some w \<Longrightarrow> \<not> starts_with ''_'' x \<Longrightarrow> dict_get g x = Some w) \<Longrightarrow> agree g h"
  unfolding agree_def by blast

lemma agree_both: "agree g h \<Longrightarrow> agree (dict_set g k v) (dict_set h k v)"
proof (rule agreeI)
  fix x w
  assume a: "agree g h"
  show "dict_get (dict_set h k v) x = Some w" if "dict_get (dict_set g k v) x = Some w"
    using that agree_entry [OF a, of x w] by (cases "x = k") simp_all
  show "dict_get (dict_set g k v) x = Some w" if "dict_get (dict_set h k v) x = Some w" "\<not> starts_with ''_'' x"
    using that agreeD [OF a, of x w] by (cases "x = k") simp_all
qed

lemma agree_right: "agree g h \<Longrightarrow> dict_get h k = None \<Longrightarrow> starts_with ''_'' k \<Longrightarrow> agree g (dict_set h k v)"
proof (rule agreeI)
  fix x w
  assume a: "agree g h" "dict_get h k = None" "starts_with ''_'' k"
  show "dict_get (dict_set h k v) x = Some w" if "dict_get g x = Some w"
    using that agree_entry [OF a(1) that] a(2) by (cases "x = k") simp_all
  show "dict_get g x = Some w" if "dict_get (dict_set h k v) x = Some w" "\<not> starts_with ''_'' x"
    using that agreeD [OF a(1), of x w] a(3) by (cases "x = k") simp_all
qed

lemma put_message_header_Some:
  "put_message_header h line = Inr (Some h') \<longleftrightarrow> (\<exists>k v. scalar_match line = Some (k, v) \<and> dict_get h (header_key k) = None \<and>
     h' = dict_set h (header_key k) (unwrap_scalar v))"
  using header_key_scalar scalar_match_key
  by (auto simp: put_message_header_def Let_def split: option.splits)

lemma header_key_dash: "list_all name_char (CHR ''-'' # k) \<Longrightarrow> starts_with ''_'' (header_key (CHR ''-'' # k))"
proof -
  assume "list_all name_char (CHR ''-'' # k)"
  moreover have "fold_char (CHR ''-'') = ''-''"
    by code_simp
  ultimately show ?thesis
    by (simp add: header_key_scalar casefold_Cons)
qed

lemma strip_first: "\<not> is_space c \<Longrightarrow> \<exists>r. strip (c # s) = c # r"
proof -
  assume c: "\<not> is_space c"
  have "\<exists>r. rstrip (c # s) = c # r"
  proof (induction s rule: rev_induct)
    case (snoc d s)
    then show ?case
      using rstrip_append_space [of "[d]" "c # s"] by (cases "is_space d") (auto simp: rstrip_def)
  qed (simp add: rstrip_def c)
  then show ?thesis
    using c by (simp add: strip_def lstrip_def)
qed

lemma scalar_line_first:
  assumes "scalar_match (chomp l) = Some (k, v)" and "line_like l"
  shows "l \<noteq> [] \<and> hd l = hd k \<and> \<not> is_space (hd l) \<and> (\<exists>r. strip l = hd k # r)"
proof -
  obtain p e where l: "l = p @ e" "plain p" "list_all is_line_end e"
    using assms(2) unfolding line_like_def by blast
  then have p: "chomp l = p"
    using chomp_line by simp
  have k: "k = takeWhile name_char p" "list_all name_char k" "k \<noteq> []"
    using assms(1) scalar_match_key [OF assms(1)] unfolding p by (auto simp: scalar_match_def Let_def split: if_splits)
  then obtain c p' where cp: "p = c # p'" "name_char c"
    by (cases p) (auto split: if_splits)
  then show ?thesis
    using k(1) strip_first [of c "p' @ e"] by (simp add: l(1))
qed

lemma metadata_frontmatter_lines:
  "metadata_frontmatter h (map chomp ls) = Inr h' \<Longrightarrow> list_all line_like ls \<Longrightarrow> agree g h \<Longrightarrow>
    dict_get h' k = Some v \<Longrightarrow> \<not> starts_with ''_'' k \<Longrightarrow> \<exists>g' r. frontmatter_lines g ls = Inr (g', r) \<and> agree g' h'"
proof (induction ls arbitrary: g h)
  case (Cons l ls)
  have ll: "line_like l" "strip (chomp l) = strip l"
    using Cons.prems(2) chomp_facts(1) by simp_all
  consider (rule) "strip l = ''---''"
    | (skip) "strip l \<noteq> ''---''" "strip l = [] \<or> starts_with '' '' (chomp l) \<or> starts_with [CHR 0x09] (chomp l)"
    | (header) "strip l \<noteq> ''---''" "strip l \<noteq> []" "\<not> (starts_with '' '' (chomp l) \<or> starts_with [CHR 0x09] (chomp l))"
    by blast
  then show ?case
  proof cases
    case rule
    then have "h' = h"
      using Cons.prems(1) ll by simp
    then have "dict_get g k = Some v"
      using agreeD [OF Cons.prems(3)] Cons.prems(4,5) by blast
    then have "frontmatter_lines g (l # ls) = Inr (g, dropWhile blank_line ls)"
      using rule by (cases g) simp_all
    then show ?thesis
      using Cons.prems(3) \<open>h' = h\<close> by blast
  next
    case skip
    then have rest: "metadata_frontmatter h (map chomp ls) = Inr h'"
      using Cons.prems(1) ll by (auto split: if_splits)
    have "strip l = [] \<or> l \<noteq> [] \<and> is_space (hd l)"
    proof -
      obtain p e where l: "l = p @ e" "plain p" "list_all is_line_end e"
        using ll(1) unfolding line_like_def by blast
      have "is_space (CHR '' '')" "is_space (CHR 0x09)"
        by code_simp+
      then show ?thesis
        using skip(2) chomp_line [OF l(2,3)] l(1) by (cases p) auto
    qed
    then have "frontmatter_lines g (l # ls) = frontmatter_lines g ls"
      using skip(1) by auto
    then show ?thesis
      using Cons.IH [OF rest] Cons.prems(2-5) by simp
  next
    case header
    then obtain h1 where h1: "put_message_header h (chomp l) = Inr (Some h1)" "metadata_frontmatter h1 (map chomp ls) = Inr h'"
      using Cons.prems(1) ll by (auto split: option.splits)
    then obtain key val where kv: "scalar_match (chomp l) = Some (key, val)" "dict_get h (header_key key) = None"
        "h1 = dict_set h (header_key key) (unwrap_scalar val)"
      unfolding put_message_header_Some by blast
    have key: "list_all name_char key" "key \<noteq> []"
      using scalar_match_key [OF kv(1)] by auto
    obtain r where first: "l \<noteq> []" "\<not> is_space (hd l)" "strip l = hd key # r"
      using scalar_line_first [OF kv(1) ll(1)] by auto
    show ?thesis
    proof (cases "hd key = CHR ''-''")
      case True
      then have "starts_with ''_'' (header_key key)"
        using header_key_dash [of "tl key"] key by (cases key) auto
      then have "agree g h1"
        unfolding kv(3) by (rule agree_right [OF Cons.prems(3) kv(2)])
      moreover have "frontmatter_lines g (l # ls) = frontmatter_lines g ls"
        using header(1) first True by simp
      ultimately show ?thesis
        using Cons.IH [OF h1(2)] Cons.prems(2,4,5) by simp
    next
      case False
      have "dict_get g (header_key key) = None"
        by (rule agree_new [OF Cons.prems(3) kv(2)])
      then have "put_message_header g (chomp l) = Inr (Some (dict_set g (header_key key) (unwrap_scalar val)))"
        unfolding put_message_header_Some using kv(1) by blast
      then have put: "put_header g l = Inr (Some (dict_set g (header_key key) (unwrap_scalar val)))"
        by (rule put_header_same [OF ll(1)])
      have "agree (dict_set g (header_key key) (unwrap_scalar val)) h1"
        unfolding kv(3) by (rule agree_both [OF Cons.prems(3)])
      moreover have "frontmatter_lines g (l # ls) = frontmatter_lines (dict_set g (header_key key) (unwrap_scalar val)) ls"
        using header first False put by simp
      ultimately show ?thesis
        using Cons.IH [OF h1(2)] Cons.prems(2,4,5) by simp
    qed
  qed
qed simp

section \<open>What the appender accepts, the grammar reads\<close>

lemma set_skip_title: "set (skip_title ls) \<subseteq> set (dropWhile blank_line ls)"
proof -
  define d where "d = dropWhile blank_line ls"
  show ?thesis
    unfolding skip_title_def d_def [symmetric] by (cases d) (auto dest: set_dropWhileD)
qed

lemma metadata_headers_document:
  assumes meta: "metadata_headers t = Inr h" and some: "dict_get h k = Some v" "\<not> starts_with ''_'' k"
  shows "\<exists>g body. split_document t = Inr (g, body) \<and> agree g h"
proof -
  define ls where "ls = splitlines_keep t"
  have like: "list_all line_like ls"
    unfolding ls_def by (rule lines_like)
  then have like': "list_all line_like (dropWhile blank_line ls)"
    by (auto simp: list_all_iff dest: set_dropWhileD)
  have lines: "dropWhile blank_line (splitlines t) = map chomp (dropWhile blank_line ls)"
    unfolding splitlines_def ls_def [symmetric] by (rule drop_blank_chomp [OF like])
  show ?thesis
  proof (cases "\<exists>first rest. dropWhile blank_line ls = first # rest \<and> strip first = ''---''")
    case True
    then obtain first rest where d: "dropWhile blank_line ls = first # rest" "strip first = ''---''"
      by blast
    then have "metadata_frontmatter [] (map chomp rest) = Inr h" "list_all line_like rest"
      using meta like' chomp_facts(1) [of first] by (simp_all add: metadata_headers_def lines)
    then obtain g r where "frontmatter_lines [] rest = Inr (g, r)" "agree g h"
      using metadata_frontmatter_lines [OF _ _ agree_refl some] by blast
    then show ?thesis
      using d by (simp add: split_document_def ls_def [symmetric] split_frontmatter_def)
  next
    case False
    then have plain_block: "split_frontmatter ls = Inr None"
      by (auto simp: split_frontmatter_def split: list.splits)
    have "metadata_headers t = metadata_block [] False (skip_title (map chomp (dropWhile blank_line ls)))"
      using False like' chomp_facts(1) by (cases "dropWhile blank_line ls") (auto simp: metadata_headers_def lines)
    also have "skip_title (map chomp (dropWhile blank_line ls)) = map chomp (skip_title (dropWhile blank_line ls))"
      by (rule skip_title_chomp [OF like'])
    also have "skip_title (dropWhile blank_line ls) = skip_title ls"
      by (simp add: skip_title_def)
    finally have block: "metadata_block [] False (map chomp (skip_title ls)) = Inr h"
      using meta by simp
    have "list_all line_like (skip_title ls)"
      using like' set_skip_title [of ls] by (auto simp: list_all_iff)
    then obtain r where "header_lines [] False (skip_title ls) = Inr (h, r)"
      using metadata_block_lines [OF block] by blast
    then show ?thesis
      using plain_block by (auto simp: split_document_def ls_def [symmetric])
  qed
qed

lemma appender_grammar:
  assumes "parse_message t = Inr parsed"
  shows "\<exists>h body. split_document t = Inr (h, body) \<and> header_or_empty h ''message_id'' = pm_message_id parsed \<and>
    header_or_empty h ''writer'' = pm_writer parsed"
proof -
  obtain h where h: "metadata_headers t = Inr h"
    using assms by (cases "metadata_headers t") (simp_all add: parse_message_def)
  have ids: "header_or_empty h ''message_id'' \<noteq> []" "header_or_empty h ''writer'' \<noteq> []"
      "pm_message_id parsed = header_or_empty h ''message_id''" "pm_writer parsed = header_or_empty h ''writer''"
    using assms by (auto simp: parse_message_def h)
  have get: "dict_get h ''message_id'' = Some (pm_message_id parsed)" "dict_get h ''writer'' = Some (pm_writer parsed)"
    unfolding ids(3,4) by (rule header_or_empty_get, rule ids)+
  obtain g body where "split_document t = Inr (g, body)" "agree g h"
    using metadata_headers_document [OF h get(1)] by auto
  moreover have "dict_get g ''message_id'' = Some (pm_message_id parsed)" "dict_get g ''writer'' = Some (pm_writer parsed)"
    using agreeD [OF \<open>agree g h\<close>] get by simp_all
  ultimately show ?thesis
    by (simp add: header_or_empty_def)
qed

text \<open>
  A text whose leading metadata the appender accepts is a document of the message grammar, with
  the same message id and the same writer: what the appender checked is what every reader sees.
\<close>

theorem appender_agrees_with_grammar:
  assumes "parse_message t = Inr parsed"
  shows "\<exists>h body. split_document t = Inr (h, body) \<and> header_or_empty h ''message_id'' = pm_message_id parsed \<and>
    header_or_empty h ''writer'' = pm_writer parsed"
  using assms by (rule appender_grammar)

theorem appender_agrees_with_grammar_witness:
  "\<exists>h body. split_document one_content = Inr (h, body) \<and> header_or_empty h ''writer'' = ''alice''"
proof -
  have "parse_message one_content = Inr (projr (parse_message one_content))" "pm_writer (projr (parse_message one_content)) = ''alice''"
    by code_simp+
  then show ?thesis
    using appender_agrees_with_grammar by metis
qed

section \<open>An appended message passes the guard\<close>







section \<open>The declared branch\<close>

text \<open>A control snapshot, if read, gives the identity the declared branch.\<close>

definition declared_only :: "string \<Rightarrow> string \<Rightarrow> call \<Rightarrow> bool" where
  "declared_only identity declared c = (case c of
      ReadControl (Inr s) \<Rightarrow> (case dict_get (snap_lanes s) identity of None \<Rightarrow> True | Some b \<Rightarrow> bind_branch b = declared)
    | _ \<Rightarrow> True)"

lemma declared_only_simps [simp]:
  "declared_only i d (ReadIdentity j x1)" "declared_only i d (ReadBranchHead b x2)" "declared_only i d (ReadFile s p x3)"
  "declared_only i d (ReadCommit s x4)" "declared_only i d (CreateBlob s x5)" "declared_only i d (CreateTree s p b x5)"
  "declared_only i d (CreateCommit s p b x5)" "declared_only i d (UpdateRef b s x6)" "declared_only i d (IsAncestor s p x7)"
  by (simp_all add: declared_only_def)











end
