(* ===== verification/TrustedTargets.thy ===== *)
theory TrustedTargets
  imports WriterLanes
begin

text \<open>
  What the central projector may do with a lane (\<open>src/src/radar/trusted_reconciler.py\<close>,
  \<open>trusted_lane_validation.py\<close>, \<open>trusted_wakeup.py\<close>): an event only selects active identities, the
  target of a lane follows from topology, cutover, ancestry in Git and the projected cursor, and the
  range of commits is validated by the rules of the writer lane guard. Git is a parameter: the return
  code and output of each command line; refs and commits do not change during one call.
\<close>

section \<open>The trusted Git repository\<close>

datatype disposition = NOOP | FORWARD | STALE_EVENT | DIVERGED_HISTORY

record reconcile_target =
  tgt_identity :: string
  tgt_branch :: string
  tgt_projected :: "string option"
  tgt_base :: string
  tgt_observed :: string
  tgt_commits :: "string list"
  tgt_disposition :: disposition
  tgt_bootstrap :: bool

record repository =
  branch_head :: "string \<Rightarrow> exn + string"
  ancestor :: "string \<Rightarrow> string \<Rightarrow> exn + bool"
  commits_between :: "string \<Rightarrow> string \<Rightarrow> exn + string list"

text \<open>\<open>LocalGitRepository\<close>: \<open>run\<close> gives the return code and the standard output.\<close>

type_synonym git_run = "string list \<Rightarrow> int \<times> string"

definition local_branch_head :: "git_run \<Rightarrow> bool \<Rightarrow> string \<Rightarrow> exn + string" where
  "local_branch_head run remote branch =
    (let prefix = (if remote then ''refs/remotes/origin/'' else ''refs/heads/'');
         (code, out) = run [''rev-parse'', ''--verify'', prefix @ branch @ ''^{commit}''] in
     requireE (code = 0) (ReconcileError ''MISSING_WRITER_BRANCH'') (Inr (strip out)))"

definition local_is_ancestor :: "git_run \<Rightarrow> string \<Rightarrow> string \<Rightarrow> exn + bool" where
  "local_is_ancestor run a d =
    (let (code, out) = run [''merge-base'', ''--is-ancestor'', a, d] in
     if code = 0 then Inr True else if code = 1 then Inr False else Inl (ReconcileError ''GIT_ANCESTRY_CHECK_FAILED''))"

definition local_commits_between :: "git_run \<Rightarrow> string \<Rightarrow> string \<Rightarrow> exn + string list" where
  "local_commits_between run base head =
    (if base = head then Inr []
     else let (code, out) = run [''rev-list'', ''--reverse'', base @ ''..'' @ head] in
       requireE (code = 0) (ReconcileError ''GIT_REV_LIST_FAILED'') (Inr (filter (\<lambda>line. line \<noteq> []) (splitlines out))))"

definition local_repository :: "git_run \<Rightarrow> bool \<Rightarrow> repository" where
  "local_repository run remote =
    \<lparr>branch_head = local_branch_head run remote, ancestor = local_is_ancestor run, commits_between = local_commits_between run\<rparr>"

section \<open>Targets\<close>

definition active_identities :: "json_file \<Rightarrow> exn + string list" where
  "active_identities topology = bindE (load_writer_lanes topology) (\<lambda>lanes. Inr (sort (map fst lanes)))"

definition read_cutover :: "json_file \<Rightarrow> exn + pymap" where
  "read_cutover cutover = (case cutover of
      Inl OSError \<Rightarrow> Inl (ReconcileError ''CUTOVER_CONTRACT_INVALID'')
    | Inl JSONDecodeError \<Rightarrow> Inl (ReconcileError ''CUTOVER_CONTRACT_INVALID'')
    | Inl e \<Rightarrow> Inl e
    | Inr (PDict raw) \<Rightarrow> Inr raw
    | Inr _ \<Rightarrow> Inl (ReconcileError ''CUTOVER_CONTRACT_INVALID''))"

definition cutover_mapping :: "pymap \<Rightarrow> string \<Rightarrow> exn + pymap" where
  "cutover_mapping raw key = (case get_default raw key PNone of
      PDict value \<Rightarrow> Inr value
    | _ \<Rightarrow> Inl (ReconcileError (''CUTOVER_'' @ upper key @ ''_INVALID'')))"

definition activation_anchor :: "json_file \<Rightarrow> string \<Rightarrow> string \<Rightarrow> exn + string" where
  "activation_anchor cutover_file identity branch =
    bindE (read_cutover cutover_file) (\<lambda>cutover.
    bindE (cutover_mapping cutover ''current_writer_lanes'') (\<lambda>current.
    requireE (get_default current identity PNone = PStr branch) (ReconcileError ''TOPOLOGY_CUTOVER_BRANCH_MISMATCH'')
    (bindE (cutover_mapping cutover ''planned_current_writer_lanes'') (\<lambda>planned.
     bindE (cutover_mapping cutover ''verified_successor_heads'') (\<lambda>successors.
     case (if get_default planned identity PNone = PStr branch then nonempty_str (get_default successors identity PNone) else None) of
       Some anchor \<Rightarrow> Inr anchor
     | None \<Rightarrow>
         bindE (cutover_mapping cutover ''historical_writer_lanes'') (\<lambda>historical.
         case get_default historical identity PNone of
           PDict record \<Rightarrow>
             (case (if get_default record ''branch'' PNone = PStr branch then nonempty_str (get_default record ''head_sha'' PNone) else None) of
                Some anchor \<Rightarrow> Inr anchor
              | None \<Rightarrow> Inl (ReconcileError ''ACTIVATION_ANCHOR_MISSING''))
         | _ \<Rightarrow> Inl (ReconcileError ''ACTIVATION_ANCHOR_MISSING'')))))))"

text \<open>A target without commits.\<close>

definition still :: "string \<Rightarrow> string \<Rightarrow> string option \<Rightarrow> string \<Rightarrow> string \<Rightarrow> disposition \<Rightarrow> bool \<Rightarrow> reconcile_target" where
  "still identity branch projected base observed d boot =
    \<lparr>tgt_identity = identity, tgt_branch = branch, tgt_projected = projected, tgt_base = base, tgt_observed = observed,
     tgt_commits = [], tgt_disposition = d, tgt_bootstrap = boot\<rparr>"

text \<open>\<open>cursor\<close> is the journal's \<open>projected_head\<close>; \<open>projected or anchor\<close> takes the anchor for an empty text too.\<close>

definition derive_target ::
  "json_file \<Rightarrow> json_file \<Rightarrow> repository \<Rightarrow> (string \<Rightarrow> string \<Rightarrow> exn + string option) \<Rightarrow> pyval \<Rightarrow> exn + reconcile_target" where
  "derive_target topology cutover repo cursor identity_arg =
    (case nonempty_str identity_arg of
       None \<Rightarrow> Inl (ReconcileError ''IDENTITY_REQUIRED'')
     | Some identity \<Rightarrow>
         bindE (load_writer_lanes topology) (\<lambda>active. case dict_get active identity of
           None \<Rightarrow> bindE (load_registered_writer_lanes topology) (\<lambda>registered.
             if dict_has registered identity then Inl (ReconcileError ''NON_ACTIVE_WRITER_LANE'')
             else Inl (ReconcileError ''UNKNOWN_WRITER_IDENTITY''))
         | Some lane \<Rightarrow>
             let branch = lane_branch lane in
             bindE (branch_head repo branch) (\<lambda>observed.
             bindE (activation_anchor cutover identity branch) (\<lambda>anchor.
             bindE (cursor identity branch) (\<lambda>projected.
             bindE (ancestor repo anchor observed) (\<lambda>anchored.
             if \<not> anchored then
               Inr (still identity branch projected (case projected of None \<Rightarrow> anchor | Some p \<Rightarrow> if p = [] then anchor else p)
                 observed DIVERGED_HISTORY (projected = None))
             else case projected of
               None \<Rightarrow> bindE (commits_between repo anchor observed) (\<lambda>commits.
                 Inr \<lparr>tgt_identity = identity, tgt_branch = branch, tgt_projected = None, tgt_base = anchor, tgt_observed = observed,
                      tgt_commits = commits, tgt_disposition = FORWARD, tgt_bootstrap = True\<rparr>)
             | Some p \<Rightarrow>
                 if p = observed then Inr (still identity branch projected p observed NOOP False)
                 else bindE (ancestor repo anchor p) (\<lambda>kept.
                   if \<not> kept then Inr (still identity branch projected p observed DIVERGED_HISTORY False)
                   else bindE (ancestor repo p observed) (\<lambda>ahead.
                   if ahead then bindE (commits_between repo p observed) (\<lambda>commits.
                     Inr \<lparr>tgt_identity = identity, tgt_branch = branch, tgt_projected = Some p, tgt_base = p, tgt_observed = observed,
                          tgt_commits = commits, tgt_disposition = FORWARD, tgt_bootstrap = False\<rparr>)
                   else bindE (ancestor repo observed p) (\<lambda>behind.
                     if behind then Inr (still identity branch projected p observed STALE_EVENT False)
                     else Inr (still identity branch projected p observed DIVERGED_HISTORY False))))))))))"

section \<open>Validation of a range\<close>

definition assert_ancestor :: "lane_env \<Rightarrow> string \<Rightarrow> string \<Rightarrow> exn + unit" where
  "assert_ancestor env base head =
    requireE (git_succeeds env [''merge-base'', ''--is-ancestor'', base, head]) (WriterLaneError ''WRITER_LANE_BASE_NOT_ANCESTOR'') (Inr ())"

definition validate_active_writer_range ::
  "lane_env \<Rightarrow> string \<Rightarrow> string \<Rightarrow> string \<Rightarrow> json_file \<Rightarrow> json_file option \<Rightarrow> exn + string list" where
  "validate_active_writer_range env identity base head topology cutover =
    bindE (load_writer_lanes topology) (\<lambda>lanes. case dict_get lanes identity of
      None \<Rightarrow> Inl (WriterLaneError ''WRITER_LANE_NOT_ACTIVE'')
    | Some lane \<Rightarrow>
        if base = head then Inr []
        else bindE (assert_ancestor env base head) (\<lambda>_.
          bindE (git_out env [''rev-list'', ''--reverse'', base @ ''..'' @ head]) (\<lambda>out.
          let commits = filter (\<lambda>line. line \<noteq> []) (splitlines out) in
          requireE (commits \<noteq> []) (WriterLaneError ''WRITER_LANE_NO_NEW_COMMITS'')
          (bindE (historical_message_ids env cutover identity) (\<lambda>historical_ids.
           bindE (validate_commits env lane historical_ids commits) (\<lambda>_. Inr commits))))))"

section \<open>Events\<close>

definition sha40 :: "string \<Rightarrow> bool" where
  "sha40 s \<longleftrightarrow> length s = 40 \<and> list_all is_hex_lower s"

definition repository_char :: "char \<Rightarrow> bool" where
  "repository_char c \<longleftrightarrow> is_alnum c \<or> c \<in> set ''_.-''"

text \<open>\<open>^[A-Za-z0-9_.-]+/[A-Za-z0-9_.-]+$\<close>\<close>

definition repository_pattern :: "string \<Rightarrow> bool" where
  "repository_pattern s \<longleftrightarrow>
    (let owner = takeWhile repository_char s; r = dropWhile repository_char s in
     owner \<noteq> [] \<and> (case r of [] \<Rightarrow> False | c # name \<Rightarrow> c = CHR ''/'' \<and> name \<noteq> [] \<and> list_all repository_char name))"

definition load_caller_event :: "json_file \<Rightarrow> exn + pymap" where
  "load_caller_event f = (case f of
      Inl OSError \<Rightarrow> Inl (ReconcileError ''CALLER_EVENT_INVALID'')
    | Inl JSONDecodeError \<Rightarrow> Inl (ReconcileError ''CALLER_EVENT_INVALID'')
    | Inl e \<Rightarrow> Inl e
    | Inr (PDict raw) \<Rightarrow> Inr raw
    | Inr _ \<Rightarrow> Inl (ReconcileError ''CALLER_EVENT_INVALID''))"

definition active_identity_for_branch :: "json_file \<Rightarrow> string \<Rightarrow> exn + string" where
  "active_identity_for_branch topology branch =
    bindE (load_writer_lanes topology) (\<lambda>lanes.
    case filter (\<lambda>(identity, lane). lane_branch lane = branch) lanes of
      [(identity, lane)] \<Rightarrow> Inr identity
    | _ \<Rightarrow> Inl (ReconcileError ''WAKEUP_BRANCH_NOT_ACTIVE''))"

text \<open>Decoding errors of JSON and UTF-8 are \<open>ValueError\<close>s.\<close>

definition topology_repository :: "json_file \<Rightarrow> exn + string" where
  "topology_repository topology = (case topology of
      Inl OSError \<Rightarrow> Inl (ReconcileError ''TRUSTED_TOPOLOGY_REPOSITORY_INVALID'')
    | Inl UnicodeDecodeError \<Rightarrow> Inl (ReconcileError ''TRUSTED_TOPOLOGY_REPOSITORY_INVALID'')
    | Inl JSONDecodeError \<Rightarrow> Inl (ReconcileError ''TRUSTED_TOPOLOGY_REPOSITORY_INVALID'')
    | Inl (ValueError m) \<Rightarrow> Inl (ReconcileError ''TRUSTED_TOPOLOGY_REPOSITORY_INVALID'')
    | Inl e \<Rightarrow> Inl e
    | Inr raw \<Rightarrow>
        (case (case raw of PDict m \<Rightarrow> get_default m ''repository'' PNone | _ \<Rightarrow> PNone) of
           PStr repository \<Rightarrow> requireE (repository_pattern repository) (ReconcileError ''TRUSTED_TOPOLOGY_REPOSITORY_INVALID'') (Inr repository)
         | _ \<Rightarrow> Inl (ReconcileError ''TRUSTED_TOPOLOGY_REPOSITORY_INVALID'')))"

definition requested_identities ::
  "string \<Rightarrow> pymap \<Rightarrow> json_file \<Rightarrow> string \<Rightarrow> exn + string list \<times> string option" where
  "requested_identities event_name event topology repository =
    bindE (topology_repository topology) (\<lambda>trusted.
    requireE (repository = trusted) (ReconcileError ''UNTRUSTED_CALLER_REPOSITORY'')
    (requireE (event_name \<in> {''workflow_run'', ''schedule''}) (ReconcileError ''UNSUPPORTED_CALLER_EVENT'')
    (if event_name = ''schedule'' then bindE (active_identities topology) (\<lambda>identities. Inr (identities, None))
     else case get_default event ''workflow_run'' PNone of
       PDict workflow_run \<Rightarrow>
         (case nonempty_str (get_default workflow_run ''head_branch'' PNone) of
            None \<Rightarrow> Inl (ReconcileError ''WORKFLOW_RUN_BRANCH_INVALID'')
          | Some head_branch \<Rightarrow>
              (case get_default workflow_run ''head_sha'' PNone of
                 PStr head_sha \<Rightarrow> requireE (sha40 head_sha) (ReconcileError ''WORKFLOW_RUN_HEAD_INVALID'')
                   (bindE (active_identity_for_branch topology head_branch) (\<lambda>identity. Inr ([identity], Some head_sha)))
               | _ \<Rightarrow> Inl (ReconcileError ''WORKFLOW_RUN_HEAD_INVALID'')))
     | _ \<Rightarrow> Inl (ReconcileError ''WORKFLOW_RUN_EVENT_INVALID''))))"

section \<open>A target follows from ancestry\<close>

text \<open>Git answers ancestry by some relation of its commits; a commit is its own ancestor.\<close>

definition answers_ancestry :: "repository \<Rightarrow> (string \<Rightarrow> string \<Rightarrow> bool) \<Rightarrow> bool" where
  "answers_ancestry repo anc \<longleftrightarrow> (\<forall>a d. ancestor repo a d = Inr (anc a d)) \<and> reflp anc"

text \<open>Anchor, cursor and observed head lie on one line of history, the anchor first.\<close>

definition on_one_line :: "(string \<Rightarrow> string \<Rightarrow> bool) \<Rightarrow> string \<Rightarrow> string option \<Rightarrow> string \<Rightarrow> bool" where
  "on_one_line anc anchor projected observed \<longleftrightarrow> anc anchor observed \<and>
     (\<forall>p. projected = Some p \<longrightarrow> anc anchor p \<and> (anc p observed \<or> anc observed p))"

definition classified :: "(string \<Rightarrow> string \<Rightarrow> bool) \<Rightarrow> string \<Rightarrow> reconcile_target \<Rightarrow> bool" where
  "classified anc anchor t \<longleftrightarrow>
    (let p = tgt_projected t; observed = tgt_observed t; line = on_one_line anc anchor p observed;
         forward = (\<forall>h. p = Some h \<longrightarrow> anc h observed) in
     (tgt_disposition t = DIVERGED_HISTORY \<longleftrightarrow> \<not> line) \<and>
     (tgt_disposition t = NOOP \<longleftrightarrow> line \<and> p = Some observed) \<and>
     (tgt_disposition t = FORWARD \<longleftrightarrow> line \<and> p \<noteq> Some observed \<and> forward) \<and>
     (tgt_disposition t = STALE_EVENT \<longleftrightarrow> line \<and> p \<noteq> Some observed \<and> \<not> forward) \<and>
     (tgt_bootstrap t \<longleftrightarrow> p = None))"

lemma derive_target_inputs:
  assumes "derive_target topology cutover repo cursor (PStr i) = Inr t"
  obtains active lane observed anchor projected anchored where "i \<noteq> []" "load_writer_lanes topology = Inr active"
    "dict_get active i = Some lane" "branch_head repo (lane_branch lane) = Inr observed"
    "activation_anchor cutover i (lane_branch lane) = Inr anchor" "cursor i (lane_branch lane) = Inr projected"
    "ancestor repo anchor observed = Inr anchored"
proof -
  have "i \<noteq> []"
    using assms by (auto simp: derive_target_def nonempty_str_def)
  obtain active where active: "load_writer_lanes topology = Inr active"
    using assms by (cases "load_writer_lanes topology") (auto simp: derive_target_def split: option.splits)
  obtain lane where lane: "dict_get active i = Some lane"
    using assms active \<open>i \<noteq> []\<close> by (cases "dict_get active i") (auto simp: derive_target_def nonempty_str_def split: if_splits)
  show thesis
    using assms active lane \<open>i \<noteq> []\<close> that by (auto simp: derive_target_def nonempty_str_def Let_def)
qed

lemma derive_target_classified:
  assumes t: "derive_target topology cutover repo cursor (PStr i) = Inr t" and git: "answers_ancestry repo anc"
  obtains active lane anchor where "load_writer_lanes topology = Inr active" "dict_get active i = Some lane"
    "tgt_identity t = i" "tgt_branch t = lane_branch lane" "branch_head repo (tgt_branch t) = Inr (tgt_observed t)"
    "activation_anchor cutover i (tgt_branch t) = Inr anchor" "cursor i (tgt_branch t) = Inr (tgt_projected t)" "classified anc anchor t"
    "tgt_disposition t = FORWARD \<Longrightarrow> tgt_base t = (case tgt_projected t of None \<Rightarrow> anchor | Some p \<Rightarrow> p) \<and> anc anchor (tgt_base t) \<and>
       anc (tgt_base t) (tgt_observed t) \<and> commits_between repo (tgt_base t) (tgt_observed t) = Inr (tgt_commits t)"
    "tgt_disposition t \<noteq> FORWARD \<Longrightarrow> tgt_commits t = []"
proof (rule derive_target_inputs [OF t])
  fix active lane observed anchor projected anchored
  assume i: "i \<noteq> []" "load_writer_lanes topology = Inr active" "dict_get active i = Some lane"
    "branch_head repo (lane_branch lane) = Inr observed"
    "activation_anchor cutover i (lane_branch lane) = Inr anchor" "cursor i (lane_branch lane) = Inr projected"
  have anc: "ancestor repo a d = Inr (anc a d)" "anc a a" for a d
    using git by (auto simp: answers_ancestry_def reflp_def)
  note run = t [unfolded derive_target_def nonempty_str_def Let_def still_def, simplified i anc if_False option.case sum.case bindE_simps pyval.case]
  note concl = that [OF i(2,3), of anchor]
  show thesis
  proof (cases projected)
    case None
    then show thesis
      using run i anc concl by (auto simp: classified_def on_one_line_def split: if_splits)
  next
    case (Some p)
    then show thesis
      using run i anc concl by (auto simp: classified_def on_one_line_def split: if_splits)
  qed
qed

text \<open>
  C33: The target of a lane is determined by Git: its observed head is the branch's, its anchor the
  cutover's, and its disposition says where anchor, cursor and head lie. They are on one line of
  history (else DIVERGED_HISTORY) and the cursor is at the head (NOOP), behind it or unset (FORWARD) or
  ahead of it (STALE_EVENT). Only a FORWARD target has commits: those from its base, which descends
  from the anchor, to the observed head, which descends from the base.
\<close>

theorem target_follows_ancestry:
  assumes "derive_target topology cutover repo cursor (PStr i) = Inr t" and "answers_ancestry repo anc"
  shows "\<exists>active lane anchor. load_writer_lanes topology = Inr active \<and> dict_get active i = Some lane \<and>
    tgt_branch t = lane_branch lane \<and> branch_head repo (tgt_branch t) = Inr (tgt_observed t) \<and>
    activation_anchor cutover i (tgt_branch t) = Inr anchor \<and> cursor i (tgt_branch t) = Inr (tgt_projected t) \<and>
    classified anc anchor t \<and>
    (if tgt_disposition t = FORWARD
     then tgt_base t = (case tgt_projected t of None \<Rightarrow> anchor | Some p \<Rightarrow> p) \<and> anc anchor (tgt_base t) \<and>
       anc (tgt_base t) (tgt_observed t) \<and> commits_between repo (tgt_base t) (tgt_observed t) = Inr (tgt_commits t)
     else tgt_commits t = [])"
  using assms
  by (rule derive_target_classified) (intro exI conjI, assumption+, auto)

text \<open>A lane of three commits, the cursor at the first.\<close>

definition three_commits :: "string \<Rightarrow> string \<Rightarrow> bool" where
  "three_commits a d \<longleftrightarrow> a = d \<or> (a, d) \<in> set [(''c0'', ''c1''), (''c0'', ''c2''), (''c1'', ''c2'')]"

definition three_repo :: repository where
  "three_repo = \<lparr>branch_head = (\<lambda>branch. Inr ''c2''), ancestor = (\<lambda>a d. Inr (three_commits a d)),
     commits_between = (\<lambda>base head. if base = ''c1'' then Inr [''c2''] else Inr [''c1'', ''c2''])\<rparr>"

definition sample_cutover :: json_file where
  "sample_cutover = Inr (PDict [(''current_writer_lanes'', PDict [(''A'', PStr ''lane/a'')]),
     (''planned_current_writer_lanes'', PDict [(''A'', PStr ''lane/a'')]),
     (''verified_successor_heads'', PDict [(''A'', PStr ''c0'')])])"

theorem target_follows_ancestry_witness:
  "\<exists>t anchor. derive_target sample_topology sample_cutover three_repo (\<lambda>i b. Inr (Some ''c1'')) (PStr ''A'') = Inr t \<and>
     tgt_disposition t = FORWARD \<and> classified three_commits anchor t \<and> three_commits ''c1'' (tgt_observed t)"
proof -
  define t where "t = projr (derive_target sample_topology sample_cutover three_repo (\<lambda>i b. Inr (Some ''c1'')) (PStr ''A''))"
  have run: "derive_target sample_topology sample_cutover three_repo (\<lambda>i b. Inr (Some ''c1'')) (PStr ''A'') = Inr t"
    and t: "tgt_disposition t = FORWARD" "tgt_base t = ''c1''"
    unfolding t_def by code_simp+
  have "answers_ancestry three_repo three_commits"
    by (simp add: answers_ancestry_def three_repo_def three_commits_def reflp_def)
  from target_follows_ancestry [OF run this] show ?thesis
    using run t by auto
qed

section \<open>Central validation and the guard agree\<close>

lemma active_lane:
  assumes "load_registered_writer_lanes topology = Inr lanes"
  shows "load_writer_lanes topology = Inr (filter (\<lambda>(i, l). lane_lifecycle l = ''ACTIVE'') lanes) \<and>
    (dict_get (filter (\<lambda>(i, l). lane_lifecycle l = ''ACTIVE'') lanes) i = Some lane \<longleftrightarrow>
      dict_get lanes i = Some lane \<and> lane_lifecycle lane = ''ACTIVE'')"
  using assms loaded_lanes_wf [OF assms]
  by (simp add: load_writer_lanes_def dict_get_filter lanes_wf_def)

lemma branch_of_heads [simp]: "branch_of_ref (''refs/heads/'' @ b) = b"
  by (simp add: branch_of_ref_def remove_prefix_def)

lemma range_validated_iff:
  assumes lanes: "load_registered_writer_lanes topology = Inr lanes" and lane: "dict_get lanes i = Some lane" "lane_lifecycle lane = ''ACTIVE''"
    and base: "base \<noteq> head" "base \<noteq> []" "base \<noteq> zero_sha"
  shows "validate_active_writer_range env i base head topology cutover = Inr commits \<longleftrightarrow>
    (\<exists>reserved. historical_message_ids env cutover i = Inr reserved \<and> commits_to_validate env head (Some base) = Inr commits \<and>
       (\<forall>c \<in> set commits. \<exists>adds. commit_ok env lane reserved c adds))"
proof -
  obtain active where active: "load_writer_lanes topology = Inr active" "dict_get active i = Some lane"
    using active_lane [OF lanes] lane by blast
  then show ?thesis
    using base
    by (auto simp: validate_active_writer_range_def commits_to_validate_def assert_ancestor_def Let_def
        validate_commits_iff [symmetric] commit_accepted [symmetric])
qed

text \<open>
  C34: The projector's own validation of a range accepts what the guard accepts of a push of the same
  range to the same lane, and with the same commits: central projection neither admits a commit the
  guard would refuse nor refuses one it admitted.
\<close>

theorem central_validation_agrees_with_guard:
  assumes "load_registered_writer_lanes topology = Inr lanes" and "dict_get lanes i = Some lane" and "lane_lifecycle lane = ''ACTIVE''"
    and "base \<noteq> head" and "base \<noteq> []" and "base \<noteq> zero_sha" and "git_out env [''rev-parse'', ''HEAD''] = Inr head"
  shows "validate_active_writer_range env i base head topology cutover = Inr commits \<longleftrightarrow>
    validate_writer_lane_commit env (''refs/heads/'' @ lane_branch lane) head topology (Some base) cutover main_head = Inr i \<and>
    commits_to_validate env head (Some base) = Inr commits"
proof -
  have boot: "planned_successor_bootstrap_identity (''refs/heads/'' @ lane_branch lane) head topology (Some base) cutover main_head = Inr None"
    using assms(6) by (auto simp: planned_successor_bootstrap_identity_def split: option.splits)
  have ref: "branch_of_ref (''refs/heads/'' @ lane_branch lane) = lane_branch lane"
    by (rule branch_of_heads)
  show ?thesis
    unfolding range_validated_iff [OF assms(1-6)] push_accepted boot ref
    using assms(1-3,7) by auto
qed

theorem central_validation_agrees_with_guard_witness:
  "validate_active_writer_range sample_env ''A'' ''c0'' ''c2'' sample_topology None = Inr [''c1'', ''c2'']"
proof -
  define lanes where "lanes = projr (load_registered_writer_lanes sample_topology)"
  have lanes: "load_registered_writer_lanes sample_topology = Inr lanes"
      "dict_get lanes ''A'' = Some \<lparr>lane_identity = ''A'', lane_writer = ''Alice'', lane_branch = ''lane/a'', lane_lifecycle = ''ACTIVE''\<rparr>"
    unfolding lanes_def by code_simp+
  have git: "git_out sample_env [''rev-parse'', ''HEAD''] = Inr ''c2''" "commits_to_validate sample_env ''c2'' (Some ''c0'') = Inr [''c1'', ''c2'']"
    by code_simp+
  have pushed: "validate_writer_lane_commit sample_env (''refs/heads/'' @ ''lane/a'') ''c2'' sample_topology (Some ''c0'') None None = Inr ''A''"
    using sample_push_accepted by simp
  have "''c0'' \<noteq> zero_sha"
    by code_simp
  then show ?thesis
    using central_validation_agrees_with_guard [OF lanes, of "''c0''" "''c2''" sample_env None "[''c1'', ''c2'']" None] git pushed by simp
qed

section \<open>Requested identities\<close>

lemma active_identity_for_branch_Inr:
  assumes "active_identity_for_branch topology branch = Inr i"
  obtains lanes lane where "load_writer_lanes topology = Inr lanes" "(i, lane) \<in> set lanes" "lane_branch lane = branch"
proof -
  obtain lanes where lanes: "load_writer_lanes topology = Inr lanes"
    using assms by (cases "load_writer_lanes topology") (simp_all add: active_identity_for_branch_def)
  let ?m = "filter (\<lambda>(i, lane). lane_branch lane = branch) lanes"
  obtain lane where "?m = [(i, lane)]"
    using assms by (auto simp: active_identity_for_branch_def lanes split: list.splits prod.splits)
  then have "(i, lane) \<in> set ?m"
    by simp
  then show thesis
    using lanes that by auto
qed

lemma loaded_active_wf:
  assumes "load_writer_lanes topology = Inr lanes"
  shows "lanes_wf lanes"
proof -
  obtain registered where "load_registered_writer_lanes topology = Inr registered" "lanes = filter (\<lambda>(i, l). lane_lifecycle l = ''ACTIVE'') registered"
    using assms by (cases "load_registered_writer_lanes topology") (simp_all add: load_writer_lanes_def)
  then show ?thesis
    using loaded_lanes_wf active_lanes_wf by simp
qed

lemma requested_identities_active:
  assumes "requested_identities event_name event topology repository = Inr (ids, hint)"
  shows "\<exists>lanes. load_writer_lanes topology = Inr lanes \<and> set ids \<subseteq> fst ` set lanes \<and> distinct ids"
proof (cases "event_name = ''schedule''")
  case True
  then show ?thesis
    using assms loaded_active_wf [of topology]
    by (auto simp: requested_identities_def active_identities_def lanes_wf_def)
next
  case False
  then obtain branch i where "active_identity_for_branch topology branch = Inr i" "ids = [i]"
    using assms by (auto simp: requested_identities_def split: pyval.splits option.splits)
  then show ?thesis
    by (force elim!: active_identity_for_branch_Inr)
qed

end
