(* ===== verification/CentralProjection.thy ===== *)
theory CentralProjection
  imports TrustedTargets Actions "HOL-Library.Sublist"
begin

text \<open>
  The central projector (\<open>src/src/radar/central_projection.py\<close>, \<open>src/scripts/radar_trusted_project.py\<close>): it
  collects the added message files of validated commits, cuts them into batches, and projects each
  requested lane through the provider's journal: cursor, control cut, claim, batches, finalization.
  The provider is a transport with a state of its own; each request is recorded with its answer.
  \<open>shown_value\<close> is \<open>str\<close> of a JSON value; the error output of Git is given as decoded text.
\<close>

section \<open>Files of commits\<close>

definition central_failed :: "string \<times> string \<Rightarrow> exn" where
  "central_failed r = CentralProjectionError (''GIT_COMMAND_FAILED:'' @ (if fst r \<noteq> [] then strip (fst r) else snd r))"

definition central_git :: "lane_env \<Rightarrow> string list \<Rightarrow> exn + string" where
  "central_git env args = (case git_text env args of Inl r \<Rightarrow> Inl (central_failed r) | Inr out \<Rightarrow> Inr (strip out))"

definition central_git_bytes :: "lane_env \<Rightarrow> string list \<Rightarrow> exn + string" where
  "central_git_bytes env args = (case git_data env args of Inl r \<Rightarrow> Inl (central_failed r) | Inr out \<Rightarrow> Inr out)"

text \<open>\<open>base64.b64encode\<close>\<close>

definition b64_alphabet :: string where
  "b64_alphabet = ''ABCDEFGHIJKLMNOPQRSTUVWXYZabcdefghijklmnopqrstuvwxyz0123456789+/''"

definition b64_char :: "nat \<Rightarrow> char" where
  "b64_char n = b64_alphabet ! (n mod 64)"

fun b64encode :: "string \<Rightarrow> string" where
  "b64encode [] = []"
| "b64encode [a] = (let x = of_char a :: nat in [b64_char (x div 4), b64_char (x mod 4 * 16), CHR ''='', CHR ''=''])"
| "b64encode [a, b] = (let x = of_char a :: nat; y = of_char b :: nat in
     [b64_char (x div 4), b64_char (x mod 4 * 16 + y div 16), b64_char (y mod 16 * 4), CHR ''=''])"
| "b64encode (a # b # c # rest) = (let x = of_char a :: nat; y = of_char b :: nat; z = of_char c :: nat in
     [b64_char (x div 4), b64_char (x mod 4 * 16 + y div 16), b64_char (y mod 16 * 4 + z div 64), b64_char (z mod 64)] @ b64encode rest)"

definition projection_file :: "string \<Rightarrow> string \<Rightarrow> string \<Rightarrow> string \<Rightarrow> string \<Rightarrow> pymap" where
  "projection_file path commit committed_at blob_sha content =
    [(''path'', PStr path), (''source_commit'', PStr commit), (''source_committed_at'', PStr committed_at),
     (''blob_sha'', PStr blob_sha), (''content_base64'', PStr (b64encode content)), (''content_bytes'', PInt (int (length content)))]"

text \<open>The loop over the sorted paths of one commit, with the paths seen; the result is the files and the paths seen after.\<close>

fun collect_paths :: "lane_env \<Rightarrow> int \<Rightarrow> string \<Rightarrow> string \<Rightarrow> string list \<Rightarrow> string list \<Rightarrow> exn + pymap list \<times> string list" where
  "collect_paths env max_file_bytes commit committed_at seen [] = Inr ([], seen)"
| "collect_paths env max_file_bytes commit committed_at seen (path # paths) =
     requireE (path \<notin> set seen) (CentralProjectionError (''PROJECTION_PATH_REPEATED:'' @ path))
     (bindE (central_git_bytes env [''show'', commit @ '':'' @ path]) (\<lambda>content.
      requireE (int (length content) \<le> max_file_bytes) (CentralProjectionError (''MESSAGE_FILE_TOO_LARGE:'' @ path))
      (bindE (central_git env [''rev-parse'', commit @ '':'' @ path]) (\<lambda>blob_sha.
       bindE (collect_paths env max_file_bytes commit committed_at (path # seen) paths) (\<lambda>(files, seen').
       Inr (projection_file path commit committed_at blob_sha content # files, seen'))))))"

definition collect_commit :: "lane_env \<Rightarrow> int \<Rightarrow> string \<Rightarrow> string list \<Rightarrow> exn + pymap list \<times> string list" where
  "collect_commit env max_file_bytes commit seen =
    bindE (central_git env [''rev-list'', ''--parents'', ''-n'', ''1'', commit]) (\<lambda>out.
    case pieces is_space out of
      [_, parent] \<Rightarrow>
        bindE (central_git_bytes env [''diff-tree'', ''--no-commit-id'', ''--name-only'', ''--diff-filter=A'', ''-r'', ''-z'', parent, commit,
            ''--'', ''messages'']) (\<lambda>raw.
        bindE (mapE decode_field (filter (ends_with ''.md'') (pieces (\<lambda>c. c = CHR 0x00) raw))) (\<lambda>paths.
        bindE (central_git env [''show'', ''-s'', ''--format=%cI'', commit]) (\<lambda>committed_at.
        collect_paths env max_file_bytes commit committed_at seen (sort paths))))
    | _ \<Rightarrow> Inl (CentralProjectionError ''PROJECTION_MERGE_COMMIT_FORBIDDEN''))"

fun collect_commits :: "lane_env \<Rightarrow> int \<Rightarrow> string list \<Rightarrow> string list \<Rightarrow> exn + pymap list" where
  "collect_commits env max_file_bytes seen [] = Inr []"
| "collect_commits env max_file_bytes seen (commit # commits) =
     bindE (collect_commit env max_file_bytes commit seen) (\<lambda>(files, seen').
     bindE (collect_commits env max_file_bytes seen' commits) (\<lambda>rest. Inr (files @ rest)))"

definition positive :: "pyval \<Rightarrow> int option" where
  "positive v = (case v of PInt n \<Rightarrow> if 0 < n then Some n else None | _ \<Rightarrow> None)"

definition collect_projection_files :: "lane_env \<Rightarrow> string list \<Rightarrow> pyval \<Rightarrow> exn + pymap list" where
  "collect_projection_files env commits max_file_bytes = (case positive max_file_bytes of
      None \<Rightarrow> Inl (CentralProjectionError ''INVALID_MAX_FILE_BYTES'')
    | Some n \<Rightarrow> collect_commits env n [] commits)"

definition default_max_files :: int where "default_max_files = 500"
definition default_max_file_bytes :: int where "default_max_file_bytes = 512 * 1024"
definition default_max_total_bytes :: int where "default_max_total_bytes = 5 * 1024 * 1024"

section \<open>Batches\<close>

text \<open>The loop, with the open batch and its bytes.\<close>

fun chunk_loop :: "(pyval \<Rightarrow> string) \<Rightarrow> int \<Rightarrow> int \<Rightarrow> pymap list \<Rightarrow> int \<Rightarrow> pymap list \<Rightarrow> exn + pymap list list" where
  "chunk_loop shown max_files max_total current current_bytes [] = Inr (if current = [] then [] else [current])"
| "chunk_loop shown max_files max_total current current_bytes (item # items) = (case get_default item ''content_bytes'' PNone of
      PInt bs \<Rightarrow>
        requireE (0 \<le> bs) (CentralProjectionError ''PROJECTION_FILE_SIZE_INVALID'')
        (requireE (bs \<le> max_total) (CentralProjectionError (''MESSAGE_FILE_EXCEEDS_BATCH_LIMIT:'' @ shown (get_default item ''path'' PNone)))
        (if current \<noteq> [] \<and> (max_files \<le> int (length current) \<or> max_total < current_bytes + bs)
         then bindE (chunk_loop shown max_files max_total [item] bs items) (\<lambda>chunks. Inr (current # chunks))
         else chunk_loop shown max_files max_total (current @ [item]) (current_bytes + bs) items))
    | _ \<Rightarrow> Inl (CentralProjectionError ''PROJECTION_FILE_SIZE_INVALID''))"

definition chunk_projection_files :: "(pyval \<Rightarrow> string) \<Rightarrow> pymap list \<Rightarrow> pyval \<Rightarrow> pyval \<Rightarrow> exn + pymap list list" where
  "chunk_projection_files shown files max_files max_total = (case positive max_files of
      None \<Rightarrow> Inl (CentralProjectionError ''INVALID_MAX_FILES'')
    | Some m \<Rightarrow> (case positive max_total of
        None \<Rightarrow> Inl (CentralProjectionError ''INVALID_MAX_TOTAL_BYTES'')
      | Some n \<Rightarrow> chunk_loop shown m n [] 0 files))"

definition transport_file :: "pymap \<Rightarrow> pymap" where
  "transport_file item = filter (\<lambda>(key, v). key \<noteq> ''content_bytes'') item"

section \<open>The provider's client\<close>

datatype posted = Posted pymap "exn + pyval"

fun posted_payload :: "posted \<Rightarrow> pymap" where
  "posted_payload (Posted payload answer) = payload"

record 'g provider =
  transport :: "pymap \<Rightarrow> 'g \<Rightarrow> (exn + pyval) \<times> 'g"
  shown_value :: "pyval \<Rightarrow> string"

type_synonym ('g, 'a) client = "(exn, posted, 'g, 'a) io"

definition request :: "string \<Rightarrow> pymap \<Rightarrow> pymap" where
  "request operation fs = (''protocol_version'', PInt 2) # (''operation'', PStr operation) # fs"

definition operation_failed :: "'g provider \<Rightarrow> string \<Rightarrow> pyval \<Rightarrow> exn" where
  "operation_failed p operation code = CentralProjectionError (''PROVIDER_OPERATION_FAILED:'' @ operation @ '':'' @
     (if truthy code then shown_value p code else ''UNKNOWN''))"

definition post :: "'g provider \<Rightarrow> string \<Rightarrow> pymap \<Rightarrow> ('g, pymap) client" where
  "post p operation fs =
    and_then (ask (Posted (request operation fs)) (transport p (request operation fs))) (\<lambda>result. case result of
      PDict m \<Rightarrow> require (get_default m ''ok'' PNone = PBool True) (operation_failed p operation (get_default m ''error'' PNone)) (give m)
    | _ \<Rightarrow> throw (operation_failed p operation PNone))"

definition lane_fields :: "string \<Rightarrow> string \<Rightarrow> pymap" where
  "lane_fields identity branch = [(''identity'', PStr identity), (''branch'', PStr branch)]"

definition get_lane :: "'g provider \<Rightarrow> string \<Rightarrow> string \<Rightarrow> ('g, pymap option) client" where
  "get_lane p identity branch =
    and_then (post p ''cursor'' (lane_fields identity branch)) (\<lambda>result. case get_default result ''lane'' PNone of
      PNone \<Rightarrow> give None
    | PDict lane \<Rightarrow> give (Some lane)
    | _ \<Rightarrow> throw (CentralProjectionError ''PROVIDER_CURSOR_INVALID''))"

definition control_fields :: "string \<Rightarrow> string \<Rightarrow> string \<Rightarrow> string \<Rightarrow> pymap" where
  "control_fields identity branch control_sha topology_sha =
    lane_fields identity branch @ [(''control_sha'', PStr control_sha), (''topology_sha'', PStr topology_sha)]"

definition set_control_cut :: "'g provider \<Rightarrow> string \<Rightarrow> string \<Rightarrow> string \<Rightarrow> string \<Rightarrow> ('g, unit) client" where
  "set_control_cut p identity branch control_sha topology_sha =
    and_then (post p ''set_control_cut'' (control_fields identity branch control_sha topology_sha)) (\<lambda>_. give ())"

definition text_or_none :: "string option \<Rightarrow> pyval" where
  "text_or_none s = (case s of None \<Rightarrow> PNone | Some s \<Rightarrow> PStr s)"

definition claim_fields ::
  "string \<Rightarrow> string \<Rightarrow> string option \<Rightarrow> string \<Rightarrow> string \<Rightarrow> string \<Rightarrow> string list \<Rightarrow> string \<Rightarrow> int \<Rightarrow> pymap" where
  "claim_fields identity branch expected target control_sha topology_sha files owner lease_seconds =
    lane_fields identity branch @ [(''expected_projected_head'', text_or_none expected), (''target_head'', PStr target),
     (''control_sha'', PStr control_sha), (''topology_sha'', PStr topology_sha), (''files'', PList (map PStr files)),
     (''owner'', PStr owner), (''lease_seconds'', PInt lease_seconds)]"

text \<open>The claim's answer holds a batch with the two texts.\<close>

definition claim_batch ::
  "'g provider \<Rightarrow> string \<Rightarrow> string \<Rightarrow> string option \<Rightarrow> string \<Rightarrow> string \<Rightarrow> string \<Rightarrow> string list \<Rightarrow> string \<Rightarrow> int \<Rightarrow> ('g, string \<times> string) client" where
  "claim_batch p identity branch expected target control_sha topology_sha files owner lease_seconds =
    and_then (post p ''claim_batch'' (claim_fields identity branch expected target control_sha topology_sha files owner lease_seconds)) (\<lambda>result.
    case get_default result ''batch'' PNone of
      PDict batch \<Rightarrow> (case (get_default batch ''batch_id'' PNone, get_default batch ''claim_token'' PNone) of
          (PStr batch_id, PStr claim_token) \<Rightarrow> give (batch_id, claim_token)
        | _ \<Rightarrow> throw (CentralProjectionError ''PROVIDER_CLAIM_INVALID''))
    | _ \<Rightarrow> throw (CentralProjectionError ''PROVIDER_CLAIM_INVALID''))"

definition batch_fields :: "string \<Rightarrow> string \<Rightarrow> string \<Rightarrow> string \<Rightarrow> string \<Rightarrow> pymap list \<Rightarrow> pymap" where
  "batch_fields identity branch head_sha batch_id claim_token files =
    [(''repository'', PStr ''example/ccb-core''), (''identity'', PStr identity), (''branch'', PStr branch),
     (''ref'', PStr (''refs/heads/'' @ branch)), (''branch_head'', PStr head_sha), (''lane_identity'', PStr identity),
     (''journal'', PDict [(''batch_id'', PStr batch_id), (''claim_token'', PStr claim_token)]),
     (''files'', PList (map (\<lambda>item. PDict (transport_file item)) files))]"

definition dict_rows :: "pyval \<Rightarrow> pymap list option" where
  "dict_rows v = (case v of
      PList rows \<Rightarrow> if list_all (\<lambda>row. case row of PDict m \<Rightarrow> True | _ \<Rightarrow> False) rows
        then Some (map (\<lambda>row. case row of PDict m \<Rightarrow> m | _ \<Rightarrow> []) rows) else None
    | _ \<Rightarrow> None)"

definition project_batch :: "'g provider \<Rightarrow> string \<Rightarrow> string \<Rightarrow> string \<Rightarrow> string \<Rightarrow> string \<Rightarrow> pymap list \<Rightarrow> ('g, pymap list) client" where
  "project_batch p identity branch head_sha batch_id claim_token files =
    and_then (post p ''project_batch'' (batch_fields identity branch head_sha batch_id claim_token files)) (\<lambda>result.
    case dict_rows (get_default result ''results'' PNone) of
      None \<Rightarrow> throw (CentralProjectionError ''PROVIDER_PROJECT_RESULT_INVALID'')
    | Some rows \<Rightarrow> give rows)"

definition finalize_fields :: "string \<Rightarrow> string \<Rightarrow> pymap" where
  "finalize_fields batch_id claim_token = [(''batch_id'', PStr batch_id), (''claim_token'', PStr claim_token)]"

definition finalize_batch :: "'g provider \<Rightarrow> string \<Rightarrow> string \<Rightarrow> ('g, pymap) client" where
  "finalize_batch p batch_id claim_token =
    and_then (post p ''finalize_batch'' (finalize_fields batch_id claim_token)) (\<lambda>result. case get_default result ''lane'' PNone of
      PDict lane \<Rightarrow> give lane
    | _ \<Rightarrow> throw (CentralProjectionError ''PROVIDER_FINALIZE_INVALID''))"

section \<open>Projecting the requested lanes\<close>

definition claim_lease_seconds :: int where "claim_lease_seconds = 15 * 60"

text \<open>\<open>_CursorJournal\<close>: the cursor of one lane.\<close>

definition cursor_journal :: "string \<Rightarrow> string \<Rightarrow> string option \<Rightarrow> string \<Rightarrow> string \<Rightarrow> exn + string option" where
  "cursor_journal identity branch head i b =
    requireE (i = identity \<and> b = branch) (ReconcileError ''CURSOR_JOURNAL_LANE_MISMATCH'') (Inr head)"

definition project_git :: "lane_env \<Rightarrow> string list \<Rightarrow> exn + string" where
  "project_git env args = (case git_text env args of
      Inl r \<Rightarrow> Inl (ReconcileError (''GIT_COMMAND_FAILED:'' @ (if fst r \<noteq> [] then strip (fst r) else snd r)))
    | Inr out \<Rightarrow> Inr (strip out))"

definition provider_cursor :: "pymap option \<Rightarrow> exn + string option" where
  "provider_cursor lane = (case lane of
      None \<Rightarrow> Inl (CentralProjectionError ''PROVIDER_LANE_UNSEEDED'')
    | Some row \<Rightarrow> (case get_default row ''projected_head_sha'' PNone of
        PNone \<Rightarrow> Inr None
      | PStr head \<Rightarrow> requireE (sha40 head) (CentralProjectionError ''PROVIDER_CURSOR_INVALID'') (Inr (Some head))
      | _ \<Rightarrow> Inl (CentralProjectionError ''PROVIDER_CURSOR_INVALID'')))"

definition run_owner :: "string option \<Rightarrow> string option \<Rightarrow> exn + string" where
  "run_owner run_id attempt = (case (run_id, attempt) of
      (Some r, Some a) \<Rightarrow> requireE (r \<noteq> [] \<and> a \<noteq> []) (CentralProjectionError ''GITHUB_RUN_IDENTITY_REQUIRED'')
        (Inr (''github-actions:'' @ r @ '':'' @ a))
    | _ \<Rightarrow> Inl (CentralProjectionError ''GITHUB_RUN_IDENTITY_REQUIRED''))"

text \<open>What stays fixed during a run: the contracts, Git and the control cut.\<close>

record project_context =
  ctx_topology :: json_file
  ctx_cutover :: json_file
  ctx_git :: lane_env
  ctx_run :: git_run
  ctx_owner :: string
  ctx_hint :: "string option"
  ctx_control_sha :: string
  ctx_topology_sha :: string

definition disposition_text :: "disposition \<Rightarrow> string" where
  "disposition_text d = (case d of NOOP \<Rightarrow> ''NOOP'' | FORWARD \<Rightarrow> ''FORWARD'' | STALE_EVENT \<Rightarrow> ''STALE_EVENT''
     | DIVERGED_HISTORY \<Rightarrow> ''DIVERGED_HISTORY'')"

definition lane_report :: "project_context \<Rightarrow> string \<Rightarrow> string \<Rightarrow> reconcile_target \<Rightarrow> pymap" where
  "lane_report ctx identity branch target =
    [(''identity'', PStr identity), (''branch'', PStr branch), (''disposition'', PStr (disposition_text (tgt_disposition target))),
     (''projected_head'', text_or_none (tgt_projected target)), (''observed_head'', PStr (tgt_observed target))] @
    (case ctx_hint ctx of None \<Rightarrow> [] | Some hint \<Rightarrow>
      [(''workflow_run_head_hint'', PStr hint), (''hint_matches_observed_head'', PBool (hint = tgt_observed target))])"

definition lane_target :: "project_context \<Rightarrow> string \<Rightarrow> string \<Rightarrow> string option \<Rightarrow> exn + reconcile_target" where
  "lane_target ctx identity branch cursor =
    derive_target (ctx_topology ctx) (ctx_cutover ctx) (local_repository (ctx_run ctx) True) (cursor_journal identity branch cursor) (PStr identity)"

definition row_ok :: "pymap \<Rightarrow> bool" where
  "row_ok row = (case get_default row ''result'' PNone of
      PStr status \<Rightarrow> casefold status \<notin> {''conflict'', ''failed'', ''error''}
    | _ \<Rightarrow> False)"

fun project_chunks :: "'g provider \<Rightarrow> string \<Rightarrow> string \<Rightarrow> string \<Rightarrow> string \<Rightarrow> string \<Rightarrow> int \<Rightarrow> pymap list list \<Rightarrow> ('g, int) client" where
  "project_chunks p identity branch head batch_id claim_token projected [] = give projected"
| "project_chunks p identity branch head batch_id claim_token projected (chunk # chunks) =
     and_then (project_batch p identity branch head batch_id claim_token chunk) (\<lambda>rows.
     require (list_all row_ok rows) (CentralProjectionError ''PROVIDER_FILE_RESULT_FAILED'')
     (project_chunks p identity branch head batch_id claim_token (projected + int (length rows)) chunks))"

text \<open>The validated commits of a FORWARD target and their files.\<close>

definition lane_files :: "project_context \<Rightarrow> string \<Rightarrow> reconcile_target \<Rightarrow> exn + pymap list" where
  "lane_files ctx identity target =
    bindE (validate_active_writer_range (ctx_git ctx) identity (tgt_base target) (tgt_observed target) (ctx_topology ctx) (Some (ctx_cutover ctx)))
      (\<lambda>commits.
    requireE (commits = tgt_commits target) (ReconcileError ''TRUSTED_RANGE_MISMATCH'')
    (collect_projection_files (ctx_git ctx) commits (PInt default_max_file_bytes)))"

definition path_text :: "'g provider \<Rightarrow> pymap \<Rightarrow> string" where
  "path_text p item = (case get_default item ''path'' PNone of PStr s \<Rightarrow> s | v \<Rightarrow> shown_value p v)"

definition project_forward :: "project_context \<Rightarrow> 'g provider \<Rightarrow> string \<Rightarrow> string \<Rightarrow> reconcile_target \<Rightarrow> ('g, int) client" where
  "project_forward ctx p identity branch target =
    and_then (lift_result (lane_files ctx identity target)) (\<lambda>files.
    and_then (set_control_cut p identity branch (ctx_control_sha ctx) (ctx_topology_sha ctx)) (\<lambda>_.
    and_then (claim_batch p identity branch (tgt_projected target) (tgt_observed target) (ctx_control_sha ctx) (ctx_topology_sha ctx)
        (map (path_text p) files) (ctx_owner ctx) claim_lease_seconds) (\<lambda>(batch_id, claim_token).
    and_then (lift_result (chunk_projection_files (shown_value p) files (PInt default_max_files) (PInt default_max_total_bytes))) (\<lambda>chunks.
    and_then (project_chunks p identity branch (tgt_observed target) batch_id claim_token 0 chunks) (\<lambda>projected.
    and_then (finalize_batch p batch_id claim_token) (\<lambda>finalized.
    require (get_default finalized ''projected_head_sha'' PNone = PStr (tgt_observed target))
      (CentralProjectionError ''PROVIDER_FINAL_CURSOR_MISMATCH'') (give projected)))))))"

definition project_lane :: "project_context \<Rightarrow> 'g provider \<Rightarrow> string \<Rightarrow> string \<Rightarrow> ('g, pymap) client" where
  "project_lane ctx p identity branch =
    and_then (get_lane p identity branch) (\<lambda>row.
    and_then (lift_result (provider_cursor row)) (\<lambda>cursor.
    and_then (lift_result (lane_target ctx identity branch cursor)) (\<lambda>target.
    let report = lane_report ctx identity branch target in
    case tgt_disposition target of
      NOOP \<Rightarrow> give report
    | STALE_EVENT \<Rightarrow> give report
    | DIVERGED_HISTORY \<Rightarrow> throw (ReconcileError (''DIVERGED_HISTORY:'' @ identity @ '':'' @ branch))
    | FORWARD \<Rightarrow> and_then (project_forward ctx p identity branch target) (\<lambda>projected.
        give (report @ [(''projected_files'', PInt projected), (''finalized_head'', PStr (tgt_observed target))])))))"

fun project_lanes :: "project_context \<Rightarrow> 'g provider \<Rightarrow> lanes \<Rightarrow> string list \<Rightarrow> ('g, pymap list) client" where
  "project_lanes ctx p lanes [] = give []"
| "project_lanes ctx p lanes (identity # identities) = (case dict_get lanes identity of
      None \<Rightarrow> throw (KeyError identity)
    | Some lane \<Rightarrow>
        and_then (project_lane ctx p identity (lane_branch lane)) (\<lambda>report.
        and_then (project_lanes ctx p lanes identities) (\<lambda>reports. give (report # reports))))"

text \<open>\<open>topology_rel\<close> is the topology's path relative to the repository, or the error of a path outside it.\<close>

definition project_requested_lanes ::
  "json_file \<Rightarrow> json_file \<Rightarrow> lane_env \<Rightarrow> git_run \<Rightarrow> exn + string \<Rightarrow> string \<Rightarrow> pymap \<Rightarrow> string \<Rightarrow> 'g provider \<Rightarrow> string \<Rightarrow> ('g, pymap) client" where
  "project_requested_lanes topology cutover git run topology_rel event_name event repository p owner =
    and_then (lift_result (requested_identities event_name event topology repository)) (\<lambda>(identities, hint).
    and_then (lift_result (load_writer_lanes topology)) (\<lambda>lanes.
    and_then (lift_result (project_git git [''rev-parse'', ''HEAD''])) (\<lambda>control_sha.
    and_then (lift_result (bindE topology_rel (\<lambda>rel. project_git git [''rev-parse'', ''HEAD:'' @ rel]))) (\<lambda>topology_sha.
    require (sha40 control_sha \<and> sha40 topology_sha) (ReconcileError ''TRUSTED_CONTROL_CUT_INVALID'')
    (and_then (project_lanes \<lparr>ctx_topology = topology, ctx_cutover = cutover, ctx_git = git, ctx_run = run, ctx_owner = owner, ctx_hint = hint,
        ctx_control_sha = control_sha, ctx_topology_sha = topology_sha\<rparr> p lanes identities) (\<lambda>reports.
     give [(''ok'', PBool True), (''mode'', PStr ''project''), (''repository'', PStr repository), (''event_name'', PStr event_name),
           (''lanes'', PList (map PDict reports))]))))))"

section \<open>The batches are the fewest that fit\<close>

definition item_bytes :: "pymap \<Rightarrow> int" where
  "item_bytes item = (case get_default item ''content_bytes'' PNone of PInt n \<Rightarrow> n | _ \<Rightarrow> 0)"

definition sized :: "int \<Rightarrow> pymap \<Rightarrow> bool" where
  "sized max_total item \<longleftrightarrow> (\<exists>n. get_default item ''content_bytes'' PNone = PInt n \<and> 0 \<le> n \<and> n \<le> max_total)"

definition batch_bytes :: "pymap list \<Rightarrow> int" where
  "batch_bytes c = sum_list (map item_bytes c)"

definition fits :: "int \<Rightarrow> int \<Rightarrow> pymap list \<Rightarrow> bool" where
  "fits max_files max_total c \<longleftrightarrow> int (length c) \<le> max_files \<and> batch_bytes c \<le> max_total"

text \<open>Nonempty batches that fit, each followed by a file that would not have fitted into it.\<close>

definition packing :: "int \<Rightarrow> int \<Rightarrow> pymap list list \<Rightarrow> bool" where
  "packing max_files max_total cs \<longleftrightarrow> (\<forall>c \<in> set cs. c \<noteq> [] \<and> fits max_files max_total c) \<and>
     successively (\<lambda>c d. \<not> fits max_files max_total (c @ [hd d])) cs"

lemma batch_bytes_simps [simp]:
  "batch_bytes [] = 0" "batch_bytes (x # c) = item_bytes x + batch_bytes c" "batch_bytes (c @ d) = batch_bytes c + batch_bytes d"
  by (simp_all add: batch_bytes_def)



lemma packing_simps [simp]:
  "packing m n []"
  "packing m n [c] \<longleftrightarrow> c \<noteq> [] \<and> fits m n c"
  "packing m n (c # d # cs) \<longleftrightarrow> c \<noteq> [] \<and> fits m n c \<and> \<not> fits m n (c @ [hd d]) \<and> packing m n (d # cs)"
  by (auto simp: packing_def)



lemma hd_concat_packing: "packing m n (c # cs) \<Longrightarrow> concat (c # cs) = x # xs \<Longrightarrow> hd c = x"
  by (cases c) (auto simp: packing_def)

lemma chunk_loop_packing:
  assumes "list_all (sized n) items" and "0 < m" and "list_all (sized n) current" and "fits m n current" and "cb = batch_bytes current"
  shows "\<exists>cs. chunk_loop shown m n current cb items = Inr cs \<and> concat cs = current @ items \<and> packing m n cs"
  using assms
proof (induction items arbitrary: current cb)
  case Nil
  then show ?case
    by (cases "current = []") auto
next
  case (Cons item items)
  obtain bs where b: "get_default item ''content_bytes'' PNone = PInt bs" "0 \<le> bs" "bs \<le> n" "item_bytes item = bs"
    using Cons.prems(1) by (auto simp: sized_def item_bytes_def)
  have one: "list_all (sized n) [item]" "fits m n [item]"
    using Cons.prems(1,2) b by (auto simp: fits_def)
  show ?case
  proof (cases "current \<noteq> [] \<and> (m \<le> int (length current) \<or> n < cb + bs)")
    case True
    obtain cs where cs: "chunk_loop shown m n [item] bs items = Inr cs" "concat cs = item # items" "packing m n cs"
      using Cons.IH [of "[item]" bs] Cons.prems(1,2) one b(4) by auto
    then obtain c ds where c: "cs = c # ds"
      by (cases cs) auto
    have "hd c = item"
      using hd_concat_packing [OF cs(3) [unfolded c] cs(2) [unfolded c]] .
    moreover have "\<not> fits m n (current @ [item])"
      using True b(4) Cons.prems(5) by (auto simp: fits_def)
    ultimately have "packing m n (current # cs)"
      using True cs(3) Cons.prems(4) by (simp add: c)
    then show ?thesis
      using True cs b by (intro exI [of _ "current # cs"]) simp
  next
    case False
    have "fits m n (current @ [item])"
      using False b(4) Cons.prems(2,4,5) one(2) by (cases "current = []") (auto simp: fits_def)
    then obtain cs where "chunk_loop shown m n (current @ [item]) (cb + bs) items = Inr cs"
        "concat cs = (current @ [item]) @ items" "packing m n cs"
      using Cons.IH [of "current @ [item]" "cb + bs"] Cons.prems one(1) b(4) by auto
    then show ?thesis
      using False b by (intro exI [of _ cs]) auto
  qed
qed





section \<open>Collected files fit\<close>

lemma collect_paths_sized:
  "collect_paths env m commit at seen paths = Inr (files, seen') \<Longrightarrow> list_all (sized m) files"
  by (induction env m commit at seen paths arbitrary: files seen' rule: collect_paths.induct)
    (auto simp: projection_file_def sized_def get_default_def)

text \<open>The names \<open>diff-tree\<close> lists of the added messages of a commit.\<close>

definition added_names :: "lane_env \<Rightarrow> string \<Rightarrow> string \<Rightarrow> exn + string list" where
  "added_names env parent commit =
    bindE (central_git_bytes env [''diff-tree'', ''--no-commit-id'', ''--name-only'', ''--diff-filter=A'', ''-r'', ''-z'', parent, commit,
        ''--'', ''messages'']) (\<lambda>raw. mapE decode_field (filter (ends_with ''.md'') (pieces (\<lambda>c. c = CHR 0x00) raw)))"

lemma collect_commit_Inr:
  "collect_commit env m commit seen = Inr res \<longleftrightarrow>
    (\<exists>out c parent paths at. central_git env [''rev-list'', ''--parents'', ''-n'', ''1'', commit] = Inr out \<and> pieces is_space out = [c, parent] \<and>
       added_names env parent commit = Inr paths \<and> central_git env [''show'', ''-s'', ''--format=%cI'', commit] = Inr at \<and>
       collect_paths env m commit at seen (sort paths) = Inr res)"
  unfolding collect_commit_def bindE_eq_Inr two_words added_names_def by blast

lemma collect_commits_sized: "collect_commits env m seen commits = Inr files \<Longrightarrow> list_all (sized m) files"
proof (induction commits arbitrary: seen files)
  case (Cons commit commits)
  obtain fs seen' rest where f: "collect_commit env m commit seen = Inr (fs, seen')" "collect_commits env m seen' commits = Inr rest"
      "files = fs @ rest"
    using Cons.prems by auto
  have "list_all (sized m) fs"
    using f(1) collect_paths_sized unfolding collect_commit_Inr by blast
  then show ?case
    using Cons.IH [OF f(2)] f(3) by simp
qed simp

lemma sized_mono: "list_all (sized m) files \<Longrightarrow> m \<le> n \<Longrightarrow> list_all (sized n) files"
  by (force simp: sized_def list_all_iff)

lemma lane_files_chunks:
  assumes "lane_files ctx identity target = Inr files"
  obtains chunks where "chunk_projection_files shown files (PInt default_max_files) (PInt default_max_total_bytes) = Inr chunks"
    "concat chunks = files" "packing default_max_files default_max_total_bytes chunks"
proof -
  have "list_all (sized default_max_file_bytes) files"
    using assms by (auto simp: lane_files_def collect_projection_files_def positive_def default_max_file_bytes_def dest: collect_commits_sized)
  then have "list_all (sized default_max_total_bytes) files"
    by (rule sized_mono) (simp add: default_max_file_bytes_def default_max_total_bytes_def)
  moreover have "0 < default_max_files" "0 < default_max_total_bytes"
    by (simp_all add: default_max_files_def default_max_total_bytes_def)
  moreover have "fits default_max_files default_max_total_bytes []"
    by (simp add: fits_def default_max_files_def default_max_total_bytes_def)
  ultimately show thesis
    using chunk_loop_packing [of default_max_total_bytes files default_max_files "[]" 0 shown] that
    by (auto simp: chunk_projection_files_def positive_def)
qed

end
