(* ===== verification/ProjectionRuns.thy ===== *)
theory ProjectionRuns
  imports CentralProjection
begin

text \<open>
  What a run of the central projector asks of the provider, for every provider: each lane's requests are
  a prefix of one script (cursor, control cut, claim, batches, finalization), the script follows from
  validated commits only, and a lane is reported as projected only after the whole script.
\<close>

section \<open>Sessions\<close>

text \<open>The answer to a cursor request, and to a claim.\<close>

definition answered_lane :: "exn + pyval \<Rightarrow> pymap option \<Rightarrow> bool" where
  "answered_lane answer row \<longleftrightarrow> (\<exists>m. answer = Inr (PDict m) \<and> get_default m ''ok'' PNone = PBool True \<and>
     get_default m ''lane'' PNone = (case row of None \<Rightarrow> PNone | Some lane \<Rightarrow> PDict lane))"

definition answered_claim :: "posted \<Rightarrow> string \<Rightarrow> string \<Rightarrow> bool" where
  "answered_claim c batch_id claim_token \<longleftrightarrow> (\<exists>payload m batch. c = Posted payload (Inr (PDict m)) \<and> get_default m ''ok'' PNone = PBool True \<and>
     get_default m ''batch'' PNone = PDict batch \<and> get_default batch ''batch_id'' PNone = PStr batch_id \<and>
     get_default batch ''claim_token'' PNone = PStr claim_token)"

definition answered_rows :: "posted \<Rightarrow> bool" where
  "answered_rows c \<longleftrightarrow> (\<exists>payload m rows. c = Posted payload (Inr (PDict m)) \<and> get_default m ''ok'' PNone = PBool True \<and>
     dict_rows (get_default m ''results'' PNone) = Some rows \<and> list_all row_ok rows)"

definition answered_final :: "posted \<Rightarrow> string \<Rightarrow> bool" where
  "answered_final c head \<longleftrightarrow> (\<exists>payload m lane. c = Posted payload (Inr (PDict m)) \<and> get_default m ''ok'' PNone = PBool True \<and>
     get_default m ''lane'' PNone = PDict lane \<and> get_default lane ''projected_head_sha'' PNone = PStr head)"

text \<open>The calls that project batches, and the requests that open a claim.\<close>

definition batch_request :: "string \<Rightarrow> string \<Rightarrow> string \<Rightarrow> string \<Rightarrow> string \<Rightarrow> pymap list \<Rightarrow> pymap" where
  "batch_request identity branch head batch_id claim_token chunk =
    request ''project_batch'' (batch_fields identity branch head batch_id claim_token chunk)"

definition claim_opening :: "project_context \<Rightarrow> 'g provider \<Rightarrow> string \<Rightarrow> string \<Rightarrow> reconcile_target \<Rightarrow> pymap list \<Rightarrow> pymap list" where
  "claim_opening ctx p identity branch target files =
    [request ''set_control_cut'' (control_fields identity branch (ctx_control_sha ctx) (ctx_topology_sha ctx)),
     request ''claim_batch'' (claim_fields identity branch (tgt_projected target) (tgt_observed target) (ctx_control_sha ctx)
       (ctx_topology_sha ctx) (map (path_text p) files) (ctx_owner ctx) claim_lease_seconds)]"

text \<open>
  A session that forwards a lane: it ends before its claim is answered, or among its batches, or with
  the request to finalize. Each step but the last has been answered as the code demands.
\<close>

definition forwards ::
  "project_context \<Rightarrow> 'g provider \<Rightarrow> string \<Rightarrow> string \<Rightarrow> reconcile_target \<Rightarrow> pymap list \<Rightarrow> pymap list list \<Rightarrow> posted list \<Rightarrow> exn + int \<Rightarrow> bool" where
  "forwards ctx p identity branch target files chunks cs r \<longleftrightarrow>
    strict_prefix (map posted_payload cs) (claim_opening ctx p identity branch target files) \<and> isl r \<or>
    (\<exists>control claim bs. cs = control # claim # bs \<and> map posted_payload [control, claim] = claim_opening ctx p identity branch target files \<and>
      (bs = [] \<and> isl r \<or>
       (\<exists>batch_id claim_token. answered_claim claim batch_id claim_token \<and>
         (prefix (map posted_payload bs) (map (batch_request identity branch (tgt_observed target) batch_id claim_token) chunks) \<and> isl r \<or>
          (\<exists>bs' final. bs = bs' @ [final] \<and> list_all answered_rows bs' \<and>
             map posted_payload bs' = map (batch_request identity branch (tgt_observed target) batch_id claim_token) chunks \<and>
             posted_payload final = request ''finalize_batch'' (finalize_fields batch_id claim_token) \<and>
             (isl r \<or> answered_final final (tgt_observed target)))))))"

definition lane_session :: "project_context \<Rightarrow> 'g provider \<Rightarrow> string \<Rightarrow> string \<Rightarrow> posted list \<Rightarrow> exn + pymap \<Rightarrow> bool" where
  "lane_session ctx p identity branch cs r \<longleftrightarrow>
    (\<exists>answer rest. cs = Posted (request ''cursor'' (lane_fields identity branch)) answer # rest \<and>
      (rest = [] \<and> isl r \<or>
       (\<exists>row cursor target. answered_lane answer row \<and> provider_cursor row = Inr cursor \<and> lane_target ctx identity branch cursor = Inr target \<and>
         (tgt_disposition target \<in> {NOOP, STALE_EVENT} \<and> rest = [] \<or>
          tgt_disposition target = FORWARD \<and> (\<exists>files chunks n. lane_files ctx identity target = Inr files \<and>
            chunk_projection_files (shown_value p) files (PInt default_max_files) (PInt default_max_total_bytes) = Inr chunks \<and>
            forwards ctx p identity branch target files chunks rest (if isl r then Inl (projl r) else Inr n))))))"

fun sessions :: "project_context \<Rightarrow> 'g provider \<Rightarrow> lanes \<Rightarrow> string list \<Rightarrow> posted list \<Rightarrow> bool \<Rightarrow> bool" where
  "sessions ctx p lanes [] cs failed \<longleftrightarrow> cs = [] \<and> \<not> failed"
| "sessions ctx p lanes (identity # identities) cs failed \<longleftrightarrow> (\<exists>lane. dict_get lanes identity = Some lane \<and>
     ((\<exists>e. failed \<and> lane_session ctx p identity (lane_branch lane) cs (Inl e)) \<or>
      (\<exists>cs1 cs2 report. cs = cs1 @ cs2 \<and> lane_session ctx p identity (lane_branch lane) cs1 (Inr report) \<and>
         sessions ctx p lanes identities cs2 failed)))"

section \<open>Traces\<close>

lemma post_traces:
  "traces (post p operation fs) (\<lambda>cs r. \<exists>answer. cs = [Posted (request operation fs) answer] \<and>
     (\<forall>m. r = Inr m \<longrightarrow> answer = Inr (PDict m) \<and> get_default m ''ok'' PNone = PBool True))"
  unfolding post_def
proof (intro trace_rules, simp, goal_cases)
  case (1 result)
  then show ?case
    by (cases result) (auto simp: traces_def give_def throw_def require_def split: if_splits)
qed

lemma post_then:
  assumes "\<And>answer e. Q [Posted (request operation fs) answer] (Inl e)"
    and "\<And>m. get_default m ''ok'' PNone = PBool True \<Longrightarrow> traces (k m) (\<lambda>cs r. Q (Posted (request operation fs) (Inr (PDict m)) # cs) r)"
  shows "traces (and_then (post p operation fs) k) Q"
proof (rule tr_then [OF post_traces])
  fix cs m
  assume "\<exists>answer. cs = [Posted (request operation fs) answer] \<and>
    (\<forall>m'. Inr m = Inr m' \<longrightarrow> answer = Inr (PDict m') \<and> get_default m' ''ok'' PNone = PBool True)"
  then have "cs = [Posted (request operation fs) (Inr (PDict m))]" "get_default m ''ok'' PNone = PBool True"
    by auto
  then show "traces (k m) (\<lambda>cs' r. Q (cs @ cs') r)"
    using assms(2) by simp
qed (use assms(1) in auto)

lemma get_lane_traces:
  "traces (get_lane p identity branch) (\<lambda>cs r. \<exists>answer. cs = [Posted (request ''cursor'' (lane_fields identity branch)) answer] \<and>
     (\<forall>row. r = Inr row \<longrightarrow> answered_lane answer row))"
  unfolding get_lane_def
proof (rule post_then, force, goal_cases)
  case (1 m)
  then show ?case
    by (cases "get_default m ''lane'' PNone") (auto intro!: trace_rules simp: answered_lane_def)
qed

lemma set_control_cut_traces:
  "traces (set_control_cut p identity branch control topology)
     (\<lambda>cs r. \<exists>c. cs = [c] \<and> posted_payload c = request ''set_control_cut'' (control_fields identity branch control topology))"
  unfolding set_control_cut_def by (rule post_then) (auto intro!: trace_rules)

lemma claim_batch_traces:
  "traces (claim_batch p identity branch expected target control topology files owner lease)
     (\<lambda>cs r. \<exists>c. cs = [c] \<and> posted_payload c = request ''claim_batch'' (claim_fields identity branch expected target control topology files owner lease) \<and>
        (\<forall>b t. r = Inr (b, t) \<longrightarrow> answered_claim c b t))"
  unfolding claim_batch_def
proof (rule post_then, force, goal_cases)
  case (1 m)
  show ?case
  proof (cases "get_default m ''batch'' PNone")
    case (PDict batch)
    show ?thesis
      using 1 PDict
      by (cases "get_default batch ''batch_id'' PNone"; cases "get_default batch ''claim_token'' PNone")
        (auto intro!: trace_rules simp: answered_claim_def)
  qed (use 1 in \<open>auto intro!: trace_rules\<close>)
qed

lemma project_batch_traces:
  "traces (project_batch p identity branch head batch_id claim_token chunk)
     (\<lambda>cs r. \<exists>c. cs = [c] \<and> posted_payload c = batch_request identity branch head batch_id claim_token chunk \<and>
        (\<forall>rows. r = Inr rows \<longrightarrow> (list_all row_ok rows \<longrightarrow> answered_rows c)))"
  unfolding project_batch_def batch_request_def
proof (rule post_then, force, goal_cases)
  case (1 m)
  then show ?case
    by (cases "dict_rows (get_default m ''results'' PNone)") (auto intro!: trace_rules simp: answered_rows_def)
qed

lemma finalize_batch_traces:
  "traces (finalize_batch p batch_id claim_token)
     (\<lambda>cs r. \<exists>c. cs = [c] \<and> posted_payload c = request ''finalize_batch'' (finalize_fields batch_id claim_token) \<and>
        (\<forall>lane head. r = Inr lane \<longrightarrow> get_default lane ''projected_head_sha'' PNone = PStr head \<longrightarrow> answered_final c head))"
  unfolding finalize_batch_def
proof (rule post_then, force, goal_cases)
  case (1 m)
  then show ?case
    by (cases "get_default m ''lane'' PNone") (auto intro!: trace_rules simp: answered_final_def)
qed

lemma project_chunks_traces:
  "traces (project_chunks p identity branch head batch_id claim_token n chunks)
     (\<lambda>cs r. prefix (map posted_payload cs) (map (batch_request identity branch head batch_id claim_token) chunks) \<and>
        (\<not> isl r \<longrightarrow> map posted_payload cs = map (batch_request identity branch head batch_id claim_token) chunks \<and> list_all answered_rows cs))"
proof (induction chunks arbitrary: n)
  case Nil
  then show ?case
    by (auto intro!: trace_rules)
next
  case (Cons chunk chunks)
  show ?case
    unfolding project_chunks.simps
  proof (rule tr_then [OF project_batch_traces], force, elim exE conjE, goal_cases)
    case (1 cs rows c)
    then show ?case
      by (intro tr_require tr_weaken [OF Cons.IH]) auto
  qed
qed

lemma project_forward_traces:
  "traces (project_forward ctx p identity branch target) (\<lambda>cs r. cs = [] \<and> isl r \<or>
     (\<exists>files chunks. lane_files ctx identity target = Inr files \<and>
        chunk_projection_files (shown_value p) files (PInt default_max_files) (PInt default_max_total_bytes) = Inr chunks \<and>
        forwards ctx p identity branch target files chunks cs r))"
proof (cases "lane_files ctx identity target")
  case (Inr files)
  obtain chunks where chunks: "chunk_projection_files (shown_value p) files (PInt default_max_files) (PInt default_max_total_bytes) = Inr chunks"
    by (rule lane_files_chunks [OF Inr])
  let ?o = "claim_opening ctx p identity branch target files"
  have final: "traces (and_then (finalize_batch p b t) (\<lambda>finalized.
      require (get_default finalized ''projected_head_sha'' PNone = PStr (tgt_observed target)) err (give n)))
    (\<lambda>cs r. \<exists>c. cs = [c] \<and> posted_payload c = request ''finalize_batch'' (finalize_fields b t) \<and> (isl r \<or> answered_final c (tgt_observed target)))"
    for b t n and err :: exn
    by (rule tr_then [OF finalize_batch_traces]) (auto intro!: trace_rules)
  have batches: "traces (and_then (project_chunks p identity branch (tgt_observed target) b t 0 chunks) (\<lambda>n.
      and_then (finalize_batch p b t) (\<lambda>finalized.
      require (get_default finalized ''projected_head_sha'' PNone = PStr (tgt_observed target)) err (give n))))
    (\<lambda>cs r. prefix (map posted_payload cs) (map (batch_request identity branch (tgt_observed target) b t) chunks) \<and> isl r \<or>
       (\<exists>cs' c. cs = cs' @ [c] \<and> list_all answered_rows cs' \<and>
          map posted_payload cs' = map (batch_request identity branch (tgt_observed target) b t) chunks \<and>
          posted_payload c = request ''finalize_batch'' (finalize_fields b t) \<and> (isl r \<or> answered_final c (tgt_observed target))))"
    for b t and err :: exn
    by (rule tr_then [OF project_chunks_traces], force, rule tr_weaken [OF final]) auto
  have forwards: "traces (project_forward ctx p identity branch target) (forwards ctx p identity branch target files chunks)"
    unfolding project_forward_def Inr chunks
  proof (intro tr_lift_then, simp_all, rule tr_then [OF set_control_cut_traces], goal_cases)
    case (1 cs e)
    then show ?case
      by (auto simp: forwards_def claim_opening_def)
  next
    case (2 cs a)
    then obtain control where control: "cs = [control]"
        "posted_payload control = request ''set_control_cut'' (control_fields identity branch (ctx_control_sha ctx) (ctx_topology_sha ctx))"
      by auto
    show ?case
    proof (rule tr_then [OF claim_batch_traces], goal_cases)
      case (1 cs' e)
      then show ?case
        using control by (auto simp: forwards_def claim_opening_def)
    next
      case (2 cs' bt)
      then obtain claim b t where claim: "cs' = [claim]" "bt = (b, t)" "map posted_payload [control, claim] = ?o" "answered_claim claim b t"
        using control by (cases bt) (auto simp: claim_opening_def)
      show ?case
        unfolding claim(1,2) control(1) case_prod_conv chunks
        by (intro tr_lift_then, simp, simp only: sum.inject, hypsubst, rule tr_weaken [OF batches])
          (use claim in \<open>auto simp: forwards_def\<close>)
    qed
  qed
  show ?thesis
    by (rule tr_weaken [OF forwards]) (use Inr chunks in auto)
qed (auto simp: project_forward_def intro!: trace_rules)

lemma project_lane_traces:
  "traces (project_lane ctx p identity branch) (lane_session ctx p identity branch)"
  unfolding project_lane_def
proof (rule tr_then [OF get_lane_traces], goal_cases)
  case (1 cs e)
  then show ?case
    by (auto simp: lane_session_def)
next
  case (2 cs row)
  then obtain answer where answer: "cs = [Posted (request ''cursor'' (lane_fields identity branch)) answer]" "answered_lane answer row"
    by auto
  have early: "lane_session ctx p identity branch (cs @ []) (Inl e)" for e
    using answer by (auto simp: lane_session_def)
  show ?case
  proof (intro tr_lift_then early)
    fix cursor target
    assume t: "provider_cursor row = Inr cursor" "lane_target ctx identity branch cursor = Inr target"
    have idle: "lane_session ctx p identity branch (cs @ []) (Inr report)" if "tgt_disposition target \<in> {NOOP, STALE_EVENT}" for report
      using answer t that by (auto simp: lane_session_def)
    show "traces (let report = lane_report ctx identity branch target in case tgt_disposition target of
        NOOP \<Rightarrow> give report
      | FORWARD \<Rightarrow> and_then (project_forward ctx p identity branch target) (\<lambda>projected.
          give (report @ [(''projected_files'', PInt projected), (''finalized_head'', PStr (tgt_observed target))]))
      | STALE_EVENT \<Rightarrow> give report
      | DIVERGED_HISTORY \<Rightarrow> throw (ReconcileError (''DIVERGED_HISTORY:'' @ identity @ '':'' @ branch)))
      (\<lambda>cs' r. lane_session ctx p identity branch (cs @ cs') r)"
    proof (cases "tgt_disposition target")
      case FORWARD
      have session: "lane_session ctx p identity branch (cs @ cs') r"
        if f: "lane_files ctx identity target = Inr files"
          "chunk_projection_files (shown_value p) files (PInt default_max_files) (PInt default_max_total_bytes) = Inr chunks"
          "forwards ctx p identity branch target files chunks cs' x" "isl r \<longrightarrow> x = Inl (projl r)" "\<not> isl r \<longrightarrow> \<not> isl x"
        for files chunks cs' r x
      proof -
        have "(if isl r then Inl (projl r) else Inr (projr x)) = x"
          using f(4,5) by (cases x) auto
        then show ?thesis
          unfolding lane_session_def answer(1) using answer(2) t FORWARD f(1-3)
          by (intro exI [of _ answer] exI [of _ cs'] conjI disjI2 exI [of _ row] exI [of _ cursor] exI [of _ target] exI [of _ files]
              exI [of _ chunks] exI [of _ "projr x"]) simp_all
      qed
      show ?thesis
        unfolding FORWARD disposition.case Let_def
      proof (rule tr_then [OF project_forward_traces], goal_cases)
        case (1 cs' e)
        then show ?case
          using early session by (auto simp: isl_def)
      next
        case (2 cs' n)
        then show ?case
          using session by (intro tr_give) auto
      qed
    qed (use idle early in \<open>auto intro!: trace_rules\<close>)
  qed
qed

lemma sessions_append:
  assumes "dict_get lanes identity = Some lane" and "lane_session ctx p identity (lane_branch lane) cs (Inr report)"
    and "sessions ctx p lanes identities cs' failed"
  shows "sessions ctx p lanes (identity # identities) (cs @ cs') failed"
  unfolding sessions.simps using assms by blast

lemma project_lanes_traces:
  assumes "set identities \<subseteq> fst ` set lanes"
  shows "traces (project_lanes ctx p lanes identities) (\<lambda>cs r. sessions ctx p lanes identities cs (isl r))"
  using assms
proof (induction identities)
  case Nil
  then show ?case
    by (auto intro!: trace_rules)
next
  case (Cons identity identities)
  then obtain lane where lane: "dict_get lanes identity = Some lane"
    by (cases "dict_get lanes identity") (auto simp: map_of_eq_None_iff)
  show ?case
    unfolding project_lanes.simps lane option.case
  proof (rule tr_then [OF project_lane_traces], goal_cases)
    case (1 cs e)
    then show ?case
      using lane by auto
  next
    case (2 cs report)
    have rest: "set identities \<subseteq> fst ` set lanes"
      using Cons.prems by simp
    show ?case
      by (rule tr_then [OF Cons.IH [OF rest]])
        (auto intro!: tr_give sessions_append [OF lane 2] simp del: sessions.simps)
  qed
qed

section \<open>Runs\<close>

definition run_context ::
  "json_file \<Rightarrow> json_file \<Rightarrow> lane_env \<Rightarrow> git_run \<Rightarrow> string \<Rightarrow> string option \<Rightarrow> string \<Rightarrow> string \<Rightarrow> project_context" where
  "run_context topology cutover git run owner hint control_sha topology_sha =
    \<lparr>ctx_topology = topology, ctx_cutover = cutover, ctx_git = git, ctx_run = run, ctx_owner = owner, ctx_hint = hint,
     ctx_control_sha = control_sha, ctx_topology_sha = topology_sha\<rparr>"

lemma project_run_cases:
  assumes "project_requested_lanes topology cutover git run topology_rel event_name event repository p owner (g, []) = (r, (g', log))"
  obtains (refused) "log = []" "isl r"
  | (sessions) ids hint lanes control_sha topology_sha where
      "requested_identities event_name event topology repository = Inr (ids, hint)" "load_writer_lanes topology = Inr lanes"
      "sha40 control_sha" "sha40 topology_sha"
      "sessions (run_context topology cutover git run owner hint control_sha topology_sha) p lanes ids log (isl r)"
proof -
  have "traces (project_requested_lanes topology cutover git run topology_rel event_name event repository p owner) (\<lambda>cs r. cs = [] \<and> isl r \<or>
      (\<exists>ids hint lanes control_sha topology_sha. requested_identities event_name event topology repository = Inr (ids, hint) \<and>
        load_writer_lanes topology = Inr lanes \<and> sha40 control_sha \<and> sha40 topology_sha \<and>
        sessions (run_context topology cutover git run owner hint control_sha topology_sha) p lanes ids cs (isl r)))"
    unfolding project_requested_lanes_def case_prod_beta
  proof (intro tr_lift_then tr_require, simp_all, goal_cases)
    case (1 idh lanes control topology_sha)
    have "set (fst idh) \<subseteq> fst ` set lanes"
      using requested_identities_active [of event_name event topology repository "fst idh" "snd idh"] 1 by simp
    then have lanes: "traces (project_lanes (run_context topology cutover git run owner (snd idh) control topology_sha) p lanes (fst idh))
        (\<lambda>cs r. sessions (run_context topology cutover git run owner (snd idh) control topology_sha) p lanes (fst idh) cs (isl r))"
      by (rule project_lanes_traces)
    have idh: "idh = (fst idh, snd idh)"
      by simp
    show ?case
      unfolding run_context_def [symmetric]
      by (rule tr_then [OF lanes]; (intro tr_give)?; simp; use 1 idh in metis)
  qed
  from tracesD [OF this assms] show thesis
    using that by auto
qed

text \<open>Every call of the record lies in the session of one requested lane.\<close>

lemma sessions_call:
  assumes "sessions ctx p lanes ids (before @ c # behind) failed"
  obtains identity lane pre s1 s2 post r where "before = pre @ s1" "behind = s2 @ post" "identity \<in> set ids"
    "dict_get lanes identity = Some lane" "lane_session ctx p identity (lane_branch lane) (s1 @ c # s2) r"
  using assms
proof (induction ids arbitrary: before thesis)
  case (Cons identity ids)
  obtain lane where lane: "dict_get lanes identity = Some lane"
      "(\<exists>e. failed \<and> lane_session ctx p identity (lane_branch lane) (before @ c # behind) (Inl e)) \<or>
       (\<exists>cs1 cs2 report. before @ c # behind = cs1 @ cs2 \<and> lane_session ctx p identity (lane_branch lane) cs1 (Inr report) \<and>
          sessions ctx p lanes ids cs2 failed)"
    using Cons.prems(2) unfolding sessions.simps by blast
  from lane(2) show ?case
  proof (elim disjE exE conjE)
    fix e assume "lane_session ctx p identity (lane_branch lane) (before @ c # behind) (Inl e)"
    then show thesis
      using Cons.prems(1) [of "[]" before behind "[]"] lane(1) by auto
  next
    fix cs1 cs2 report
    assume eq: "before @ c # behind = cs1 @ cs2" and first: "lane_session ctx p identity (lane_branch lane) cs1 (Inr report)"
      and others: "sessions ctx p lanes ids cs2 failed"
    show thesis
    proof (cases "length before < length cs1")
      case True
      then obtain s2 where "cs1 = before @ c # s2" "behind = s2 @ cs2"
        using eq by (auto simp: append_eq_append_conv2 Cons_eq_append_conv)
      then show thesis
        using Cons.prems(1) [of "[]" before s2 cs2 identity lane "Inr report"] first lane(1) by auto
    next
      case False
      then obtain before' where b: "before = cs1 @ before'" "cs2 = before' @ c # behind"
        using eq by (auto simp: append_eq_append_conv2 Cons_eq_append_conv)
      from others [unfolded b(2)] show thesis
        using Cons.IH [of before'] Cons.prems(1) b(1)
        by (metis append.assoc list.set_intros(2))
    qed
  qed
qed simp

definition is_write :: "posted \<Rightarrow> bool" where
  "is_write c \<longleftrightarrow> get_default (posted_payload c) ''operation'' PNone \<noteq> PStr ''cursor''"

lemma request_operation [simp]: "get_default (request operation fs) ''operation'' PNone = PStr operation"
  by (simp add: request_def get_default_def)

lemma session_write:
  assumes "lane_session ctx p identity branch s r" and "c \<in> set s" and "is_write c"
  obtains cursor_call rest answer row cursor target files chunks x where "s = cursor_call # rest" "c \<in> set rest"
    "cursor_call = Posted (request ''cursor'' (lane_fields identity branch)) answer" "answered_lane answer row"
    "provider_cursor row = Inr cursor" "lane_target ctx identity branch cursor = Inr target" "tgt_disposition target = FORWARD"
    "lane_files ctx identity target = Inr files"
    "chunk_projection_files (shown_value p) files (PInt default_max_files) (PInt default_max_total_bytes) = Inr chunks"
    "forwards ctx p identity branch target files chunks rest x"
proof -
  obtain answer rest where s: "s = Posted (request ''cursor'' (lane_fields identity branch)) answer # rest"
      "rest = [] \<and> isl r \<or> (\<exists>row cursor target. answered_lane answer row \<and> provider_cursor row = Inr cursor \<and> lane_target ctx identity branch cursor = Inr target \<and>
         (tgt_disposition target \<in> {NOOP, STALE_EVENT} \<and> rest = [] \<or>
          tgt_disposition target = FORWARD \<and> (\<exists>files chunks n. lane_files ctx identity target = Inr files \<and>
            chunk_projection_files (shown_value p) files (PInt default_max_files) (PInt default_max_total_bytes) = Inr chunks \<and>
            forwards ctx p identity branch target files chunks rest (if isl r then Inl (projl r) else Inr n))))"
    using assms(1) unfolding lane_session_def by blast
  have "c \<in> set rest"
    using assms(2,3) s(1) by (auto simp: is_write_def)
  then show thesis
    using s that by (elim disjE exE conjE) auto
qed

definition lane_request :: "project_context \<Rightarrow> 'g provider \<Rightarrow> string \<Rightarrow> string \<Rightarrow> reconcile_target \<Rightarrow> pymap list \<Rightarrow> pymap \<Rightarrow> bool" where
  "lane_request ctx p identity branch target files payload \<longleftrightarrow> payload \<in> set (claim_opening ctx p identity branch target files) \<or>
     (\<exists>batch_id claim_token chunk. set chunk \<subseteq> set files \<and>
        payload = batch_request identity branch (tgt_observed target) batch_id claim_token chunk) \<or>
     (\<exists>batch_id claim_token. payload = request ''finalize_batch'' (finalize_fields batch_id claim_token))"

lemma prefix_payloads: "prefix (map posted_payload cs) xs \<Longrightarrow> c \<in> set cs \<Longrightarrow> posted_payload c \<in> set xs"
  by (metis (no_types, lifting) in_set_conv_decomp list.set_map image_eqI set_mono_prefix subsetD)

lemma forwards_requests:
  assumes "forwards ctx p identity branch target files chunks cs r" and "c \<in> set cs" and "concat chunks = files"
  shows "lane_request ctx p identity branch target files (posted_payload c)"
proof -
  have batch: "lane_request ctx p identity branch target files (posted_payload d)"
    if d: "posted_payload d \<in> set (map (batch_request identity branch (tgt_observed target) b t) chunks)" for b t d
  proof -
    obtain chunk where "chunk \<in> set chunks" "posted_payload d = batch_request identity branch (tgt_observed target) b t chunk"
      using d by auto
    moreover have "set chunk \<subseteq> set files" if "chunk \<in> set chunks" for chunk
      using that assms(3) by auto
    ultimately show ?thesis
      unfolding lane_request_def by blast
  qed
  have opens: "lane_request ctx p identity branch target files (posted_payload d)"
    if "posted_payload d \<in> set (claim_opening ctx p identity branch target files)" for d
    using that by (simp add: lane_request_def)
  have pair: "lane_request ctx p identity branch target files (posted_payload c)"
    if e: "map posted_payload [control, claim] = claim_opening ctx p identity branch target files" "c \<in> set [control, claim]" for control claim
  proof -
    have "posted_payload c \<in> set (map posted_payload [control, claim])"
      unfolding set_map using e(2) by (rule imageI)
    then show ?thesis
      unfolding e(1) by (rule opens)
  qed
  have finished: "lane_request ctx p identity branch target files (posted_payload c)"
    if f: "cs = control # claim # bs @ [final]" "map posted_payload [control, claim] = claim_opening ctx p identity branch target files"
      "map posted_payload bs = map (batch_request identity branch (tgt_observed target) b t) chunks"
      "posted_payload final = request ''finalize_batch'' (finalize_fields b t)" for control claim bs final b t
  proof -
    consider "c \<in> set [control, claim]" | "c \<in> set bs" | "c = final"
      using f(1) assms(2) by auto
    then show ?thesis
    proof cases
      case 2
      then have "posted_payload c \<in> set (map posted_payload bs)"
        unfolding set_map by (rule imageI)
      then show ?thesis
        unfolding f(3) by (rule batch)
    qed (use pair [OF f(2)] f(4) in \<open>auto simp: lane_request_def\<close>)
  qed
  from assms(1) show ?thesis
    unfolding forwards_def
  proof (elim disjE exE conjE, goal_cases)
    case 1
    then show ?case
      using opens prefix_payloads [OF _ assms(2)] by (auto simp: strict_prefix_def)
  next
    case (2 control claim bs)
    then show ?case
      using pair [of control claim] assms(2) by simp
  next
    case (3 control claim bs b t)
    consider "c \<in> set [control, claim]" | "c \<in> set bs"
      using 3 assms(2) by auto
    then show ?case
      using pair [of control claim] 3 batch prefix_payloads by cases metis+
  qed (use finished in blast)+
qed

section \<open>What is written\<close>

text \<open>
  C29: Whatever the provider answers, a run sends a request that writes only for an active lane whose
  cursor the provider has told, whose target is FORWARD from that cursor along Git's ancestry, whose
  commits passed the validation of the writer lane guard, and with the files of those commits.
\<close>

theorem writes_need_validated_commits:
  assumes run: "project_requested_lanes topology cutover git run topology_rel event_name event repository p owner (g, []) = (r, (g', log))"
    and c: "c \<in> set log" "is_write c" and ancestry: "answers_ancestry (local_repository run True) anc"
  shows "\<exists>ids hint lanes control_sha topology_sha identity lane cursor_answer row target anchor files.
    requested_identities event_name event topology repository = Inr (ids, hint) \<and> identity \<in> set ids \<and>
    load_writer_lanes topology = Inr lanes \<and> dict_get lanes identity = Some lane \<and>
    Posted (request ''cursor'' (lane_fields identity (lane_branch lane))) cursor_answer \<in> set log \<and> answered_lane cursor_answer row \<and>
    provider_cursor row = Inr (tgt_projected target) \<and> tgt_disposition target = FORWARD \<and>
    local_branch_head run True (lane_branch lane) = Inr (tgt_observed target) \<and>
    activation_anchor cutover identity (lane_branch lane) = Inr anchor \<and>
    tgt_base target = (case tgt_projected target of None \<Rightarrow> anchor | Some head \<Rightarrow> head) \<and>
    anc anchor (tgt_base target) \<and> anc (tgt_base target) (tgt_observed target) \<and>
    validate_active_writer_range git identity (tgt_base target) (tgt_observed target) topology (Some cutover) = Inr (tgt_commits target) \<and>
    collect_projection_files git (tgt_commits target) (PInt default_max_file_bytes) = Inr files \<and>
    lane_request (run_context topology cutover git run owner hint control_sha topology_sha) p identity (lane_branch lane) target files (posted_payload c)"
  using run
proof (cases rule: project_run_cases)
  case refused
  then show ?thesis
    using c(1) by simp
next
  case (sessions ids hint lanes control_sha topology_sha)
  let ?ctx = "run_context topology cutover git run owner hint control_sha topology_sha"
  obtain before behind where log: "log = before @ c # behind"
    using c(1) by (meson split_list)
  obtain identity lane pre s1 s2 post r' where session: "before = pre @ s1" "behind = s2 @ post" "identity \<in> set ids"
      "dict_get lanes identity = Some lane" "lane_session ?ctx p identity (lane_branch lane) (s1 @ c # s2) r'"
    by (rule sessions_call [OF sessions(5) [unfolded log]])
  have "c \<in> set (s1 @ c # s2)"
    by simp
  then obtain cursor_call rest answer row cursor target files chunks x where w: "s1 @ c # s2 = cursor_call # rest" "c \<in> set rest"
      "cursor_call = Posted (request ''cursor'' (lane_fields identity (lane_branch lane))) answer" "answered_lane answer row"
      "provider_cursor row = Inr cursor" "lane_target ?ctx identity (lane_branch lane) cursor = Inr target" "tgt_disposition target = FORWARD"
      "lane_files ?ctx identity target = Inr files"
      "chunk_projection_files (shown_value p) files (PInt default_max_files) (PInt default_max_total_bytes) = Inr chunks"
      "forwards ?ctx p identity (lane_branch lane) target files chunks rest x"
    by (rule session_write [OF session(5) _ c(2)])
  have "concat chunks = files"
    using lane_files_chunks [OF w(8), of "shown_value p"] w(9) by auto
  then have request: "lane_request ?ctx p identity (lane_branch lane) target files (posted_payload c)"
    by (rule forwards_requests [OF w(10,2)])
  have asked: "Posted (request ''cursor'' (lane_fields identity (lane_branch lane))) answer \<in> set log"
    using w(1,3) session(1,2) unfolding log by (metis Un_iff append_Cons append_assoc list.set_intros(1) set_append)
  have "derive_target topology cutover (local_repository run True) (cursor_journal identity (lane_branch lane) cursor) (PStr identity) = Inr target"
    using w(6) by (simp add: lane_target_def run_context_def)
  then obtain anchor where t: "local_branch_head run True (lane_branch lane) = Inr (tgt_observed target)"
      "activation_anchor cutover identity (lane_branch lane) = Inr anchor" "cursor = tgt_projected target"
      "tgt_base target = (case tgt_projected target of None \<Rightarrow> anchor | Some head \<Rightarrow> head)"
      "anc anchor (tgt_base target)" "anc (tgt_base target) (tgt_observed target)"
    using w(7) ancestry sessions(2) session(4)
    by (elim derive_target_classified) (auto simp: local_repository_def cursor_journal_def)
  have f: "validate_active_writer_range git identity (tgt_base target) (tgt_observed target) topology (Some cutover) = Inr (tgt_commits target)"
      "collect_projection_files git (tgt_commits target) (PInt default_max_file_bytes) = Inr files"
    using w(8) by (auto simp: lane_files_def run_context_def)
  show ?thesis
    using sessions(1,2) session(3,4) asked w(4,5,7) t f request by blast
qed

lemma claim_opening_operations:
  "payload \<in> set (claim_opening ctx p identity branch target files) \<Longrightarrow> get_default payload ''operation'' PNone \<noteq> PStr ''finalize_batch''"
  by (auto simp: claim_opening_def)

lemma batch_request_operation [simp]:
  "get_default (batch_request identity branch head b t chunk) ''operation'' PNone = PStr ''project_batch''"
  by (simp add: batch_request_def)

lemma finalize_request_inject:
  "request ''finalize_batch'' (finalize_fields b t) = request ''finalize_batch'' (finalize_fields b' t') \<longleftrightarrow> b = b' \<and> t = t'"
  by (auto simp: request_def finalize_fields_def)

lemma forwards_final:
  assumes "forwards ctx p identity branch target files chunks (s1 @ c # s2) r"
    and final: "posted_payload c = request ''finalize_batch'' (finalize_fields b t)"
  shows "\<exists>control claim bs. s1 = control # claim # bs \<and> s2 = [] \<and> map posted_payload [control, claim] = claim_opening ctx p identity branch target files \<and>
    answered_claim claim b t \<and> list_all answered_rows bs \<and>
    map posted_payload bs = map (batch_request identity branch (tgt_observed target) b t) chunks"
proof -
  have op: "get_default (posted_payload c) ''operation'' PNone = PStr ''finalize_batch''"
    by (simp add: final)
  have not_opening: "c \<notin> set cs" if "map posted_payload cs = claim_opening ctx p identity branch target files" for cs
    using claim_opening_operations op that by (metis image_eqI set_map)
  have not_batch: "c \<notin> set bs" if "prefix (map posted_payload bs) (map (batch_request identity branch head b' t') chunks)" for bs head b' t'
    using prefix_payloads [OF that, of c] op by auto
  have finished: ?thesis
    if f: "s1 @ c # s2 = control # claim # bs @ [last]" "map posted_payload [control, claim] = claim_opening ctx p identity branch target files"
      "answered_claim claim b' t'" "list_all answered_rows bs"
      "map posted_payload bs = map (batch_request identity branch (tgt_observed target) b' t') chunks"
      "posted_payload last = request ''finalize_batch'' (finalize_fields b' t')" for control claim bs last b' t'
  proof -
    have "c \<notin> set ([control, claim] @ bs)"
      using not_opening [OF f(2)] not_batch [of bs "tgt_observed target" b' t'] f(5) by simp
    moreover have "s2 = []"
    proof (cases s2 rule: rev_cases)
      case (snoc ys y)
      then have "control # claim # bs = s1 @ c # ys"
        using f(1) by (metis append.assoc append_Cons butlast_snoc)
      then have "c \<in> set (control # claim # bs)"
        by simp
      then show ?thesis
        using calculation by simp
    qed simp
    ultimately have "s2 = [] \<and> s1 = control # claim # bs \<and> c = last"
      using f(1) by (metis append_Cons append1_eq_conv)
    then show ?thesis
      using f final by (auto simp: finalize_request_inject)
  qed
  have c: "c \<in> set (s1 @ c # s2)"
    by simp
  from assms(1) show ?thesis
    unfolding forwards_def
  proof (elim disjE exE conjE, goal_cases)
    case 1
    then show ?case
      using prefix_payloads [OF _ c] claim_opening_operations op by (metis prefix_order.less_imp_le)
  next
    case (2 control claim bs)
    then show ?case
      using not_opening [of "[control, claim]"] c by simp
  next
    case (3 control claim bs b' t')
    then show ?case
      using not_opening [of "[control, claim]"] not_batch [of bs] c by auto
  qed (use finished in blast)+
qed

text \<open>
  C30: A batch is finalized only when everything was projected: right before a request to finalize lie
  the request that claimed this batch for the paths of all files of the validated commits, answered
  with the batch's id and token, and the requests that sent all these files in order, each
  answered without a failed row.
\<close>

theorem finalized_only_when_all_projected:
  assumes run: "project_requested_lanes topology cutover git run topology_rel event_name event repository p owner (g, []) = (r, (g', log))"
    and log: "log = before @ c # behind" and c: "posted_payload c = request ''finalize_batch'' (finalize_fields batch_id claim_token)"
  shows "\<exists>ctx identity branch cursor target files chunks pre control claim bs. lane_target ctx identity branch cursor = Inr target \<and>
    ctx_topology ctx = topology \<and> ctx_cutover ctx = cutover \<and> ctx_git ctx = git \<and> ctx_run ctx = run \<and>
    tgt_disposition target = FORWARD \<and> lane_files ctx identity target = Inr files \<and>
    before = pre @ control # claim # bs \<and> map posted_payload [control, claim] = claim_opening ctx p identity branch target files \<and>
    answered_claim claim batch_id claim_token \<and> concat chunks = files \<and> list_all answered_rows bs \<and>
    map posted_payload bs = map (batch_request identity branch (tgt_observed target) batch_id claim_token) chunks"
  using run
proof (cases rule: project_run_cases)
  case (sessions ids hint lanes control_sha topology_sha)
  let ?ctx = "run_context topology cutover git run owner hint control_sha topology_sha"
  obtain identity lane pre s1 s2 post r' where session: "before = pre @ s1" "behind = s2 @ post" "identity \<in> set ids"
      "dict_get lanes identity = Some lane" "lane_session ?ctx p identity (lane_branch lane) (s1 @ c # s2) r'"
    by (rule sessions_call [OF sessions(5) [unfolded log]])
  have is_write: "is_write c"
    by (simp add: is_write_def c)
  have "c \<in> set (s1 @ c # s2)"
    by simp
  then obtain cursor_call rest answer row cursor target files chunks x where w: "s1 @ c # s2 = cursor_call # rest" "c \<in> set rest"
      "cursor_call = Posted (request ''cursor'' (lane_fields identity (lane_branch lane))) answer"
      "lane_target ?ctx identity (lane_branch lane) cursor = Inr target" "tgt_disposition target = FORWARD"
      "lane_files ?ctx identity target = Inr files"
      "chunk_projection_files (shown_value p) files (PInt default_max_files) (PInt default_max_total_bytes) = Inr chunks"
      "forwards ?ctx p identity (lane_branch lane) target files chunks rest x"
    by (rule session_write [OF session(5) _ is_write])
  have chunks: "concat chunks = files"
    using lane_files_chunks [OF w(6), of "shown_value p"] w(7) by auto
  have "c \<noteq> cursor_call"
    using is_write w(3) by (auto simp: is_write_def)
  then obtain s1' where s1: "s1 = cursor_call # s1'" "rest = s1' @ c # s2"
    using w(1) by (cases s1) auto
  obtain control claim bs where f: "s1' = control # claim # bs"
      "map posted_payload [control, claim] = claim_opening ?ctx p identity (lane_branch lane) target files"
      "answered_claim claim batch_id claim_token" "list_all answered_rows bs"
      "map posted_payload bs = map (batch_request identity (lane_branch lane) (tgt_observed target) batch_id claim_token) chunks"
    using forwards_final [OF w(8) [unfolded s1(2)] c] by blast
  have ctx: "ctx_topology ?ctx = topology" "ctx_cutover ?ctx = cutover" "ctx_git ?ctx = git" "ctx_run ?ctx = run"
    by (simp_all add: run_context_def)
  show ?thesis
    using w(4-6) ctx chunks f session(1) s1(1)
    by (intro exI [of _ ?ctx] exI [of _ identity] exI [of _ "lane_branch lane"] exI [of _ cursor] exI [of _ target] exI [of _ files]
        exI [of _ chunks] exI [of _ "pre @ [cursor_call]"] exI [of _ control] exI [of _ claim] exI [of _ bs]) simp
qed (use log in simp)

text \<open>A completed session: the lane needed nothing, or its whole script was run and its new cursor confirmed.\<close>

definition full_script :: "project_context \<Rightarrow> 'g provider \<Rightarrow> string \<Rightarrow> string \<Rightarrow> reconcile_target \<Rightarrow> pymap list \<Rightarrow> pymap list list \<Rightarrow> posted list \<Rightarrow> bool" where
  "full_script ctx p identity branch target files chunks cs \<longleftrightarrow>
    (\<exists>control claim bs final batch_id claim_token. cs = control # claim # bs @ [final] \<and>
      map posted_payload [control, claim] = claim_opening ctx p identity branch target files \<and>
      answered_claim claim batch_id claim_token \<and> list_all answered_rows bs \<and>
      map posted_payload bs = map (batch_request identity branch (tgt_observed target) batch_id claim_token) chunks \<and>
      posted_payload final = request ''finalize_batch'' (finalize_fields batch_id claim_token) \<and> answered_final final (tgt_observed target))"

definition completed :: "project_context \<Rightarrow> 'g provider \<Rightarrow> string \<Rightarrow> string \<Rightarrow> posted list \<Rightarrow> bool" where
  "completed ctx p identity branch s \<longleftrightarrow>
    (\<exists>answer row cursor target rest. s = Posted (request ''cursor'' (lane_fields identity branch)) answer # rest \<and>
      answered_lane answer row \<and> provider_cursor row = Inr cursor \<and> lane_target ctx identity branch cursor = Inr target \<and>
      (tgt_disposition target \<in> {NOOP, STALE_EVENT} \<and> rest = [] \<or>
       tgt_disposition target = FORWARD \<and> (\<exists>files chunks. lane_files ctx identity target = Inr files \<and> concat chunks = files \<and>
          full_script ctx p identity branch target files chunks rest)))"

lemma forwards_completed:
  "forwards ctx p identity branch target files chunks cs (Inr n) \<Longrightarrow> full_script ctx p identity branch target files chunks cs"
  unfolding forwards_def full_script_def
  by (simp only: sum.disc simp_thms) (elim exE conjE, hypsubst, intro exI conjI, rule refl; assumption)

lemma session_completed:
  assumes "lane_session ctx p identity branch s (Inr report)"
  shows "completed ctx p identity branch s"
proof -
  obtain answer row cursor target rest where s: "s = Posted (request ''cursor'' (lane_fields identity branch)) answer # rest"
      "answered_lane answer row" "provider_cursor row = Inr cursor" "lane_target ctx identity branch cursor = Inr target"
      "tgt_disposition target \<in> {NOOP, STALE_EVENT} \<and> rest = [] \<or>
        tgt_disposition target = FORWARD \<and> (\<exists>files chunks n. lane_files ctx identity target = Inr files \<and>
          chunk_projection_files (shown_value p) files (PInt default_max_files) (PInt default_max_total_bytes) = Inr chunks \<and>
          forwards ctx p identity branch target files chunks rest (Inr n))"
    using assms unfolding lane_session_def by (simp only: sum.disc simp_thms if_False) (elim exE conjE, rule that)
  from s(5) show ?thesis
  proof (elim disjE exE conjE)
    assume "tgt_disposition target \<in> {NOOP, STALE_EVENT}" "rest = []"
    then show ?thesis
      unfolding completed_def using s(1-4) by blast
  next
    fix files chunks n
    assume f: "tgt_disposition target = FORWARD" "lane_files ctx identity target = Inr files"
      "chunk_projection_files (shown_value p) files (PInt default_max_files) (PInt default_max_total_bytes) = Inr chunks"
      "forwards ctx p identity branch target files chunks rest (Inr n)"
    have "concat chunks = files"
      using lane_files_chunks [OF f(2), of "shown_value p"] f(3) by auto
    then show ?thesis
      unfolding completed_def using s(1-4) f(1,2) forwards_completed [OF f(4)] by blast
  qed
qed

lemma sessions_completed:
  "sessions ctx p lanes ids cs False \<Longrightarrow>
    \<exists>ss. cs = concat ss \<and> list_all2 (\<lambda>identity s. \<exists>lane. dict_get lanes identity = Some lane \<and> completed ctx p identity (lane_branch lane) s) ids ss"
proof (induction ids arbitrary: cs)
  case (Cons identity ids)
  then obtain lane cs1 cs2 report where c: "dict_get lanes identity = Some lane" "cs = cs1 @ cs2"
      "lane_session ctx p identity (lane_branch lane) cs1 (Inr report)" "sessions ctx p lanes ids cs2 False"
    by auto
  then obtain ss where ss: "cs2 = concat ss"
      "list_all2 (\<lambda>identity s. \<exists>lane. dict_get lanes identity = Some lane \<and> completed ctx p identity (lane_branch lane) s) ids ss"
    using Cons.IH by blast
  have "cs = concat (cs1 # ss)"
    using c(2) ss(1) by simp
  then show ?case
    using c(1) session_completed [OF c(3)] ss(2) by blast
qed simp

text \<open>
  C31: A run that reports success has completed every requested lane in order: it was up to date, or all
  files of all its new commits were sent and accepted and the provider confirmed the observed head as
  the new cursor.
\<close>

theorem successful_run_completes_lanes:
  assumes "project_requested_lanes topology cutover git run topology_rel event_name event repository p owner (g, []) = (Inr report, (g', log))"
  shows "\<exists>ids hint lanes control_sha topology_sha ss. requested_identities event_name event topology repository = Inr (ids, hint) \<and>
    load_writer_lanes topology = Inr lanes \<and> log = concat ss \<and>
    list_all2 (\<lambda>identity s. \<exists>lane. dict_get lanes identity = Some lane \<and>
      completed (run_context topology cutover git run owner hint control_sha topology_sha) p identity (lane_branch lane) s) ids ss"
  using assms
proof (cases rule: project_run_cases)
  case (sessions ids hint lanes control_sha topology_sha)
  then show ?thesis
    using sessions_completed by fastforce
qed simp

text \<open>A run over the lane of three commits, registered at the second, its cursor unset.\<close>

definition central_topology :: json_file where
  "central_topology = Inr (PDict [(''repository'', PStr ''o/r''),
     (''required_writer_lanes'', PDict [(''A'', PDict [(''writer'', PStr ''Alice''), (''branch'', PStr ''lane/a'')])])])"

definition central_cutover :: json_file where
  "central_cutover = Inr (PDict [(''current_writer_lanes'', PDict [(''A'', PStr ''lane/a'')]),
     (''planned_current_writer_lanes'', PDict [(''A'', PStr ''lane/a'')]),
     (''verified_successor_heads'', PDict [(''A'', PStr ''c1'')])])"

definition with_answers :: "(string list \<times> string) list \<Rightarrow> (string list \<Rightarrow> (string \<times> string) + string) \<Rightarrow> string list \<Rightarrow> (string \<times> string) + string" where
  "with_answers table f args = (case map_of table args of None \<Rightarrow> f args | Some out \<Rightarrow> Inr out)"

definition names_of :: "string \<Rightarrow> string \<Rightarrow> string list" where
  "names_of parent commit =
    [''diff-tree'', ''--no-commit-id'', ''--name-only'', ''--diff-filter=A'', ''-r'', ''-z'', parent, commit, ''--'', ''messages'']"

definition central_env :: lane_env where
  "central_env = sample_env
     \<lparr>git_text := with_answers
        [([''rev-parse'', ''HEAD''], replicate 40 (CHR ''a'')), ([''rev-parse'', ''HEAD:t.json''], replicate 40 (CHR ''b'')),
         ([''rev-list'', ''--reverse'', ''c1..c2''], ''c2''),
         ([''show'', ''-s'', ''--format=%cI'', ''c2''], ''t2''), ([''rev-parse'', ''c2:messages/c.md''], ''b2'')] (git_text sample_env),
      git_data := with_answers [(names_of ''c1'' ''c2'', ''messages/c.md'' @ [CHR 0x00])] (git_data sample_env),
      git_succeeds := (\<lambda>args. case args of [c1, c2, a, d] \<Rightarrow> three_commits a d | _ \<Rightarrow> False)\<rparr>"

definition central_git_run :: git_run where
  "central_git_run args = (case args of [c1, c2, a, d] \<Rightarrow> if three_commits a d then (0, []) else (1, []) | _ \<Rightarrow> (0, ''c2''))"

definition central_provider :: "unit provider" where
  "central_provider = \<lparr>transport = (\<lambda>payload g. (Inr (PDict [(''ok'', PBool True), (''lane'', PDict
       [(''projected_head_sha'', if get_default payload ''operation'' PNone = PStr ''finalize_batch'' then PStr ''c2'' else PNone)]),
       (''batch'', PDict [(''batch_id'', PStr ''1''), (''claim_token'', PStr ''t'')]),
       (''results'', PList [PDict [(''result'', PStr ''projected'')]])]), g)), shown_value = (\<lambda>v. [])\<rparr>"

definition central_run :: "(exn + pymap) \<times> unit \<times> posted list" where
  "central_run = project_requested_lanes central_topology central_cutover central_env central_git_run (Inr ''t.json'') ''schedule'' [] ''o/r''
     central_provider ''owner'' ((), [])"

text \<open>One evaluation of the run: it succeeds, and its five requests are the script of one lane.\<close>

lemma central_run_operations:
  "case central_run of (r, g, log) \<Rightarrow> \<not> isl r \<and> posted_payload (last log) = request ''finalize_batch'' (finalize_fields ''1'' ''t'') \<and>
     map (\<lambda>c. get_default (posted_payload c) ''operation'' PNone) log =
       map PStr [''cursor'', ''set_control_cut'', ''claim_batch'', ''project_batch'', ''finalize_batch'']"
  by code_simp

lemma central_run_log:
  obtains report pre c where "central_run = (Inr report, (), pre @ [c])" and "is_write c"
    and "posted_payload c = request ''finalize_batch'' (finalize_fields ''1'' ''t'')"
proof -
  obtain r g log where run: "central_run = (r, g, log)"
    by (metis prod_cases3)
  note ops = central_run_operations [unfolded run prod.case]
  obtain report where "r = Inr report"
    using ops by (cases r) auto
  moreover obtain pre c where log: "log = pre @ [c]"
    using ops by (cases log rule: rev_cases) auto
  moreover have "posted_payload c = request ''finalize_batch'' (finalize_fields ''1'' ''t'')"
    using ops log by simp
  moreover from this have "is_write c"
    by (simp add: is_write_def)
  ultimately show thesis
    using that run by simp
qed

lemma central_ancestry: "answers_ancestry (local_repository central_git_run True) three_commits"
  by (simp add: answers_ancestry_def local_repository_def local_is_ancestor_def central_git_run_def three_commits_def reflp_def)

theorem writes_need_validated_commits_witness:
  "\<exists>c (target :: reconcile_target) files. c \<in> set (snd (snd central_run)) \<and> is_write c \<and> tgt_disposition target = FORWARD \<and>
     three_commits (tgt_base target) (tgt_observed target) \<and>
     validate_active_writer_range central_env ''A'' (tgt_base target) (tgt_observed target) central_topology (Some central_cutover) = Inr (tgt_commits target) \<and>
     collect_projection_files central_env (tgt_commits target) (PInt default_max_file_bytes) = Inr files"
proof -
  obtain report pre c where run: "central_run = (Inr report, (), pre @ [c])" and c: "is_write c"
    by (rule central_run_log)
  have in_log: "c \<in> set (pre @ [c])"
    by simp
  obtain ids hint identity and target :: reconcile_target and files where t: "requested_identities ''schedule'' [] central_topology ''o/r'' = Inr (ids, hint)"
      "identity \<in> set ids" "tgt_disposition target = FORWARD" "three_commits (tgt_base target) (tgt_observed target)"
      "validate_active_writer_range central_env identity (tgt_base target) (tgt_observed target) central_topology (Some central_cutover) = Inr (tgt_commits target)"
      "collect_projection_files central_env (tgt_commits target) (PInt default_max_file_bytes) = Inr files"
    using writes_need_validated_commits [OF run [unfolded central_run_def] in_log c central_ancestry] by - (elim exE conjE, rule that)
  have "requested_identities ''schedule'' [] central_topology ''o/r'' = Inr ([''A''], None)"
    by code_simp
  then have "identity = ''A''"
    using t(1,2) by simp
  then show ?thesis
    unfolding run using c t by (intro exI [of _ c] exI [of _ target] exI [of _ files]) simp
qed

theorem finalized_only_when_all_projected_witness:
  "\<exists>pre control claim bs c ctx identity branch target files chunks. snd (snd central_run) = pre @ control # claim # bs @ [c] \<and>
     map posted_payload [control, claim] = claim_opening ctx central_provider identity branch target files \<and>
     answered_claim claim ''1'' ''t'' \<and> concat chunks = files \<and> list_all answered_rows bs"
proof -
  obtain report pre c where run: "central_run = (Inr report, (), pre @ [c])"
    and c: "posted_payload c = request ''finalize_batch'' (finalize_fields ''1'' ''t'')"
    by (rule central_run_log)
  from finalized_only_when_all_projected [OF run [unfolded central_run_def] refl c] show ?thesis
    unfolding run by auto blast
qed

theorem successful_run_completes_lanes_witness:
  "\<exists>(ids :: string list) ss. length ss = length ids \<and> snd (snd central_run) = concat ss \<and> concat ss \<noteq> []"
proof -
  obtain report pre c where run: "central_run = (Inr report, (), pre @ [c])"
    by (rule central_run_log)
  from successful_run_completes_lanes [OF run [unfolded central_run_def]]
  have "\<exists>(ids :: string list) ss. pre @ [c] = concat ss \<and> length ids = length ss"
    by - (elim exE conjE, drule list_all2_lengthD, blast)
  then obtain ids :: "string list" and ss where "pre @ [c] = concat ss" "length ids = length ss"
    by blast
  moreover from this(1) have "concat ss \<noteq> []"
    by (metis snoc_eq_iff_butlast)
  ultimately show ?thesis
    unfolding run by (intro exI [of _ ids] exI [of _ ss]) simp
qed

end
