(* ===== verification/ProviderCommands.thy ===== *)
theory ProviderCommands
  imports Registry
begin

text \<open>
  The commands of \<open>src/src/radar/supabase_projection.py\<close>: Radar state is turned into parameterised SQL
  commands, provider snapshots are read without being promoted. The state is a raw value, so that
  every type check of the code is a branch.
\<close>

section \<open>Values and their checks\<close>

text \<open>\<open>str(ProjectionError(code, message))\<close>, and \<open>type(value).__name__\<close>.\<close>

definition projection_error :: "string \<Rightarrow> string \<Rightarrow> exn" where
  "projection_error code message = ProjectionError (code @ '': '' @ message)"

definition type_name :: "pyval \<Rightarrow> string" where
  "type_name v = (case v of PNone \<Rightarrow> ''NoneType'' | PBool b \<Rightarrow> ''bool'' | PInt i \<Rightarrow> ''int'' | PFloat r \<Rightarrow> ''float''
     | PStr s \<Rightarrow> ''str'' | PBytes b \<Rightarrow> ''bytes'' | PList vs \<Rightarrow> ''list'' | PTuple vs \<Rightarrow> ''tuple'' | PDict ms \<Rightarrow> ''dict'' | PObj t \<Rightarrow> t)"

definition collection :: "pyval \<Rightarrow> string \<Rightarrow> exn + pyval list" where
  "collection value error = (case value of
      PNone \<Rightarrow> Inr [] | PList vs \<Rightarrow> Inr vs | PTuple vs \<Rightarrow> Inr vs
    | _ \<Rightarrow> Inl (projection_error error (''expected list or tuple, got '' @ type_name value)))"

definition mapping_of :: "pyval \<Rightarrow> string \<Rightarrow> exn + pymap" where
  "mapping_of value error = (case value of
      PDict ms \<Rightarrow> Inr ms
    | _ \<Rightarrow> Inl (projection_error error (''expected Mapping, got '' @ type_name value)))"

definition provider_text :: "pymap \<Rightarrow> string \<Rightarrow> string \<Rightarrow> exn + string" where
  "provider_text record key error =
    (let value = get_default record key PNone in
     requireE (is_text value) (projection_error error (''field '' @ [CHR 0x27] @ key @ [CHR 0x27] @ '' must be a non-empty string''))
       (Inr (strip (text_of value))))"

record projection_command =
  cmd_operation :: string
  cmd_schema :: string
  cmd_sql :: string
  cmd_parameters :: pymap

definition build_upsert_command :: "string \<Rightarrow> string \<Rightarrow> string \<Rightarrow> pymap \<Rightarrow> exn + projection_command" where
  "build_upsert_command operation schema sql parameters =
    requireE (schema \<in> {''radar''})
      (projection_error ''INVALID_SCHEMA'' (''schema must be one of {'' @ [CHR 0x27] @ ''radar'' @ [CHR 0x27] @ ''}, got '' @ schema))
      (Inr \<lparr>cmd_operation = operation, cmd_schema = schema, cmd_sql = sql, cmd_parameters = parameters\<rparr>)"

section \<open>Identities and endpoints\<close>

definition identity_sql :: string where
  "identity_sql = ''insert into radar.identities (identity_id, display_name) '' @
     ''values (%(identity_id)s, %(display_name)s) '' @
     ''on conflict (identity_id) do update set display_name = excluded.display_name, updated_at = now()''"

definition identity_command :: "pyval \<Rightarrow> exn + projection_command" where
  "identity_command raw =
    bindE (mapping_of raw ''IDENTITY_PROJECTION_MUST_BE_MAPPING'') (\<lambda>record.
    bindE (provider_text record ''identity_id'' ''IDENTITY_ID_REQUIRED'') (\<lambda>ident.
    bindE (provider_text record ''display_name'' ''DISPLAY_NAME_REQUIRED'') (\<lambda>display.
    build_upsert_command ''UPSERT_IDENTITY'' ''radar'' identity_sql
      [(''identity_id'', PStr (casefold ident)), (''display_name'', PStr display)])))"

definition allowed_endpoint_statuses :: "string list" where
  "allowed_endpoint_statuses = [''ACTIVE'', ''DEGRADED'', ''OFFLINE'', ''ARCHIVED'']"

definition endpoint_status :: "pyval \<Rightarrow> exn + string" where
  "endpoint_status value =
    requireE (is_text value) (projection_error ''INVALID_ENDPOINT_STATUS'' ''status must be a non-empty string'')
    (let st = upper (strip (text_of value)); q = (\<lambda>s. [CHR 0x27] @ s @ [CHR 0x27]) in
     requireE (st \<in> set allowed_endpoint_statuses)
       (projection_error ''INVALID_ENDPOINT_STATUS''
         (''status must be one of ['' @ join '', '' (map q (sort allowed_endpoint_statuses)) @ ''], got '' @ st))
       (Inr st))"

definition endpoint_sql :: string where
  "endpoint_sql = ''insert into radar.endpoints (endpoint_id, identity_id, transport, address, status) '' @
     ''values (%(endpoint_id)s, %(identity_id)s, %(transport)s, %(address)s, %(status)s) '' @
     ''on conflict (endpoint_id) do update set identity_id = excluded.identity_id, '' @
     ''transport = excluded.transport, address = excluded.address, status = excluded.status, updated_at = now()''"

definition endpoint_command :: "pyval \<Rightarrow> exn + projection_command" where
  "endpoint_command raw =
    bindE (mapping_of raw ''ENDPOINT_PROJECTION_MUST_BE_MAPPING'') (\<lambda>record.
    bindE (provider_text record ''endpoint_id'' ''ENDPOINT_ID_REQUIRED'') (\<lambda>endpoint.
    bindE (provider_text record ''identity_id'' ''IDENTITY_ID_REQUIRED'') (\<lambda>ident.
    bindE (provider_text record ''transport'' ''TRANSPORT_REQUIRED'') (\<lambda>carrier.
    bindE (provider_text record ''address'' ''ADDRESS_REQUIRED'') (\<lambda>addr.
    bindE (endpoint_status (get_default record ''status'' (PStr ''ACTIVE''))) (\<lambda>st.
    build_upsert_command ''UPSERT_ENDPOINT'' ''radar'' endpoint_sql
      [(''endpoint_id'', PStr endpoint), (''identity_id'', PStr (casefold ident)), (''transport'', PStr (casefold carrier)),
       (''address'', PStr addr), (''status'', PStr st)]))))))"

section \<open>Subscriptions\<close>

definition provider_intent :: "pyval \<Rightarrow> exn + string option" where
  "provider_intent value =
    (if value = PNone then Inr None
     else requireE (is_text value)
       (projection_error ''INVALID_INTENT'' (''intent must be a non-empty string or null, got '' @ type_name value))
       (let intt = casefold (strip (text_of value)) in
        requireE (intt \<in> set ALLOWED_INTENTS) (projection_error ''UNKNOWN_INTENT'' (''unrecognized Radar intent: '' @ intt))
          (Inr (Some intt))))"

definition provider_priority :: "pyval \<Rightarrow> exn + int" where
  "provider_priority value = (case value of
      PInt p \<Rightarrow> requireE (0 \<le> p \<and> p \<le> 4)
        (projection_error ''INVALID_PRIORITY'' (''min_priority must be between 0 and 4, got '' @ int_text p)) (Inr p)
    | _ \<Rightarrow> Inl (projection_error ''INVALID_PRIORITY'' ''min_priority must be an integer from 0 through 4''))"

definition provider_active :: "pyval \<Rightarrow> exn + bool" where
  "provider_active value = (case value of
      PBool b \<Rightarrow> Inr b | _ \<Rightarrow> Inl (projection_error ''INVALID_ACTIVE'' ''active must be a boolean''))"

definition subscription_sql :: string where
  "subscription_sql = ''insert into radar.subscriptions (identity_id, domain, intent, min_priority, active) '' @
     ''values (%(identity_id)s, %(domain)s, %(intent)s, %(min_priority)s, %(active)s) '' @
     ''on conflict (identity_id, domain, coalesce(intent, '' @ [CHR 0x27, CHR 0x27] @ ''), min_priority) '' @
     ''do update set active = excluded.active''"

definition subscription_row :: "string \<Rightarrow> string \<Rightarrow> string option \<Rightarrow> int \<Rightarrow> bool \<Rightarrow> pymap" where
  "subscription_row ident dmn intt p active =
    [(''identity_id'', PStr ident), (''domain'', PStr dmn), (''intent'', case intt of None \<Rightarrow> PNone | Some i \<Rightarrow> PStr i),
     (''min_priority'', PInt p), (''active'', PBool active)]"

definition subscription_command :: "pyval \<Rightarrow> exn + projection_command" where
  "subscription_command raw =
    bindE (mapping_of raw ''SUBSCRIPTION_PROJECTION_MUST_BE_MAPPING'') (\<lambda>record.
    bindE (provider_text record ''identity_id'' ''IDENTITY_ID_REQUIRED'') (\<lambda>ident.
    bindE (provider_text record ''domain'' ''DOMAIN_REQUIRED'') (\<lambda>d.
    requireE (casefold d \<in> set ALLOWED_DOMAINS) (projection_error ''UNKNOWN_DOMAIN'' (''unrecognized Radar domain: '' @ casefold d))
    (bindE (provider_intent (get_default record ''intent'' PNone)) (\<lambda>intt.
     bindE (provider_priority (get_default record ''min_priority'' (PInt 3))) (\<lambda>p.
     bindE (provider_active (get_default record ''active'' (PBool True))) (\<lambda>active.
     build_upsert_command ''UPSERT_SUBSCRIPTION'' ''radar'' subscription_sql
       (subscription_row (casefold ident) (casefold d) intt p active))))))))"

section \<open>All commands, and snapshots\<close>

definition build_projection_commands :: "pyval \<Rightarrow> exn + projection_command list" where
  "build_projection_commands state = (case state of
      PDict m \<Rightarrow>
        bindE (collection (get_default m ''identities'' PNone) ''INVALID_IDENTITIES'') (\<lambda>idents.
        bindE (mapE identity_command idents) (\<lambda>identity_commands.
        bindE (collection (get_default m ''endpoints'' PNone) ''INVALID_ENDPOINTS'') (\<lambda>ends.
        bindE (mapE endpoint_command ends) (\<lambda>endpoint_commands.
        bindE (collection (get_default m ''subscriptions'' PNone) ''INVALID_SUBSCRIPTIONS'') (\<lambda>subs.
        bindE (mapE subscription_command subs) (\<lambda>subscription_commands.
        Inr (identity_commands @ endpoint_commands @ subscription_commands)))))))
    | _ \<Rightarrow> Inl (projection_error ''INVALID_STATE'' (''state must be a Mapping, got '' @ type_name state)))"

record provider_snapshot =
  snap_protocol_head :: "string option"
  snap_identities :: "pymap list"
  snap_canonical :: bool

definition parse_provider_snapshot :: "pyval \<Rightarrow> exn + provider_snapshot" where
  "parse_provider_snapshot raw = (case raw of
      PDict m \<Rightarrow>
        bindE (case get_default m ''protocol_head'' PNone of
            PNone \<Rightarrow> Inr None | PStr s \<Rightarrow> Inr (Some s)
          | v \<Rightarrow> Inl (projection_error ''INVALID_PROTOCOL_HEAD'' (''protocol_head must be a string, got '' @ type_name v))) (\<lambda>head.
        bindE (collection (get_default m ''identities'' PNone) ''INVALID_IDENTITIES'') (\<lambda>idents.
        bindE (mapE (\<lambda>item. mapping_of item ''INVALID_IDENTITY_SNAPSHOT'') idents) (\<lambda>rows.
        Inr \<lparr>snap_protocol_head = head, snap_identities = rows, snap_canonical = False\<rparr>)))
    | _ \<Rightarrow> Inl (projection_error ''INVALID_PROVIDER_SNAPSHOT'' ''provider snapshot must be a Mapping''))"

section \<open>What the commands bind\<close>

text \<open>The names of the \<open>%(name)s\<close> parameters of a statement, in order.\<close>

fun placeholders :: "string \<Rightarrow> string list" where
  "placeholders [] = []"
| "placeholders (c # s) =
    (if starts_with ''%('' (c # s) then [takeWhile (\<lambda>d. d \<noteq> CHR '')'') (tl s)] else []) @ placeholders s"

definition binds :: "projection_command \<Rightarrow> bool" where
  "binds c \<longleftrightarrow> placeholders (cmd_sql c) = map fst (cmd_parameters c) \<and> distinct (map fst (cmd_parameters c))"

lemma upsert_built [simp]:
  "build_upsert_command operation schema sql parameters = Inr c \<longleftrightarrow>
     schema = ''radar'' \<and> c = \<lparr>cmd_operation = operation, cmd_schema = schema, cmd_sql = sql, cmd_parameters = parameters\<rparr>"
  by (auto simp: build_upsert_command_def)

lemma provider_text_Inr [simp]:
  "provider_text record key error = Inr s \<longleftrightarrow> is_text (get_default record key PNone) \<and> s = strip (text_of (get_default record key PNone))"
  by (auto simp: provider_text_def Let_def)

lemma mapping_of_Inr [simp]: "mapping_of v error = Inr m \<longleftrightarrow> v = PDict m"
  by (cases v) (auto simp: mapping_of_def)

lemma identity_placeholders: "placeholders identity_sql = [''identity_id'', ''display_name'']"
  by code_simp

lemma endpoint_placeholders: "placeholders endpoint_sql = [''endpoint_id'', ''identity_id'', ''transport'', ''address'', ''status'']"
  by code_simp

lemma subscription_placeholders:
  "placeholders subscription_sql = [''identity_id'', ''domain'', ''intent'', ''min_priority'', ''active'']"
  by code_simp

lemma identity_command_binds: "identity_command raw = Inr c \<Longrightarrow> binds c \<and> cmd_schema c = ''radar''"
  by (auto simp: identity_command_def binds_def identity_placeholders)

lemma endpoint_command_binds: "endpoint_command raw = Inr c \<Longrightarrow> binds c \<and> cmd_schema c = ''radar''"
  by (auto simp: endpoint_command_def binds_def endpoint_placeholders)

lemma subscription_command_binds: "subscription_command raw = Inr c \<Longrightarrow> binds c \<and> cmd_schema c = ''radar''"
  by (auto simp: subscription_command_def subscription_row_def binds_def subscription_placeholders)

lemma mapE_all: "mapE f xs = Inr ys \<Longrightarrow> (\<And>x y. f x = Inr y \<Longrightarrow> P y) \<Longrightarrow> y \<in> set ys \<Longrightarrow> P y"
  by (auto simp: mapE_Inr_list_all2 list_all2_conv_all_nth in_set_conv_nth)

text \<open>
  Every command the provider projection builds is a parameterised statement of the radar schema
  that binds exactly the parameters its text names, once each and in order.
\<close>

theorem commands_bind_their_parameters:
  assumes "build_projection_commands state = Inr commands" and "c \<in> set commands"
  shows "cmd_schema c = ''radar'' \<and> placeholders (cmd_sql c) = map fst (cmd_parameters c) \<and> distinct (map fst (cmd_parameters c))"
proof -
  obtain m idents a ends b subs d where m: "mapE identity_command idents = Inr a" "mapE endpoint_command ends = Inr b"
      "mapE subscription_command subs = Inr d" "commands = a @ b @ d"
    using assms(1) by (cases state) (auto simp: build_projection_commands_def)
  have "binds c \<and> cmd_schema c = ''radar''" if "c \<in> set a"
    by (rule mapE_all [OF m(1) _ that]) (rule identity_command_binds)
  moreover have "binds c \<and> cmd_schema c = ''radar''" if "c \<in> set b"
    by (rule mapE_all [OF m(2) _ that]) (rule endpoint_command_binds)
  moreover have "binds c \<and> cmd_schema c = ''radar''" if "c \<in> set d"
    by (rule mapE_all [OF m(3) _ that]) (rule subscription_command_binds)
  ultimately show ?thesis
    using assms(2) m(4) by (auto simp: binds_def)
qed

definition sample_state :: pyval where
  "sample_state = PDict [(''identities'', PList [PDict [(''identity_id'', PStr '' Alice''), (''display_name'', PStr ''Alice'')]])]"

theorem commands_bind_their_parameters_witness:
  "\<exists>c. build_projection_commands sample_state = Inr [c] \<and> placeholders (cmd_sql c) = map fst (cmd_parameters c)"
proof -
  let ?c = "hd (projr (build_projection_commands sample_state))"
  have built: "build_projection_commands sample_state = Inr [?c]"
    by code_simp
  have "?c \<in> set [?c]"
    by simp
  from commands_bind_their_parameters [OF built this] built show ?thesis
    by blast
qed

section \<open>Agreement with the registry\<close>

lemma provider_intent_agrees:
  "provider_intent v = Inr i \<longleftrightarrow> subscription_intent v = Inr i"
  by (auto simp: provider_intent_def subscription_intent_def Let_def)

lemma provider_priority_agrees: "provider_priority v = Inr p \<longleftrightarrow> priority_value v = Inr p"
  by (cases v) (auto simp: provider_priority_def priority_value_def)

lemma provider_active_Inr: "provider_active v = Inr b \<longleftrightarrow> v = PBool b"
  by (cases v) (auto simp: provider_active_def)

text \<open>
  The provider projection accepts a subscription exactly when the registry's own validators accept
  its domain, intent and priority (3 when absent), its identity is a name the registry would
  normalise and its active flag is a boolean; the row holds the registry's normal forms.
\<close>

theorem subscriptions_agree_with_registry:
  "subscription_command (PDict record) = Inr c \<longleftrightarrow>
    (\<exists>s ident dmn intt p active. get_default record ''identity_id'' PNone = PStr s \<and> normalize_identifier s = Inr ident \<and>
      subscription_domain (get_default record ''domain'' PNone) = Inr dmn \<and>
      subscription_intent (get_default record ''intent'' PNone) = Inr intt \<and>
      priority_value (get_default record ''min_priority'' (PInt 3)) = Inr p \<and> get_default record ''active'' (PBool True) = PBool active \<and>
      c = \<lparr>cmd_operation = ''UPSERT_SUBSCRIPTION'', cmd_schema = ''radar'', cmd_sql = subscription_sql,
           cmd_parameters = subscription_row ident dmn intt p active\<rparr>)"
proof -
  have ident: "is_text v \<and> s' = casefold (strip (text_of v)) \<longleftrightarrow> (\<exists>s. v = PStr s \<and> normalize_identifier s = Inr s')" for v s'
    by (cases v) (auto simp: is_text_def normalize_identifier_def)
  have "subscription_command (PDict record) = Inr c \<longleftrightarrow>
    (\<exists>ident dmn intt p active.
      (is_text (get_default record ''identity_id'' PNone) \<and> ident = casefold (strip (text_of (get_default record ''identity_id'' PNone)))) \<and>
      subscription_domain (get_default record ''domain'' PNone) = Inr dmn \<and>
      subscription_intent (get_default record ''intent'' PNone) = Inr intt \<and>
      priority_value (get_default record ''min_priority'' (PInt 3)) = Inr p \<and> get_default record ''active'' (PBool True) = PBool active \<and>
      c = \<lparr>cmd_operation = ''UPSERT_SUBSCRIPTION'', cmd_schema = ''radar'', cmd_sql = subscription_sql,
           cmd_parameters = subscription_row ident dmn intt p active\<rparr>)"
    by (auto simp: subscription_command_def subscription_domain_def Let_def provider_intent_agrees provider_priority_agrees provider_active_Inr)
  then show ?thesis
    unfolding ident by blast
qed

end
