(* ===== verification/BusProjection.thy ===== *)
theory BusProjection
  imports WriterLanes ProviderCommands
begin

text \<open>
  The projection of bus messages and of branch names: \<open>src/src/radar/bus_message_projection.py\<close> reads a
  message leniently and builds the command that stores it, \<open>src/src/radar/github_projection.py\<close> discovers
  the writer lanes among the branches of a repository. SHA-256 and \<open>datetime.fromisoformat\<close> are the
  parameters of the message grammar.
\<close>

section \<open>Identities\<close>





section \<open>Messages\<close>









section \<open>Branches\<close>

definition branch_aliases :: "(string, string) dict" where
  "branch_aliases = [(''beta-legacy'', ''beta''), (''alpha-core'', ''alpha'')]"

definition normalize_branch_identity :: "string \<Rightarrow> string" where
  "normalize_branch_identity value =
    (let key = casefold (strip value) in case dict_get branch_aliases key of None \<Rightarrow> key | Some mapped \<Rightarrow> mapped)"

text \<open>
  \<open>^bus/(?P<identity>[a-z0-9_-]+)-v\d+$\<close>: what the group matches. The digits at the end are
  preceded by the last \<open>-v\<close>; \<open>$\<close> also matches before a final line feed.
\<close>

definition identity_char :: "char \<Rightarrow> bool" where
  "identity_char c \<longleftrightarrow> is_lower c \<or> is_digit c \<or> c = CHR ''_'' \<or> c = CHR ''-''"

definition lane_identity_match :: "string \<Rightarrow> string option" where
  "lane_identity_match branch =
    (if \<not> starts_with ''bus/'' branch then None
     else let rest = rev (drop 4 branch); digits_first = (case rest of c # cs \<Rightarrow> if c = LF then cs else rest | [] \<Rightarrow> []) in
       case (takeWhile is_digit digits_first, dropWhile is_digit digits_first) of
         (_ # _, v # dash # ident) \<Rightarrow>
           if v = CHR ''v'' \<and> dash = CHR ''-'' \<and> ident \<noteq> [] \<and> list_all identity_char ident then Some (rev ident) else None
       | _ \<Rightarrow> None)"

record lane_evidence =
  has_messages_dir :: bool
  declared_writer :: "string option"
  message_writers :: "string list"

definition supports :: "lane_evidence \<Rightarrow> string \<Rightarrow> bool" where
  "supports e ident =
    (let expected = normalize_branch_identity ident in
     (case declared_writer e of None \<Rightarrow> False | Some w \<Rightarrow> w \<noteq> [] \<and> normalize_branch_identity w = expected) \<or>
     list_ex (\<lambda>w. normalize_branch_identity w = expected) (message_writers e))"

record repository_projection =
  observed_branches :: "string list"
  identity_lanes :: "(string, string) dict"
  missing_required :: "string list"
  protocol_branches :: "string list"
  malformed_lanes :: "string list"

definition evidence_ok :: "(string, lane_evidence) dict option \<Rightarrow> string \<Rightarrow> string \<Rightarrow> bool" where
  "evidence_ok evidence branch ident = (case evidence of
      None \<Rightarrow> True
    | Some m \<Rightarrow> (case dict_get m branch of None \<Rightarrow> False | Some e \<Rightarrow> has_messages_dir e \<and> supports e ident))"

text \<open>The loop over the sorted branches; \<open>existing\<close> lanes are kept.\<close>

fun project_loop ::
  "(string, lane_evidence) dict option \<Rightarrow> (string, string) dict \<Rightarrow> string list \<Rightarrow> string list \<Rightarrow> string list \<Rightarrow>
   (string, string) dict \<times> string list \<times> string list" where
  "project_loop evidence lanes protocols malformed [] = (lanes, protocols, malformed)"
| "project_loop evidence lanes protocols malformed (branch # branches) =
    (if starts_with ''bus/protocol-v'' branch then project_loop evidence lanes (protocols @ [branch]) malformed branches
     else case lane_identity_match branch of
       None \<Rightarrow> project_loop evidence lanes protocols malformed branches
     | Some raw_identity \<Rightarrow>
         (let ident = normalize_branch_identity raw_identity in
          if \<not> evidence_ok evidence branch ident then project_loop evidence lanes protocols (malformed @ [branch]) branches
          else case dict_get lanes ident of
            None \<Rightarrow> project_loop evidence (dict_set lanes ident branch) protocols malformed branches
          | Some existing \<Rightarrow>
              project_loop evidence (if existing \<noteq> branch then dict_set lanes ident existing else lanes) protocols malformed branches))"

definition project_branches ::
  "string list \<Rightarrow> string list option \<Rightarrow> (string, lane_evidence) dict option \<Rightarrow> repository_projection" where
  "project_branches branch_names required evidence =
    (let observed = sort (remdups branch_names); (lanes, protocols, malformed) = project_loop evidence [] [] [] observed;
         wanted = (case required of None \<Rightarrow> [] | Some ids \<Rightarrow> remdups (map normalize_branch_identity ids)) in
     \<lparr>observed_branches = observed, identity_lanes = lanes,
      missing_required = sort (filter (\<lambda>i. i \<notin> fst ` set lanes) wanted),
      protocol_branches = sort protocols, malformed_lanes = sort malformed\<rparr>)"

section \<open>What the guard accepts projects\<close>









section \<open>The lanes of a repository\<close>

text \<open>The identity a branch is a lane of, and whether the evidence supports it.\<close>

definition lane_of :: "string \<Rightarrow> string option" where
  "lane_of branch = (if starts_with ''bus/protocol-v'' branch then None else map_option normalize_branch_identity (lane_identity_match branch))"

definition healthy :: "(string, lane_evidence) dict option \<Rightarrow> string \<Rightarrow> string \<Rightarrow> bool" where
  "healthy evidence ident branch \<longleftrightarrow> lane_of branch = Some ident \<and> evidence_ok evidence branch ident"

definition malformed_lane :: "(string, lane_evidence) dict option \<Rightarrow> string \<Rightarrow> bool" where
  "malformed_lane evidence branch \<longleftrightarrow> (\<exists>ident. lane_of branch = Some ident \<and> \<not> evidence_ok evidence branch ident)"

lemma project_loop_result:
  assumes "project_loop evidence lanes protocols malformed branches = (lanes', protocols', malformed')"
  shows "dict_get lanes' i = (case dict_get lanes i of Some b \<Rightarrow> Some b | None \<Rightarrow> find (healthy evidence i) branches) \<and>
    protocols' = protocols @ filter (starts_with ''bus/protocol-v'') branches \<and>
    malformed' = malformed @ filter (malformed_lane evidence) branches"
  using assms
proof (induction evidence lanes protocols malformed branches rule: project_loop.induct)
  case (2 evidence lanes protocols malformed branch branches)
  show ?case
  proof (cases "starts_with ''bus/protocol-v'' branch")
    case True
    then show ?thesis
      using 2 by (auto simp: healthy_def malformed_lane_def lane_of_def split: option.splits)
  next
    case False
    show ?thesis
    proof (cases "lane_identity_match branch")
      case None
      then show ?thesis
        using False 2 by (auto simp: healthy_def malformed_lane_def lane_of_def split: option.splits)
    next
      case (Some raw)
      let ?i = "normalize_branch_identity raw"
      have lane: "lane_of branch = Some ?i"
        using False Some by (simp add: lane_of_def)
      show ?thesis
      proof (cases "evidence_ok evidence branch ?i")
        case False
        then show ?thesis
          using \<open>\<not> starts_with _ _\<close> Some lane 2
          by (auto simp: healthy_def malformed_lane_def Let_def split: option.splits)
      next
        case True
        have kept: "project_loop evidence (case dict_get lanes ?i of None \<Rightarrow> dict_set lanes ?i branch | Some existing \<Rightarrow>
            if existing \<noteq> branch then dict_set lanes ?i existing else lanes) protocols malformed branches = (lanes', protocols', malformed')"
          using "2.prems" False Some True by (cases "dict_get lanes ?i") (simp_all add: Let_def)
        show ?thesis
        proof (cases "dict_get lanes ?i")
          case None
          then show ?thesis
            using "2.IH"(4) [OF False Some refl _ None] True False Some lane kept
            by (auto simp: healthy_def malformed_lane_def split: option.splits if_splits)
        next
          case (Some existing)
          then show ?thesis
            using "2.IH"(5) [OF False \<open>lane_identity_match branch = Some raw\<close> refl _ Some] True False lane kept
            by (auto simp: healthy_def malformed_lane_def split: option.splits if_splits)
        qed
      qed
    qed
  qed
qed (auto split: option.splits)

text \<open>
  The projection of a repository is exact: an identity's lane is the least observed branch that
  names it and whose evidence, when evidence is given, supports it; the malformed lanes are the lane
  branches whose evidence does not, and the missing identities are the required ones without a lane.
\<close>

theorem branch_projection_exact:
  "let p = project_branches names required evidence in
    sorted (observed_branches p) \<and> set (observed_branches p) = set names \<and>
    dict_get (identity_lanes p) i = find (healthy evidence i) (observed_branches p) \<and>
    protocol_branches p = filter (starts_with ''bus/protocol-v'') (observed_branches p) \<and>
    malformed_lanes p = filter (malformed_lane evidence) (observed_branches p) \<and>
    set (missing_required p) = {j. (\<exists>ids k. required = Some ids \<and> k \<in> set ids \<and> j = normalize_branch_identity k) \<and>
      (\<forall>b \<in> set names. \<not> healthy evidence j b)}"
proof -
  let ?observed = "sort (remdups names)"
  obtain lanes protocols malformed where loop: "project_loop evidence [] [] [] ?observed = (lanes, protocols, malformed)"
    by (metis prod_cases3)
  note result = project_loop_result [OF loop]
  have none: "j \<notin> fst ` set lanes \<longleftrightarrow> (\<forall>b \<in> set names. \<not> healthy evidence j b)" for j
    using result [of j] by (auto simp: map_of_eq_None_iff [symmetric] find_None_iff)
  have sorted_filter: "sort (filter P ?observed) = filter P ?observed" for P
    by (simp add: filter_sort [symmetric] sorted_sort_id)
  show ?thesis
    using result [of i] by (auto simp: project_branches_def Let_def loop none sorted_filter split: option.splits)
qed

theorem branch_projection_exact_witness:
  "let p = project_branches [''bus/alice-v2'', ''main'', ''bus/alice-v1''] (Some [''Alice'', ''bob'']) None in
    dict_get (identity_lanes p) ''alice'' = Some ''bus/alice-v1'' \<and> dict_get (identity_lanes p) ''alice'' = find (healthy None ''alice'') (observed_branches p) \<and>
    missing_required p = [''bob'']"
proof -
  have "let p = project_branches [''bus/alice-v2'', ''main'', ''bus/alice-v1''] (Some [''Alice'', ''bob'']) None in
      dict_get (identity_lanes p) ''alice'' = Some ''bus/alice-v1'' \<and> missing_required p = [''bob'']"
    by code_simp
  then show ?thesis
    using branch_projection_exact [of "[''bus/alice-v2'', ''main'', ''bus/alice-v1'']" "Some [''Alice'', ''bob'']" None "''alice''"]
    unfolding Let_def by blast
qed

end
