(* ===== verification/VisualIdentity.thy ===== *)
theory VisualIdentity
  imports ProviderCommands
begin

text \<open>
  Visual identities: \<open>src/src/radar/visual_identity.py\<close> parses and validates the profile of an identity's
  pictures, \<open>src/src/radar/visual_projection.py\<close> builds the commands that store it. Values the code does
  not check (\<open>supersedes\<close>, \<open>review_after\<close>, an unretired \<open>retired_at\<close>) stay raw.
\<close>

section \<open>Profiles\<close>

definition allowed_scopes :: "string list" where
  "allowed_scopes = [''portrait'', ''bus_avatar'', ''character'']"

definition allowed_states :: "string list" where
  "allowed_states = [''PLACEHOLDER'', ''CANDIDATE'', ''CANONICAL'', ''RETIRED'']"

definition allowed_claim_types :: "string list" where
  "allowed_claim_types = [''self'', ''operator_override'', ''system_placeholder'']"

record visual_asset =
  va_id :: string
  va_scope :: string
  va_state :: string
  va_path :: string
  va_sha256 :: string
  va_claimed_by :: string
  va_claim_type :: string
  va_claimed_at :: string
  va_source_ref :: string
  va_supersedes :: pyval
  va_retired_at :: pyval
  va_review_after :: pyval

record visual_profile =
  vp_identity :: string
  vp_display_name :: string
  vp_style_contract :: string
  vp_current :: pymap
  vp_candidate :: pymap
  vp_assets :: "visual_asset list"

definition visual_error :: "string \<Rightarrow> exn + 'a" where
  "visual_error code = Inl (VisualIdentityError code)"

definition visual_text :: "pymap \<Rightarrow> string \<Rightarrow> exn + string" where
  "visual_text record key =
    (let value = get_default record key PNone in
     requireE (is_text value) (VisualIdentityError (''MISSING_OR_INVALID_'' @ upper key)) (Inr (text_of value)))"

section \<open>Paths\<close>

text \<open>\<open>PurePosixPath\<close>: a root and parts. Empty and \<open>.\<close> components vanish; exactly two leading slashes stay.\<close>

definition path_root :: "string \<Rightarrow> string" where
  "path_root s = (if starts_with ''//'' s \<and> \<not> starts_with ''///'' s then ''//'' else if starts_with ''/'' s then ''/'' else [])"

fun slash_split :: "string \<Rightarrow> string \<Rightarrow> string list" where
  "slash_split w [] = [rev w]"
| "slash_split w (c # cs) = (if c = CHR ''/'' then rev w # slash_split [] cs else slash_split (c # w) cs)"

definition path_components :: "string \<Rightarrow> string list" where
  "path_components s = filter (\<lambda>p. p \<noteq> [] \<and> p \<noteq> ''.'') (slash_split [] s)"

definition path_parts :: "string \<Rightarrow> string list" where
  "path_parts s = (if path_root s = [] then [] else [path_root s]) @ path_components s"

text \<open>\<open>PurePosixPath("identities") / identity_id / "assets"\<close>; an absolute operand replaces what is before it.\<close>

definition expected_prefix :: "string \<Rightarrow> string list" where
  "expected_prefix identity = (if path_root identity = [] then [''identities''] else []) @ path_parts identity @ [''assets'']"

definition validate_asset_path :: "string \<Rightarrow> string \<Rightarrow> exn + unit" where
  "validate_asset_path path identity =
    (let parts = path_parts path; prefix = expected_prefix identity; bad = VisualIdentityError ''ASSET_PATH_IDENTITY_MISMATCH'' in
     requireE (path_root path = [] \<and> ''..'' \<notin> set parts) bad
     (requireE (take (length prefix) parts = prefix) bad
     (requireE (length prefix < length parts) bad (Inr ()))))"

section \<open>Parsing and validating\<close>

definition sha256_hex :: "string \<Rightarrow> bool" where
  "sha256_hex s \<longleftrightarrow> length s = 64 \<and> list_all is_hex_lower s"

definition parse_asset :: "string \<Rightarrow> pyval \<Rightarrow> exn + visual_asset" where
  "parse_asset identity raw = (case raw of
      PDict r \<Rightarrow>
        bindE (visual_text r ''asset_id'') (\<lambda>asset_id.
        bindE (visual_text r ''scope'') (\<lambda>scope.
        bindE (visual_text r ''state'') (\<lambda>st.
        bindE (visual_text r ''path'') (\<lambda>path.
        bindE (visual_text r ''sha256'') (\<lambda>sha256.
        bindE (visual_text r ''claimed_by'') (\<lambda>claimed_by.
        bindE (visual_text r ''claim_type'') (\<lambda>claim_type.
        bindE (visual_text r ''claimed_at'') (\<lambda>claimed_at.
        bindE (visual_text r ''source_ref'') (\<lambda>source_ref.
        requireE (scope \<in> set allowed_scopes) (VisualIdentityError ''UNKNOWN_VISUAL_SCOPE'')
        (requireE (st \<in> set allowed_states) (VisualIdentityError ''UNKNOWN_VISUAL_STATE'')
        (requireE (claim_type \<in> set allowed_claim_types) (VisualIdentityError ''UNKNOWN_CLAIM_TYPE'')
        (requireE (sha256_hex sha256) (VisualIdentityError ''INVALID_SHA256'')
        (bindE (validate_asset_path path identity) (\<lambda>_.
         requireE (st = ''RETIRED'' \<longrightarrow> is_text (get_default r ''retired_at'' PNone)) (VisualIdentityError ''RETIRED_ASSET_MISSING_RETIRED_AT'')
         (Inr \<lparr>va_id = asset_id, va_scope = scope, va_state = st, va_path = path, va_sha256 = sha256, va_claimed_by = claimed_by,
            va_claim_type = claim_type, va_claimed_at = claimed_at, va_source_ref = source_ref,
            va_supersedes = get_default r ''supersedes'' PNone, va_retired_at = get_default r ''retired_at'' PNone,
            va_review_after = get_default r ''review_after'' PNone\<rparr>)))))))))))))))
    | _ \<Rightarrow> Inl AttributeError)"

definition as_list :: "pyval \<Rightarrow> exn + pyval list" where
  "as_list v = (case v of PList vs \<Rightarrow> Inr vs | _ \<Rightarrow> visual_error ''INVALID_ASSET_LIST'')"

definition as_pointers :: "pyval \<Rightarrow> exn + pymap" where
  "as_pointers v = (case v of PDict m \<Rightarrow> Inr m | _ \<Rightarrow> visual_error ''INVALID_CURRENT_POINTERS'')"

definition parse_profile :: "pyval \<Rightarrow> exn + visual_profile" where
  "parse_profile data = (case data of
      PDict d \<Rightarrow>
        bindE (visual_text d ''identity_id'') (\<lambda>identity.
        bindE (visual_text d ''display_name'') (\<lambda>display.
        bindE (visual_text d ''style_contract'') (\<lambda>contract.
        requireE (contract = ''BUS_AVATAR_STYLE_V1'') (VisualIdentityError ''UNKNOWN_STYLE_CONTRACT'')
        (bindE (as_list (get_default d ''assets'' (PList []))) (\<lambda>raw_assets.
         bindE (mapE (parse_asset identity) raw_assets) (\<lambda>assets.
         bindE (as_pointers (get_default d ''current'' (PDict []))) (\<lambda>current.
         bindE (as_pointers (get_default d ''active_candidate'' (PDict []))) (\<lambda>candidate.
         Inr \<lparr>vp_identity = identity, vp_display_name = display, vp_style_contract = contract, vp_current = current,
           vp_candidate = candidate, vp_assets = assets\<rparr>))))))))
    | _ \<Rightarrow> Inl AttributeError)"

text \<open>The loop over the assets: \<open>by_id\<close>, and the canonical assets of each scope.\<close>

fun index_assets ::
  "(string, visual_asset) dict \<Rightarrow> (string, visual_asset list) dict \<Rightarrow> visual_asset list \<Rightarrow>
   exn + (string, visual_asset) dict \<times> (string, visual_asset list) dict" where
  "index_assets by_id canonical [] = Inr (by_id, canonical)"
| "index_assets by_id canonical (asset # assets) =
    requireE (\<not> dict_has by_id (va_id asset)) (VisualIdentityError ''DUPLICATE_ASSET_ID'')
    (index_assets (dict_set by_id (va_id asset) asset)
      (if va_state asset = ''CANONICAL''
       then dict_set canonical (va_scope asset) ((case dict_get canonical (va_scope asset) of None \<Rightarrow> [] | Some items \<Rightarrow> items) @ [asset])
       else canonical) assets)"

definition pointer_ok :: "(string, visual_asset) dict \<Rightarrow> string \<Rightarrow> string \<times> pyval \<Rightarrow> bool" where
  "pointer_ok by_id st entry = (fst entry \<in> set allowed_scopes \<and> (case snd entry of
      PStr asset_id \<Rightarrow> (case dict_get by_id asset_id of None \<Rightarrow> False | Some asset \<Rightarrow> va_scope asset = fst entry \<and> va_state asset = st)
    | _ \<Rightarrow> False))"

definition check_profile :: "visual_profile \<Rightarrow> exn + visual_profile" where
  "check_profile profile =
    bindE (index_assets [] [] (vp_assets profile)) (\<lambda>(by_id, canonical).
    requireE (\<not> list_ex (\<lambda>(scope, items). 1 < length items) canonical) (VisualIdentityError ''MULTIPLE_CANONICAL_ASSETS_FOR_SCOPE'')
    (requireE (list_all (pointer_ok by_id ''CANONICAL'') (vp_current profile)) (VisualIdentityError ''CURRENT_ASSET_INVALID'')
    (requireE (list_all (pointer_ok by_id ''CANDIDATE'') (vp_candidate profile)) (VisualIdentityError ''ACTIVE_CANDIDATE_INVALID'')
    (Inr profile))))"

datatype profile_data = ProfileObject visual_profile | ProfileData pyval

definition validate_visual_profile :: "profile_data \<Rightarrow> exn + visual_profile" where
  "validate_visual_profile data = (case data of
      ProfileObject profile \<Rightarrow> check_profile profile
    | ProfileData raw \<Rightarrow> bindE (parse_profile raw) check_profile)"

text \<open>\<open>name\<close> is the last component of a path, and the file's content has been read as JSON or failed.\<close>

definition path_name :: "string list \<Rightarrow> string" where
  "path_name components = (if components = [] then [] else last components)"

definition load_visual_profile :: "string \<Rightarrow> exn + pyval \<Rightarrow> exn + visual_profile" where
  "load_visual_profile path content =
    bindE content (\<lambda>data.
    bindE (validate_visual_profile (ProfileData data)) (\<lambda>profile.
    let components = path_components path in
    requireE (\<not> (path_name components = ''profile.json'' \<and> path_name (butlast components) \<noteq> vp_identity profile))
      (VisualIdentityError ''PROFILE_PATH_IDENTITY_MISMATCH'') (Inr profile)))"

definition assets_by_id :: "visual_asset list \<Rightarrow> (string, visual_asset) dict" where
  "assets_by_id assets = fold (\<lambda>asset d. dict_set d (va_id asset) asset) assets []"

definition asset_at :: "(string, visual_asset) dict \<Rightarrow> pyval \<Rightarrow> exn + visual_asset option" where
  "asset_at by_id pointer = (case pointer of
      PStr s \<Rightarrow> (case dict_get by_id s of None \<Rightarrow> Inl (KeyError s) | Some asset \<Rightarrow> Inr (Some asset))
    | _ \<Rightarrow> Inl TypeError)"

definition resolve_bus_avatar :: "profile_data \<Rightarrow> bool \<Rightarrow> exn + visual_asset option" where
  "resolve_bus_avatar profile allow_candidate =
    bindE (validate_visual_profile profile) (\<lambda>validated.
    let by_id = assets_by_id (vp_assets validated); canonical_id = get_default (vp_current validated) ''bus_avatar'' PNone;
        candidate_id = get_default (vp_candidate validated) ''bus_avatar'' PNone in
    if truthy canonical_id then asset_at by_id canonical_id
    else if allow_candidate \<and> truthy candidate_id then asset_at by_id candidate_id
    else Inr None)"

section \<open>Commands\<close>

definition visual_upsert_sql :: string where
  "visual_upsert_sql =
    ''insert into radar.identity_visuals'' @ [CHR 0x0A] @
    ''(asset_id, identity_id, scope, state, repository_path, sha256, claimed_by, claim_type,'' @ [CHR 0x0A] @
    '' claimed_at, source_ref, style_contract, supersedes, retired_at, review_after, is_current, is_active_candidate)'' @ [CHR 0x0A] @
    ''values (%(asset_id)s, %(identity_id)s, %(scope)s, %(state)s, %(repository_path)s, %(sha256)s, %(claimed_by)s, %(claim_type)s,'' @ [CHR 0x0A] @
    '' %(claimed_at)s, %(source_ref)s, %(style_contract)s, %(supersedes)s, %(retired_at)s, %(review_after)s, %(is_current)s, %(is_active_candidate)s)'' @ [CHR 0x0A] @
    ''on conflict (asset_id) do update set'' @ [CHR 0x0A] @
    '' identity_id = excluded.identity_id, scope = excluded.scope, state = excluded.state,'' @ [CHR 0x0A] @
    '' repository_path = excluded.repository_path, sha256 = excluded.sha256, claimed_by = excluded.claimed_by,'' @ [CHR 0x0A] @
    '' claim_type = excluded.claim_type, claimed_at = excluded.claimed_at, source_ref = excluded.source_ref,'' @ [CHR 0x0A] @
    '' style_contract = excluded.style_contract, supersedes = excluded.supersedes, retired_at = excluded.retired_at,'' @ [CHR 0x0A] @
    '' review_after = excluded.review_after, is_current = excluded.is_current,'' @ [CHR 0x0A] @
    '' is_active_candidate = excluded.is_active_candidate, updated_at = now()'' @ [CHR 0x0A]"

definition validated_asset_row :: "visual_profile \<Rightarrow> visual_asset \<Rightarrow> exn + pymap" where
  "validated_asset_row validated asset =
    requireE (va_id asset \<in> va_id ` set (vp_assets validated))
      (ValueError (''Asset (asset_id='' @ va_id asset @ '') is not part of profile (identity_id='' @ vp_identity validated @ '').''))
      (Inr [(''asset_id'', PStr (va_id asset)), (''identity_id'', PStr (vp_identity validated)), (''scope'', PStr (va_scope asset)),
        (''state'', PStr (va_state asset)), (''repository_path'', PStr (va_path asset)), (''sha256'', PStr (va_sha256 asset)),
        (''claimed_by'', PStr (va_claimed_by asset)), (''claim_type'', PStr (va_claim_type asset)), (''claimed_at'', PStr (va_claimed_at asset)),
        (''source_ref'', PStr (va_source_ref asset)), (''style_contract'', PStr (vp_style_contract validated)),
        (''supersedes'', va_supersedes asset), (''retired_at'', va_retired_at asset), (''review_after'', va_review_after asset),
        (''is_current'', PBool (get_default (vp_current validated) (va_scope asset) PNone = PStr (va_id asset))),
        (''is_active_candidate'', PBool (get_default (vp_candidate validated) (va_scope asset) PNone = PStr (va_id asset)))])"

definition visual_asset_row :: "visual_profile \<Rightarrow> visual_asset \<Rightarrow> exn + pymap" where
  "visual_asset_row profile asset =
    bindE (validate_visual_profile (ProfileObject profile)) (\<lambda>validated. validated_asset_row validated asset)"

definition build_visual_projection_commands :: "visual_profile \<Rightarrow> exn + projection_command list" where
  "build_visual_projection_commands profile =
    bindE (validate_visual_profile (ProfileObject profile)) (\<lambda>validated.
    mapE (\<lambda>asset. bindE (validated_asset_row validated asset) (\<lambda>row.
      Inr \<lparr>cmd_operation = ''UPSERT_IDENTITY_VISUAL'', cmd_schema = ''radar'', cmd_sql = visual_upsert_sql, cmd_parameters = row\<rparr>))
      (vp_assets validated))"

section \<open>What a valid profile is\<close>

text \<open>The reference: ids differ, each scope has one canonical asset at most, pointers name assets of their scope and state.\<close>

definition canonical_in :: "string \<Rightarrow> visual_asset \<Rightarrow> bool" where
  "canonical_in scope asset \<longleftrightarrow> va_state asset = ''CANONICAL'' \<and> va_scope asset = scope"

definition pointers_ok :: "visual_asset list \<Rightarrow> string \<Rightarrow> pymap \<Rightarrow> bool" where
  "pointers_ok assets st pointers \<longleftrightarrow> (\<forall>(scope, v) \<in> set pointers. scope \<in> set allowed_scopes \<and>
     (\<exists>asset \<in> set assets. v = PStr (va_id asset) \<and> va_scope asset = scope \<and> va_state asset = st))"

definition profile_ok :: "visual_profile \<Rightarrow> bool" where
  "profile_ok p \<longleftrightarrow> distinct (map va_id (vp_assets p)) \<and> (\<forall>scope. length (filter (canonical_in scope) (vp_assets p)) \<le> 1) \<and>
     pointers_ok (vp_assets p) ''CANONICAL'' (vp_current p) \<and> pointers_ok (vp_assets p) ''CANDIDATE'' (vp_candidate p)"

definition canonical_step :: "visual_asset \<Rightarrow> (string, visual_asset list) dict \<Rightarrow> (string, visual_asset list) dict" where
  "canonical_step asset canonical =
    (if va_state asset = ''CANONICAL''
     then dict_set canonical (va_scope asset) ((case dict_get canonical (va_scope asset) of None \<Rightarrow> [] | Some items \<Rightarrow> items) @ [asset])
     else canonical)"

lemma index_assets_eq:
  "index_assets by_id canonical assets =
    (if distinct (map va_id assets) \<and> va_id ` set assets \<inter> fst ` set by_id = {}
     then Inr (fold (\<lambda>asset d. dict_set d (va_id asset) asset) assets by_id, fold canonical_step assets canonical)
     else Inl (VisualIdentityError ''DUPLICATE_ASSET_ID''))"
proof (induction assets arbitrary: by_id canonical)
  case (Cons asset assets)
  have keys: "fst ` set (dict_set by_id (va_id asset) asset) = insert (va_id asset) (fst ` set by_id)"
    by (simp add: dom_update)
  have known: "dict_get by_id (va_id asset) = None \<longleftrightarrow> va_id asset \<notin> fst ` set by_id"
    by (simp add: map_of_eq_None_iff)
  show ?case
  proof (cases "va_id asset \<in> fst ` set by_id")
    case True
    then show ?thesis
      using known by (simp add: requireE_def)
  next
    case False
    then show ?thesis
      using known by (auto simp: Cons.IH keys canonical_step_def [of asset canonical] requireE_def)
  qed
qed simp

lemma fold_by_id_get:
  "distinct (map va_id assets) \<Longrightarrow> dict_get (fold (\<lambda>asset d. dict_set d (va_id asset) asset) assets d) i =
     (case find (\<lambda>asset. va_id asset = i) assets of None \<Rightarrow> dict_get d i | Some asset \<Rightarrow> Some asset)"
proof (induction assets arbitrary: d)
  case (Cons asset assets)
  have "find (\<lambda>a. va_id a = va_id asset) assets = None"
    using Cons.prems by (auto simp: find_None_iff image_iff)
  then show ?case
    using Cons by (auto split: option.splits)
qed simp

lemma assets_by_id_get:
  assumes "distinct (map va_id assets)"
  shows "dict_get (assets_by_id assets) i = Some asset \<longleftrightarrow> asset \<in> set assets \<and> va_id asset = i"
proof -
  have "find (\<lambda>asset. va_id asset = i) assets = Some asset \<longleftrightarrow> asset \<in> set assets \<and> va_id asset = i"
    using assms by (induction assets) auto
  then show ?thesis
    unfolding assets_by_id_def using fold_by_id_get [OF assms, of "[]" i] by (simp split: option.splits)
qed

lemma canonical_get:
  "dict_get (fold canonical_step assets d) scope =
    (let items = filter (canonical_in scope) assets in
     if items = [] then dict_get d scope else Some ((case dict_get d scope of None \<Rightarrow> [] | Some old \<Rightarrow> old) @ items))"
  by (induction assets arbitrary: d) (auto simp: canonical_step_def canonical_in_def Let_def)

lemma canonical_wf: "dict_wf d \<Longrightarrow> dict_wf (fold canonical_step assets d)"
  by (induction assets arbitrary: d) (auto simp: canonical_step_def)

lemma one_canonical_iff:
  "list_ex (\<lambda>(scope, items). 1 < length items) (fold canonical_step assets []) \<longleftrightarrow> (\<exists>scope. 1 < length (filter (canonical_in scope) assets))"
proof -
  have "(scope, items) \<in> set (fold canonical_step assets []) \<longleftrightarrow> items = filter (canonical_in scope) assets \<and> items \<noteq> []" for scope items
    unfolding dict_get_in [OF canonical_wf [of "[]", simplified]] by (auto simp: canonical_get Let_def)
  then show ?thesis
    by (auto simp: list_ex_iff) force
qed

lemma pointer_ok_iff:
  assumes "distinct (map va_id assets)"
  shows "list_all (pointer_ok (assets_by_id assets) st) pointers \<longleftrightarrow> pointers_ok assets st pointers"
proof -
  have "pointer_ok (assets_by_id assets) st (scope, v) \<longleftrightarrow> scope \<in> set allowed_scopes \<and>
      (\<exists>asset \<in> set assets. v = PStr (va_id asset) \<and> va_scope asset = scope \<and> va_state asset = st)" for scope v
  proof (cases v)
    case (PStr i)
    have same: "a = b" if "a \<in> set assets" "b \<in> set assets" "va_id a = va_id b" for a b
      using assms that by (auto simp: distinct_map inj_on_def)
    show ?thesis
    proof (cases "dict_get (assets_by_id assets) i")
      case None
      then have "va_id asset \<noteq> i" if "asset \<in> set assets" for asset
        using that assets_by_id_get [OF assms, of i asset] by auto
      then show ?thesis
        using PStr None by (auto simp: pointer_ok_def)
    next
      case (Some asset)
      then have "asset \<in> set assets \<and> va_id asset = i"
        using assets_by_id_get [OF assms] by blast
      then have "(\<exists>a \<in> set assets. PStr i = PStr (va_id a) \<and> va_scope a = scope \<and> va_state a = st) \<longleftrightarrow> va_scope asset = scope \<and> va_state asset = st"
        using same pyval.inject(4) by blast
      then show ?thesis
        unfolding PStr by (simp add: pointer_ok_def Some)
    qed
  qed (auto simp: pointer_ok_def)
  then show ?thesis
    by (force simp: list_all_iff pointers_ok_def)
qed

lemma check_profile_Inr: "check_profile p = Inr q \<longleftrightarrow> q = p \<and> profile_ok p"
proof (cases "distinct (map va_id (vp_assets p))")
  case True
  then show ?thesis
    using pointer_ok_iff [OF True]
    by (auto simp: check_profile_def index_assets_eq one_canonical_iff profile_ok_def assets_by_id_def not_less simp del: One_nat_def)
next
  case False
  then show ?thesis
    by (simp add: check_profile_def index_assets_eq profile_ok_def)
qed





lemma visual_text_Inr [simp]: "visual_text r key = Inr s \<longleftrightarrow> get_default r key PNone = PStr s \<and> \<not> blank s"
  by (cases "get_default r key PNone") (auto simp: visual_text_def is_text_def Let_def)

text \<open>The docstring of \<open>_required_string\<close> promises the stripped value; the value is returned as it is.\<close>

lemma required_string_unstripped: "visual_text [(''identity_id'', PStr '' alice'')] ''identity_id'' = Inr '' alice''"
  by code_simp




section \<open>Avatars and rows\<close>

lemma pointers_get:
  assumes "pointers_ok assets st pointers" and "get_default pointers scope PNone = v" and "v \<noteq> PNone"
  shows "\<exists>asset \<in> set assets. v = PStr (va_id asset) \<and> va_scope asset = scope \<and> va_state asset = st"
proof -
  have "(scope, v) \<in> set pointers"
    using assms(2,3) by (auto simp: get_default_def split: option.splits dest: map_of_SomeD)
  then show ?thesis
    using assms(1) by (auto simp: pointers_ok_def)
qed

lemma asset_at_pointer:
  assumes "distinct (map va_id assets)" and "pointers_ok assets st pointers" and "truthy (get_default pointers scope PNone)"
  obtains asset where "asset \<in> set assets" "va_scope asset = scope" "va_state asset = st"
    "get_default pointers scope PNone = PStr (va_id asset)" "asset_at (assets_by_id assets) (get_default pointers scope PNone) = Inr (Some asset)"
proof -
  have "get_default pointers scope PNone \<noteq> PNone"
    using assms(3) by (auto simp: truthy_def)
  then obtain asset where a: "asset \<in> set assets" "get_default pointers scope PNone = PStr (va_id asset)" "va_scope asset = scope" "va_state asset = st"
    using pointers_get [OF assms(2) refl] by blast
  have "dict_get (assets_by_id assets) (va_id asset) = Some asset"
    using a(1) assets_by_id_get [OF assms(1)] by blast
  then show thesis
    using that a by (simp add: asset_at_def)
qed

text \<open>
  For a valid profile the bus avatar always resolves: to the canonical asset the profile points to,
  else, only if candidates are allowed, to the candidate it points to, else to none.
\<close>

theorem avatar_resolves:
  assumes "validate_visual_profile data = Inr p"
  shows "\<exists>r. resolve_bus_avatar data allow = Inr r \<and>
    (if truthy (get_default (vp_current p) ''bus_avatar'' PNone)
     then \<exists>asset \<in> set (vp_assets p). r = Some asset \<and> canonical_in ''bus_avatar'' asset \<and>
       get_default (vp_current p) ''bus_avatar'' PNone = PStr (va_id asset)
     else if allow \<and> truthy (get_default (vp_candidate p) ''bus_avatar'' PNone)
     then \<exists>asset \<in> set (vp_assets p). r = Some asset \<and> va_state asset = ''CANDIDATE'' \<and> va_scope asset = ''bus_avatar'' \<and>
       get_default (vp_candidate p) ''bus_avatar'' PNone = PStr (va_id asset)
     else r = None)"
proof -
  have ok: "profile_ok p"
    using assms by (cases data) (auto simp: validate_visual_profile_def check_profile_Inr)
  then have "distinct (map va_id (vp_assets p))" "pointers_ok (vp_assets p) ''CANONICAL'' (vp_current p)"
      "pointers_ok (vp_assets p) ''CANDIDATE'' (vp_candidate p)"
    by (simp_all add: profile_ok_def)
  then show ?thesis
    using assms
    by (auto simp: resolve_bus_avatar_def Let_def canonical_in_def elim: asset_at_pointer)
qed

lemma visual_placeholders:
  "placeholders visual_upsert_sql = [''asset_id'', ''identity_id'', ''scope'', ''state'', ''repository_path'', ''sha256'', ''claimed_by'',
     ''claim_type'', ''claimed_at'', ''source_ref'', ''style_contract'', ''supersedes'', ''retired_at'', ''review_after'', ''is_current'',
     ''is_active_candidate'']"
  by code_simp

lemma visual_row_binds:
  "validated_asset_row p asset = Inr row \<Longrightarrow> placeholders visual_upsert_sql = map fst row"
  by (auto simp: validated_asset_row_def visual_placeholders)

text \<open>The rows of one scope that are marked as current.\<close>

definition current_rows :: "string \<Rightarrow> projection_command list \<Rightarrow> projection_command list" where
  "current_rows scope commands = filter (\<lambda>c. get_default (cmd_parameters c) ''scope'' PNone = PStr scope \<and>
     get_default (cmd_parameters c) ''is_current'' PNone = PBool True) commands"

lemma visual_row_fields:
  "validated_asset_row p asset = Inr row \<Longrightarrow> get_default row ''asset_id'' PNone = PStr (va_id asset) \<and>
     get_default row ''scope'' PNone = PStr (va_scope asset) \<and> get_default row ''state'' PNone = PStr (va_state asset) \<and>
     get_default row ''is_current'' PNone = PBool (get_default (vp_current p) (va_scope asset) PNone = PStr (va_id asset))"
  by (auto simp: validated_asset_row_def get_default_def)

text \<open>
  The commands of a valid profile are one per asset, in order, each binding exactly the parameters
  its statement names; a row is marked current exactly when the profile points to its asset for its
  scope, such a row is canonical, and no scope has two of them.
\<close>

theorem one_current_row_per_scope:
  assumes "build_visual_projection_commands p = Inr commands"
  shows "list_all2 (\<lambda>asset c. get_default (cmd_parameters c) ''asset_id'' PNone = PStr (va_id asset) \<and>
      placeholders (cmd_sql c) = map fst (cmd_parameters c)) (vp_assets p) commands \<and>
    (\<forall>scope. length (current_rows scope commands) \<le> 1 \<and>
      (\<forall>c \<in> set (current_rows scope commands). get_default (cmd_parameters c) ''state'' PNone = PStr ''CANONICAL'' \<and>
         get_default (vp_current p) scope PNone = get_default (cmd_parameters c) ''asset_id'' PNone))"
proof -
  define made :: "visual_asset \<Rightarrow> projection_command \<Rightarrow> bool" where "made asset c \<longleftrightarrow> (\<exists>row. validated_asset_row p asset = Inr row \<and> cmd_sql c = visual_upsert_sql \<and> cmd_parameters c = row)" for asset c
  have ok: "profile_ok p" and all: "list_all2 made (vp_assets p) commands"
    using assms by (auto simp: build_visual_projection_commands_def validate_visual_profile_def check_profile_Inr mapE_Inr_list_all2 made_def
        elim!: list_all2_mono)
  have fields: "get_default (cmd_parameters c) ''asset_id'' PNone = PStr (va_id asset)" "get_default (cmd_parameters c) ''scope'' PNone = PStr (va_scope asset)"
      "get_default (cmd_parameters c) ''state'' PNone = PStr (va_state asset)" "placeholders (cmd_sql c) = map fst (cmd_parameters c)"
      "get_default (cmd_parameters c) ''is_current'' PNone = PBool (get_default (vp_current p) (va_scope asset) PNone = PStr (va_id asset))"
    if "made asset c" for asset c
    using that visual_row_fields visual_row_binds by (auto simp: made_def)
  have one: "length (current_rows scope cs) \<le> length (filter (\<lambda>asset. PStr (va_id asset) = get_default (vp_current p) scope PNone) assets)"
    if "list_all2 made assets cs" for scope assets cs
    using that by (induction rule: list_all2_induct) (auto simp: current_rows_def fields le_SucI)
  have few: "length (filter (\<lambda>asset. PStr (va_id asset) = v) assets) \<le> 1" if "distinct (map va_id assets)" for v assets
    using that by (induction assets) (auto simp: filter_empty_conv image_iff)
  have canonical: "get_default (cmd_parameters c) ''state'' PNone = PStr ''CANONICAL'' \<and>
      get_default (vp_current p) scope PNone = get_default (cmd_parameters c) ''asset_id'' PNone" if "c \<in> set (current_rows scope commands)" for scope c
  proof -
    have c: "c \<in> set commands" "get_default (cmd_parameters c) ''scope'' PNone = PStr scope"
        "get_default (cmd_parameters c) ''is_current'' PNone = PBool True"
      using that by (auto simp: current_rows_def)
    obtain asset where a: "asset \<in> set (vp_assets p)" "made asset c"
      using c(1) all by (force simp: list_all2_conv_all_nth in_set_conv_nth)
    then have pointer: "get_default (vp_current p) scope PNone = PStr (va_id asset)" "va_scope asset = scope"
      using c(2,3) fields [OF a(2)] by auto
    then obtain b where "b \<in> set (vp_assets p)" "va_id b = va_id asset" "va_state b = ''CANONICAL''"
      using ok pointers_get [of "vp_assets p" "''CANONICAL''" "vp_current p" scope] by (force simp: profile_ok_def)
    moreover from this have "b = asset"
      using ok a(1) by (auto simp: profile_ok_def distinct_map inj_on_def)
    ultimately show ?thesis
      using pointer fields [OF a(2)] by simp
  qed
  have "length (current_rows scope commands) \<le> 1" for scope
    using order_trans [OF one [OF all] few] ok by (auto simp: profile_ok_def)
  moreover have "list_all2 (\<lambda>asset c. get_default (cmd_parameters c) ''asset_id'' PNone = PStr (va_id asset) \<and>
      placeholders (cmd_sql c) = map fst (cmd_parameters c)) (vp_assets p) commands"
    by (rule list_all2_mono [OF all]) (use fields in auto)
  ultimately show ?thesis
    using canonical by blast
qed

definition sample_asset :: pyval where
  "sample_asset = PDict (map (\<lambda>(k, v). (k, PStr v))
     [(''asset_id'', ''a1''), (''scope'', ''bus_avatar''), (''state'', ''CANONICAL''), (''path'', ''identities/alice/assets/a.png''),
      (''sha256'', replicate 64 (CHR ''0'')), (''claimed_by'', ''alice''), (''claim_type'', ''self''), (''claimed_at'', ''t''), (''source_ref'', ''r'')])"

definition sample_profile :: pyval where
  "sample_profile = PDict [(''identity_id'', PStr ''alice''), (''display_name'', PStr ''Alice''), (''style_contract'', PStr ''BUS_AVATAR_STYLE_V1''),
     (''assets'', PList [sample_asset]), (''current'', PDict [(''bus_avatar'', PStr ''a1'')])]"

lemma accepted_checks: "validate_visual_profile data = Inr p \<Longrightarrow> check_profile p = Inr p"
  by (cases data) (auto simp: validate_visual_profile_def check_profile_Inr)

lemma mapE_total: "(\<And>x. x \<in> set xs \<Longrightarrow> \<exists>y. f x = Inr y) \<Longrightarrow> \<exists>ys. mapE f xs = Inr ys"
  by (induction xs) fastforce+

lemma sample_profile_accepted:
  obtains p where "validate_visual_profile (ProfileData sample_profile) = Inr p" "vp_assets p \<noteq> []" "vp_identity p = ''alice''"
    "get_default (vp_current p) ''bus_avatar'' PNone = PStr ''a1''" "check_profile p = Inr p"
proof -
  have run: "case validate_visual_profile (ProfileData sample_profile) of Inl e \<Rightarrow> False
    | Inr p \<Rightarrow> vp_assets p \<noteq> [] \<and> vp_identity p = ''alice'' \<and> get_default (vp_current p) ''bus_avatar'' PNone = PStr ''a1''"
    by code_simp
  then obtain p where "validate_visual_profile (ProfileData sample_profile) = Inr p"
    by (cases "validate_visual_profile (ProfileData sample_profile)") auto
  then show thesis
    using that run accepted_checks by simp
qed


theorem avatar_resolves_witness:
  "\<exists>asset. resolve_bus_avatar (ProfileData sample_profile) False = Inr (Some asset) \<and> va_id asset = ''a1'' \<and> canonical_in ''bus_avatar'' asset"
proof -
  obtain p where p: "validate_visual_profile (ProfileData sample_profile) = Inr p" "get_default (vp_current p) ''bus_avatar'' PNone = PStr ''a1''"
    by (rule sample_profile_accepted)
  then show ?thesis
    using avatar_resolves [OF p(1), of False] by (auto simp: truthy_def)
qed

theorem one_current_row_per_scope_witness:
  "\<exists>p commands. build_visual_projection_commands p = Inr commands \<and> vp_assets p \<noteq> [] \<and> (\<forall>scope. length (current_rows scope commands) \<le> 1)"
proof -
  obtain p where p: "vp_assets p \<noteq> []" "check_profile p = Inr p"
    by (rule sample_profile_accepted)
  have "\<exists>commands. build_visual_projection_commands p = Inr commands"
    unfolding build_visual_projection_commands_def validate_visual_profile_def profile_data.case p(2) bindE_simps
    by (rule mapE_total) (simp add: validated_asset_row_def)
  then obtain commands where built: "build_visual_projection_commands p = Inr commands"
    by blast
  from one_current_row_per_scope [OF built] built p(1) show ?thesis
    by blast
qed

end
