(* ===== verification/Audits.thy ===== *)
theory Audits
  imports Json
begin

text \<open>
  The stateless checks of the repository: \<open>src/src/radar/maintenance.py\<close> (the audit of a state),
  \<open>src/src/radar/reconcile.py\<close> (durable state against the provider's projection) and
  \<open>src/src/radar/operator.py\<close> (views for operators). They take arbitrary Python objects; what the code
  asks of an object is a field of \<open>objects\<close>.
\<close>

section \<open>Objects\<close>

text \<open>
  Equality, \<open>repr\<close>, \<open>str\<close>, truth, hashing and iteration (\<open>None\<close>: \<open>TypeError\<close>) of objects; the integer a
  value is, unless it is a Boolean; the Boolean it is; the entries of a dictionary; whether it is text or bytes, whether it
  is a list, tuple or set, and the elements of any other \<open>Sequence\<close> than text and bytes.
\<close>

record 'v objects =
  obj_eq :: "'v \<Rightarrow> 'v \<Rightarrow> bool"
  obj_repr :: "'v \<Rightarrow> string"
  obj_str :: "'v \<Rightarrow> string"
  obj_truth :: "'v \<Rightarrow> bool"
  obj_hashable :: "'v \<Rightarrow> bool"
  obj_iter :: "'v \<Rightarrow> 'v list option"
  obj_int :: "'v \<Rightarrow> int option"
  obj_bool :: "'v \<Rightarrow> bool option"
  obj_dict :: "'v \<Rightarrow> ('v \<times> 'v) list option"
  obj_is_text :: "'v \<Rightarrow> bool"
  obj_is_multi :: "'v \<Rightarrow> bool"
  obj_seq :: "'v \<Rightarrow> 'v list option"
  obj_none :: 'v
  obj_is_none :: "'v \<Rightarrow> bool"
  obj_empty_tuple :: 'v
  obj_tuple :: "'v list \<Rightarrow> 'v"

text \<open>The elements that differ from all before them.\<close>

fun unique_by :: "('v \<Rightarrow> 'v \<Rightarrow> bool) \<Rightarrow> 'v list \<Rightarrow> 'v list \<Rightarrow> 'v list" where
  "unique_by eq acc [] = acc"
| "unique_by eq acc (v # vs) = unique_by eq (if list_ex (eq v) acc then acc else acc @ [v]) vs"

section \<open>Maintenance\<close>

record maintenance_finding =
  mf_code :: string
  mf_detail :: string

definition finding :: "string \<Rightarrow> string \<Rightarrow> maintenance_finding" where
  "finding code detail = \<lparr>mf_code = code, mf_detail = detail\<rparr>"

type_synonym 'v state = "(string, 'v) dict"

definition strict_count :: "'v objects \<Rightarrow> 'v state \<Rightarrow> string \<Rightarrow> exn + int" where
  "strict_count ob state key = (case dict_get state key of
      None \<Rightarrow> Inr 0
    | Some v \<Rightarrow> (case obj_int ob v of
        Some n \<Rightarrow> requireE (0 \<le> n) (MaintenanceError (''INVALID_COUNT:'' @ key)) (Inr n)
      | None \<Rightarrow> Inl (MaintenanceError (''INVALID_COUNT:'' @ key))))"

definition strict_flag :: "'v objects \<Rightarrow> 'v state \<Rightarrow> string \<Rightarrow> exn + bool" where
  "strict_flag ob state key = (case dict_get state key of
      None \<Rightarrow> Inr False
    | Some v \<Rightarrow> (case obj_bool ob v of Some b \<Rightarrow> Inr b | None \<Rightarrow> Inl (MaintenanceError (''INVALID_FLAG:'' @ key))))"

text \<open>\<open>state.get(key, set()) or set()\<close> and its elements; a set needs hashable ones.\<close>

definition given :: "'v objects \<Rightarrow> 'v state \<Rightarrow> string \<Rightarrow> 'v option" where
  "given ob state key = (case dict_get state key of None \<Rightarrow> None | Some v \<Rightarrow> if obj_truth ob v then Some v else None)"

definition as_set :: "'v objects \<Rightarrow> 'v option \<Rightarrow> exn + 'v list" where
  "as_set ob raw = (case raw of
      None \<Rightarrow> Inr []
    | Some v \<Rightarrow> (case obj_iter ob v of
        None \<Rightarrow> Inl (MaintenanceError ''INVALID_LANE_COLLECTION'')
      | Some vs \<Rightarrow> requireE (list_all (obj_hashable ob) vs) (MaintenanceError ''INVALID_LANE_COLLECTION'') (Inr (unique_by (obj_eq ob) [] vs))))"

definition check_missing_lanes :: "'v objects \<Rightarrow> 'v state \<Rightarrow> exn + maintenance_finding list" where
  "check_missing_lanes ob state =
    bindE (as_set ob (given ob state ''required_lanes'')) (\<lambda>required.
    bindE (as_set ob (given ob state ''observed_lanes'')) (\<lambda>observed.
    Inr (map (finding ''MISSING_LANE'') (sort (map (obj_str ob) (filter (\<lambda>v. \<not> list_ex (obj_eq ob v) observed) required))))))"

text \<open>The texts of a collection that is neither text nor bytes.\<close>

definition sorted_texts :: "'v objects \<Rightarrow> string \<Rightarrow> 'v option \<Rightarrow> exn + string list" where
  "sorted_texts ob code raw = (case raw of
      None \<Rightarrow> Inr []
    | Some v \<Rightarrow>
        requireE (\<not> obj_is_text ob v) (MaintenanceError code)
        (case obj_iter ob v of None \<Rightarrow> Inl (MaintenanceError code) | Some vs \<Rightarrow> Inr (map (obj_str ob) (sort_key (obj_str ob) vs))))"

definition check_malformed_lanes :: "'v objects \<Rightarrow> 'v state \<Rightarrow> exn + maintenance_finding list" where
  "check_malformed_lanes ob state =
    bindE (sorted_texts ob ''INVALID_MALFORMED_LANES'' (given ob state ''malformed_lanes'')) (\<lambda>texts. Inr (map (finding ''MALFORMED_LANE'') texts))"

definition check_positive_count :: "'v objects \<Rightarrow> string \<Rightarrow> 'v state \<Rightarrow> string \<Rightarrow> exn + maintenance_finding list" where
  "check_positive_count ob code state key =
    bindE (strict_count ob state key) (\<lambda>n. Inr (if 0 < n then [finding code (int_text n)] else []))"

definition boolean_checks :: "(string \<times> string \<times> string) list" where
  "boolean_checks =
    [(''protocol_drift'', ''PROTOCOL_DRIFT'', ''current pointer differs''),
     (''provider_mismatch'', ''PROVIDER_MISMATCH'', ''provider projection differs''),
     (''ci_failed'', ''CI_FAILED'', ''current integration head is red''),
     (''stale_docs'', ''STALE_DOCS'', ''current pointers or docs are stale'')]"

definition check_boolean_flags :: "'v objects \<Rightarrow> 'v state \<Rightarrow> exn + maintenance_finding list" where
  "check_boolean_flags ob state =
    bindE (mapE (\<lambda>(key, code, detail). bindE (strict_flag ob state key) (\<lambda>b. Inr (if b then [finding code detail] else []))) boolean_checks)
      (\<lambda>fs. Inr (concat fs))"

definition check_orphaned_identities :: "'v objects \<Rightarrow> 'v state \<Rightarrow> exn + maintenance_finding list" where
  "check_orphaned_identities ob state =
    bindE (sorted_texts ob ''INVALID_ORPHANED_IDENTITIES'' (given ob state ''orphaned_identities''))
      (\<lambda>texts. Inr (map (finding ''ORPHANED_IDENTITY'') texts))"

text \<open>\<open>audit\<close>; its argument is \<open>None\<close> when it is no dictionary.\<close>

definition audit_checks :: "'v objects \<Rightarrow> ('v state \<Rightarrow> exn + maintenance_finding list) list" where
  "audit_checks ob =
    [check_missing_lanes ob, check_malformed_lanes ob,
     \<lambda>s. check_positive_count ob ''DLQ_PENDING'' s ''dlq_pending'', \<lambda>s. check_positive_count ob ''STALE_ENDPOINT'' s ''stale_endpoints'',
     \<lambda>s. check_positive_count ob ''STUCK_DEPENDENCY'' s ''stuck_dependencies'',
     \<lambda>s. check_positive_count ob ''STALE_ACKNOWLEDGEMENT'' s ''stale_acknowledgements'',
     check_boolean_flags ob, check_orphaned_identities ob]"

definition audit :: "'v objects \<Rightarrow> 'v state option \<Rightarrow> exn + maintenance_finding list" where
  "audit ob state = (case state of
      None \<Rightarrow> Inl (MaintenanceError ''INVALID_STATE'')
    | Some s \<Rightarrow> bindE (mapE (\<lambda>check. check s) (audit_checks ob)) (\<lambda>fs. Inr (concat fs)))"

section \<open>Durable state against the projection\<close>

record recon_finding =
  rf_code :: string
  rf_repair_class :: string
  rf_detail :: string

definition recon :: "string \<Rightarrow> string \<Rightarrow> string \<Rightarrow> recon_finding" where
  "recon code class detail = \<lparr>rf_code = code, rf_repair_class = class, rf_detail = detail\<rparr>"

definition state_get :: "'v objects \<Rightarrow> 'v state \<Rightarrow> string \<Rightarrow> 'v" where
  "state_get ob state key = (case dict_get state key of None \<Rightarrow> obj_none ob | Some v \<Rightarrow> v)"

definition reconcile_protocol_head :: "'v objects \<Rightarrow> 'v state \<Rightarrow> 'v state \<Rightarrow> recon_finding list" where
  "reconcile_protocol_head ob github provider =
    (let g = state_get ob github ''protocol_head''; p = state_get ob provider ''protocol_head'' in
     if \<not> obj_eq ob g p
     then [recon ''PROTOCOL_HEAD_DRIFT'' ''SAFE_PROJECTION_REPAIR'' (''provider='' @ obj_repr ob p @ '' github='' @ obj_repr ob g)]
     else [])"

definition lane_mapping :: "'v objects \<Rightarrow> 'v state \<Rightarrow> string \<Rightarrow> ('v \<times> 'v) list \<times> recon_finding list" where
  "lane_mapping ob state side = (case given ob state ''lanes'' of
      None \<Rightarrow> ([], [])
    | Some raw \<Rightarrow> (case obj_dict ob raw of
        Some lanes \<Rightarrow> (lanes, [])
      | None \<Rightarrow> ([], [recon (''INVALID_'' @ (if side = ''github'' then ''GITHUB'' else ''PROVIDER'') @ ''_LANES'')
          (if side = ''provider'' then ''OBSERVATION_ONLY'' else ''AMBIGUOUS_DURABLE_CONFLICT'') (side @ ''_lanes='' @ obj_repr ob raw)])))"

definition unique_claims :: "'v objects \<Rightarrow> 'v \<Rightarrow> 'v list" where
  "unique_claims ob lane =
    (if \<not> obj_is_multi ob lane then [lane]
     else sort_key (obj_repr ob) (unique_by (obj_eq ob) [] (case obj_iter ob lane of None \<Rightarrow> [] | Some vs \<Rightarrow> vs)))"

definition reconcile_lane :: "'v objects \<Rightarrow> string \<Rightarrow> 'v \<Rightarrow> 'v \<Rightarrow> recon_finding option" where
  "reconcile_lane ob identity github_lane provider_lane =
    (let drift = (\<lambda>lane. if \<not> obj_eq ob lane github_lane
         then Some (recon ''LANE_PROJECTION_DRIFT'' ''SAFE_PROJECTION_REPAIR''
           (identity @ '':provider='' @ obj_repr ob lane @ '' github='' @ obj_repr ob github_lane))
         else None) in
     if obj_is_multi ob provider_lane then
       (let claims = unique_claims ob provider_lane in
        if 1 < length claims
        then Some (recon ''MULTIPLE_WRITER_CLAIMS'' ''AMBIGUOUS_DURABLE_CONFLICT'' (identity @ '':'' @ obj_repr ob (obj_tuple ob claims)))
        else drift (if claims = [] then obj_empty_tuple ob else hd claims))
     else drift provider_lane)"

definition handle_orphaned_lane :: "'v objects \<Rightarrow> string \<Rightarrow> 'v \<Rightarrow> recon_finding" where
  "handle_orphaned_lane ob identity provider_lane =
    (if obj_is_multi ob provider_lane \<and> 1 < length (unique_claims ob provider_lane)
     then recon ''MULTIPLE_WRITER_CLAIMS'' ''AMBIGUOUS_DURABLE_CONFLICT''
       (identity @ '':'' @ obj_repr ob (obj_tuple ob (unique_claims ob provider_lane)))
     else recon ''ORPHANED_PROVIDER_LANE'' ''SAFE_PROJECTION_REPAIR'' (identity @ '':'' @ obj_repr ob provider_lane))"

definition obj_lookup :: "'v objects \<Rightarrow> ('v \<times> 'v) list \<Rightarrow> 'v \<Rightarrow> 'v option" where
  "obj_lookup ob d key = map_option snd (find (\<lambda>(k, v). obj_eq ob k key) d)"

definition github_finding :: "'v objects \<Rightarrow> ('v \<times> 'v) list \<Rightarrow> 'v \<times> 'v \<Rightarrow> recon_finding list" where
  "github_finding ob provider_lanes entry =
    (let identity = obj_str ob (fst entry); lane = snd entry;
         missing = [recon ''MISSING_PROVIDER_LANE'' ''SAFE_PROJECTION_REPAIR'' (identity @ '':'' @ obj_str ob lane)] in
     case obj_lookup ob provider_lanes (fst entry) of
       None \<Rightarrow> missing
     | Some provider_lane \<Rightarrow>
         if obj_is_none ob provider_lane then missing
         else (case reconcile_lane ob identity lane provider_lane of None \<Rightarrow> [] | Some f \<Rightarrow> [f]))"

definition reconcile_lanes :: "'v objects \<Rightarrow> 'v state \<Rightarrow> 'v state \<Rightarrow> recon_finding list" where
  "reconcile_lanes ob github provider =
    (let (github_lanes, github_findings) = lane_mapping ob github ''github'';
         (provider_lanes, provider_findings) = lane_mapping ob provider ''provider'' in
     github_findings @ provider_findings @
     concat (map (github_finding ob provider_lanes) (sort_key (\<lambda>(k, v). obj_repr ob k) github_lanes)) @
     map (\<lambda>(k, v). handle_orphaned_lane ob (obj_str ob k) v)
       (sort_key (\<lambda>(k, v). obj_repr ob k) (filter (\<lambda>(k, v). obj_lookup ob github_lanes k = None) provider_lanes)))"

definition compare_states :: "'v objects \<Rightarrow> 'v state option \<Rightarrow> 'v state option \<Rightarrow> recon_finding list" where
  "compare_states ob github provider =
    (let g = (case github of None \<Rightarrow> [] | Some s \<Rightarrow> s); p = (case provider of None \<Rightarrow> [] | Some s \<Rightarrow> s) in
     reconcile_protocol_head ob g p @ reconcile_lanes ob g p)"

section \<open>Operator views\<close>

definition operator_count :: "'v objects \<Rightarrow> 'v \<Rightarrow> string \<Rightarrow> exn + 'v" where
  "operator_count ob value code = (case obj_int ob value of
      Some n \<Rightarrow> requireE (0 \<le> n) (OperatorError code) (Inr value) | None \<Rightarrow> Inl (OperatorError code))"

definition operator_bool :: "'v objects \<Rightarrow> 'v \<Rightarrow> string \<Rightarrow> exn + 'v" where
  "operator_bool ob value code = (case obj_bool ob value of Some b \<Rightarrow> Inr value | None \<Rightarrow> Inl (OperatorError code))"

definition operator_sequence :: "'v objects \<Rightarrow> 'v \<Rightarrow> string \<Rightarrow> exn + 'v list" where
  "operator_sequence ob value code =
    (if obj_is_text ob value then Inl (OperatorError code)
     else case obj_seq ob value of Some vs \<Rightarrow> Inr vs | None \<Rightarrow> Inl (OperatorError code))"

definition operator_status :: "'v objects \<Rightarrow> 'v \<Rightarrow> 'v \<Rightarrow> 'v \<Rightarrow> 'v state \<Rightarrow> exn + 'v state" where
  "operator_status ob identity_count online_node_count chat_session_active extra =
    bindE (operator_count ob identity_count ''INVALID_IDENTITY_COUNT'') (\<lambda>idents.
    bindE (operator_count ob online_node_count ''INVALID_ONLINE_NODE_COUNT'') (\<lambda>online.
    bindE (operator_bool ob chat_session_active ''INVALID_CHAT_SESSION_ACTIVE'') (\<lambda>active.
    Inr (fold (\<lambda>(k, v) m. dict_set m k v) extra
      [(''identity_count'', idents), (''online_node_count'', online), (''chat_session_active'', active)]))))"

text \<open>\<open>health\<close> and \<open>audit\<close> return the number of findings and the findings, \<open>dependencies\<close> two lists.\<close>

definition operator_findings :: "'v objects \<Rightarrow> 'v \<Rightarrow> exn + int \<times> 'v list" where
  "operator_findings ob findings =
    bindE (operator_sequence ob findings ''INVALID_FINDINGS'') (\<lambda>vs. Inr (int (length vs), vs))"

definition operator_dependencies :: "'v objects \<Rightarrow> 'v \<Rightarrow> 'v \<Rightarrow> exn + 'v list \<times> 'v list" where
  "operator_dependencies ob ready_value waiting_value =
    bindE (operator_sequence ob ready_value ''INVALID_DEPENDENCIES'') (\<lambda>r.
    bindE (operator_sequence ob waiting_value ''INVALID_DEPENDENCIES'') (\<lambda>w. Inr (r, w)))"

definition operator_dlq :: "'v objects \<Rightarrow> 'v \<Rightarrow> exn + 'v" where
  "operator_dlq ob pending = operator_count ob pending ''INVALID_DLQ_PENDING''"

section \<open>When there is nothing to report\<close>

lemma mapE_concat_Nil:
  "bindE (mapE f xs) (\<lambda>fs. Inr (concat fs)) = Inr [] \<longleftrightarrow> (\<forall>x \<in> set xs. f x = Inr [])"
proof (induction xs)
  case (Cons x xs)
  then show ?case
    by (cases "f x"; cases "mapE f xs") auto
qed simp

lemma sort_key_Nil [simp]: "sort_key f xs = [] \<longleftrightarrow> xs = []"
  by (metis length_0_conv length_sort)

text \<open>A collection of lanes or identities that holds nothing, and one of whose elements all are observed.\<close>

definition nothing_listed :: "'v objects \<Rightarrow> 'v option \<Rightarrow> bool" where
  "nothing_listed ob raw \<longleftrightarrow> (\<forall>v. raw = Some v \<longrightarrow> \<not> obj_is_text ob v \<and> obj_iter ob v = Some [])"

lemma sorted_texts_Nil: "sorted_texts ob code raw = Inr [] \<longleftrightarrow> nothing_listed ob raw"
  by (auto simp: sorted_texts_def nothing_listed_def requireE_def split: option.splits)

definition lanes_observed :: "'v objects \<Rightarrow> 'v state \<Rightarrow> bool" where
  "lanes_observed ob state \<longleftrightarrow> (\<exists>required observed. as_set ob (given ob state ''required_lanes'') = Inr required \<and>
     as_set ob (given ob state ''observed_lanes'') = Inr observed \<and> (\<forall>v \<in> set required. \<exists>w \<in> set observed. obj_eq ob v w))"

text \<open>
  The audit is silent exactly on a healthy state: the required lanes are all observed, nothing is
  listed as malformed or orphaned, every count present is the integer 0, and every flag present is
  the Boolean False; in particular malformed input is never silently healthy.
\<close>

theorem audit_silent_iff_healthy:
  "audit ob (Some state) = Inr [] \<longleftrightarrow>
    lanes_observed ob state \<and> nothing_listed ob (given ob state ''malformed_lanes'') \<and> nothing_listed ob (given ob state ''orphaned_identities'') \<and>
    (\<forall>key \<in> {''dlq_pending'', ''stale_endpoints'', ''stuck_dependencies'', ''stale_acknowledgements''}.
       \<forall>v. dict_get state key = Some v \<longrightarrow> obj_int ob v = Some 0) \<and>
    (\<forall>key \<in> {''protocol_drift'', ''provider_mismatch'', ''ci_failed'', ''stale_docs''}.
       \<forall>v. dict_get state key = Some v \<longrightarrow> obj_bool ob v = Some False)"
proof -
  have count: "check_positive_count ob code state key = Inr [] \<longleftrightarrow> (\<forall>v. dict_get state key = Some v \<longrightarrow> obj_int ob v = Some 0)" for code key
    by (cases "dict_get state key"; cases "obj_int ob (the (dict_get state key))")
      (auto simp: check_positive_count_def strict_count_def requireE_def)
  have flag: "bindE (strict_flag ob state key) (\<lambda>b. Inr (if b then [f] else [])) = Inr [] \<longleftrightarrow>
      (\<forall>v. dict_get state key = Some v \<longrightarrow> obj_bool ob v = Some False)" for key and f :: maintenance_finding
    by (cases "dict_get state key"; cases "obj_bool ob (the (dict_get state key))") (auto simp: strict_flag_def)
  have flags: "check_boolean_flags ob state = Inr [] \<longleftrightarrow>
      (\<forall>key \<in> {''protocol_drift'', ''provider_mismatch'', ''ci_failed'', ''stale_docs''}. \<forall>v. dict_get state key = Some v \<longrightarrow> obj_bool ob v = Some False)"
    unfolding check_boolean_flags_def mapE_concat_Nil by (simp add: boolean_checks_def flag del: bindE_eq_Inr)
  have lanes: "check_missing_lanes ob state = Inr [] \<longleftrightarrow> lanes_observed ob state"
    by (auto simp: check_missing_lanes_def lanes_observed_def filter_empty_conv list_ex_iff)
  show ?thesis
    unfolding audit_def option.case mapE_concat_Nil
    by (simp add: audit_checks_def count flags lanes check_malformed_lanes_def check_orphaned_identities_def sorted_texts_Nil) blast
qed

text \<open>What the reconciler demands of a lane: the one claim of the provider is the durable one.\<close>

definition lane_agrees :: "'v objects \<Rightarrow> 'v \<Rightarrow> 'v \<Rightarrow> bool" where
  "lane_agrees ob github_lane provider_lane \<longleftrightarrow>
    (if obj_is_multi ob provider_lane
     then (case unique_claims ob provider_lane of [] \<Rightarrow> obj_eq ob (obj_empty_tuple ob) github_lane | [c] \<Rightarrow> obj_eq ob c github_lane | _ \<Rightarrow> False)
     else obj_eq ob provider_lane github_lane)"

definition lanes_of :: "'v objects \<Rightarrow> 'v state \<Rightarrow> ('v \<times> 'v) list option" where
  "lanes_of ob state = (case given ob state ''lanes'' of None \<Rightarrow> Some [] | Some raw \<Rightarrow> obj_dict ob raw)"

lemma reconcile_lane_None: "reconcile_lane ob identity g p = None \<longleftrightarrow> lane_agrees ob g p"
  by (auto simp: reconcile_lane_def lane_agrees_def Let_def split: list.splits)

lemma finding_list: "(case r of None \<Rightarrow> [] | Some f \<Rightarrow> [f]) = [] \<longleftrightarrow> r = None"
  by (cases r) simp_all

lemma lane_mapping_Nil: "lane_mapping ob state side = (lanes, []) \<longleftrightarrow> lanes_of ob state = Some lanes"
  by (auto simp: lane_mapping_def lanes_of_def split: option.splits)

text \<open>
  C40: The comparison is silent exactly when the projection agrees with the durable state: equal
  protocol heads, lanes that are mappings on both sides, for every durable lane a provider lane with
  this one claim, and no lane of the provider without a durable one.
\<close>

theorem comparison_silent_iff_agree:
  "compare_states ob (Some github) (Some provider) = [] \<longleftrightarrow>
    obj_eq ob (state_get ob github ''protocol_head'') (state_get ob provider ''protocol_head'') \<and>
    (\<exists>g p. lanes_of ob github = Some g \<and> lanes_of ob provider = Some p \<and>
      (\<forall>(k, lane) \<in> set g. \<exists>claim. obj_lookup ob p k = Some claim \<and> \<not> obj_is_none ob claim \<and> lane_agrees ob lane claim) \<and>
      (\<forall>(k, claim) \<in> set p. obj_lookup ob g k \<noteq> None))"
proof -
  obtain g gf where g: "lane_mapping ob github ''github'' = (g, gf)"
    by fastforce
  obtain p pf where p: "lane_mapping ob provider ''provider'' = (p, pf)"
    by fastforce
  have entry: "github_finding ob p (k, lane) = [] \<longleftrightarrow>
      (\<exists>claim. obj_lookup ob p k = Some claim \<and> \<not> obj_is_none ob claim \<and> lane_agrees ob lane claim)" for k lane
    by (auto simp: github_finding_def Let_def finding_list reconcile_lane_None split: option.split)
  have lanes: "reconcile_lanes ob github provider = [] \<longleftrightarrow> gf = [] \<and> pf = [] \<and> (\<forall>e \<in> set g. github_finding ob p e = []) \<and>
      (\<forall>(k, claim) \<in> set p. obj_lookup ob g k \<noteq> None)"
    by (auto simp: reconcile_lanes_def g p filter_empty_conv)
  have valid: "gf = [] \<longleftrightarrow> lanes_of ob github = Some g" "pf = [] \<longleftrightarrow> lanes_of ob provider = Some p"
    using lane_mapping_Nil [of ob github "''github''" g] lane_mapping_Nil [of ob provider "''provider''" p] g p by auto
  have only: "(\<exists>g' p'. lanes_of ob github = Some g' \<and> lanes_of ob provider = Some p' \<and> Q g' p') \<longleftrightarrow>
      lanes_of ob github = Some g \<and> lanes_of ob provider = Some p \<and> Q g p" for Q
  proof -
    have "lanes_of ob github = Some g' \<Longrightarrow> g' = g" "lanes_of ob provider = Some p' \<Longrightarrow> p' = p" for g' p'
      using lane_mapping_Nil [of ob github "''github''" g'] lane_mapping_Nil [of ob provider "''provider''" p'] g p by auto
    then show ?thesis
      by (cases "lanes_of ob github"; cases "lanes_of ob provider") auto
  qed
  have heads: "compare_states ob (Some github) (Some provider) = [] \<longleftrightarrow>
      obj_eq ob (state_get ob github ''protocol_head'') (state_get ob provider ''protocol_head'') \<and> reconcile_lanes ob github provider = []"
    by (simp add: compare_states_def reconcile_protocol_head_def Let_def)
  have entries: "(\<forall>e \<in> set g. github_finding ob p e = []) \<longleftrightarrow>
      (\<forall>(k, lane) \<in> set g. \<exists>claim. obj_lookup ob p k = Some claim \<and> \<not> obj_is_none ob claim \<and> lane_agrees ob lane claim)"
    using entry by (intro ball_cong) auto
  show ?thesis
    unfolding heads lanes only entries valid ..
qed

section \<open>Instances\<close>

text \<open>The values of parsed JSON as objects, texts standing for their \<open>repr\<close>.\<close>

definition json_objects :: "pyval objects" where
  "json_objects =
    \<lparr>obj_eq = (=), obj_repr = text_of, obj_str = text_of, obj_truth = truthy,
     obj_hashable = (\<lambda>v. case v of PList vs \<Rightarrow> False | PDict ms \<Rightarrow> False | _ \<Rightarrow> True),
     obj_iter = (\<lambda>v. case v of PList vs \<Rightarrow> Some vs | PTuple vs \<Rightarrow> Some vs | _ \<Rightarrow> None),
     obj_int = (\<lambda>v. case v of PInt n \<Rightarrow> Some n | _ \<Rightarrow> None), obj_bool = (\<lambda>v. case v of PBool b \<Rightarrow> Some b | _ \<Rightarrow> None),
     obj_dict = (\<lambda>v. case v of PDict ms \<Rightarrow> Some (map (\<lambda>(k, v). (PStr k, v)) ms) | _ \<Rightarrow> None),
     obj_is_text = (\<lambda>v. case v of PStr s \<Rightarrow> True | PBytes s \<Rightarrow> True | _ \<Rightarrow> False),
     obj_is_multi = (\<lambda>v. case v of PList vs \<Rightarrow> True | PTuple vs \<Rightarrow> True | _ \<Rightarrow> False),
     obj_seq = (\<lambda>v. case v of PList vs \<Rightarrow> Some vs | PTuple vs \<Rightarrow> Some vs | _ \<Rightarrow> None),
     obj_none = PNone, obj_is_none = (\<lambda>v. v = PNone), obj_empty_tuple = PTuple [], obj_tuple = PTuple\<rparr>"

definition healthy_state :: "pyval state" where
  "healthy_state = [(''required_lanes'', PList [PStr ''a'']), (''observed_lanes'', PList [PStr ''a'', PStr ''b'']), (''dlq_pending'', PInt 0),
     (''ci_failed'', PBool False)]"

theorem audit_silent_iff_healthy_witness:
  "audit json_objects (Some healthy_state) = Inr [] \<and> lanes_observed json_objects healthy_state \<and>
   audit json_objects (Some ((''ci_failed'', PStr ''false'') # healthy_state)) \<noteq> Inr []"
proof -
  have silent: "audit json_objects (Some healthy_state) = Inr []"
    by code_simp
  moreover have "audit json_objects (Some ((''ci_failed'', PStr ''false'') # healthy_state)) \<noteq> Inr []"
    by code_simp
  ultimately show ?thesis
    using audit_silent_iff_healthy [THEN iffD1, OF silent] by blast
qed

definition lanes_state :: "string \<Rightarrow> pyval \<Rightarrow> pyval state" where
  "lanes_state head lane = [(''protocol_head'', PStr head), (''lanes'', PDict [(''alice'', lane)])]"

theorem comparison_silent_iff_agree_witness:
  "compare_states json_objects (Some (lanes_state ''h'' (PStr ''lane/a''))) (Some (lanes_state ''h'' (PList [PStr ''lane/a'', PStr ''lane/a'']))) = [] \<and>
   lanes_of json_objects (lanes_state ''h'' (PStr ''lane/a'')) \<noteq> None"
proof -
  have silent: "compare_states json_objects (Some (lanes_state ''h'' (PStr ''lane/a'')))
      (Some (lanes_state ''h'' (PList [PStr ''lane/a'', PStr ''lane/a'']))) = []"
    by code_simp
  then show ?thesis
    using comparison_silent_iff_agree [THEN iffD1, OF silent] by auto
qed

end
