(* ===== verification/ShadowReader.thy ===== *)
theory ShadowReader
  imports Json
begin

text \<open>
  The comparison of an identity projection with a candidate SQL reader,
  \<open>src/src/radar/sql_connectome_shadow.py\<close>. SHA-256 is a parameter, the reader a function that returns raw
  rows or raises; every statement it is asked is recorded.
\<close>

section \<open>Rows\<close>

definition max_identities :: int where "max_identities = 1000"
definition max_field_bytes :: int where "max_field_bytes = 4096"

definition identity_select :: string where
  "identity_select = ''select identity_id, display_name '' @ ''from radar.identities order by identity_id limit %s''"

definition unverified_capabilities :: "string list" where
  "unverified_capabilities = [''identity_only'', ''physical_provider_identity'', ''authenticated_operator_route'', ''supabase_roles_rls_jwt'',
     ''realtime_reconnect_and_replay'', ''application_api_storage_functions'', ''durable_projection_recovery'', ''explicit_consumer_cutover'']"

definition bounded_text :: "pyval \<Rightarrow> exn + string" where
  "bounded_text value = (case value of
      PStr s \<Rightarrow>
        requireE (int (length s) \<le> max_field_bytes) (ValueError ''identity field exceeds text bound'')
        (requireE (int (length (utf8 s)) \<le> max_field_bytes \<and> \<not> blank s) (ValueError ''identity rows require bounded nonempty text'')
          (Inr (strip s)))
    | _ \<Rightarrow> Inl (ValueError ''identity field exceeds text bound''))"

fun shadow_rows :: "int \<Rightarrow> (string, string) dict \<Rightarrow> pyval list \<Rightarrow> exn + (string, string) dict" where
  "shadow_rows index rows [] = Inr rows"
| "shadow_rows index rows (row # rest) =
    requireE (index < max_identities) (ValueError ''identity projection row budget exceeded'')
    (case row of
       PDict m \<Rightarrow>
         bindE (bounded_text (get_default m ''identity_id'' PNone)) (\<lambda>ident.
         requireE (\<not> dict_has rows (casefold ident)) (ValueError ''duplicate normalized identity ID'')
         (bindE (bounded_text (get_default m ''display_name'' PNone)) (\<lambda>display.
          shadow_rows (index + 1) (dict_set rows (casefold ident) display) rest)))
     | _ \<Rightarrow> Inl (ValueError ''identity rows must be mappings''))"

definition shadow_identities :: "pyval \<Rightarrow> exn + (string \<times> string) list" where
  "shadow_identities raw =
    bindE (case raw of PList vs \<Rightarrow> Inr vs | PTuple vs \<Rightarrow> Inr vs
      | _ \<Rightarrow> Inl (ValueError ''identity projection must be a bounded list or tuple'')) (\<lambda>rows.
    requireE (int (length rows) \<le> max_identities) (ValueError ''identity projection must be a bounded list or tuple'')
    (bindE (shadow_rows 0 [] rows) (\<lambda>d. Inr (sort_key fst d))))"

definition shadow_digest :: "(string \<Rightarrow> string) \<Rightarrow> (string \<times> string) list \<Rightarrow> exn + string" where
  "shadow_digest sha rows =
    bindE (json_dumps True '','' '':'' (PTuple (map (\<lambda>(i, d). PTuple [PStr i, PStr d]) rows))) (\<lambda>t. Inr (sha t))"

section \<open>Comparison\<close>

record shadow_report =
  sr_status :: string
  sr_reason :: string
  sr_reference :: "string option"
  sr_candidate :: "string option"
  sr_expected :: "string option"
  sr_observed :: "string option"

text \<open>The properties \<open>canonical\<close> and \<open>cutover_authorized\<close> of every report.\<close>

definition canonical_report :: "shadow_report \<Rightarrow> bool" where "canonical_report r = False"
definition cutover_authorized :: "shadow_report \<Rightarrow> bool" where "cutover_authorized r = False"

definition source_pin :: "pyval \<Rightarrow> bool" where
  "source_pin v = (case v of PStr s \<Rightarrow> length s = 40 \<and> list_all is_hex_lower s | _ \<Rightarrow> False)"

definition unknown :: "string \<Rightarrow> string option \<Rightarrow> string option \<Rightarrow> string option \<Rightarrow> shadow_report" where
  "unknown reason reference candidate expected = \<lparr>sr_status = ''UNKNOWN'', sr_reason = reason, sr_reference = reference,
     sr_candidate = candidate, sr_expected = expected, sr_observed = None\<rparr>"

definition compare_identity_shadow ::
  "(string \<Rightarrow> string) \<Rightarrow> pyval \<Rightarrow> (string \<Rightarrow> int \<Rightarrow> exn + pyval) \<Rightarrow> pyval \<Rightarrow> pyval \<Rightarrow> exn + shadow_report \<times> (string \<times> int) list" where
  "compare_identity_shadow sha expected_identities candidate_read reference candidate =
    (if \<not> source_pin reference \<or> \<not> source_pin candidate then Inr (unknown ''INVALID_SOURCE_PIN'' None None None, [])
     else let pin = Some (text_of reference); against = Some (text_of candidate) in
       case shadow_identities expected_identities of
         Inl e \<Rightarrow> Inr (unknown ''INVALID_EXPECTED_PROJECTION'' pin against None, [])
       | Inr expected \<Rightarrow>
           if expected = [] then Inr (unknown ''EMPTY_EXPECTED_PROJECTION'' pin against None, [])
           else bindE (shadow_digest sha expected) (\<lambda>expected_digest.
             let asked = (identity_select, int (length expected) + 1) in
             case candidate_read (fst asked) (snd asked) of
               Inl e \<Rightarrow> Inr (unknown ''READBACK_UNAVAILABLE'' pin against (Some expected_digest), [asked])
             | Inr raw \<Rightarrow>
                 (case shadow_identities raw of
                   Inl e \<Rightarrow> Inr (unknown ''INVALID_CANDIDATE_PROJECTION'' pin against (Some expected_digest), [asked])
                 | Inr observed \<Rightarrow>
                     bindE (shadow_digest sha observed) (\<lambda>observed_digest.
                     Inr (\<lparr>sr_status = (if expected \<noteq> observed then ''MISMATCH'' else ''MATCH_UNQUALIFIED''),
                           sr_reason = (if expected \<noteq> observed then ''IDENTITY_ROWS_DIFFER'' else ''ONE_PROJECTION_MATCHES_ONLY''),
                           sr_reference = pin, sr_candidate = against, sr_expected = Some expected_digest,
                           sr_observed = Some observed_digest\<rparr>, [asked])))))"

section \<open>What a match means\<close>

text \<open>The rows a projection stands for: names folded, texts stripped.\<close>

definition normal_row :: "pyval \<Rightarrow> (string \<times> string) option" where
  "normal_row row = (case row of
      PDict m \<Rightarrow> (case (bounded_text (get_default m ''identity_id'' PNone), bounded_text (get_default m ''display_name'' PNone)) of
        (Inr i, Inr d) \<Rightarrow> Some (casefold i, d) | _ \<Rightarrow> None)
    | _ \<Rightarrow> None)"

definition rows_of :: "pyval \<Rightarrow> pyval list" where
  "rows_of raw = (case raw of PList vs \<Rightarrow> vs | PTuple vs \<Rightarrow> vs | _ \<Rightarrow> [])"

lemma shadow_rows_Inr:
  "shadow_rows index rows rest = Inr d \<Longrightarrow> dict_wf rows \<Longrightarrow>
     dict_wf d \<and> (\<exists>new. map normal_row rest = map Some new \<and> d = rows @ new)"
proof (induction rest arbitrary: index rows)
  case (Cons row rest)
  obtain m i n where row: "row = PDict m" "bounded_text (get_default m ''identity_id'' PNone) = Inr i"
      "bounded_text (get_default m ''display_name'' PNone) = Inr n" "dict_get rows (casefold i) = None"
      "shadow_rows (index + 1) (dict_set rows (casefold i) n) rest = Inr d"
    using Cons.prems(1) by (cases row) auto
  have "normal_row row = Some (casefold i, n)"
    using row(1-3) by (simp add: normal_row_def)
  moreover obtain new where "dict_wf d" "map normal_row rest = map Some new" "d = (rows @ [(casefold i, n)]) @ new"
    using Cons.IH [OF row(5) dict_wf_set [OF Cons.prems(2)]] unfolding dict_set_new [OF row(4)] by blast
  ultimately show ?case
    by (intro conjI exI [of _ "(casefold i, n) # new"]) simp_all
qed simp

lemma shadow_identities_Inr:
  assumes "shadow_identities raw = Inr e"
  shows "sorted (map fst e)" "distinct (map fst e)" "Some ` set e = normal_row ` set (rows_of raw)" "length e = length (rows_of raw)"
proof -
  obtain d where d: "shadow_rows 0 [] (rows_of raw) = Inr d" "e = sort_key fst d"
    using assms by (cases raw) (auto simp: shadow_identities_def rows_of_def)
  obtain new where new: "dict_wf d" "map normal_row (rows_of raw) = map Some new" "d = new"
    using shadow_rows_Inr [OF d(1)] by auto
  show "sorted (map fst e)"
    by (simp add: d(2))
  show "distinct (map fst e)"
    using new(1) by (simp add: d(2) distinct_map_sort_key)
  show "Some ` set e = normal_row ` set (rows_of raw)"
    using arg_cong [OF new(2), of set] new(3) by (simp add: d(2))
  show "length e = length (rows_of raw)"
    using arg_cong [OF new(2), of length] new(3) by (simp add: d(2))
qed

lemma sorted_rows_eq:
  assumes "sorted (map fst e)" "distinct (map fst e)" "sorted (map fst e')" "distinct (map fst e')" "set e = set e'"
  shows "e = e'"
  by (rule map_sorted_distinct_set_unique [of fst]) (use assms in \<open>simp_all add: distinct_map\<close>)

lemma identities_eq_iff:
  assumes "shadow_identities a = Inr e" and "shadow_identities b = Inr e'"
  shows "e = e' \<longleftrightarrow> normal_row ` set (rows_of a) = normal_row ` set (rows_of b)"
  using shadow_identities_Inr [OF assms(1)] shadow_identities_Inr [OF assms(2)] sorted_rows_eq [of e e'] by (metis inj_Some inj_image_eq_iff)

lemma shadow_digest_total: "\<exists>t. shadow_digest sha rows = Inr t"
proof -
  have "json_elems True '','' '':'' (map (\<lambda>(i, d). PTuple [PStr i, PStr d]) rows) =
      Inr (map (\<lambda>(i, d). ''['' @ join '','' [json_string True i, json_string True d] @ '']'') rows)"
    by (induction rows) auto
  then show ?thesis
    by (auto simp: shadow_digest_def)
qed

text \<open>
  C39: The comparison always reports, never raises and asks at most one question: the fixed SELECT for
  one row more than expected, and only when both commits are pinned and the expected projection is
  valid and not empty. It says MATCH_UNQUALIFIED exactly when the reader's rows are valid and, up to case of
  the names and surrounding space, are the expected rows; no report authorises a cutover.
\<close>

theorem shadow_match_exact:
  "\<exists>report asked. compare_identity_shadow sha expected read reference candidate = Inr (report, asked) \<and>
    (let ready = source_pin reference \<and> source_pin candidate \<and> isl (shadow_identities expected) = False \<and> rows_of expected \<noteq> [];
         limit = int (length (rows_of expected)) + 1 in
     asked = (if ready then [(identity_select, limit)] else []) \<and>
     (sr_status report = ''MATCH_UNQUALIFIED'' \<longleftrightarrow> ready \<and> (\<exists>raw. read identity_select limit = Inr raw \<and> isl (shadow_identities raw) = False \<and>
        normal_row ` set (rows_of raw) = normal_row ` set (rows_of expected))) \<and>
     (sr_status report = ''MISMATCH'' \<longleftrightarrow> ready \<and> (\<exists>raw. read identity_select limit = Inr raw \<and> isl (shadow_identities raw) = False \<and>
        normal_row ` set (rows_of raw) \<noteq> normal_row ` set (rows_of expected))) \<and>
     \<not> canonical_report report \<and> \<not> cutover_authorized report)"
proof (cases "source_pin reference \<and> source_pin candidate")
  case True
  show ?thesis
  proof (cases "shadow_identities expected")
    case (Inr e)
    note rows = shadow_identities_Inr [OF Inr]
    have empty: "e = [] \<longleftrightarrow> rows_of expected = []"
      using rows(4) by auto
    obtain t where t: "shadow_digest sha e = Inr t"
      using shadow_digest_total by blast
    show ?thesis
    proof (cases "read identity_select (int (length e) + 1)")
      case (Inr raw)
      show ?thesis
      proof (cases "shadow_identities raw")
        case (Inr observed)
        obtain t' where t': "shadow_digest sha observed = Inr t'"
          using shadow_digest_total by blast
        have same: "e = observed \<longleftrightarrow> normal_row ` set (rows_of raw) = normal_row ` set (rows_of expected)"
          using identities_eq_iff [OF \<open>shadow_identities expected = Inr e\<close> Inr] by auto
        show ?thesis
          using True \<open>shadow_identities expected = Inr e\<close> \<open>read _ _ = Inr raw\<close> Inr t t' empty rows(4) same
          by (simp add: compare_identity_shadow_def unknown_def canonical_report_def cutover_authorized_def Let_def)
      qed (use True \<open>shadow_identities expected = Inr e\<close> \<open>read _ _ = Inr raw\<close> t empty rows(4) in
          \<open>simp add: compare_identity_shadow_def unknown_def canonical_report_def cutover_authorized_def Let_def\<close>)
    qed (use True \<open>shadow_identities expected = Inr e\<close> t empty rows(4) in
        \<open>simp add: compare_identity_shadow_def unknown_def canonical_report_def cutover_authorized_def Let_def\<close>)
  qed (use True in \<open>simp add: compare_identity_shadow_def unknown_def canonical_report_def cutover_authorized_def Let_def\<close>)
qed (auto simp: compare_identity_shadow_def unknown_def canonical_report_def cutover_authorized_def Let_def)

definition identity_row :: "string \<Rightarrow> string \<Rightarrow> pyval" where
  "identity_row i d = PDict [(''identity_id'', PStr i), (''display_name'', PStr d)]"

definition pin :: pyval where "pin = PStr (replicate 40 (CHR ''0''))"

theorem shadow_match_exact_witness:
  "\<exists>report asked. compare_identity_shadow (\<lambda>s. ''h'') (PList [identity_row ''Alice'' ''A'', identity_row ''bob'' ''B''])
     (\<lambda>q n. Inr (PTuple [identity_row ''bob'' ''B'', identity_row ''ALICE '' ''A''])) pin pin = Inr (report, asked) \<and>
   asked = [(identity_select, 3)] \<and> sr_status report = ''MATCH_UNQUALIFIED'' \<and> \<not> cutover_authorized report"
proof -
  let ?expected = "PList [identity_row ''Alice'' ''A'', identity_row ''bob'' ''B'']"
  let ?read = "\<lambda>(q :: string) (n :: int). (Inr (PTuple [identity_row ''bob'' ''B'', identity_row ''ALICE '' ''A'']) :: exn + pyval)"
  let ?raw = "PTuple [identity_row ''bob'' ''B'', identity_row ''ALICE '' ''A'']"
  have pinned: "source_pin pin"
    by code_simp
  have rows: "shadow_identities ?expected = Inr [(''alice'', ''A''), (''bob'', ''B'')]" "shadow_identities ?raw = Inr [(''alice'', ''A''), (''bob'', ''B'')]"
    by code_simp+
  have "normal_row ` set (rows_of ?raw) = normal_row ` set (rows_of ?expected)"
    using identities_eq_iff [OF rows(2,1)] by blast
  then show ?thesis
    using shadow_match_exact [of "\<lambda>s. ''h''" ?expected ?read pin pin] pinned rows by (simp add: Let_def rows_of_def) blast
qed

end
