(* ===== verification/BodyBound.thy ===== *)
theory BodyBound
  imports MessageGrammar Actions
begin

text \<open>
  The transport of the central projector's requests, \<open>src/src/radar/body_bound_oidc.py\<close>: the token a request carries is
  asked for an audience that names the digest of the request's bytes. The token provider and the opener are an
  environment with a state of its own; SHA-256, \<open>json.loads\<close> and the text of an exception are parameters.
\<close>

section \<open>The bytes of a request\<close>

definition audience_prefix :: string where "audience_prefix = ''chat-communication-bus-supabase:''"

text \<open>\<open>allow_nan=False\<close>\<close>

fun all_finite :: "pyval \<Rightarrow> bool" where
  "all_finite (PFloat r) = (r \<notin> {''nan'', ''inf'', ''-inf''})"
| "all_finite (PList vs) = (\<forall>v \<in> set vs. all_finite v)"
| "all_finite (PTuple vs) = (\<forall>v \<in> set vs. all_finite v)"
| "all_finite (PDict ms) = (\<forall>m \<in> set ms. all_finite (snd m))"
| "all_finite v = True"

definition canonical_json_bytes :: "pyval \<Rightarrow> exn + string" where
  "canonical_json_bytes payload = (case json_dumps False '','' '':'' payload of
      Inl e \<Rightarrow> Inl (BodyBoundOidcError ''BOUND_BODY_SERIALIZATION_FAILED'')
    | Inr t \<Rightarrow> requireE (all_finite payload) (BodyBoundOidcError ''BOUND_BODY_SERIALIZATION_FAILED'') (Inr (utf8 t)))"

definition provider_audience :: "string \<Rightarrow> exn + string" where
  "provider_audience digest =
    requireE (length digest = 64 \<and> list_all is_hex_lower digest) (BodyBoundOidcError ''BOUND_BODY_DIGEST_INVALID'')
      (Inr (audience_prefix @ digest))"

section \<open>Posting\<close>

record http_request =
  hr_endpoint :: string
  hr_body :: string
  hr_headers :: "(string, string) dict"
  hr_timeout :: int

datatype wire = Token string "exn + pyval" | Sent http_request "exn + string"

record 'g network =
  token_provider :: "string \<Rightarrow> 'g \<Rightarrow> (exn + pyval) \<times> 'g"
  opener :: "http_request \<Rightarrow> 'g \<Rightarrow> (exn + string) \<times> 'g"
  net_sha :: "string \<Rightarrow> string"
  json_loads :: "string \<Rightarrow> pyval option"
  exn_text :: "exn \<Rightarrow> string"

definition bound_request :: "'g network \<Rightarrow> string \<Rightarrow> string \<Rightarrow> string \<Rightarrow> int \<Rightarrow> http_request" where
  "bound_request net url body token limit =
    \<lparr>hr_endpoint = url, hr_body = body,
     hr_headers = [(''Authorization'', ''Bearer '' @ token), (''Content-Type'', ''application/json''), (''Accept'', ''application/json''),
       (''User-Agent'', ''radar-central-projection-v1''), (''X-Radar-Body-Sha256'', net_sha net body)],
     hr_timeout = limit\<rparr>"

definition read_response :: "'g network \<Rightarrow> string \<Rightarrow> exn + pymap" where
  "read_response net raw = (case Option.bind (utf8_decode raw) (json_loads net) of
      Some (PDict m) \<Rightarrow> Inr m
    | _ \<Rightarrow> Inl (BodyBoundOidcError ''BOUND_PROVIDER_RESPONSE_INVALID''))"

definition post_body_bound_json :: "'g network \<Rightarrow> pyval \<Rightarrow> pyval \<Rightarrow> pyval \<Rightarrow> (exn, wire, 'g, pymap) io" where
  "post_body_bound_json net url payload limit =
    require (is_text url) (BodyBoundOidcError ''BOUND_ENDPOINT_REQUIRED'')
    (require (case limit of PInt t \<Rightarrow> 0 < t | _ \<Rightarrow> False) (BodyBoundOidcError ''BOUND_TIMEOUT_INVALID'')
    (and_then (lift_result (canonical_json_bytes payload)) (\<lambda>body.
     and_then (lift_result (provider_audience (net_sha net body))) (\<lambda>audience.
     and_then (ask (Token audience) (token_provider net audience)) (\<lambda>token.
     require (case token of PStr t \<Rightarrow> t \<noteq> [] | _ \<Rightarrow> False) (BodyBoundOidcError ''BOUND_OIDC_TOKEN_MISSING'')
     (let req = bound_request net (text_of url) body (text_of token) (case limit of PInt t \<Rightarrow> t | _ \<Rightarrow> 0) in
      and_then (raising (\<lambda>e. BodyBoundOidcError (''BOUND_PROVIDER_REQUEST_FAILED:'' @ exn_text net e)) (ask (Sent req) (opener net req)))
        (\<lambda>raw. lift_result (read_response net raw))))))))"

section \<open>A token speaks for one body\<close>

lemma http_post_traces:
  "traces (post_body_bound_json net url payload limit) (\<lambda>cs r. cs = [] \<and> isl r \<or>
     (\<exists>body. canonical_json_bytes payload = Inr body \<and>
       ((\<exists>answer. cs = [Token (audience_prefix @ net_sha net body) answer] \<and> isl r) \<or>
        (\<exists>token limit' answer. token \<noteq> [] \<and> cs = [Token (audience_prefix @ net_sha net body) (Inr (PStr token)),
           Sent (bound_request net (text_of url) body token limit') answer] \<and>
          (\<forall>m. r = Inr m \<longrightarrow> (\<exists>raw. answer = Inr raw \<and> read_response net raw = Inr m))))))"
  unfolding post_body_bound_json_def Let_def
  by (intro trace_rules tr_lift) (auto simp: provider_audience_def split: pyval.splits)

text \<open>
  C37: Every request the transport sends carries exactly the canonical bytes of its payload, their digest as
  a header, and a token that was asked, right before, for an audience naming this digest; at most one
  request is sent, and a result is the JSON object of its response.
\<close>

theorem request_bound_to_body:
  assumes "post_body_bound_json net url payload limit (g, []) = (r, (g', log))"
  shows "(\<forall>req answer. Sent req answer \<in> set log \<longrightarrow> (\<exists>body token. canonical_json_bytes payload = Inr body \<and> token \<noteq> [] \<and>
      log = [Token (audience_prefix @ net_sha net body) (Inr (PStr token)), Sent req answer] \<and> hr_body req = body \<and>
      dict_get (hr_headers req) ''Authorization'' = Some (''Bearer '' @ token) \<and>
      dict_get (hr_headers req) ''X-Radar-Body-Sha256'' = Some (net_sha net body))) \<and>
    (\<forall>m. r = Inr m \<longrightarrow> (\<exists>req raw. Sent req (Inr raw) \<in> set log \<and> read_response net raw = Inr m))"
  using tracesD [OF http_post_traces assms] by (auto simp: bound_request_def isl_def)

definition sample_network :: "unit network" where
  "sample_network = \<lparr>token_provider = (\<lambda>audience g. (Inr (PStr ''tok''), g)), opener = (\<lambda>req g. (Inr ''{}'', g)),
     net_sha = (\<lambda>s. replicate 64 (CHR ''0'')), json_loads = (\<lambda>s. Some (PDict [])), exn_text = (\<lambda>e. [])\<rparr>"

lemma sample_post:
  "case post_body_bound_json sample_network (PStr ''https://p'') (PDict [(''ok'', PBool True)]) (PInt 45) ((), []) of
     (r, g, log) \<Rightarrow> r = Inr [] \<and> length log = 2"
  by code_simp

theorem request_bound_to_body_witness:
  "\<exists>r g log req answer. post_body_bound_json sample_network (PStr ''https://p'') (PDict [(''ok'', PBool True)]) (PInt 45) ((), []) = (r, (g, log)) \<and>
     Sent req answer \<in> set log \<and> hr_body req = utf8 (''{'' @ [CHR 0x22] @ ''ok'' @ [CHR 0x22] @ '':true}'')"
proof -
  obtain r g log where run: "post_body_bound_json sample_network (PStr ''https://p'') (PDict [(''ok'', PBool True)]) (PInt 45) ((), []) = (r, (g, log))"
    by (metis prod_cases3)
  have "r = Inr []"
    using sample_post unfolding run by simp
  note bound = request_bound_to_body [OF run]
  obtain req raw where sent: "Sent req (Inr raw) \<in> set log"
    using bound \<open>r = Inr []\<close> by auto
  moreover have "canonical_json_bytes (PDict [(''ok'', PBool True)]) = Inr (utf8 (''{'' @ [CHR 0x22] @ ''ok'' @ [CHR 0x22] @ '':true}''))"
    by code_simp
  ultimately have "hr_body req = utf8 (''{'' @ [CHR 0x22] @ ''ok'' @ [CHR 0x22] @ '':true}'')"
    using bound by fastforce
  then show ?thesis
    using run sent by blast
qed

end
