(* ===== verification/ControlSnapshot.thy ===== *)
theory ControlSnapshot
  imports MessageGrammar Actions
begin

text \<open>
  \<open>src/src/radar/trusted_control_snapshot.py\<close>: the two control contracts are read as blobs of the commit
  that \<open>main\<close> names and written as files. Git and the file system are an environment with a state of
  its own: what Git answers may change between two calls.
\<close>

section \<open>Calls\<close>

datatype snapshot_call =
    GitText "string list" "exn + int \<times> string"
  | GitBytes "string list" "exn + int \<times> string"
  | MakeDir string "exn + unit"
  | WriteFile string string "exn + unit"

record 'g snapshot_env =
  run_text :: "string list \<Rightarrow> 'g \<Rightarrow> (exn + int \<times> string) \<times> 'g"
  run_bytes :: "string list \<Rightarrow> 'g \<Rightarrow> (exn + int \<times> string) \<times> 'g"
  make_dir :: "string \<Rightarrow> 'g \<Rightarrow> (exn + unit) \<times> 'g"
  write_file :: "string \<Rightarrow> string \<Rightarrow> 'g \<Rightarrow> (exn + unit) \<times> 'g"

type_synonym ('g, 'a) snapshot_io = "(exn, snapshot_call, 'g, 'a) io"

definition main_ref :: string where "main_ref = ''refs/remotes/origin/main''"
definition topology_rel :: string where "topology_rel = ''architecture/contracts/RADAR_TOPOLOGY_V1.json''"
definition cutover_rel :: string where "cutover_rel = ''architecture/contracts/RADAR_WRITER_LANE_V2_CUTOVER.json''"

definition commit_sha :: "string \<Rightarrow> bool" where
  "commit_sha s \<longleftrightarrow> length s = 40 \<and> list_all is_hex_lower s"

definition snapshot_git :: "'g snapshot_env \<Rightarrow> string list \<Rightarrow> ('g, string) snapshot_io" where
  "snapshot_git env args =
    and_then (ask (GitText args) (run_text env args)) (\<lambda>(code, out).
    require (code = 0) (ControlSnapshotError ''GIT_CONTROL_SNAPSHOT_FAILED'') (give (strip out)))"

definition snapshot_bytes :: "'g snapshot_env \<Rightarrow> string list \<Rightarrow> ('g, string) snapshot_io" where
  "snapshot_bytes env args =
    and_then (ask (GitBytes args) (run_bytes env args)) (\<lambda>(code, out).
    require (code = 0) (ControlSnapshotError ''CURRENT_CONTROL_CONTRACT_MISSING'') (give out))"

text \<open>\<open>except ControlSnapshotError\<close>: any other exception passes.\<close>

definition recoded :: "string \<Rightarrow> exn \<Rightarrow> exn" where
  "recoded code e = (case e of ControlSnapshotError c \<Rightarrow> ControlSnapshotError code | _ \<Rightarrow> e)"

definition resolve_blob :: "'g snapshot_env \<Rightarrow> string \<Rightarrow> string \<Rightarrow> ('g, string) snapshot_io" where
  "resolve_blob env commit relative =
    and_then (raising (recoded ''CURRENT_CONTROL_CONTRACT_MISSING'') (snapshot_git env [''rev-parse'', commit @ '':'' @ relative])) (\<lambda>blob.
    require (commit_sha blob) (ControlSnapshotError ''CURRENT_CONTROL_BLOB_INVALID'') (give blob))"

record contract_snapshot =
  cs_main_head :: string
  cs_topology_blob :: string
  cs_cutover_blob :: string
  cs_topology_path :: string
  cs_cutover_path :: string

text \<open>\<open>output\<close> is the resolved directory.\<close>

definition materialize_snapshot :: "'g snapshot_env \<Rightarrow> string \<Rightarrow> ('g, contract_snapshot) snapshot_io" where
  "materialize_snapshot env output =
    and_then (raising (recoded ''CURRENT_MAIN_REF_MISSING'') (snapshot_git env [''rev-parse'', ''--verify'', main_ref @ ''^{commit}''])) (\<lambda>main_head.
    require (commit_sha main_head) (ControlSnapshotError ''CURRENT_MAIN_SHA_INVALID'')
    (and_then (resolve_blob env main_head topology_rel) (\<lambda>topology_blob.
     and_then (resolve_blob env main_head cutover_rel) (\<lambda>cutover_blob.
     and_then (snapshot_bytes env [''show'', main_head @ '':'' @ topology_rel]) (\<lambda>topology_bytes.
     and_then (snapshot_bytes env [''show'', main_head @ '':'' @ cutover_rel]) (\<lambda>cutover_bytes.
     let topology_path = output @ ''/RADAR_TOPOLOGY_V1.json''; cutover_path = output @ ''/RADAR_WRITER_LANE_V2_CUTOVER.json'' in
     and_then (ask (MakeDir output) (make_dir env output)) (\<lambda>_.
     and_then (ask (WriteFile topology_path topology_bytes) (write_file env topology_path topology_bytes)) (\<lambda>_.
     and_then (ask (WriteFile cutover_path cutover_bytes) (write_file env cutover_path cutover_bytes)) (\<lambda>_.
     give \<lparr>cs_main_head = main_head, cs_topology_blob = topology_blob, cs_cutover_blob = cutover_blob,
       cs_topology_path = topology_path, cs_cutover_path = cutover_path\<rparr>)))))))))"

section \<open>One commit\<close>

lemma snapshot_git_traces:
  "traces (snapshot_git env args) (\<lambda>cs r. \<exists>a. cs = [GitText args a] \<and> (\<forall>s. r = Inr s \<longrightarrow> (\<exists>out. a = Inr (0, out) \<and> s = strip out)))"
  unfolding snapshot_git_def by (auto intro!: trace_rules simp: case_prod_beta)

lemma snapshot_bytes_traces:
  "traces (snapshot_bytes env args) (\<lambda>cs r. \<exists>a. cs = [GitBytes args a] \<and> (\<forall>s. r = Inr s \<longrightarrow> a = Inr (0, s)))"
  unfolding snapshot_bytes_def by (auto intro!: trace_rules simp: case_prod_beta)

lemma recoded_git_traces:
  "traces (raising h (snapshot_git env args))
     (\<lambda>cs r. \<exists>a. cs = [GitText args a] \<and> (\<forall>s. r = Inr s \<longrightarrow> (\<exists>out. a = Inr (0, out) \<and> s = strip out)))"
  by (rule tr_raising, rule tr_weaken [OF snapshot_git_traces]) (auto split: sum.splits)

lemma resolve_blob_traces:
  "traces (resolve_blob env commit rel)
     (\<lambda>cs r. \<exists>a. cs = [GitText [''rev-parse'', commit @ '':'' @ rel] a] \<and> (\<forall>b. r = Inr b \<longrightarrow> commit_sha b \<and> (\<exists>out. a = Inr (0, out) \<and> b = strip out)))"
  unfolding resolve_blob_def by (rule tr_then [OF recoded_git_traces]) (auto intro!: trace_rules)

definition topology_file :: "string \<Rightarrow> string" where "topology_file output = output @ ''/RADAR_TOPOLOGY_V1.json''"
definition cutover_file :: "string \<Rightarrow> string" where "cutover_file output = output @ ''/RADAR_WRITER_LANE_V2_CUTOVER.json''"

fun is_read :: "snapshot_call \<Rightarrow> bool" where
  "is_read (GitText args a) = True"
| "is_read (GitBytes args a) = True"
| "is_read (MakeDir d a) = False"
| "is_read (WriteFile path content a) = False"

text \<open>The five reads, all at the commit the first one names, with the bytes of the two contracts.\<close>

definition one_commit :: "snapshot_call list \<Rightarrow> string \<Rightarrow> string \<Rightarrow> string \<Rightarrow> string \<Rightarrow> string \<Rightarrow> bool" where
  "one_commit cs m tb cb T C \<longleftrightarrow> commit_sha m \<and> commit_sha tb \<and> commit_sha cb \<and> (\<exists>mo to co. m = strip mo \<and> tb = strip to \<and> cb = strip co \<and>
     cs = [GitText [''rev-parse'', ''--verify'', main_ref @ ''^{commit}''] (Inr (0, mo)),
       GitText [''rev-parse'', m @ '':'' @ topology_rel] (Inr (0, to)), GitText [''rev-parse'', m @ '':'' @ cutover_rel] (Inr (0, co)),
       GitBytes [''show'', m @ '':'' @ topology_rel] (Inr (0, T)), GitBytes [''show'', m @ '':'' @ cutover_rel] (Inr (0, C))])"

text \<open>What is written after the reads: the directory, the topology, the cutover, up to the first failure.\<close>

definition effects :: "string \<Rightarrow> string \<Rightarrow> string \<Rightarrow> string \<Rightarrow> string \<Rightarrow> string \<Rightarrow> snapshot_call list \<Rightarrow> exn + contract_snapshot \<Rightarrow> bool" where
  "effects output m tb cb T C rest r \<longleftrightarrow>
    (\<exists>a. rest = [MakeDir output a]) \<and> isl r \<or> (\<exists>a b. rest = [MakeDir output a, WriteFile (topology_file output) T b]) \<and> isl r \<or>
    (\<exists>a b c. rest = [MakeDir output a, WriteFile (topology_file output) T b, WriteFile (cutover_file output) C c] \<and>
       (\<forall>s. r = Inr s \<longrightarrow> a = Inr () \<and> b = Inr () \<and> c = Inr () \<and> cs_main_head s = m \<and> cs_topology_blob s = tb \<and> cs_cutover_blob s = cb))"

definition snapshot_run :: "string \<Rightarrow> snapshot_call list \<Rightarrow> exn + contract_snapshot \<Rightarrow> bool" where
  "snapshot_run output cs r \<longleftrightarrow> list_all is_read cs \<and> isl r \<or>
    (\<exists>reads m tb cb T C rest. one_commit reads m tb cb T C \<and> cs = reads @ rest \<and> effects output m tb cb T C rest r)"

lemma effects_traces:
  "traces (and_then (ask (MakeDir output) (make_dir env output)) (\<lambda>_.
     and_then (ask (WriteFile (topology_file output) T) (write_file env (topology_file output) T)) (\<lambda>_.
     and_then (ask (WriteFile (cutover_file output) C) (write_file env (cutover_file output) C)) (\<lambda>_.
     give \<lparr>cs_main_head = m, cs_topology_blob = tb, cs_cutover_blob = cb, cs_topology_path = tp, cs_cutover_path = cp\<rparr>))))
   (effects output m tb cb T C)"
  by (intro trace_rules) (auto simp: effects_def)

lemma snapshot_written:
  "one_commit reads m tb cb T C \<Longrightarrow> effects output m tb cb T C rest r \<Longrightarrow> snapshot_run output (reads @ rest) r"
  unfolding snapshot_run_def by blast

lemma snapshot_failed: "list_all is_read cs \<Longrightarrow> snapshot_run output cs (Inl e)"
  by (simp add: snapshot_run_def)

lemma materialize_traces: "traces (materialize_snapshot env output) (snapshot_run output)"
  unfolding materialize_snapshot_def Let_def topology_file_def [symmetric] cutover_file_def [symmetric]
proof (rule tr_then [OF recoded_git_traces], goal_cases)
  case (2 cs1 m)
  then obtain mo where m: "cs1 = [GitText [''rev-parse'', ''--verify'', main_ref @ ''^{commit}''] (Inr (0, mo))]" "m = strip mo"
    by auto
  show ?case
  proof (rule tr_require, rule tr_then [OF resolve_blob_traces], goal_cases)
    case (2 cs2 tb)
    note sha = 2(1)
    obtain to where tb: "cs2 = [GitText [''rev-parse'', m @ '':'' @ topology_rel] (Inr (0, to))]" "tb = strip to" "commit_sha tb"
      using 2(2) by auto
    show ?case
    proof (rule tr_then [OF resolve_blob_traces], goal_cases)
      case (2 cs3 cb)
      then obtain co where cb: "cs3 = [GitText [''rev-parse'', m @ '':'' @ cutover_rel] (Inr (0, co))]" "cb = strip co" "commit_sha cb"
        by auto
      show ?case
      proof (rule tr_then [OF snapshot_bytes_traces], goal_cases)
        case (2 cs4 T)
        then have T: "cs4 = [GitBytes [''show'', m @ '':'' @ topology_rel] (Inr (0, T))]"
          by auto
        show ?case
        proof (rule tr_then [OF snapshot_bytes_traces], goal_cases)
          case (2 cs5 C)
          then have "one_commit (cs1 @ cs2 @ cs3 @ cs4 @ cs5) m tb cb T C"
            using m tb cb T sha by (auto simp: one_commit_def)
          then show ?case
            by (intro tr_weaken [OF effects_traces]) (auto dest: snapshot_written)
        qed (use m tb cb T in \<open>auto intro!: snapshot_failed\<close>)
      qed (use m tb cb in \<open>auto intro!: snapshot_failed\<close>)
    qed (use m tb in \<open>auto intro!: snapshot_failed\<close>)
  qed (use m in \<open>auto intro!: snapshot_failed\<close>)
qed (auto intro!: snapshot_failed)

text \<open>
  C36: Whatever changes in Git meanwhile, each contract file that is written holds the bytes Git showed of
  that contract at the one commit \<open>main\<close> named, and nothing is written before both contracts were read;
  a snapshot is returned only after both files were written, with this commit and the blobs it named.
\<close>

theorem snapshot_of_one_commit:
  assumes "materialize_snapshot env output (g, []) = (r, (g', log))"
  shows "(list_all is_read log \<and> isl r) \<or>
    (\<exists>reads m tb cb T C rest. one_commit reads m tb cb T C \<and> log = reads @ rest \<and>
      (\<forall>path content a. WriteFile path content a \<in> set rest \<longrightarrow>
         (path, content) \<in> {(topology_file output, T), (cutover_file output, C)}) \<and>
      (\<forall>s. r = Inr s \<longrightarrow> cs_main_head s = m \<and> cs_topology_blob s = tb \<and> cs_cutover_blob s = cb \<and>
         WriteFile (topology_file output) T (Inr ()) \<in> set rest \<and> WriteFile (cutover_file output) C (Inr ()) \<in> set rest))"
proof -
  have "snapshot_run output log r"
    using tracesD [OF materialize_traces assms] by simp
  then show ?thesis
    unfolding snapshot_run_def
  proof (elim disjE exE conjE, goal_cases)
    case (2 reads m tb cb T C rest)
    from 2(3) have "(\<forall>path content a. WriteFile path content a \<in> set rest \<longrightarrow> (path, content) \<in> {(topology_file output, T), (cutover_file output, C)}) \<and>
      (\<forall>s. r = Inr s \<longrightarrow> cs_main_head s = m \<and> cs_topology_blob s = tb \<and> cs_cutover_blob s = cb \<and>
         WriteFile (topology_file output) T (Inr ()) \<in> set rest \<and> WriteFile (cutover_file output) C (Inr ()) \<in> set rest)"
      unfolding effects_def by auto
    then show ?case
      using 2(1,2) by blast
  qed simp
qed

definition sample_snapshot_env :: "unit snapshot_env" where
  "sample_snapshot_env = \<lparr>run_text = (\<lambda>args g. (Inr (0, replicate 40 (CHR ''a'')), g)), run_bytes = (\<lambda>args g. (Inr (0, ''{}''), g)),
     make_dir = (\<lambda>d g. (Inr (), g)), write_file = (\<lambda>path content g. (Inr (), g))\<rparr>"

lemma sample_snapshot: "case materialize_snapshot sample_snapshot_env ''out'' ((), []) of (r, g, log) \<Rightarrow> \<not> isl r \<and> length log = 8"
  by code_simp

theorem snapshot_of_one_commit_witness:
  "\<exists>s g log C. materialize_snapshot sample_snapshot_env ''out'' ((), []) = (Inr s, (g, log)) \<and> commit_sha (cs_main_head s) \<and>
     WriteFile (cutover_file ''out'') C (Inr ()) \<in> set log"
proof -
  obtain r g log where run: "materialize_snapshot sample_snapshot_env ''out'' ((), []) = (r, (g, log))"
    by (metis prod_cases3)
  then obtain s where s: "r = Inr s"
    using sample_snapshot by (cases r) auto
  from snapshot_of_one_commit [OF run] show ?thesis
    unfolding run s by (force simp: one_commit_def)
qed

end
