(* ===== verification/Spec2Isabelle.thy ===== *)
theory Spec2Isabelle
  imports Prelude PyText Json Envelope Registry Routing Telemetry Heartbeat Dlq Runtime
    Journal Workflow Ledger Patterns Endpoints ClaimStore SlackRelay WorkstationStore WorkstationRelay
    MessageGrammar WriterLanes Actions SafeAppend AppendGuard TrustedTargets CentralProjection ProjectionRuns
    ProviderCommands BusProjection VisualIdentity Audits ShadowReader BodyBound ControlSnapshot
begin

text \<open>
  CCB Base is the substrate of a group of AI collaborators that work over Git branches and chat
  transports. Its Python core under \<open>src/src\<close> has two packages: \<open>radar\<close> (admission, identity,
  routing, telemetry, dead letters, projection journal, workflow rules, workstation relay, writer
  lanes) and \<open>chat_bus\<close> (the assignment ledger, logical endpoints, the Slack relay). This
  development models them component by component; every theory names the file it translates.

  \<^bold>\<open>Shared vocabulary.\<close> \<open>Prelude\<close> holds the exceptions (datatype \<open>exn\<close>, one constructor per exception
  class, carrying the code's message), the sum-type sequencing \<open>bindE\<close> and \<open>requireE\<close>, insertion-ordered
  dictionaries, and the locales \<open>component\<close> and \<open>progressing_component\<close>: a state, its calls, the
  invariant every call keeps and the relation every call moves along. \<open>PyText\<close> has Python's text
  operations on code points below 256, \<open>Json\<close> dynamically typed values and \<open>json.dumps\<close> with sorted
  keys, \<open>Patterns\<close> the regular expressions as functions, \<open>ClaimStore\<close> the contract of a store in which
  a request is claimed under a key. \<open>Actions\<close> holds the actions of code that asks its environment: state
  passing with errors and a record of every call, and the calculus of their traces.

  \<^bold>\<open>The radar runtime.\<close> \<open>Envelope\<close> (\<open>radar/envelope.py\<close>, \<open>radar/model.py\<close>) is the classifier of incoming messages
  and the envelope; \<open>Registry\<close> (\<open>radar/registry.py\<close>) identities, aliases, nodes with leases,
  subscriptions; \<open>Routing\<close> (\<open>radar/routing.py\<close>) the router, the bounded priority queue with eviction and
  the duplicate window; \<open>Telemetry\<close> and \<open>Heartbeat\<close> (\<open>radar/telemetry.py\<close>, \<open>radar/heartbeat.py\<close>) the counters,
  the heartbeat table and its scheduler; \<open>Dlq\<close> (\<open>radar/dlq.py\<close>) the dead letters; \<open>Runtime\<close>
  (\<open>radar/runtime.py\<close>) joins them: admit and dispatch over the whole state. Its theorems span the
  components: every admission is accounted for, duplicates are dropped, urgent messages leave at
  once, malformed ones only leave evidence.

  \<^bold>\<open>Durable control state.\<close> \<open>Journal\<close> (\<open>radar/reconciliation_journal.py\<close>) shows that the projection journal is a
  compare-and-swap register per lane with exclusive leases and fencing. \<open>Workflow\<close>
  (\<open>radar/workflow.py\<close>) shows the dependency graph acyclic and its cycle check exact. \<open>Ledger\<close>
  (\<open>chat_bus/ledger.py\<close>, \<open>digests.py\<close> and the tables and triggers of \<open>schema.sql\<close>) shows the assignment
  rows to be the replay of their event log, and transitions to be pushes and pops of suspended
  states.

  \<^bold>\<open>Transports.\<close> \<open>Endpoints\<close> (\<open>chat_bus/identity.py\<close>) is the unambiguous address registry; \<open>SlackRelay\<close>
  (\<open>chat_bus/slack_relay.py\<close>) the addressing of inbound text and the delivery claims; \<open>WorkstationStore\<close>
  and \<open>WorkstationRelay\<close> (\<open>radar/workstation_relay_state.py\<close>, \<open>workstation_target.py\<close>,
  \<open>workstation_relay.py\<close>) the relay that types a message into another chat: a message is submitted at
  most once over all runs, only to a verified target, and an acknowledgement counts for one
  message only.

  \<^bold>\<open>The message bus on Git.\<close> \<open>MessageGrammar\<close> (\<open>radar/message_grammar.py\<close>) splits a message into headers and body
  and shows that a body is never read as headers. \<open>WriterLanes\<close> (\<open>radar/writer_lanes.py\<close>) is the guard of the
  writer branches: what it accepts is characterised exactly, and over a whole push no message id is
  used twice, under a hypothesis on what Git lists; the same theory shows what happens for paths
  Git quotes. \<open>SafeAppend\<close> (\<open>radar/safe_lane_append.py\<close>, \<open>radar/branch_bound_append.py\<close>) is the append of one message
  to a writer's branch: its control, history and Git sources are an environment with a state of its
  own, so their answers may change between two calls, and every call is recorded. The theorems speak
  of that record: which calls precede the one that moves the branch, what an error says of the effect,
  what was read back before a receipt. \<open>AppendGuard\<close> joins both sides: the two header parsers agree, and
  what the append writes the guard accepts.

  \<^bold>\<open>Central projection.\<close> \<open>TrustedTargets\<close> (\<open>radar/trusted_reconciler.py\<close>, \<open>trusted_lane_validation.py\<close>,
  \<open>trusted_wakeup.py\<close>) decides which lanes a run is about and what is new on each: targets follow Git's
  ancestry, and the validation of new commits is that of the guard. \<open>CentralProjection\<close>
  (\<open>radar/central_projection.py\<close>, \<open>scripts/radar_trusted_project.py\<close>) collects the files of these commits, cuts
  them into batches and talks to the provider, which is an environment with a state of its own.
  \<open>ProjectionRuns\<close> shows for every provider what a run asks of it: nothing is written but validated
  commits of active lanes, a batch is finalized only after all its files were accepted, and a run
  that succeeds has completed every requested lane. \<open>BodyBound\<close> (\<open>radar/body_bound_oidc.py\<close>) is the transport of
  these requests, whose token speaks for one body; \<open>ControlSnapshot\<close> (\<open>radar/trusted_control_snapshot.py\<close>)
  reads the contracts of a run at one commit, whatever changes in Git meanwhile.

  \<^bold>\<open>Projections and audits.\<close> \<open>ProviderCommands\<close> (\<open>radar/supabase_projection.py\<close>) builds parameterised commands
  and accepts the subscriptions the registry accepts; \<open>BusProjection\<close> (\<open>radar/bus_message_projection.py\<close>,
  \<open>github_projection.py\<close>) projects every message the guard accepts and finds the lanes of a repository;
  \<open>VisualIdentity\<close> (\<open>radar/visual_identity.py\<close>, \<open>visual_projection.py\<close>) validates profiles and builds their
  commands; \<open>Audits\<close> (\<open>radar/maintenance.py\<close>, \<open>reconcile.py\<close>, \<open>operator.py\<close>) shows when the audit and the
  comparison are silent; \<open>ShadowReader\<close> (\<open>radar/sql_connectome_shadow.py\<close>) what a match of an identity
  projection means.

  \<^bold>\<open>How states and operations correspond.\<close> A Python object with attributes is a record of the same fields, a
  method is a function from the state to a result with a new state; a method that raises before it
  writes has type \<open>exn + 'a \<times> 's\<close>, one that may raise after writing \<open>(exn + 'a) \<times> 's\<close>. A SQLite table is a list or
  dictionary of rows, a transaction that fails leaves the state as it was. A re-entrant lock
  around a method makes it one transition. Loops that run until a condition of their environment
  (the heartbeat scheduler, the read-back poll) get the answers of the environment as arguments;
  the poll is a partial function and its termination a theorem.

  \<^bold>\<open>Parameters.\<close> SHA-256, random identifiers, wall clocks, JSON numbers beyond integers, \<open>repr\<close> of
  containers, and what Git, the window system and the network answer are arguments of the
  definitions; where a theorem needs a property of one (digests are hexadecimal, identifiers do
  not repeat) it is a named hypothesis with an instance.

  \<^bold>\<open>Bounds.\<close> Text is limited to code points below 256 (the micro sign's case folding excepted) and database
  integers are unbounded; connection handling, logging and concurrency inside one locked method
  are not modelled.

  \<^bold>\<open>Not modelled.\<close> The acquisition of the OIDC token (\<open>radar/github_actions_oidc.py\<close>) and the opener of the
  transport are HTTP; the Firefox target (\<open>radar/windows_firefox_target.py\<close>) drives Windows UI automation,
  whose answers the relay theories quantify over; the Supabase functions and migrations are TypeScript and
  SQL, for which \<open>Journal\<close> is the Python reference; the scripts' \<open>main\<close> functions parse arguments and print.
  The manifest lists every part with its status.
\<close>

end
